(* ===== verification/Prelude.thy ===== *)
theory Prelude
  imports Complex_Main
begin

text \<open>
  What the component theories share: the outcome type of C++ operations that
  may throw or have no defined behaviour, vector access with its bounds made
  explicit, the first-match loops the containers are written with, integer
  rendering (\<^verbatim>\<open>std::to_string\<close>), truncating division, and the generic lemmas
  on them.

  Conventions of the whole development.  A C++ \<^verbatim>\<open>int\<close> is an \<^typ>\<open>int\<close>.  Signed
  overflow has no defined behaviour in C++: where the program can drive a value out of
  the range of its type, the operation is written with \<open>cpp_add\<close> and \<open>cpp_sub\<close>, which
  give \<open>Int_Overflow\<close> (the number of BE steps wraps instead, and a predicate marks it); where a value only approaches the limits, a
  lemma states that it stays within \<open>INT_MAX\<close>.  A \<^verbatim>\<open>double\<close> is a
  \<^typ>\<open>real\<close>: the rounding of IEEE arithmetic is not modelled.  An actor handle
  (\<^verbatim>\<open>caf::actor\<close>) is a number.  Console output is not modelled.
\<close>

named_theorems vec_simps \<open>reads and updates of vectors\<close>
named_theorems loop_simps \<open>first-match loops\<close>
named_theorems res_simps \<open>outcomes\<close>

subsection \<open>Outcomes\<close>

datatype cpp_error =
    Bad_Optional_Access    \<comment> \<open>\<^verbatim>\<open>std::optional::value\<close> on an empty optional\<close>
  | Out_Of_Range           \<comment> \<open>\<^verbatim>\<open>operator[]\<close> outside a vector: undefined behaviour\<close>
  | Division_By_Zero
  | Int_Overflow           \<comment> \<open>signed overflow: undefined behaviour\<close>
  | Null_Pointer           \<comment> \<open>dereference of an empty smart pointer\<close>
  | Thrown string

type_synonym 'a res = "cpp_error + 'a"

definition res_bind :: "'a res \<Rightarrow> ('a \<Rightarrow> 'b res) \<Rightarrow> 'b res" where
  "res_bind r f = (case r of Inl e \<Rightarrow> Inl e | Inr x \<Rightarrow> f x)"

lemma res_bind_simps [simp, res_simps]:
  "res_bind (Inl e) f = Inl e"
  "res_bind (Inr x) f = f x"
  by (simp_all add: res_bind_def)

lemma res_bind_Inr_iff [res_simps]:
  "res_bind r f = Inr y \<longleftrightarrow> (\<exists>x. r = Inr x \<and> f x = Inr y)"
  by (cases r) auto

lemma res_bind_assoc: "res_bind (res_bind r f) g = res_bind r (\<lambda>x. res_bind (f x) g)"
  by (cases r) auto

text \<open>\<^verbatim>\<open>std::optional::value()\<close>.\<close>

definition opt_value :: "'a option \<Rightarrow> 'a res" where
  "opt_value x = (case x of None \<Rightarrow> Inl Bad_Optional_Access | Some v \<Rightarrow> Inr v)"

lemma opt_value_simps [simp, res_simps]:
  "opt_value None = Inl Bad_Optional_Access"
  "opt_value (Some v) = Inr v"
  by (simp_all add: opt_value_def)

definition value_or :: "'a option \<Rightarrow> 'a \<Rightarrow> 'a" where
  "value_or x d = (case x of None \<Rightarrow> d | Some v \<Rightarrow> v)"

lemma value_or_simps [simp]: "value_or None d = d" "value_or (Some v) d = v"
  by (simp_all add: value_or_def)

subsection \<open>Vectors\<close>

definition vec_at :: "'a list \<Rightarrow> int \<Rightarrow> 'a res" where
  "vec_at xs i = (if 0 \<le> i \<and> i < int (length xs) then Inr (xs ! nat i) else Inl Out_Of_Range)"

definition vec_upd :: "'a list \<Rightarrow> int \<Rightarrow> ('a \<Rightarrow> 'a) \<Rightarrow> 'a list res" where
  "vec_upd xs i f =
     (if 0 \<le> i \<and> i < int (length xs) then Inr (xs[nat i := f (xs ! nat i)]) else Inl Out_Of_Range)"

lemma vec_at_nat [simp, vec_simps]:
  "k < length xs \<Longrightarrow> vec_at xs (int k) = Inr (xs ! k)"
  by (simp add: vec_at_def)

lemma vec_upd_nat [simp, vec_simps]:
  "k < length xs \<Longrightarrow> vec_upd xs (int k) f = Inr (xs[k := f (xs ! k)])"
  by (simp add: vec_upd_def)

lemma vec_at_Inr_iff [vec_simps]:
  "vec_at xs i = Inr x \<longleftrightarrow> (\<exists>k < length xs. i = int k \<and> x = xs ! k)"
  by (auto simp: vec_at_def intro!: exI [of _ "nat i"])

lemma vec_upd_Inr_iff [vec_simps]:
  "vec_upd xs i f = Inr ys \<longleftrightarrow> (\<exists>k < length xs. i = int k \<and> ys = xs[k := f (xs ! k)])"
  by (auto simp: vec_upd_def intro!: exI [of _ "nat i"])

lemma vec_upd_append_last [simp]:
  "vec_upd (xs @ [x]) (int (length xs)) f = Inr (xs @ [f x])"
  by (simp add: vec_upd_def)

text \<open>\<^verbatim>\<open>std::vector::resize\<close>; a negative size converts to a huge one and throws.\<close>

definition vec_resize :: "int \<Rightarrow> 'a \<Rightarrow> 'a list \<Rightarrow> 'a list res" where
  "vec_resize n d xs =
     (if n < 0 then Inl (Thrown ''length_error'')
      else Inr (take (nat n) xs @ replicate (nat n - length xs) d))"

subsection \<open>Loops that stop at the first match\<close>

text \<open>\<^verbatim>\<open>for (auto& x : xs) if (P(x)) { x = f(x); break; }\<close>\<close>

fun upd_first :: "('a \<Rightarrow> bool) \<Rightarrow> ('a \<Rightarrow> 'a) \<Rightarrow> 'a list \<Rightarrow> 'a list" where
  "upd_first P f [] = []"
| "upd_first P f (x # xs) = (if P x then f x # xs else x # upd_first P f xs)"

text \<open>\<^verbatim>\<open>for (it = begin; it != end; ++it) if (P(*it)) { erase(it); break; }\<close>\<close>

fun erase_first :: "('a \<Rightarrow> bool) \<Rightarrow> 'a list \<Rightarrow> 'a list" where
  "erase_first P [] = []"
| "erase_first P (x # xs) = (if P x then xs else x # erase_first P xs)"

lemma length_upd_first [simp, loop_simps]: "length (upd_first P f xs) = length xs"
  by (induction xs) auto

lemma upd_first_none [simp, loop_simps]: "\<forall>x\<in>set xs. \<not> P x \<Longrightarrow> upd_first P f xs = xs"
  by (induction xs) auto

lemma erase_first_none [simp, loop_simps]: "\<forall>x\<in>set xs. \<not> P x \<Longrightarrow> erase_first P xs = xs"
  by (induction xs) auto

lemma map_upd_first [loop_simps]:
  "(\<And>x. g (f x) = g x) \<Longrightarrow> map g (upd_first P f xs) = map g xs"
  by (induction xs) auto

lemma set_erase_first_subset: "set (erase_first P xs) \<subseteq> set xs"
  by (induction xs) auto

lemma set_upd_first_subset: "set (upd_first P f xs) \<subseteq> set xs \<union> f ` set xs"
  by (induction xs) auto

lemma distinct_map_erase_first: "distinct (map g xs) \<Longrightarrow> distinct (map g (erase_first P xs))"
proof (induction xs)
  case (Cons x xs)
  then show ?case using set_erase_first_subset [of P xs] by auto
qed simp

lemma set_erase_first_key:
  assumes "distinct (map g xs)" and "\<And>x. P x \<longleftrightarrow> g x = k"
  shows "set (erase_first P xs) = {x \<in> set xs. g x \<noteq> k}"
proof -
  from assms(2) have "P = (\<lambda>x. g x = k)" by auto
  with assms(1) show ?thesis by (induction xs) (auto, metis image_eqI)
qed

lemma set_upd_first_key:
  assumes "distinct (map g xs)" and "\<And>x. P x \<longleftrightarrow> g x = k"
  shows "set (upd_first P f xs) = {x \<in> set xs. g x \<noteq> k} \<union> f ` {x \<in> set xs. g x = k}"
proof -
  from assms(2) have "P = (\<lambda>x. g x = k)" by auto
  with assms(1) show ?thesis
  proof (induction xs)
    case (Cons x xs)
    show ?case
    proof (cases "g x = k")
      case True
      with Cons.prems have "\<forall>y\<in>set xs. g y \<noteq> k" by (auto, metis image_eqI)
      then have "{y \<in> set xs. g y = k} = {}" and "{y \<in> set xs. g y \<noteq> k} = set xs" by auto
      with True Cons.prems show ?thesis by auto
    next
      case False
      with Cons show ?thesis by auto
    qed
  qed simp
qed

lemma find_Some_in [loop_simps]: "find P xs = Some x \<Longrightarrow> x \<in> set xs \<and> P x"
  by (induction xs) (auto split: if_splits)

lemma find_key_iff:
  assumes "distinct (map g xs)" and "\<And>x. P x \<longleftrightarrow> g x = k"
  shows "find P xs = Some x \<longleftrightarrow> x \<in> set xs \<and> g x = k"
proof -
  from assms(2) have "P = (\<lambda>x. g x = k)" by auto
  with assms(1) show ?thesis by (induction xs) (auto simp: image_iff)
qed

lemma upd_first_nth:
  assumes "k < length xs" and "P (xs ! k)" and "\<And>j. j < k \<Longrightarrow> \<not> P (xs ! j)"
  shows "upd_first P f xs = xs[k := f (xs ! k)]"
  using assms
proof (induction xs arbitrary: k)
  case (Cons x xs)
  show ?case
  proof (cases k)
    case 0
    with Cons.prems show ?thesis by simp
  next
    case (Suc m)
    with Cons.prems(3) [of 0] have "\<not> P x" by simp
    moreover have "upd_first P f xs = xs[m := f (xs ! m)]"
      using Cons.prems Suc Cons.prems(3) [of "Suc _"] by (intro Cons.IH) auto
    ultimately show ?thesis using Suc by simp
  qed
qed simp

subsection \<open>Counting\<close>

definition count_if :: "('a \<Rightarrow> bool) \<Rightarrow> 'a list \<Rightarrow> nat" where
  "count_if P xs = length (filter P xs)"

lemma count_if_simps [simp]:
  "count_if P [] = 0"
  "count_if P (x # xs) = (if P x then Suc (count_if P xs) else count_if P xs)"
  "count_if P (xs @ ys) = count_if P xs + count_if P ys"
  by (simp_all add: count_if_def)

lemma count_if_le_length: "count_if P xs \<le> length xs"
  by (simp add: count_if_def)

lemma count_if_zero_iff: "count_if P xs = 0 \<longleftrightarrow> (\<forall>x\<in>set xs. \<not> P x)"
  by (simp add: count_if_def filter_empty_conv)

lemma count_if_all_iff: "count_if P xs = length xs \<longleftrightarrow> (\<forall>x\<in>set xs. P x)"
proof (induction xs)
  case (Cons x xs)
  then show ?case using count_if_le_length [of P xs] by auto
qed simp

lemma count_if_update:
  assumes "k < length xs"
  shows "int (count_if P (xs[k := y])) =
         int (count_if P xs) - (if P (xs ! k) then 1 else 0) + (if P y then 1 else 0)"
  using assms
proof (induction xs arbitrary: k)
  case (Cons x xs)
  show ?case
  proof (cases k)
    case 0
    then show ?thesis by simp
  next
    case (Suc m)
    with Cons.prems Cons.IH [of m] show ?thesis by (auto split: if_splits)
  qed
qed simp

lemma count_if_compl: "count_if P xs + count_if (\<lambda>x. \<not> P x) xs = length xs"
  by (induction xs) auto

subsection \<open>Integers\<close>

lemma upto_map_int: "[0 .. int n - 1] = map int [0 ..< n]"
proof (induction n)
  case (Suc n)
  have "[0 .. int (Suc n) - 1] = [0 .. int n - 1] @ [int n]" using upto_rec2 [of 0 "int n"] by simp
  with Suc show ?case by simp
qed simp

lemma upto_append: "i \<le> j + 1 \<Longrightarrow> j \<le> k \<Longrightarrow> [i..j] @ [j + 1..k] = [i..k :: int]"
proof (induction i j rule: upto.induct)
  case (1 i j)
  show ?case
  proof (cases "i \<le> j")
    case True
    with 1 have "[i + 1..j] @ [j + 1..k] = [i + 1..k]" by simp
    with True 1 show ?thesis by (simp add: upto.simps [of i j] upto.simps [of i k])
  next
    case False
    with 1 have "i = j + 1" by simp
    then show ?thesis by simp
  qed
qed

lemma upto_shift: "[i + 1 .. j + 1] = map ((+) 1) [i .. (j :: int)]"
proof (induction i j rule: upto.induct)
  case (1 i j)
  then show ?case by (cases "i \<le> j") (simp_all add: upto.simps [of i j] upto.simps [of "i + 1" "j + 1"])
qed

lemma upto_shift_by: "[c + i .. c + j] = map ((+) c) [i .. (j :: int)]"
proof (induction i j rule: upto.induct)
  case (1 i j)
  then show ?case by (cases "i \<le> j") (simp_all add: upto.simps [of i j] upto.simps [of "c + i" "c + j"] add.assoc)
qed

lemma int_interval_remove_first: "{a ..< n} - {a} = {a + 1 ..< (n :: int)}"
  by auto

definition INT_MAX :: int where "INT_MAX = 2147483647"

definition INT_MIN :: int where "INT_MIN = - 2147483648"

definition in_int :: "int \<Rightarrow> bool" where
  "in_int i \<longleftrightarrow> INT_MIN \<le> i \<and> i \<le> INT_MAX"

text \<open>Sums and differences of \<^verbatim>\<open>int\<close>s.\<close>

definition cpp_add :: "int \<Rightarrow> int \<Rightarrow> int res" where
  "cpp_add a b = (if in_int (a + b) then Inr (a + b) else Inl Int_Overflow)"

definition cpp_sub :: "int \<Rightarrow> int \<Rightarrow> int res" where
  "cpp_sub a b = (if in_int (a - b) then Inr (a - b) else Inl Int_Overflow)"

lemma cpp_add_in [simp]: "in_int (a + b) \<Longrightarrow> cpp_add a b = Inr (a + b)"
  by (simp add: cpp_add_def)

lemma cpp_sub_in [simp]: "in_int (a - b) \<Longrightarrow> cpp_sub a b = Inr (a - b)"
  by (simp add: cpp_sub_def)

lemma INT_bounds: "0 < INT_MAX" "INT_MIN < 0"
  by (simp_all add: INT_MAX_def INT_MIN_def)

text \<open>C++ integer division and remainder truncate towards zero; a zero
  divisor has no defined behaviour.\<close>

definition cpp_div :: "int \<Rightarrow> int \<Rightarrow> int res" where
  "cpp_div a b = (if b = 0 then Inl Division_By_Zero
                  else Inr (sgn a * sgn b * (\<bar>a\<bar> div \<bar>b\<bar>)))"

definition cpp_mod :: "int \<Rightarrow> int \<Rightarrow> int res" where
  "cpp_mod a b = (if b = 0 then Inl Division_By_Zero
                  else Inr (a - b * (sgn a * sgn b * (\<bar>a\<bar> div \<bar>b\<bar>))))"

lemma cpp_div_pos: "0 \<le> a \<Longrightarrow> 0 < b \<Longrightarrow> cpp_div a b = Inr (a div b)"
  by (cases "a = 0") (simp_all add: cpp_div_def)

lemma cpp_mod_pos: "0 \<le> a \<Longrightarrow> 0 < b \<Longrightarrow> cpp_mod a b = Inr (a mod b)"
  by (cases "a = 0") (simp_all add: cpp_mod_def minus_mult_div_eq_mod)

text \<open>\<^verbatim>\<open>std::to_string(int)\<close>.\<close>

fun nat_to_string :: "nat \<Rightarrow> string" where
  "nat_to_string n =
     (if n < 10 then [char_of (48 + n)]
      else nat_to_string (n div 10) @ [char_of (48 + n mod 10)])"

declare nat_to_string.simps [simp del]

definition to_string :: "int \<Rightarrow> string" where
  "to_string i = (if i < 0 then CHR ''-'' # nat_to_string (nat (- i)) else nat_to_string (nat i))"

end
