(* ===== verification/Batches.thy ===== *)
theory Batches
  imports Prelude
begin

text \<open>
  The batches of a simulation and their container
  (\<^verbatim>\<open>batch.hpp\<close>, \<^verbatim>\<open>batch.cpp\<close>, \<^verbatim>\<open>batch_container.hpp\<close>, \<^verbatim>\<open>batch_container.cpp\<close>):
  \<^verbatim>\<open>assembleBatches\<close> cuts the requested range of GRUs into batches, the lead
  server and the SUMMA actor hand them out with \<^verbatim>\<open>getUnsolvedBatch\<close> and mark
  them solved.  The lemmas give the batch list in closed form, show that it
  covers the range exactly, when the assembly loop ends at all, and what the
  counter of remaining batches means.
\<close>

subsection \<open>Batch\<close>

record batch =
  batch_id :: int
  start_hru :: int
  num_hru :: int
  run_time :: real
  read_time :: real
  write_time :: real
  assigned_to_actor :: bool
  solved :: bool
  log_dir :: string

definition Batch :: "int \<Rightarrow> int \<Rightarrow> int \<Rightarrow> batch" where
  "Batch bid start num =
     \<lparr>batch_id = bid, start_hru = start, num_hru = num,
      run_time = 0, read_time = 0, write_time = 0,
      assigned_to_actor = False, solved = False, log_dir = []\<rparr>"

definition setLogDir :: "string \<Rightarrow> batch \<Rightarrow> batch" where
  "setLogDir d b = b\<lparr>log_dir := d\<rparr>"

definition updateRunTime :: "real \<Rightarrow> batch \<Rightarrow> batch" where
  "updateRunTime t b = b\<lparr>run_time := t\<rparr>"

definition updateReadTime :: "real \<Rightarrow> batch \<Rightarrow> batch" where
  "updateReadTime t b = b\<lparr>read_time := t\<rparr>"

definition updateWriteTime :: "real \<Rightarrow> batch \<Rightarrow> batch" where
  "updateWriteTime t b = b\<lparr>write_time := t\<rparr>"

definition updateAssigned :: "bool \<Rightarrow> batch \<Rightarrow> batch" where
  "updateAssigned v b = b\<lparr>assigned_to_actor := v\<rparr>"

definition updateSolved :: "bool \<Rightarrow> batch \<Rightarrow> batch" where
  "updateSolved v b = b\<lparr>solved := v\<rparr>"

definition getBatchInfoString :: "batch \<Rightarrow> string" where
  "getBatchInfoString b =
     ''batch_id='' @ to_string (batch_id b) @
     '' -- start_hru='' @ to_string (start_hru b) @
     '' -- num_hru: '' @ to_string (num_hru b) @ [CHR 0x0A]"

text \<open>The row that \<^verbatim>\<open>writeBatchToFile\<close> appends to the results file; the text
  rendering of its fields is left to the stream.\<close>

record batch_row =
  row_batch_id :: int
  row_start_hru :: int
  row_num_hru :: int
  row_hostname :: string
  row_run_time :: real
  row_read_time :: real
  row_write_time :: real

text \<open>\<open>files\<close> holds the rows of every file, \<open>can_open\<close> says which names the file system
  opens for appending; the empty name is no file.  When \<^verbatim>\<open>open\<close> fails the stream drops what
  is written to it.\<close>

definition writeBatchToFile ::
  "(string \<Rightarrow> bool) \<Rightarrow> string \<Rightarrow> string \<Rightarrow> batch \<Rightarrow> (string \<Rightarrow> batch_row list) \<Rightarrow> (string \<Rightarrow> batch_row list)" where
  "writeBatchToFile can_open file_name host b files =
     (if file_name \<noteq> [] \<and> can_open file_name
      then files(file_name := files file_name @
        [\<lparr>row_batch_id = batch_id b, row_start_hru = start_hru b, row_num_hru = num_hru b,
          row_hostname = host, row_run_time = run_time b,
          row_read_time = read_time b, row_write_time = write_time b\<rparr>])
      else files)"

lemmas batch_update_defs =
  setLogDir_def updateRunTime_def updateReadTime_def updateWriteTime_def
  updateAssigned_def updateSolved_def

subsection \<open>BatchContainer\<close>

record batch_container =
  bc_start_hru :: int
  total_hru_count :: int
  num_hru_per_batch :: int
  batches_remaining :: int
  batch_list :: "batch list"

text \<open>The \<^verbatim>\<open>while\<close> loop of \<^verbatim>\<open>assembleBatches\<close>, with the arithmetic of its three \<^verbatim>\<open>int\<close>
  variables checked for overflow; \<^const>\<open>None\<close> would be a loop that never ends.\<close>

partial_function (option) assembleBatches ::
  "int \<Rightarrow> string \<Rightarrow> int \<Rightarrow> int \<Rightarrow> int \<Rightarrow> batch list \<Rightarrow> (batch list res) option" where
  "assembleBatches num_per_batch dir remaining bid start_local batches =
     (if remaining > 0 then
        (let current_batch_size = min num_per_batch remaining;
             pushed = batches @ [Batch bid start_local current_batch_size]
         in (case vec_upd pushed bid (setLogDir dir) of
               Inl e \<Rightarrow> Some (Inl e)
             | Inr batches' \<Rightarrow>
           (case cpp_sub remaining current_batch_size of
               Inl e \<Rightarrow> Some (Inl e)
             | Inr remaining' \<Rightarrow>
           (case cpp_add start_local current_batch_size of
               Inl e \<Rightarrow> Some (Inl e)
             | Inr start' \<Rightarrow>
           (case (if current_batch_size = num_per_batch then cpp_add bid 1 else Inr bid) of
               Inl e \<Rightarrow> Some (Inl e)
             | Inr bid' \<Rightarrow>
                 assembleBatches num_per_batch dir remaining' bid' start' batches')))))
      else Some (Inr batches))"

definition ensure_dir :: "string \<Rightarrow> string" where
  "ensure_dir d = (if d \<noteq> [] \<and> last d \<noteq> CHR ''/'' then d @ ''/'' else d)"

definition BatchContainer :: "int \<Rightarrow> int \<Rightarrow> int \<Rightarrow> string \<Rightarrow> (batch_container res) option" where
  "BatchContainer start total_count per dir =
     map_option
       (\<lambda>r. res_bind r (\<lambda>bl. Inr
          \<lparr>bc_start_hru = start, total_hru_count = total_count, num_hru_per_batch = per,
           batches_remaining = int (length bl), batch_list = bl\<rparr>))
       (assembleBatches per (ensure_dir dir) total_count 0 start [])"

definition getBatchesRemaining :: "batch_container \<Rightarrow> int" where
  "getBatchesRemaining c = batches_remaining c"

definition getTotalBatches :: "batch_container \<Rightarrow> int" where
  "getTotalBatches c = int (length (batch_list c))"

definition updateBatchStats ::
  "int \<Rightarrow> real \<Rightarrow> real \<Rightarrow> real \<Rightarrow> batch_container \<Rightarrow> batch_container res" where
  "updateBatchStats bid run rd wr c =
     res_bind (vec_upd (batch_list c) bid
                 (updateSolved True \<circ> updateWriteTime wr \<circ> updateReadTime rd \<circ> updateRunTime run))
       (\<lambda>bl. Inr (c\<lparr>batch_list := bl, batches_remaining := batches_remaining c - 1\<rparr>))"

definition getBatchesAsString :: "batch_container \<Rightarrow> string" where
  "getBatchesAsString c = concat (map getBatchInfoString (batch_list c))"

definition updateBatchStatus_LostClient :: "int \<Rightarrow> batch_container \<Rightarrow> batch_container res" where
  "updateBatchStatus_LostClient bid c =
     res_bind (vec_upd (batch_list c) bid (updateAssigned False))
       (\<lambda>bl. Inr (c\<lparr>batch_list := bl\<rparr>))"

definition is_free :: "batch \<Rightarrow> bool" where
  "is_free b \<longleftrightarrow> \<not> assigned_to_actor b \<and> \<not> solved b"

text \<open>The loop of \<^verbatim>\<open>getUnsolvedBatch\<close>: the first free batch is marked assigned
  and a copy of it returned.\<close>

fun take_free :: "batch list \<Rightarrow> batch option \<times> batch list" where
  "take_free [] = (None, [])"
| "take_free (b # bs) =
     (if \<not> assigned_to_actor b \<and> \<not> solved b
      then (Some (updateAssigned True b), updateAssigned True b # bs)
      else (case take_free bs of (r, bs') \<Rightarrow> (r, b # bs')))"

definition getUnsolvedBatch :: "batch_container \<Rightarrow> batch option \<times> batch_container" where
  "getUnsolvedBatch c =
     (case take_free (batch_list c) of (r, bl) \<Rightarrow> (r, c\<lparr>batch_list := bl\<rparr>))"

definition setBatchAssigned :: "batch \<Rightarrow> batch_container \<Rightarrow> batch_container res" where
  "setBatchAssigned b c =
     res_bind (vec_upd (batch_list c) (batch_id b) (updateAssigned True))
       (\<lambda>bl. Inr (c\<lparr>batch_list := bl\<rparr>))"

definition setBatchUnassigned :: "batch \<Rightarrow> batch_container \<Rightarrow> batch_container res" where
  "setBatchUnassigned b c =
     res_bind (vec_upd (batch_list c) (batch_id b) (updateAssigned False))
       (\<lambda>bl. Inr (c\<lparr>batch_list := bl\<rparr>))"

definition updateBatch_success :: "batch \<Rightarrow> batch_container \<Rightarrow> batch_container res" where
  "updateBatch_success b c =
     res_bind (vec_upd (batch_list c) (batch_id b) (updateSolved True))
       (\<lambda>bl. Inr (c\<lparr>batch_list := bl, batches_remaining := batches_remaining c - 1\<rparr>))"

text \<open>The overload that also calls \<^verbatim>\<open>writeBatchToFile\<close>; the arguments of the call are part
  of the result.\<close>

definition updateBatch_success_csv ::
  "batch \<Rightarrow> string \<Rightarrow> string \<Rightarrow> batch_container \<Rightarrow> ((string \<times> string \<times> batch) \<times> batch_container) res" where
  "updateBatch_success_csv b output_csv hostname c =
     res_bind (updateBatch_success b c) (\<lambda>c'. Inr ((output_csv, hostname, b), c'))"

definition hasUnsolvedBatches :: "batch_container \<Rightarrow> bool" where
  "hasUnsolvedBatches c \<longleftrightarrow> batches_remaining c > 0"

definition getTotalReadTime :: "batch_container \<Rightarrow> real" where
  "getTotalReadTime c = foldl (\<lambda>t b. t + read_time b) 0 (batch_list c)"

definition getTotalWriteTime :: "batch_container \<Rightarrow> real" where
  "getTotalWriteTime c = foldl (\<lambda>t b. t + write_time b) 0 (batch_list c)"

subsection \<open>The assembled batch list\<close>

text \<open>The reference plan: consecutive ranges of at most \<open>per\<close> GRUs.\<close>

function batch_plan :: "int \<Rightarrow> string \<Rightarrow> int \<Rightarrow> int \<Rightarrow> int \<Rightarrow> batch list" where
  "batch_plan per dir remaining bid start =
     (if 0 < remaining \<and> 0 < per
      then setLogDir dir (Batch bid start (min per remaining)) #
           batch_plan per dir (remaining - min per remaining) (bid + 1) (start + min per remaining)
      else [])"
  by pat_completeness auto
termination
  by (relation "measure (\<lambda>(per, dir, remaining, bid, start). nat remaining)") auto

declare batch_plan.simps [simp del]

definition gru_range :: "batch \<Rightarrow> int list" where
  "gru_range b = [start_hru b .. start_hru b + num_hru b - 1]"

definition fresh_batch :: "int \<Rightarrow> string \<Rightarrow> batch \<Rightarrow> bool" where
  "fresh_batch per dir b \<longleftrightarrow>
     0 < num_hru b \<and> num_hru b \<le> per \<and> \<not> assigned_to_actor b \<and> \<not> solved b \<and>
     log_dir b = dir \<and> run_time b = 0 \<and> read_time b = 0 \<and> write_time b = 0"

lemma gru_range_Batch [simp]:
  "gru_range (setLogDir dir (Batch bid start n)) = [start .. start + n - 1]"
  by (simp add: gru_range_def setLogDir_def Batch_def)

lemma batch_plan_covers:
  "0 < per \<Longrightarrow> 0 \<le> remaining \<Longrightarrow>
   concat (map gru_range (batch_plan per dir remaining bid start)) = [start .. start + remaining - 1]"
proof (induction per dir remaining bid start rule: batch_plan.induct)
  case (1 per dir remaining bid start)
  let ?m = "min per remaining"
  show ?case
  proof (cases "0 < remaining")
    case True
    with 1 have "concat (map gru_range (batch_plan per dir (remaining - ?m) (bid + 1) (start + ?m))) =
        [start + ?m .. start + remaining - 1]"
      by (simp add: algebra_simps)
    moreover have "[start .. start + ?m - 1] @ [start + ?m - 1 + 1 .. start + remaining - 1] =
        [start .. start + remaining - 1]"
      using True 1 by (intro upto_append) auto
    ultimately show ?thesis using True 1
      by (subst batch_plan.simps) simp
  next
    case False
    then show ?thesis by (subst batch_plan.simps) simp
  qed
qed

lemma batch_plan_fresh:
  "b \<in> set (batch_plan per dir remaining bid start) \<Longrightarrow> fresh_batch per dir b"
proof (induction per dir remaining bid start rule: batch_plan.induct)
  case (1 per dir remaining bid start)
  then show ?case
    by (subst (asm) (2) batch_plan.simps)
       (auto simp: fresh_batch_def setLogDir_def Batch_def split: if_splits)
qed

lemma batch_plan_ids:
  "i < length (batch_plan per dir remaining bid start) \<Longrightarrow>
   batch_id (batch_plan per dir remaining bid start ! i) = bid + int i"
proof (induction per dir remaining bid start arbitrary: i rule: batch_plan.induct)
  case (1 per dir remaining bid start)
  then show ?case
    by (subst batch_plan.simps, subst (asm) (2) batch_plan.simps)
       (cases i, auto simp: setLogDir_def Batch_def split: if_splits)
qed

lemma batch_plan_length:
  "0 < per \<Longrightarrow> 0 \<le> remaining \<Longrightarrow>
   int (length (batch_plan per dir remaining bid start)) = (remaining + per - 1) div per"
proof (induction per dir remaining bid start rule: batch_plan.induct)
  case (1 per dir remaining bid start)
  let ?m = "min per remaining"
  show ?case
  proof (cases "0 < remaining")
    case True
    with 1 have IH: "int (length (batch_plan per dir (remaining - ?m) (bid + 1) (start + ?m))) =
        (remaining - ?m + per - 1) div per" by simp
    have "(remaining - ?m + per - 1) div per + 1 = (remaining + per - 1) div per"
    proof (cases "per \<le> remaining")
      case True
      then have "(remaining + per - 1) div per = (remaining - 1 + 1 * per) div per"
        by (simp add: algebra_simps)
      also have "\<dots> = 1 + (remaining - 1) div per"
        using 1 by (subst div_mult_self1) auto
      finally show ?thesis using True by simp
    next
      case False
      with True 1 have "(remaining + per - 1) div per = (remaining - 1 + 1 * per) div per"
        and "(per - 1) div per = 0" and "(remaining - 1) div per = 0"
        by (auto simp: algebra_simps)
      with 1 False show ?thesis by (simp only: div_mult_self1) simp
    qed
    with IH True 1 show ?thesis by (subst batch_plan.simps) simp
  next
    case False
    with 1 show ?thesis by (subst batch_plan.simps) simp
  qed
qed

text \<open>The range of GRUs fits the type of the loop's variables.\<close>

definition ints_ok :: "int \<Rightarrow> int \<Rightarrow> bool" where
  "ints_ok start n \<longleftrightarrow> INT_MIN \<le> start \<and> n \<le> INT_MAX \<and> start + n \<le> INT_MAX"

text \<open>One turn of the loop.\<close>

lemma assembleBatches_turn:
  assumes "0 < remaining" and "bid = int (length bl)"
  shows "assembleBatches per dir remaining bid start bl =
    (let m = min per remaining; bid' = (if m = per then bid + 1 else bid)
     in if in_int (remaining - m) \<and> in_int (start + m) \<and> (m = per \<longrightarrow> in_int (bid + 1))
        then assembleBatches per dir (remaining - m) bid' (start + m)
               (bl @ [setLogDir dir (Batch bid start m)])
        else Some (Inl Int_Overflow))"
  using assms by (subst assembleBatches.simps) (simp add: Let_def cpp_sub_def cpp_add_def)

lemma assembleBatches_stop:
  "remaining \<le> 0 \<Longrightarrow> assembleBatches per dir remaining bid start bl = Some (Inr bl)"
  by (subst assembleBatches.simps) simp

lemma assembleBatches_plan:
  "0 < per \<Longrightarrow> bid = int (length bl) \<Longrightarrow> ints_ok start remaining \<Longrightarrow> bid + remaining \<le> INT_MAX \<Longrightarrow>
   assembleBatches per dir remaining bid start bl =
     Some (Inr (bl @ batch_plan per dir remaining bid start))"
proof (induction "nat remaining" arbitrary: remaining bid start bl rule: less_induct)
  case less
  let ?m = "min per remaining"
  let ?b = "setLogDir dir (Batch bid start ?m)"
  show ?case
  proof (cases "0 < remaining")
    case True
    have rng: "in_int (remaining - ?m)" "in_int (start + ?m)" "in_int (bid + 1)"
      using True less.prems INT_bounds by (simp_all add: in_int_def ints_ok_def min_def)
    have step: "assembleBatches per dir remaining bid start bl =
        assembleBatches per dir (remaining - ?m) (if ?m = per then bid + 1 else bid) (start + ?m) (bl @ [?b])"
      using assembleBatches_turn [OF True less.prems(2)] rng by (simp add: Let_def)
    show ?thesis
    proof (cases "?m = per")
      case m: True
      have "assembleBatches per dir (remaining - ?m) (bid + 1) (start + ?m) (bl @ [?b]) =
          Some (Inr ((bl @ [?b]) @ batch_plan per dir (remaining - ?m) (bid + 1) (start + ?m)))"
        using True less.prems m by (intro less.hyps) (auto simp: ints_ok_def)
      with step m True less.prems show ?thesis by (subst batch_plan.simps) simp
    next
      case False
      then have "?m = remaining" by simp
      with step False True less.prems show ?thesis
        by (subst batch_plan.simps) (simp add: batch_plan.simps [of per dir 0] assembleBatches_stop)
    qed
  next
    case False
    then show ?thesis by (subst batch_plan.simps) (simp add: assembleBatches_stop)
  qed
qed

text \<open>With a batch size that is not positive there is no way out of the loop but an overflow:
  the id of the batch grows with every turn.\<close>

lemma assembleBatches_overflow:
  "per \<le> 0 \<Longrightarrow> 0 < remaining \<Longrightarrow> bid = int (length bl) \<Longrightarrow>
   assembleBatches per dir remaining bid start bl = Some (Inl Int_Overflow)"
proof (induction "nat (INT_MAX - bid)" arbitrary: remaining bid start bl rule: less_induct)
  case less
  from less.prems have m: "min per remaining = per" by simp
  show ?case
  proof (cases "in_int (remaining - per) \<and> in_int (start + per) \<and> in_int (bid + 1)")
    case True
    with less.prems have "assembleBatches per dir (remaining - per) (bid + 1) (start + per)
        (bl @ [setLogDir dir (Batch bid start per)]) = Some (Inl Int_Overflow)"
      by (intro less.hyps) (auto simp: in_int_def)
    with assembleBatches_turn [OF less.prems(2,3), of per dir start] m True show ?thesis
      by (simp add: Let_def)
  next
    case False
    with assembleBatches_turn [OF less.prems(2,3), of per dir start] m show ?thesis
      by (auto simp: Let_def)
  qed
qed

text \<open>A range that ends beyond \<^const>\<open>INT_MAX\<close> overflows as well.\<close>

lemma assembleBatches_beyond:
  "0 < per \<Longrightarrow> 0 < remaining \<Longrightarrow> bid = int (length bl) \<Longrightarrow> INT_MAX < start + remaining \<Longrightarrow>
   assembleBatches per dir remaining bid start bl = Some (Inl Int_Overflow)"
proof (induction "nat remaining" arbitrary: remaining bid start bl rule: less_induct)
  case less
  let ?m = "min per remaining"
  show ?case
  proof (cases "in_int (remaining - ?m) \<and> in_int (start + ?m) \<and> (?m = per \<longrightarrow> in_int (bid + 1))")
    case True
    with less.prems have m: "?m = per" "?m < remaining" by (auto simp: in_int_def)
    with less.prems have "assembleBatches per dir (remaining - ?m) (bid + 1) (start + ?m)
        (bl @ [setLogDir dir (Batch bid start ?m)]) = Some (Inl Int_Overflow)"
      by (intro less.hyps) auto
    with assembleBatches_turn [OF less.prems(2,3), of per dir start] m True show ?thesis
      by (simp add: Let_def)
  next
    case False
    with assembleBatches_turn [OF less.prems(2,3), of per dir start] show ?thesis
      by (auto simp: Let_def)
  qed
qed

subsection \<open>Handing batches out\<close>

lemma take_free_None_iff: "fst (take_free bl) = None \<longleftrightarrow> (\<forall>b\<in>set bl. \<not> is_free b)"
  by (induction bl) (auto simp: is_free_def split: prod.splits)

lemma take_free_None: "take_free bl = (None, bl') \<Longrightarrow> bl' = bl"
  by (induction bl arbitrary: bl') (auto split: if_splits prod.splits)

lemma take_free_Some:
  "take_free bl = (Some b, bl') \<Longrightarrow>
   \<exists>k < length bl. is_free (bl ! k) \<and> (\<forall>j < k. \<not> is_free (bl ! j)) \<and>
     b = updateAssigned True (bl ! k) \<and> bl' = bl[k := b]"
proof (induction bl arbitrary: bl')
  case (Cons x bl)
  show ?case
  proof (cases "is_free x")
    case True
    with Cons.prems show ?thesis by (intro exI [of _ 0]) (auto simp: is_free_def)
  next
    case False
    with Cons.prems obtain bl'' where "take_free bl = (Some b, bl'')" and "bl' = x # bl''"
      by (auto simp: is_free_def split: if_splits prod.splits)
    with Cons.IH obtain k where "k < length bl" "is_free (bl ! k)" "\<forall>j < k. \<not> is_free (bl ! j)"
      "b = updateAssigned True (bl ! k)" "bl'' = bl[k := b]" by blast
    with False \<open>bl' = x # bl''\<close> show ?thesis
      by (intro exI [of _ "Suc k"]) (auto simp: less_Suc_eq_0_disj)
  qed
qed simp

definition bc_inv :: "batch_container \<Rightarrow> bool" where
  "bc_inv c \<longleftrightarrow>
     (\<forall>i < length (batch_list c). batch_id (batch_list c ! i) = int i) \<and>
     batches_remaining c = int (count_if (\<lambda>b. \<not> solved b) (batch_list c))"

definition unsolved_ids :: "batch_container \<Rightarrow> int set" where
  "unsolved_ids c = {int i | i. i < length (batch_list c) \<and> \<not> solved (batch_list c ! i)}"

definition free_ids :: "batch_container \<Rightarrow> int set" where
  "free_ids c = {int i | i. i < length (batch_list c) \<and> is_free (batch_list c ! i)}"

lemma free_subset_unsolved: "free_ids c \<subseteq> unsolved_ids c"
  by (auto simp: free_ids_def unsolved_ids_def is_free_def)

lemma finite_unsolved_ids [simp]: "finite (unsolved_ids c)"
  by (simp add: unsolved_ids_def)

lemma bc_inv_unsolved_iff:
  assumes "bc_inv c"
  shows "batches_remaining c > 0 \<longleftrightarrow> unsolved_ids c \<noteq> {}"
proof -
  have "count_if (\<lambda>b. \<not> solved b) (batch_list c) = 0 \<longleftrightarrow> unsolved_ids c = {}"
    unfolding count_if_zero_iff unsolved_ids_def by (fastforce simp: in_set_conv_nth)
  with assms show ?thesis by (auto simp: bc_inv_def)
qed

lemma bc_inv_remaining_card:
  assumes "bc_inv c"
  shows "batches_remaining c = int (card (unsolved_ids c))"
proof -
  let ?bl = "batch_list c"
  have "unsolved_ids c = int ` {i. i < length ?bl \<and> \<not> solved (?bl ! i)}"
    by (auto simp: unsolved_ids_def)
  then have "card (unsolved_ids c) = card {i. i < length ?bl \<and> \<not> solved (?bl ! i)}"
    by (simp add: card_image)
  also have "\<dots> = count_if (\<lambda>b. \<not> solved b) ?bl"
    by (simp add: count_if_def length_filter_conv_card)
  finally show ?thesis using assms by (simp add: bc_inv_def)
qed

text \<open>One slot of the list is replaced by a version of itself with the same id.\<close>

lemma bc_slot_update:
  assumes inv: "bc_inv c" and k: "k < length (batch_list c)"
    and id: "batch_id b' = int k"
    and c': "batch_list c' = (batch_list c)[k := b']"
    and rem: "batches_remaining c' = batches_remaining c -
        (if \<not> solved (batch_list c ! k) \<and> solved b' then 1 else 0) +
        (if solved (batch_list c ! k) \<and> \<not> solved b' then 1 else 0)"
  shows "bc_inv c'"
    and "unsolved_ids c' = unsolved_ids c - {int k} \<union> (if solved b' then {} else {int k})"
    and "free_ids c' = free_ids c - {int k} \<union> (if is_free b' then {int k} else {})"
proof -
  show "bc_inv c'"
    using inv k id rem c' unfolding bc_inv_def
    by (auto simp: nth_list_update count_if_update)
  show "unsolved_ids c' = unsolved_ids c - {int k} \<union> (if solved b' then {} else {int k})"
    using k c' by (auto simp: unsolved_ids_def nth_list_update)
  show "free_ids c' = free_ids c - {int k} \<union> (if is_free b' then {int k} else {})"
    using k c' by (auto simp: free_ids_def nth_list_update)
qed

lemma getUnsolvedBatch_None:
  "getUnsolvedBatch c = (None, c') \<Longrightarrow> free_ids c = {} \<and> c' = c"
  using take_free_None [of "batch_list c"] take_free_None_iff [of "batch_list c"]
  by (auto simp: getUnsolvedBatch_def free_ids_def split: prod.splits)

lemma getUnsolvedBatch_Some:
  assumes "bc_inv c" and "getUnsolvedBatch c = (Some b, c')"
  shows "batch_id b \<in> free_ids c" and "bc_inv c'"
    and "free_ids c' = free_ids c - {batch_id b}" and "unsolved_ids c' = unsolved_ids c"
    and "batches_remaining c' = batches_remaining c"
    and "batch_list c' ! nat (batch_id b) = b" and "assigned_to_actor b" and "\<not> solved b"
    and "\<forall>i \<in> free_ids c. batch_id b \<le> i"
proof -
  from assms(2) obtain bl' where tf: "take_free (batch_list c) = (Some b, bl')"
    and c': "c' = c\<lparr>batch_list := bl'\<rparr>"
    by (auto simp: getUnsolvedBatch_def split: prod.splits)
  from take_free_Some [OF tf] obtain k where k: "k < length (batch_list c)"
    "is_free (batch_list c ! k)" and first: "\<forall>j < k. \<not> is_free (batch_list c ! j)"
    and b: "b = updateAssigned True (batch_list c ! k)" and bl': "bl' = (batch_list c)[k := b]"
    by blast
  from assms(1) k(1) have id: "batch_id b = int k"
    by (simp add: b bc_inv_def updateAssigned_def)
  from k(2) b have st: "assigned_to_actor b" "\<not> solved b" "\<not> is_free b"
    by (auto simp: updateAssigned_def is_free_def)
  have ns: "\<not> solved (batch_list c ! k)" using k(2) by (simp add: is_free_def)
  note upd = bc_slot_update [OF assms(1) k(1) id, of c']
  show "batch_id b \<in> free_ids c" using k id by (auto simp: free_ids_def)
  show "bc_inv c'" using upd(1) c' bl' st ns by simp
  show "free_ids c' = free_ids c - {batch_id b}" using upd(3) c' bl' st ns id by simp
  have "int k \<in> unsolved_ids c" using k ns by (auto simp: unsolved_ids_def)
  then show "unsolved_ids c' = unsolved_ids c" using upd(2) c' bl' st ns by auto
  show "batches_remaining c' = batches_remaining c" using c' by simp
  show "batch_list c' ! nat (batch_id b) = b" using c' bl' k id by simp
  show "assigned_to_actor b" and "\<not> solved b" using st by auto
  show "\<forall>i \<in> free_ids c. batch_id b \<le> i"
    using first id unfolding free_ids_def by (auto simp: not_le [symmetric])
qed

lemma updateBatchStats_finish:
  assumes "bc_inv c" and "bid \<in> unsolved_ids c"
  shows "\<exists>c'. updateBatchStats bid run rd wr c = Inr c' \<and> bc_inv c' \<and>
           unsolved_ids c' = unsolved_ids c - {bid} \<and> free_ids c' = free_ids c - {bid}"
proof -
  from assms(2) obtain k where k: "bid = int k" "k < length (batch_list c)"
    "\<not> solved (batch_list c ! k)" by (auto simp: unsolved_ids_def)
  let ?f = "updateSolved True \<circ> updateWriteTime wr \<circ> updateReadTime rd \<circ> updateRunTime run"
  let ?b = "?f (batch_list c ! k)"
  let ?c = "c\<lparr>batch_list := (batch_list c)[k := ?b], batches_remaining := batches_remaining c - 1\<rparr>"
  have b: "batch_id ?b = int k" "solved ?b" "\<not> is_free ?b"
    using assms(1) k by (auto simp: bc_inv_def batch_update_defs is_free_def)
  have "updateBatchStats bid run rd wr c = Inr ?c"
    using k by (simp add: updateBatchStats_def)
  then show ?thesis
    using bc_slot_update [OF assms(1) k(2) b(1), of ?c] b k by simp
qed

lemma updateBatch_success_finish:
  assumes "bc_inv c" and "batch_id b \<in> unsolved_ids c"
  shows "\<exists>c'. updateBatch_success b c = Inr c' \<and> bc_inv c' \<and>
           unsolved_ids c' = unsolved_ids c - {batch_id b} \<and> free_ids c' = free_ids c - {batch_id b}"
proof -
  from assms(2) obtain k where k: "batch_id b = int k" "k < length (batch_list c)"
    "\<not> solved (batch_list c ! k)" by (auto simp: unsolved_ids_def)
  let ?b = "updateSolved True (batch_list c ! k)"
  let ?c = "c\<lparr>batch_list := (batch_list c)[k := ?b], batches_remaining := batches_remaining c - 1\<rparr>"
  have b: "batch_id ?b = int k" "solved ?b" "\<not> is_free ?b"
    using assms(1) k by (auto simp: bc_inv_def batch_update_defs is_free_def)
  have "updateBatch_success b c = Inr ?c" using k by (simp add: updateBatch_success_def)
  then show ?thesis
    using bc_slot_update [OF assms(1) k(2) b(1), of ?c] b k by simp
qed

lemma setBatchUnassigned_release:
  assumes "bc_inv c" and "batch_id b \<in> unsolved_ids c"
  shows "\<exists>c'. setBatchUnassigned b c = Inr c' \<and> bc_inv c' \<and>
           unsolved_ids c' = unsolved_ids c \<and> free_ids c' = insert (batch_id b) (free_ids c)"
proof -
  from assms(2) obtain k where k: "batch_id b = int k" "k < length (batch_list c)"
    "\<not> solved (batch_list c ! k)" by (auto simp: unsolved_ids_def)
  let ?b = "updateAssigned False (batch_list c ! k)"
  let ?c = "c\<lparr>batch_list := (batch_list c)[k := ?b]\<rparr>"
  have b: "batch_id ?b = int k" "\<not> solved ?b" "is_free ?b"
    using assms(1) k by (auto simp: bc_inv_def batch_update_defs is_free_def)
  have "setBatchUnassigned b c = Inr ?c" using k by (simp add: setBatchUnassigned_def)
  then show ?thesis
    using bc_slot_update [OF assms(1) k(2) b(1), of ?c] b k assms(2) by auto
qed

lemma BatchContainer_bc_inv:
  assumes "0 < per" and "ints_ok start n"
  obtains c where "BatchContainer start n per dir = Some (Inr c)" and "bc_inv c"
    and "batch_list c = batch_plan per (ensure_dir dir) n 0 start"
    and "free_ids c = unsolved_ids c" and "total_hru_count c = n"
    and "batches_remaining c = int (length (batch_list c))"
proof -
  let ?bl = "batch_plan per (ensure_dir dir) n 0 start"
  let ?c = "\<lparr>bc_start_hru = start, total_hru_count = n, num_hru_per_batch = per,
           batches_remaining = int (length ?bl), batch_list = ?bl\<rparr>"
  have "BatchContainer start n per dir = Some (Inr ?c)"
    using assms assembleBatches_plan [OF assms(1), of 0 "[]" start n "ensure_dir dir"]
    by (simp add: BatchContainer_def ints_ok_def)
  moreover have fresh: "\<forall>b \<in> set ?bl. \<not> solved b \<and> is_free b"
    using batch_plan_fresh by (auto simp: fresh_batch_def is_free_def)
  then have "count_if (\<lambda>b. \<not> solved b) ?bl = length ?bl"
    by (simp add: count_if_all_iff)
  then have "bc_inv ?c" by (simp add: bc_inv_def batch_plan_ids)
  moreover have "free_ids ?c = unsolved_ids ?c"
    using fresh by (auto simp: free_ids_def unsolved_ids_def)
  ultimately show ?thesis by (intro that [of ?c]) simp_all
qed

subsection \<open>The pool interface\<close>

text \<open>What the SUMMA actor and the lead server rely on when they draw from a
  container: \<open>draw\<close> is \<^verbatim>\<open>getUnsolvedBatch\<close>, \<open>finish\<close> one of the operations
  that mark a batch solved, \<open>more\<close> is \<^verbatim>\<open>hasUnsolvedBatches\<close>.\<close>

locale batch_pool =
  fixes pool_ok :: "'p \<Rightarrow> bool"
    and unsolved :: "'p \<Rightarrow> int set"
    and available :: "'p \<Rightarrow> int set"
    and draw :: "'p \<Rightarrow> 'b option \<times> 'p"
    and ident :: "'b \<Rightarrow> int"
    and finish :: "int \<Rightarrow> 'p \<Rightarrow> 'p res"
    and more :: "'p \<Rightarrow> bool"
  assumes finite_unsolved: "finite (unsolved p)"
    and available_sub: "available p \<subseteq> unsolved p"
    and draw_None: "draw p = (None, p') \<Longrightarrow> available p = {} \<and> p' = p"
    and draw_Some: "pool_ok p \<Longrightarrow> draw p = (Some b, p') \<Longrightarrow>
      ident b \<in> available p \<and> pool_ok p' \<and> available p' = available p - {ident b} \<and>
      unsolved p' = unsolved p"
    and finish_ok: "pool_ok p \<Longrightarrow> i \<in> unsolved p \<Longrightarrow>
      \<exists>p'. finish i p = Inr p' \<and> pool_ok p' \<and> unsolved p' = unsolved p - {i} \<and>
           available p' = available p - {i}"
    and more_iff: "pool_ok p \<Longrightarrow> more p \<longleftrightarrow> unsolved p \<noteq> {}"
begin

lemma draw_available:
  assumes "pool_ok p" and "available p \<noteq> {}"
  obtains b p' where "draw p = (Some b, p')" "ident b \<in> available p" "pool_ok p'"
    "available p' = available p - {ident b}" "unsolved p' = unsolved p"
proof (cases "draw p")
  case (Pair r p')
  with assms(2) draw_None obtain b where "r = Some b" by (cases r) auto
  with Pair assms(1) draw_Some [of p b p'] that show ?thesis by auto
qed

text \<open>One sequential turn: with nothing handed out, drawing a batch and
  finishing it leaves one batch less and again nothing handed out.\<close>

lemma turn:
  assumes "pool_ok p" and "available p = unsolved p" and "more p"
  obtains b p' p'' where "draw p = (Some b, p')" "ident b \<in> unsolved p"
    "finish (ident b) p' = Inr p''" "pool_ok p''" "available p'' = unsolved p''"
    "unsolved p'' = unsolved p - {ident b}" "card (unsolved p'') < card (unsolved p)"
proof -
  from assms more_iff have "available p \<noteq> {}" by auto
  with assms(1) obtain b p' where d: "draw p = (Some b, p')" "ident b \<in> available p" "pool_ok p'"
    "available p' = available p - {ident b}" "unsolved p' = unsolved p"
    by (rule draw_available)
  with assms(2) have i: "ident b \<in> unsolved p'" by simp
  from finish_ok [OF d(3) i] obtain p'' where f: "finish (ident b) p' = Inr p''" "pool_ok p''"
    "unsolved p'' = unsolved p' - {ident b}" "available p'' = available p' - {ident b}" by blast
  have "card (unsolved p'') < card (unsolved p)"
    using f(3) d(5) i finite_unsolved by (metis card_Diff1_less)
  with that [OF d(1)] d f i assms(2) show ?thesis by auto
qed

end

interpretation stats_pool: batch_pool bc_inv unsolved_ids free_ids getUnsolvedBatch batch_id
  "\<lambda>bid. updateBatchStats bid run rd wr" hasUnsolvedBatches for run rd wr
proof (unfold_locales, goal_cases)
  case (3 p p')
  then show ?case by (rule getUnsolvedBatch_None)
next
  case (4 p b p')
  then show ?case using getUnsolvedBatch_Some by blast
qed (simp_all add: free_subset_unsolved updateBatchStats_finish hasUnsolvedBatches_def
       bc_inv_unsolved_iff)

subsection \<open>Properties\<close>

text \<open>
  C6. With a positive batch size, and a range of GRUs that ends below the largest \<^verbatim>\<open>int\<close>,
  the constructor of \<^verbatim>\<open>BatchContainer\<close> returns,
  and the batches it assembles are consecutive: read one after the other they
  list every GRU from \<open>start\<close> to \<open>start + n - 1\<close> exactly once and in order.
  There are as many batches as the quotient rounded up, batch \<open>i\<close> has id \<open>i\<close>,
  every batch is non-empty, at most \<open>per\<close> GRUs long, unassigned and unsolved,
  and the counter of remaining batches is the number of batches.
\<close>

theorem BatchContainer_partition:
  assumes "0 < per" and "0 \<le> n" and "in_int start" and "in_int n" and "start + n \<le> INT_MAX"
  shows "\<exists>c. BatchContainer start n per dir = Some (Inr c) \<and>
    concat (map gru_range (batch_list c)) = [start .. start + n - 1] \<and>
    int (length (batch_list c)) = (n + per - 1) div per \<and>
    (\<forall>i < length (batch_list c). batch_id (batch_list c ! i) = int i) \<and>
    (\<forall>b \<in> set (batch_list c). fresh_batch per (ensure_dir dir) b) \<and>
    batches_remaining c = int (length (batch_list c))"
proof -
  have "ints_ok start n" using assms by (simp add: ints_ok_def in_int_def)
  with assms(1) obtain c where c: "BatchContainer start n per dir = Some (Inr c)" "bc_inv c"
    "batch_list c = batch_plan per (ensure_dir dir) n 0 start"
    "batches_remaining c = int (length (batch_list c))"
    by (rule BatchContainer_bc_inv)
  with assms show ?thesis
    by (auto simp: batch_plan_covers batch_plan_length batch_plan_ids
             intro: batch_plan_fresh)
qed

theorem BatchContainer_partition_witness:
  "\<exists>c. BatchContainer 5 7 3 ''logs'' = Some (Inr c) \<and>
    concat (map gru_range (batch_list c)) = [5, 6, 7, 8, 9, 10, 11] \<and>
    int (length (batch_list c)) = 3"
  using BatchContainer_partition [of 3 7 5 "''logs''"]
  by (auto simp: upto.simps in_int_def INT_MAX_def INT_MIN_def)

text \<open>
  C24. When the constructor of \<^verbatim>\<open>BatchContainer\<close> returns: with nothing to batch, or with a
  positive batch size and a range that ends below the largest \<^verbatim>\<open>int\<close>.  With the
  size 0 that \<^verbatim>\<open>readSettings\<close> uses when \<^verbatim>\<open>num_hru_per_batch\<close> is missing, and with a
  negative size, the loop of \<^verbatim>\<open>assembleBatches\<close> has no way out but the overflow of one of its
  \<^verbatim>\<open>int\<close>s (the number of remaining GRUs, the start or the batch id), for which C++ defines
  no behaviour; with a range that ends beyond it the start overflows.  (The memory that the
  pushed batches take is not bounded in the model.)
\<close>

theorem BatchContainer_returns_iff:
  assumes "in_int start" and "in_int n" and "in_int per"
  shows "if 0 < n \<and> (per \<le> 0 \<or> INT_MAX < start + n)
    then BatchContainer start n per dir = Some (Inl Int_Overflow)
    else (\<exists>c. BatchContainer start n per dir = Some (Inr c) \<and> (n \<le> 0 \<longleftrightarrow> batch_list c = []))"
proof (cases "n \<le> 0")
  case True
  then show ?thesis by (simp add: BatchContainer_def assembleBatches_stop)
next
  case n: False
  consider "per \<le> 0" | "0 < per" "INT_MAX < start + n" | "0 < per" "ints_ok start n"
    using assms by (force simp: ints_ok_def in_int_def)
  then show ?thesis
  proof cases
    case 3
    then obtain c where c: "BatchContainer start n per dir = Some (Inr c)"
      "batch_list c = batch_plan per (ensure_dir dir) n 0 start" by (rule BatchContainer_bc_inv)
    moreover have "batch_plan per (ensure_dir dir) n 0 start \<noteq> []"
      using 3 n by (subst batch_plan.simps) simp
    ultimately show ?thesis using 3 n by (auto simp: ints_ok_def)
  qed (use n in \<open>simp_all add: BatchContainer_def assembleBatches_overflow assembleBatches_beyond\<close>)
qed

lemma BatchContainer_returns_iff_witness:
  "BatchContainer 1 3 0 [] = Some (Inl Int_Overflow) \<and> BatchContainer 1 1 INT_MIN [] = Some (Inl Int_Overflow) \<and>
   (\<exists>c. BatchContainer 1 3 2 [] = Some (Inr c))"
  using BatchContainer_returns_iff [of 1 3 0 "[]"] BatchContainer_returns_iff [of 1 1 INT_MIN "[]"]
    BatchContainer_returns_iff [of 1 3 2 "[]"]
  by (auto simp: in_int_def INT_MAX_def INT_MIN_def)

text \<open>
  C13. \<^verbatim>\<open>getUnsolvedBatch\<close> returns the free batch with the smallest id (neither
  assigned nor solved), marks exactly that one assigned, and leaves the other
  batches, the set of unsolved batches and the counter as they were; it
  returns nothing, and changes nothing, exactly when no batch is free.
\<close>

theorem getUnsolvedBatch_correct:
  assumes "bc_inv c"
  shows "case getUnsolvedBatch c of
      (None, c') \<Rightarrow> c' = c \<and> free_ids c = {}
    | (Some b, c') \<Rightarrow>
        batch_id b \<in> free_ids c \<and> (\<forall>i \<in> free_ids c. batch_id b \<le> i) \<and>
        free_ids c' = free_ids c - {batch_id b} \<and> unsolved_ids c' = unsolved_ids c \<and>
        batches_remaining c' = batches_remaining c \<and>
        batch_list c' ! nat (batch_id b) = b \<and> assigned_to_actor b \<and> bc_inv c'"
proof (cases "getUnsolvedBatch c")
  case (Pair r c')
  show ?thesis
  proof (cases r)
    case None
    with Pair getUnsolvedBatch_None [of c c'] show ?thesis by simp
  next
    case (Some b)
    with Pair getUnsolvedBatch_Some [OF assms, of b c'] show ?thesis by simp
  qed
qed

theorem getUnsolvedBatch_correct_witness:
  "let c = \<lparr>bc_start_hru = 1, total_hru_count = 2, num_hru_per_batch = 1,
            batches_remaining = 2, batch_list = [updateAssigned True (Batch 0 1 1), Batch 1 2 1]\<rparr>
   in bc_inv c \<and> fst (getUnsolvedBatch c) = Some (updateAssigned True (Batch 1 2 1)) \<and>
      bc_inv (snd (getUnsolvedBatch c))"
proof -
  define c where "c = \<lparr>bc_start_hru = 1, total_hru_count = 2, num_hru_per_batch = 1,
      batches_remaining = 2, batch_list = [updateAssigned True (Batch 0 1 1), Batch 1 2 1]\<rparr>"
  have inv: "bc_inv c"
    by (auto simp: c_def bc_inv_def updateAssigned_def Batch_def less_Suc_eq)
  have "fst (getUnsolvedBatch c) = Some (updateAssigned True (Batch 1 2 1))"
    by (simp add: c_def getUnsolvedBatch_def updateAssigned_def Batch_def)
  moreover from this getUnsolvedBatch_correct [OF inv] have "bc_inv (snd (getUnsolvedBatch c))"
    by (auto split: prod.splits option.splits)
  ultimately show ?thesis using inv by (simp add: c_def Let_def)
qed

text \<open>
  Completing a batch: \<^verbatim>\<open>updateBatch_success\<close> on an unsolved batch takes
  exactly that batch out of the unsolved ones and keeps the counter equal to
  their number; on a batch that is already solved it still decrements the
  counter, which then is one less than the number of unsolved batches; on an
  id outside the list it has no defined behaviour.
\<close>

lemma updateBatch_success_counter:
  assumes "bc_inv c"
  shows "case updateBatch_success b c of
      Inl e \<Rightarrow> e = Out_Of_Range \<and> \<not> (0 \<le> batch_id b \<and> batch_id b < int (length (batch_list c)))
    | Inr c' \<Rightarrow>
        unsolved_ids c' = unsolved_ids c - {batch_id b} \<and>
        batches_remaining c' = batches_remaining c - 1 \<and>
        (if batch_id b \<in> unsolved_ids c then bc_inv c'
         else batches_remaining c' = int (card (unsolved_ids c')) - 1)"
proof (cases "updateBatch_success b c")
  case (Inl e)
  then show ?thesis
    by (auto simp: updateBatch_success_def res_bind_def vec_upd_def split: if_splits)
next
  case (Inr c')
  then obtain k where k: "k < length (batch_list c)" "batch_id b = int k"
    and c': "c' = c\<lparr>batch_list := (batch_list c)[k := updateSolved True (batch_list c ! k)],
                   batches_remaining := batches_remaining c - 1\<rparr>"
    by (auto simp: updateBatch_success_def res_bind_Inr_iff vec_upd_Inr_iff)
  have un: "unsolved_ids c' = unsolved_ids c - {batch_id b}"
    using k by (auto simp: c' unsolved_ids_def nth_list_update updateSolved_def)
  show ?thesis
  proof (cases "batch_id b \<in> unsolved_ids c")
    case True
    from updateBatch_success_finish [OF assms True] Inr have "bc_inv c'" by auto
    with Inr un True show ?thesis by (simp add: c')
  next
    case False
    then have "unsolved_ids c' = unsolved_ids c" using un by simp
    with Inr un False bc_inv_remaining_card [OF assms] show ?thesis by (simp add: c')
  qed
qed

end
