(* ===== verification/Settings.thy ===== *)
theory Settings
  imports Prelude
begin

text \<open>
  The configuration of a run (\<^verbatim>\<open>settings_functions.hpp\<close>,
  \<^verbatim>\<open>settings_functions.cpp\<close>): the settings classes with the default arguments
  of their constructors, the JSON lookups of \<^verbatim>\<open>getSettings\<close> and
  \<^verbatim>\<open>getSettingsArray\<close>, \<^verbatim>\<open>readSettings\<close> and the file that
  \<^verbatim>\<open>generateConfigFile\<close> writes.  JSON text and its parser belong to the JSON
  library; the model starts from the parsed value.
\<close>

abbreviation MISSING_INT :: int where "MISSING_INT \<equiv> - 9999"
abbreviation MISSING_DOUBLE :: real where "MISSING_DOUBLE \<equiv> - 9999"
abbreviation OUTPUT_TIMESTEPS :: int where "OUTPUT_TIMESTEPS \<equiv> 500"
abbreviation NUM_PARTITIONS :: int where "NUM_PARTITIONS \<equiv> 8"
abbreviation OUTPUT_FREQUENCY :: int where "OUTPUT_FREQUENCY \<equiv> 1000"
abbreviation GRU_PER_JOB :: int where "GRU_PER_JOB \<equiv> 1000"

subsection \<open>The settings classes\<close>

record DistributedSettings =
  distributed_mode :: bool
  servers_list :: "string list"
  port :: int
  ds_total_hru_count :: int
  ds_num_hru_per_batch :: int
  num_nodes :: int
  load_balancing :: bool

record SummaActorSettings =
  max_gru_per_job :: int
  enable_logging :: bool
  sa_log_dir :: string

record FileAccessActorSettings =
  num_partitions_in_output_buffer :: int
  num_timesteps_in_output_buffer :: int
  output_file_suffix :: string

record JobActorSettings =
  file_manager_path :: string
  max_run_attempts :: int
  data_assimilation_mode :: bool
  batch_size :: int

record HRUActorSettings =
  print_output :: bool
  output_frequency :: int
  restart_frequency :: int

text \<open>\<^verbatim>\<open>num_gru_info.hpp\<close>: the GRU range of a job within the whole domain.\<close>

record num_gru_info =
  start_gru_local :: int
  start_gru_global :: int
  num_gru_local :: int
  num_gru_global :: int
  ngi_file_gru :: int
  use_global_for_data_structures :: bool

record settings =
  json_file :: string
  distributed_settings :: DistributedSettings
  summa_actor_settings :: SummaActorSettings
  fa_actor_settings :: FileAccessActorSettings
  job_actor_settings :: JobActorSettings
  hru_actor_settings :: HRUActorSettings

record ToleranceSettings =
  be_steps :: int
  rel_tol_temp_cas :: real
  rel_tol_temp_veg :: real
  rel_tol_wat_veg :: real
  rel_tol_temp_soil_snow :: real
  rel_tol_wat_snow :: real
  rel_tol_matric :: real
  rel_tol_aquifr :: real
  abs_tol_temp_cas :: real
  abs_tol_temp_veg :: real
  abs_tol_wat_veg :: real
  abs_tol_temp_soil_snow :: real
  abs_tol_wat_snow :: real
  abs_tol_matric :: real
  abs_tol_aquifr :: real

definition DistributedSettings_default :: DistributedSettings where
  "DistributedSettings_default =
     \<lparr>distributed_mode = False, servers_list = [], port = 0, ds_total_hru_count = 0,
      ds_num_hru_per_batch = 0, num_nodes = 0, load_balancing = False\<rparr>"

definition SummaActorSettings_default :: SummaActorSettings where
  "SummaActorSettings_default =
     \<lparr>max_gru_per_job = GRU_PER_JOB, enable_logging = False, sa_log_dir = []\<rparr>"

definition FileAccessActorSettings_default :: FileAccessActorSettings where
  "FileAccessActorSettings_default =
     \<lparr>num_partitions_in_output_buffer = NUM_PARTITIONS,
      num_timesteps_in_output_buffer = OUTPUT_TIMESTEPS, output_file_suffix = []\<rparr>"

definition JobActorSettings_default :: JobActorSettings where
  "JobActorSettings_default =
     \<lparr>file_manager_path = [], max_run_attempts = 3, data_assimilation_mode = False,
      batch_size = MISSING_INT\<rparr>"

definition HRUActorSettings_default :: HRUActorSettings where
  "HRUActorSettings_default =
     \<lparr>print_output = False, output_frequency = 100, restart_frequency = 0\<rparr>"

definition Settings_new :: "string \<Rightarrow> settings" where
  "Settings_new f =
     \<lparr>json_file = f, distributed_settings = DistributedSettings_default,
      summa_actor_settings = SummaActorSettings_default,
      fa_actor_settings = FileAccessActorSettings_default,
      job_actor_settings = JobActorSettings_default,
      hru_actor_settings = HRUActorSettings_default\<rparr>"

definition ToleranceSettings_default :: ToleranceSettings where
  "ToleranceSettings_default =
     \<lparr>be_steps = MISSING_INT,
      rel_tol_temp_cas = 0, rel_tol_temp_veg = 0, rel_tol_wat_veg = 0,
      rel_tol_temp_soil_snow = 0, rel_tol_wat_snow = 0, rel_tol_matric = 0, rel_tol_aquifr = 0,
      abs_tol_temp_cas = 0, abs_tol_temp_veg = 0, abs_tol_wat_veg = 0,
      abs_tol_temp_soil_snow = 0, abs_tol_wat_snow = 0, abs_tol_matric = 0, abs_tol_aquifr = 0\<rparr>"

subsection \<open>Rendering\<close>

abbreviation newline :: string where "newline \<equiv> [CHR 0x0A]"

text \<open>\<^verbatim>\<open>std::to_string(bool)\<close> promotes to \<^verbatim>\<open>int\<close>.\<close>

definition bool_to_string :: "bool \<Rightarrow> string" where
  "bool_to_string b = to_string (if b then 1 else 0)"

definition DistributedSettings_toString :: "DistributedSettings \<Rightarrow> string" where
  "DistributedSettings_toString s =
     ''Distributed Settings:'' @ newline @
     ''Distributed Mode: '' @ bool_to_string (distributed_mode s) @ newline @
     ''Servers List: '' @ concat (map (\<lambda>server. server @ '' '') (servers_list s)) @ newline @
     ''Port: '' @ to_string (port s) @ newline @
     ''Total HRU Count: '' @ to_string (ds_total_hru_count s) @ newline @
     ''Num HRU Per Batch: '' @ to_string (ds_num_hru_per_batch s) @ newline @
     ''Num Nodes: '' @ to_string (num_nodes s) @ newline @
     ''Load Balancing: '' @ bool_to_string (load_balancing s) @ newline"

definition SummaActorSettings_toString :: "SummaActorSettings \<Rightarrow> string" where
  "SummaActorSettings_toString s =
     ''Summa Actor Settings:'' @ newline @
     ''Max GRU Per Job: '' @ to_string (max_gru_per_job s) @ newline @
     ''Enable Logging: '' @ bool_to_string (enable_logging s) @ newline @
     ''Log Directory: '' @ sa_log_dir s @ newline"

definition FileAccessActorSettings_toString :: "FileAccessActorSettings \<Rightarrow> string" where
  "FileAccessActorSettings_toString s =
     ''File Access Actor Settings:'' @ newline @
     ''Num Partitions in Output Buffer: '' @
       to_string (num_partitions_in_output_buffer s) @ newline @
     ''Num Timesteps in Output Buffer: '' @
       to_string (num_timesteps_in_output_buffer s) @ newline @
     ''Output File Suffix: '' @ output_file_suffix s @ newline"

definition JobActorSettings_toString :: "JobActorSettings \<Rightarrow> string" where
  "JobActorSettings_toString s =
     ''Job Actor Settings:'' @ newline @
     ''File Manager Path: '' @ file_manager_path s @ newline @
     ''Max Run Attempts: '' @ to_string (max_run_attempts s) @ newline @
     ''Data Assimilation Mode: '' @ bool_to_string (data_assimilation_mode s) @ newline @
     ''Batch Size: '' @ to_string (batch_size s) @ newline"

definition HRUActorSettings_toString :: "HRUActorSettings \<Rightarrow> string" where
  "HRUActorSettings_toString s =
     ''HRU Actor Settings:'' @ newline @
     ''Print Output: '' @ bool_to_string (print_output s) @ newline @
     ''Output Frequency: '' @ to_string (output_frequency s) @ newline"

definition printSettings :: "settings \<Rightarrow> string" where
  "printSettings s =
     ''************ DISTRIBUTED_SETTINGS ************'' @ newline @
     DistributedSettings_toString (distributed_settings s) @ newline @
     ''************ SUMMA_ACTORS SETTINGS ************'' @ newline @
     SummaActorSettings_toString (summa_actor_settings s) @ newline @
     ''************ FILE_ACCESS_ACTOR SETTINGS ************'' @ newline @
     FileAccessActorSettings_toString (fa_actor_settings s) @ newline @
     ''************ JOB_ACTOR SETTINGS ************'' @ newline @
     JobActorSettings_toString (job_actor_settings s) @ newline @
     ''************ HRU_ACTOR SETTINGS ************'' @ newline @
     HRUActorSettings_toString (hru_actor_settings s) @ newline @
     ''********************************************'' @ newline @ newline"

subsection \<open>JSON lookups\<close>

datatype json =
    JNull
  | JBool bool
  | JInt int
  | JFloat real
  | JString string
  | JArray "json list"
  | JObject "(string \<times> json) list"

text \<open>\<^verbatim>\<open>find\<close>: the value under a key, nothing on a value that is not an
  object.\<close>

definition json_find :: "json \<Rightarrow> string \<Rightarrow> json option" where
  "json_find j k = (case j of JObject kvs \<Rightarrow> map_of kvs k | _ \<Rightarrow> None)"

text \<open>The conversions of \<^verbatim>\<open>json::get\<close>; \<^const>\<open>None\<close> is the \<^verbatim>\<open>type_error\<close> that
  \<^verbatim>\<open>getSettings\<close> catches.  A number is cast to a 32-bit \<^verbatim>\<open>int\<close>.\<close>

definition to_int32 :: "int \<Rightarrow> int" where
  "to_int32 i = (i + 2 ^ 31) mod 2 ^ 32 - 2 ^ 31"

definition real_trunc :: "real \<Rightarrow> int" where
  "real_trunc x = (if 0 \<le> x then \<lfloor>x\<rfloor> else \<lceil>x\<rceil>)"

definition json_get_int :: "json \<Rightarrow> int option" where
  "json_get_int j = (case j of
     JInt i \<Rightarrow> Some (to_int32 i)
   | JFloat x \<Rightarrow> Some (real_trunc x)
   | JBool b \<Rightarrow> Some (if b then 1 else 0)
   | _ \<Rightarrow> None)"

definition json_get_bool :: "json \<Rightarrow> bool option" where
  "json_get_bool j = (case j of JBool b \<Rightarrow> Some b | _ \<Rightarrow> None)"

definition json_get_string :: "json \<Rightarrow> string option" where
  "json_get_string j = (case j of JString s \<Rightarrow> Some s | _ \<Rightarrow> None)"

definition getSettings :: "(json \<Rightarrow> 'a option) \<Rightarrow> json \<Rightarrow> string \<Rightarrow> string \<Rightarrow> 'a option" where
  "getSettings get j key_1 key_2 =
     (case json_find j key_1 of
        None \<Rightarrow> None
      | Some key_1_settings \<Rightarrow>
          (case json_find key_1_settings key_2 of
             None \<Rightarrow> None
           | Some v \<Rightarrow> get v))"

text \<open>Range-based iteration over a JSON value, and \<^verbatim>\<open>host["hostname"]\<close>
  converted to a string: a missing key is inserted as null, whose conversion
  throws.\<close>

definition json_items :: "json \<Rightarrow> json list" where
  "json_items j = (case j of
     JArray xs \<Rightarrow> xs | JObject kvs \<Rightarrow> map snd kvs | JNull \<Rightarrow> [] | _ \<Rightarrow> [j])"

fun hostnames :: "json list \<Rightarrow> string list option" where
  "hostnames [] = Some []"
| "hostnames (host # hosts) =
     (case json_find host ''hostname'' of
        None \<Rightarrow> None
      | Some v \<Rightarrow>
          (case json_get_string v of
             None \<Rightarrow> None
           | Some h \<Rightarrow> map_option ((#) h) (hostnames hosts)))"

definition getSettingsArray :: "json \<Rightarrow> string \<Rightarrow> string \<Rightarrow> string list option" where
  "getSettingsArray j key_1 key_2 =
     (case json_find j key_1 of
        None \<Rightarrow> None
      | Some key_1_settings \<Rightarrow>
          (case json_find key_1_settings key_2 of
             None \<Rightarrow> None
           | Some v \<Rightarrow> hostnames (json_items v)))"

subsection \<open>readSettings and generateConfigFile\<close>

text \<open>The outcome of opening and parsing the settings file.\<close>

datatype settings_input = Not_Good | Parsed json | Parse_Error string

definition readSettings_json :: "json \<Rightarrow> settings \<Rightarrow> settings" where
  "readSettings_json j s =
     s\<lparr>distributed_settings := DistributedSettings_default
         \<lparr>distributed_mode :=
            value_or (getSettings json_get_bool j ''Distributed_Settings'' ''distributed_mode'') False,
          servers_list :=
            value_or (getSettingsArray j ''Distributed_Settings'' ''servers_list'') [],
          port := value_or (getSettings json_get_int j ''Distributed_Settings'' ''port'') 0,
          ds_total_hru_count :=
            value_or (getSettings json_get_int j ''Distributed_Settings'' ''total_hru_count'') 0,
          ds_num_hru_per_batch :=
            value_or (getSettings json_get_int j ''Distributed_Settings'' ''num_hru_per_batch'') 0\<rparr>,
       summa_actor_settings :=
         \<lparr>max_gru_per_job =
            value_or (getSettings json_get_int j ''Summa_Actor'' ''max_gru_per_job'') GRU_PER_JOB,
          enable_logging =
            value_or (getSettings json_get_bool j ''Summa_Actor'' ''enable_logging'') False,
          sa_log_dir = value_or (getSettings json_get_string j ''Summa_Actor'' ''log_dir'') []\<rparr>,
       fa_actor_settings :=
         \<lparr>num_partitions_in_output_buffer =
            value_or (getSettings json_get_int j ''File_Access_Actor''
              ''num_partitions_in_output_buffer'') NUM_PARTITIONS,
          num_timesteps_in_output_buffer =
            value_or (getSettings json_get_int j ''File_Access_Actor''
              ''num_timesteps_in_output_buffer'') OUTPUT_TIMESTEPS,
          output_file_suffix =
            value_or (getSettings json_get_string j ''File_Access_Actor''
              ''output_file_suffix'') []\<rparr>,
       job_actor_settings :=
         \<lparr>file_manager_path =
            value_or (getSettings json_get_string j ''Job_Actor'' ''file_manager_path'') [],
          max_run_attempts =
            value_or (getSettings json_get_int j ''Job_Actor'' ''max_run_attempts'') 1,
          data_assimilation_mode =
            value_or (getSettings json_get_bool j ''Job_Actor'' ''data_assimilation_mode'') False,
          batch_size =
            value_or (getSettings json_get_int j ''Job_Actor'' ''batch_size'') MISSING_INT\<rparr>,
       hru_actor_settings := HRUActorSettings_default
         \<lparr>print_output :=
            value_or (getSettings json_get_bool j ''HRU_Actor'' ''print_output'') True,
          output_frequency :=
            value_or (getSettings json_get_int j ''HRU_Actor'' ''output_frequency'')
              OUTPUT_FREQUENCY\<rparr>\<rparr>"

definition readSettings :: "settings_input \<Rightarrow> settings \<Rightarrow> settings res" where
  "readSettings inp s =
     (case inp of
        Not_Good \<Rightarrow> Inr (readSettings_json JNull s)
      | Parsed j \<Rightarrow> Inr (readSettings_json j s)
      | Parse_Error e \<Rightarrow> Inl (Thrown e))"

definition generateConfigFile :: json where
  "generateConfigFile = JObject
     [(''Summa_Actor'', JObject
        [(''max_gru_per_job'', JInt GRU_PER_JOB),
         (''enable_logging'', JBool False),
         (''log_dir'', JString [])]),
      (''File_Access_Actor'', JObject
        [(''num_partitions_in_output_buffer'', JInt NUM_PARTITIONS),
         (''num_timesteps_in_output_buffer'', JInt OUTPUT_TIMESTEPS)]),
      (''Job_Actor'', JObject
        [(''file_manager_path'', JString ''/home/username/summa_file_manager''),
         (''max_run_attempts'', JInt 1),
         (''data_assimilation_mode'', JBool False),
         (''batch_size'', JInt MISSING_INT)]),
      (''HRU_Actor'', JObject
        [(''print_output'', JBool True),
         (''output_frequency'', JInt OUTPUT_FREQUENCY),
         (''abs_tol'', JFloat 10), (''rel_tol'', JFloat 10),
         (''rel_tol_temp_cas'', JFloat 10), (''rel_tol_temp_veg'', JFloat 10),
         (''rel_tol_wat_veg'', JFloat 10), (''rel_tol_temp_soil_snow'', JFloat 10),
         (''rel_tol_wat_snow'', JFloat 10), (''rel_tol_matric'', JFloat 10),
         (''rel_tol_aquifr'', JFloat 10), (''abs_tol_temp_cas'', JFloat 10),
         (''abs_tol_temp_veg'', JFloat 10), (''abs_tol_wat_veg'', JFloat 10),
         (''abs_tol_temp_soil_snow'', JFloat 10), (''abs_tol_wat_snow'', JFloat 10),
         (''abs_tol_matric'', JFloat 10), (''abs_tol_aquifr'', JFloat 10),
         (''default_tol'', JBool True)])]"

subsection \<open>Lemmas\<close>

lemma getSettings_range: "getSettings get j k1 k2 = Some v \<Longrightarrow> \<exists>x. get x = Some v"
  by (auto simp: getSettings_def split: option.splits)

lemma to_int32_range: "- (2 ^ 31) \<le> to_int32 i \<and> to_int32 i \<le> INT_MAX"
proof -
  have "0 \<le> (i + 2 ^ 31) mod 2 ^ 32" and "(i + 2 ^ 31) mod 2 ^ 32 < (2 ^ 32 :: int)"
    by (simp_all add: pos_mod_bound)
  then show ?thesis unfolding to_int32_def INT_MAX_def by simp
qed

lemma to_int32_id: "- (2 ^ 31) \<le> i \<Longrightarrow> i \<le> INT_MAX \<Longrightarrow> to_int32 i = i"
  by (simp add: to_int32_def INT_MAX_def)

lemma json_find_JNull [simp]: "json_find JNull k = None"
  by (simp add: json_find_def)

lemma getSettings_JNull [simp]: "getSettings get JNull k1 k2 = None"
  by (simp add: getSettings_def)

lemma getSettingsArray_JNull [simp]: "getSettingsArray JNull k1 k2 = None"
  by (simp add: getSettingsArray_def)

lemmas settings_defs =
  readSettings_json_def DistributedSettings_default_def SummaActorSettings_default_def
  FileAccessActorSettings_default_def JobActorSettings_default_def HRUActorSettings_default_def
  Settings_new_def

lemma readSettings_num_nodes:
  "readSettings inp s = Inr s' \<Longrightarrow> num_nodes (distributed_settings s') = 0"
  by (auto simp: readSettings_def settings_defs split: settings_input.splits)

subsection \<open>Properties\<close>

text \<open>
  Round trip of the generated configuration: reading the file that
  \<^verbatim>\<open>generateConfigFile\<close> writes gives the same settings as running without a
  settings file, except for the placeholder path of the file manager.
\<close>

lemma generated_config_is_default:
  "readSettings (Parsed generateConfigFile) s =
   res_bind (readSettings Not_Good s)
     (\<lambda>s'. Inr (s'\<lparr>job_actor_settings := (job_actor_settings s')
        \<lparr>file_manager_path := ''/home/username/summa_file_manager''\<rparr>\<rparr>))"
  by (simp add: readSettings_def settings_defs generateConfigFile_def getSettings_def
      getSettingsArray_def json_find_def json_get_int_def json_get_bool_def json_get_string_def
      to_int32_def)

text \<open>
  No settings file sets the number of nodes or load balancing: whatever
  the file holds, a successful \<^verbatim>\<open>readSettings\<close> leaves \<^verbatim>\<open>num_nodes\<close> at 0,
  \<^verbatim>\<open>load_balancing\<close> off and \<^verbatim>\<open>restart_frequency\<close> at 0.
\<close>

lemma readSettings_never_sets_num_nodes:
  "case readSettings inp s of
     Inl e \<Rightarrow> (\<exists>m. inp = Parse_Error m \<and> e = Thrown m)
   | Inr s' \<Rightarrow> num_nodes (distributed_settings s') = 0 \<and>
              \<not> load_balancing (distributed_settings s') \<and>
              restart_frequency (hru_actor_settings s') = 0 \<and> json_file s' = json_file s"
  by (simp add: readSettings_def settings_defs split: settings_input.splits)

end
