(* ===== verification/Clients.thy ===== *)
theory Clients
  imports Batches
begin

text \<open>
  The clients connected to the lead server and their container
  (\<^verbatim>\<open>client.hpp\<close>, \<^verbatim>\<open>client.cpp\<close>, \<^verbatim>\<open>client_container.hpp\<close>,
  \<^verbatim>\<open>client_container.cpp\<close>).  The invariant \<open>cc_inv\<close> says that ids and actor
  handles are unique; the lemmas describe every operation as an operation on
  the set of clients.
\<close>

type_synonym actor_id = nat

subsection \<open>Client and Client\_Container\<close>

text \<open>\<^verbatim>\<open>batches_solved\<close> is declared but no constructor or method ever writes it;
  \<^const>\<open>None\<close> stands for its indeterminate value.\<close>

record client =
  client_actor :: actor_id
  hostname :: string
  client_id :: int
  batches_solved :: "int option"
  current_batch :: "batch option"

definition Client :: "int \<Rightarrow> actor_id \<Rightarrow> string \<Rightarrow> client" where
  "Client i a h =
     \<lparr>client_actor = a, hostname = h, client_id = i, batches_solved = None, current_batch = None\<rparr>"

definition getBatch :: "client \<Rightarrow> batch option" where
  "getBatch c = current_batch c"

definition setBatch :: "batch option \<Rightarrow> client \<Rightarrow> client" where
  "setBatch b c = c\<lparr>current_batch := b\<rparr>"

record client_container =
  client_list :: "client list"
  id_counter :: int

definition Client_Container :: client_container where
  "Client_Container = \<lparr>client_list = [], id_counter = 0\<rparr>"

definition getNumClients :: "client_container \<Rightarrow> int" where
  "getNumClients cc = int (length (client_list cc))"

definition getClientList :: "client_container \<Rightarrow> client list" where
  "getClientList cc = client_list cc"

definition getClient :: "actor_id \<Rightarrow> client_container \<Rightarrow> client option" where
  "getClient a cc = find (\<lambda>c. a = client_actor c) (client_list cc)"

definition setBatchForClient ::
  "actor_id \<Rightarrow> batch option \<Rightarrow> client_container \<Rightarrow> client_container" where
  "setBatchForClient a b cc =
     cc\<lparr>client_list := upd_first (\<lambda>c. a = client_actor c)
          (\<lambda>c. case b of Some v \<Rightarrow> setBatch (Some v) c | None \<Rightarrow> setBatch None c)
          (client_list cc)\<rparr>"

definition addClient :: "actor_id \<Rightarrow> string \<Rightarrow> client_container \<Rightarrow> client_container" where
  "addClient a h cc =
     cc\<lparr>client_list := client_list cc @ [Client (id_counter cc) a h],
        id_counter := id_counter cc + 1\<rparr>"

definition removeClient :: "client \<Rightarrow> client_container \<Rightarrow> client_container" where
  "removeClient c cc =
     cc\<lparr>client_list := erase_first (\<lambda>c'. client_id c' = client_id c) (client_list cc)\<rparr>"

definition getIdleClient :: "client_container \<Rightarrow> client option" where
  "getIdleClient cc = find (\<lambda>c. getBatch c = None) (client_list cc)"

definition cc_isEmpty :: "client_container \<Rightarrow> bool" where
  "cc_isEmpty cc \<longleftrightarrow> client_list cc = []"

definition removeClient_fromBack :: "client_container \<Rightarrow> (client \<times> client_container) res" where
  "removeClient_fromBack cc =
     (if client_list cc = [] then Inl (Thrown ''ERROR -- Client List is Empty'')
      else Inr (last (client_list cc), cc\<lparr>client_list := butlast (client_list cc)\<rparr>))"

subsection \<open>Invariant and lemmas\<close>

abbreviation clients :: "client_container \<Rightarrow> client set" where
  "clients cc \<equiv> set (client_list cc)"

definition cc_inv :: "client_container \<Rightarrow> bool" where
  "cc_inv cc \<longleftrightarrow>
     distinct (map client_actor (client_list cc)) \<and>
     distinct (map client_id (client_list cc)) \<and>
     (\<forall>c \<in> clients cc. client_id c < id_counter cc)"

lemma cc_inv_empty [simp]: "cc_inv Client_Container"
  by (simp add: cc_inv_def Client_Container_def)

lemma cc_inv_actor_unique:
  "cc_inv cc \<Longrightarrow> c \<in> clients cc \<Longrightarrow> c' \<in> clients cc \<Longrightarrow>
   client_actor c = client_actor c' \<Longrightarrow> c = c'"
  unfolding cc_inv_def distinct_map inj_on_def by blast

lemma cc_inv_id_unique:
  "cc_inv cc \<Longrightarrow> c \<in> clients cc \<Longrightarrow> c' \<in> clients cc \<Longrightarrow>
   client_id c = client_id c' \<Longrightarrow> c = c'"
  unfolding cc_inv_def distinct_map inj_on_def by blast

lemma getClient_Some_iff:
  "cc_inv cc \<Longrightarrow> getClient a cc = Some c \<longleftrightarrow> c \<in> clients cc \<and> client_actor c = a"
  unfolding getClient_def by (rule find_key_iff) (auto simp: cc_inv_def)

lemma getClient_None_iff: "getClient a cc = None \<longleftrightarrow> a \<notin> client_actor ` clients cc"
  by (auto simp: getClient_def find_None_iff)

lemma setBatchForClient_inv: "cc_inv cc \<Longrightarrow> cc_inv (setBatchForClient a b cc)"
proof -
  let ?f = "\<lambda>c. case b of Some v \<Rightarrow> setBatch (Some v) c | None \<Rightarrow> setBatch None c"
  have f: "?f = setBatch b" by (cases b) auto
  assume inv: "cc_inv cc"
  have "map client_actor (upd_first P (setBatch b) xs) = map client_actor xs"
    and "map client_id (upd_first P (setBatch b) xs) = map client_id xs" for P xs
    by (simp_all add: map_upd_first setBatch_def)
  moreover have "\<forall>c \<in> set (upd_first P (setBatch b) (client_list cc)). client_id c < id_counter cc"
    for P
    using inv set_upd_first_subset [of P "setBatch b" "client_list cc"]
    by (auto simp: setBatch_def cc_inv_def)
  ultimately show "cc_inv (setBatchForClient a b cc)"
    using inv by (simp add: cc_inv_def setBatchForClient_def f)
qed

lemma clients_setBatchForClient:
  assumes "cc_inv cc"
  shows "clients (setBatchForClient a b cc) =
    {c \<in> clients cc. client_actor c \<noteq> a} \<union> setBatch b ` {c \<in> clients cc. client_actor c = a}"
proof -
  have f: "(\<lambda>c. case b of Some v \<Rightarrow> setBatch (Some v) c | None \<Rightarrow> setBatch None c) = setBatch b"
    by (cases b) auto
  show ?thesis unfolding setBatchForClient_def f
    using assms by (simp add: cc_inv_def) (rule set_upd_first_key, auto)
qed

lemma addClient_inv:
  "cc_inv cc \<Longrightarrow> getClient a cc = None \<Longrightarrow> cc_inv (addClient a h cc)"
  by (auto simp: cc_inv_def addClient_def Client_def getClient_None_iff)

lemma clients_addClient [simp]:
  "clients (addClient a h cc) = insert (Client (id_counter cc) a h) (clients cc)"
  by (simp add: addClient_def)

lemma removeClient_inv: "cc_inv cc \<Longrightarrow> cc_inv (removeClient c cc)"
  using set_erase_first_subset [of "\<lambda>c'. client_id c' = client_id c" "client_list cc"]
  by (auto simp: cc_inv_def removeClient_def intro: distinct_map_erase_first)

lemma clients_removeClient:
  assumes "cc_inv cc" and "c \<in> clients cc"
  shows "clients (removeClient c cc) = clients cc - {c}"
proof -
  have "clients (removeClient c cc) = {c' \<in> clients cc. client_id c' \<noteq> client_id c}"
    using assms(1) unfolding removeClient_def cc_inv_def
    by simp (rule set_erase_first_key, auto)
  with assms cc_inv_id_unique [OF assms(1)] show ?thesis by auto
qed

lemma getIdleClient_Some: "getIdleClient cc = Some c \<Longrightarrow> c \<in> clients cc \<and> current_batch c = None"
  unfolding getIdleClient_def getBatch_def by (drule find_Some_in) auto

lemma getIdleClient_None_iff: "getIdleClient cc = None \<longleftrightarrow> (\<forall>c \<in> clients cc. current_batch c \<noteq> None)"
  by (auto simp: getIdleClient_def getBatch_def find_None_iff)

subsection \<open>The registry interface\<close>

text \<open>What the lead server relies on: a registry of the connected actors keyed
  by their handle.\<close>

locale client_registry =
  fixes reg_ok :: "'r \<Rightarrow> bool"
    and members :: "'r \<Rightarrow> client set"
    and look :: "actor_id \<Rightarrow> 'r \<Rightarrow> client option"
    and join :: "actor_id \<Rightarrow> string \<Rightarrow> 'r \<Rightarrow> 'r"
    and assign :: "actor_id \<Rightarrow> batch option \<Rightarrow> 'r \<Rightarrow> 'r"
    and drop_client :: "client \<Rightarrow> 'r \<Rightarrow> 'r"
  assumes look_iff: "reg_ok r \<Longrightarrow> look a r = Some c \<longleftrightarrow> c \<in> members r \<and> client_actor c = a"
    and join_ok: "reg_ok r \<Longrightarrow> look a r = None \<Longrightarrow> reg_ok (join a h r)"
    and join_members: "reg_ok r \<Longrightarrow> look a r = None \<Longrightarrow>
      \<exists>i. members (join a h r) = insert (Client i a h) (members r)"
    and assign_ok: "reg_ok r \<Longrightarrow> reg_ok (assign a b r)"
    and assign_members: "reg_ok r \<Longrightarrow> members (assign a b r) =
      {c \<in> members r. client_actor c \<noteq> a} \<union> setBatch b ` {c \<in> members r. client_actor c = a}"
    and drop_ok: "reg_ok r \<Longrightarrow> reg_ok (drop_client c r)"
    and drop_members: "reg_ok r \<Longrightarrow> c \<in> members r \<Longrightarrow> members (drop_client c r) = members r - {c}"
begin

lemma look_eqI:
  assumes "reg_ok r" and "reg_ok r'"
    and "\<And>c. client_actor c = a \<Longrightarrow> c \<in> members r' \<longleftrightarrow> c \<in> members r"
  shows "look a r' = look a r"
proof -
  have "look a r' = Some c \<longleftrightarrow> look a r = Some c" for c
    using assms look_iff by blast
  then show ?thesis by (cases "look a r"; cases "look a r'") auto
qed

lemma look_None_iff: "reg_ok r \<Longrightarrow> look a r = None \<longleftrightarrow> (\<forall>c \<in> members r. client_actor c \<noteq> a)"
  using look_iff [of r a] by (cases "look a r") auto

lemma look_assign:
  assumes "reg_ok r"
  shows "look a' (assign a b r) = (if a' = a then map_option (setBatch b) (look a r) else look a' r)"
proof -
  have ok: "reg_ok (assign a b r)" using assms by (rule assign_ok)
  have act: "client_actor (setBatch b c) = client_actor c" for c by (simp add: setBatch_def)
  show ?thesis
  proof (cases "a' = a")
    case False
    then show ?thesis
      by (auto intro!: look_eqI [OF assms ok] simp: assign_members [OF assms] act)
  next
    case True
    show ?thesis
    proof (cases "look a r")
      case None
      then have "look a (assign a b r) = None"
        using look_None_iff [OF ok] look_None_iff [OF assms] assign_members [OF assms] act by auto
      with True None show ?thesis by simp
    next
      case (Some c)
      then have "look a (assign a b r) = Some (setBatch b c)"
        using look_iff [OF ok] look_iff [OF assms] assign_members [OF assms] act by auto
      with True Some show ?thesis by simp
    qed
  qed
qed

lemma look_join:
  assumes "reg_ok r" and "look a r = None"
  shows "\<exists>i. \<forall>a'. look a' (join a h r) = (if a' = a then Some (Client i a h) else look a' r)"
proof -
  have ok: "reg_ok (join a h r)" using assms by (rule join_ok)
  obtain i where m: "members (join a h r) = insert (Client i a h) (members r)"
    using join_members [OF assms] by blast
  have act: "client_actor (Client i a h) = a" by (simp add: Client_def)
  have "look a (join a h r) = Some (Client i a h)" using look_iff [OF ok] m act by auto
  moreover have "look a' (join a h r) = look a' r" if "a' \<noteq> a" for a'
    using that act m by (intro look_eqI [OF assms(1) ok]) auto
  ultimately show ?thesis by auto
qed

lemma look_drop:
  assumes "reg_ok r" and "look a r = Some c"
  shows "look a' (drop_client c r) = (if a' = a then None else look a' r)"
proof -
  have ok: "reg_ok (drop_client c r)" using assms(1) by (rule drop_ok)
  have c: "c \<in> members r" "client_actor c = a" using assms look_iff by auto
  have m: "members (drop_client c r) = members r - {c}" using assms(1) c(1) by (rule drop_members)
  have "c' = c" if "c' \<in> members r" "client_actor c' = a" for c'
    using that assms look_iff [OF assms(1), of a c'] by simp
  then have "look a (drop_client c r) = None" using look_None_iff [OF ok] m by auto
  moreover have "look a' (drop_client c r) = look a' r" if "a' \<noteq> a"
    using that c m by (intro look_eqI [OF assms(1) ok]) auto
  ultimately show ?thesis by auto
qed

end

interpretation registry: client_registry cc_inv clients getClient addClient setBatchForClient
  removeClient
  by unfold_locales
     (auto simp: getClient_Some_iff addClient_inv setBatchForClient_inv
        clients_setBatchForClient removeClient_inv clients_removeClient)

subsection \<open>Properties\<close>

text \<open>
  C25. The client container is a registry keyed by the actor handle.  From a
  well-formed container, every operation the server uses keeps it well-formed
  (unique handles and ids), and a lookup returns: after \<^verbatim>\<open>addClient\<close> the new
  client without a batch, after \<^verbatim>\<open>setBatchForClient\<close> the same client with the
  new batch while other clients are unaffected, after \<^verbatim>\<open>removeClient\<close> nothing.
\<close>

theorem client_container_registry:
  assumes "cc_inv cc"
  shows "(getClient a cc = None \<longrightarrow>
      cc_inv (addClient a h cc) \<and> (\<exists>i. getClient a (addClient a h cc) = Some (Client i a h))) \<and>
    cc_inv (setBatchForClient a b cc) \<and>
    getClient a' (setBatchForClient a b cc) =
      (if a' = a then map_option (setBatch b) (getClient a cc) else getClient a' cc) \<and>
    (\<forall>c. getClient a cc = Some c \<longrightarrow>
      cc_inv (removeClient c cc) \<and> getClient a (removeClient c cc) = None \<and>
      clients (removeClient c cc) = clients cc - {c})"
proof (intro conjI impI allI)
  show "getClient a' (setBatchForClient a b cc) =
      (if a' = a then map_option (setBatch b) (getClient a cc) else getClient a' cc)"
    using assms by (rule registry.look_assign)
next
  fix c
  assume "getClient a cc = Some c"
  then show "getClient a (removeClient c cc) = None"
    and "clients (removeClient c cc) = clients cc - {c}"
    using assms registry.look_drop clients_removeClient by (auto simp: getClient_Some_iff)
next
  assume "getClient a cc = None"
  with registry.look_join [OF assms this, of h] show "\<exists>i. getClient a (addClient a h cc) = Some (Client i a h)"
    by auto
qed (use assms in \<open>auto simp: addClient_inv setBatchForClient_inv removeClient_inv\<close>)

theorem client_container_registry_witness:
  "getClient 7 (addClient 7 ''node'' Client_Container) = Some (Client 0 7 ''node'') \<and>
   getClient 7 (removeClient (Client 0 7 ''node'') (addClient 7 ''node'' Client_Container)) = None"
proof -
  have e: "getClient 7 Client_Container = None"
    by (simp add: getClient_def Client_Container_def)
  have c: "getClient 7 (addClient 7 ''node'' Client_Container) = Some (Client 0 7 ''node'')"
    by (simp add: getClient_def addClient_def Client_Container_def Client_def)
  have "cc_inv (addClient 7 ''node'' Client_Container)"
    using client_container_registry [of Client_Container 7 "''node''"] e by simp
  from client_container_registry [OF this] c show ?thesis by blast
qed

end
