(* ===== verification/Server_Messages.thy ===== *)
theory Server_Messages
  imports Clients Settings
begin

text \<open>
  The messages that the lead server, the backup servers, the clients and the
  SUMMA actors exchange (the atoms of \<^verbatim>\<open>message_atoms.hpp\<close> with the argument
  types they are sent with), and the effects a handler has.  The actor
  framework dispatches a message on the exact list of its argument types, so
  there is one constructor for each list of types that the sources send; a
  handler that has no case for a constructor leaves the message to the
  framework, which reports it as unexpected and drops it.
\<close>

type_synonym backup_list = "(actor_id \<times> string) list"

text \<open>Serialization of a \<^verbatim>\<open>BatchContainer\<close>: \<^verbatim>\<open>inspect\<close> lists every member but
  \<^verbatim>\<open>start_hru_\<close>, which on the receiving side keeps its default 1.\<close>

definition BatchContainer_inspect :: "batch_container \<Rightarrow> batch_container" where
  "BatchContainer_inspect c =
     \<lparr>bc_start_hru = 1, total_hru_count = total_hru_count c,
      num_hru_per_batch = num_hru_per_batch c, batches_remaining = batches_remaining c,
      batch_list = batch_list c\<rparr>"

text \<open>The two \<open>Addressed\<close> constructors are the messages whose first element is the
  receiver itself, as \<^verbatim>\<open>sendAllBackupServersList\<close> and \<^verbatim>\<open>summa_backup_server\<close>
  build them.\<close>

datatype server_msg =
    Connect_To_Server actor_id string
  | Connected_To_Server settings backup_list
  | Connect_As_Backup actor_id string
  | Connect_As_Backup_Ack
  | Addressed_Connect_As_Backup actor_id actor_id string
  | Is_Lead_Server actor_id
  | Is_Lead_Server_Reply bool actor_id
  | Update_Backup_Server_List backup_list
  | Addressed_Update_Backup_Server_List actor_id backup_list
  | Update_With_Current_State batch_container client_container
  | New_Client actor_id string
  | Client_Removed client
  | Assigned_Batch batch
  | Done_Batch actor_id batch
  | Done_Batch_Times real real real
  | New_Assigned_Batch actor_id batch
  | No_More_Batches actor_id
  | Connect_Atom string int
  | Time_To_Exit

datatype server_effect =
    Send actor_id server_msg
  | Monitor actor_id
  | Request_Connect string int     \<comment> \<open>\<^verbatim>\<open>connect_atom\<close> request to the middleman\<close>
  | Publish int
  | Write_Batch string string batch \<comment> \<open>call of \<^verbatim>\<open>writeBatchToFile\<close>: file, host, batch\<close>
  | Spawn_Summa_Actor int int settings string
  | Quit
  | Unexpected server_msg          \<comment> \<open>no handler matches\<close>

type_synonym 's outcome = "('s \<times> server_effect list) res"

definition sent_to :: "actor_id \<Rightarrow> server_effect list \<Rightarrow> server_msg list" where
  "sent_to a es = concat (map (\<lambda>e. case e of Send b m \<Rightarrow> if a = b then [m] else [] | _ \<Rightarrow> []) es)"

lemma sent_to_simps [simp]:
  "sent_to a [] = []"
  "sent_to a (Send b m # es) = (if a = b then m # sent_to a es else sent_to a es)"
  "sent_to a (Monitor b # es) = sent_to a es"
  "sent_to a (Write_Batch f h wb # es) = sent_to a es"
  "sent_to a (Quit # es) = sent_to a es"
  "sent_to a (xs @ es) = sent_to a xs @ sent_to a es"
  by (simp_all add: sent_to_def)

text \<open>\<^verbatim>\<open>for (auto& backup_server : backup_servers_list_)\<close> with the messages the
  body sends to each.\<close>

definition tell_backups :: "backup_list \<Rightarrow> server_msg list \<Rightarrow> server_effect list" where
  "tell_backups bs ms = concat (map (\<lambda>(a, h). map (Send a) ms) bs)"

lemma sent_to_map_Send [simp]: "sent_to a (map (Send b) ms) = (if a = b then ms else [])"
  by (induction ms) auto

lemma sent_to_tell_backups:
  "distinct (map fst bs) \<Longrightarrow>
   sent_to a (tell_backups bs ms) = (if a \<in> fst ` set bs then ms else [])"
proof (induction bs)
  case (Cons b bs)
  then show ?case
    by (cases b) (auto simp: tell_backups_def image_iff)
qed (simp add: tell_backups_def)

lemma set_tell_backups:
  "set (tell_backups bs ms) = {Send a m | a m. a \<in> fst ` set bs \<and> m \<in> set ms}"
  by (auto simp: tell_backups_def image_iff) force+

end
