(* ===== verification/Dispatch.thy ===== *)
theory Dispatch
  imports Prelude
begin

text \<open>
  The abstract specification of batch dispatching, which the lead server
  implements: a set of connected workers, the batch each of them works on, the
  batches that are not finished yet (\<open>todo\<close>) and, of those, the ones nobody
  works on (\<open>spare\<close>).  The server theory shows that every handler of the lead
  server is a step of this relation.
\<close>

record 'w dispatch =
  conn :: "'w set"
  holds :: "'w \<Rightarrow> int option"
  todo :: "int set"
  spare :: "int set"

text \<open>A worker that joins or finishes takes a spare batch if there is one; the
  batch of a lost worker goes to an idle worker if there is one; finishing the
  last batch dismisses all workers.\<close>

inductive dstep :: "'w dispatch \<Rightarrow> 'w dispatch \<Rightarrow> bool" where
  stutter: "dstep d d"
| join_take: "a \<notin> conn d \<Longrightarrow> i \<in> spare d \<Longrightarrow>
    dstep d (d\<lparr>conn := insert a (conn d), holds := (holds d)(a := Some i), spare := spare d - {i}\<rparr>)"
| join_wait: "a \<notin> conn d \<Longrightarrow> spare d = {} \<Longrightarrow> holds d a = None \<Longrightarrow>
    dstep d (d\<lparr>conn := insert a (conn d)\<rparr>)"
| finish_take: "holds d a = Some i \<Longrightarrow> j \<in> spare d \<Longrightarrow>
    dstep d (d\<lparr>holds := (holds d)(a := Some j), todo := todo d - {i}, spare := spare d - {j}\<rparr>)"
| finish_wait: "holds d a = Some i \<Longrightarrow> spare d = {} \<Longrightarrow> todo d \<noteq> {i} \<Longrightarrow>
    dstep d (d\<lparr>holds := (holds d)(a := None), todo := todo d - {i}\<rparr>)"
| finish_last: "holds d a = Some i \<Longrightarrow> todo d = {i} \<Longrightarrow>
    dstep d (d\<lparr>conn := {}, holds := (\<lambda>_. None), todo := {}\<rparr>)"
| lose_keep: "holds d a = Some i \<Longrightarrow> (\<And>a'. a' \<in> conn d \<Longrightarrow> holds d a' \<noteq> None) \<Longrightarrow>
    dstep d (d\<lparr>conn := conn d - {a}, holds := (holds d)(a := None), spare := insert i (spare d)\<rparr>)"
| lose_pass: "holds d a = Some i \<Longrightarrow> a' \<in> conn d \<Longrightarrow> holds d a' = None \<Longrightarrow>
    j \<in> insert i (spare d) \<Longrightarrow>
    dstep d (d\<lparr>conn := conn d - {a}, holds := (holds d)(a := None, a' := Some j),
               spare := insert i (spare d) - {j}\<rparr>)"

text \<open>The invariant: only connected workers hold batches, no two hold the same
  one, the held batches are exactly the unfinished ones that are not spare, and
  there is no spare batch while a worker is idle.\<close>

definition dispatch_ok :: "'w set \<Rightarrow> ('w \<Rightarrow> int option) \<Rightarrow> int set \<Rightarrow> int set \<Rightarrow> bool" where
  "dispatch_ok C H T S \<longleftrightarrow>
     (\<forall>a i. H a = Some i \<longrightarrow> a \<in> C \<and> i \<in> T \<and> i \<notin> S) \<and>
     (\<forall>a a' i. H a = Some i \<longrightarrow> H a' = Some i \<longrightarrow> a = a') \<and>
     (\<forall>i. i \<in> S \<longrightarrow> i \<in> T) \<and>
     (\<forall>i. i \<in> T \<longrightarrow> i \<in> S \<or> (\<exists>a. H a = Some i)) \<and>
     (\<forall>i a. i \<in> S \<longrightarrow> a \<in> C \<longrightarrow> (\<exists>j. H a = Some j))"

definition dinv :: "'w dispatch \<Rightarrow> bool" where
  "dinv d \<longleftrightarrow> dispatch_ok (conn d) (holds d) (todo d) (spare d)"

lemma dispatch_okI:
  assumes "\<And>a i. H a = Some i \<Longrightarrow> a \<in> C \<and> i \<in> T \<and> i \<notin> S"
    and "\<And>a a' i. H a = Some i \<Longrightarrow> H a' = Some i \<Longrightarrow> a = a'"
    and "\<And>i. i \<in> S \<Longrightarrow> i \<in> T"
    and "\<And>i. i \<in> T \<Longrightarrow> i \<notin> S \<Longrightarrow> \<exists>a. H a = Some i"
    and "\<And>i a. i \<in> S \<Longrightarrow> a \<in> C \<Longrightarrow> H a \<noteq> None"
  shows "dispatch_ok C H T S"
  using assms unfolding dispatch_ok_def by blast

lemma dispatch_okD:
  assumes "dispatch_ok C H T S"
  shows "H a = Some i \<Longrightarrow> a \<in> C \<and> i \<in> T \<and> i \<notin> S"
    and "H a = Some i \<Longrightarrow> H a' = Some i \<Longrightarrow> a = a'"
    and "i \<in> S \<Longrightarrow> i \<in> T"
    and "i \<in> T \<Longrightarrow> i \<notin> S \<Longrightarrow> \<exists>a. H a = Some i"
    and "i \<in> S \<Longrightarrow> a \<in> C \<Longrightarrow> H a \<noteq> None"
  using assms unfolding dispatch_ok_def by blast+

text \<open>Every step changes what one worker holds; \<open>old\<close> and \<open>new\<close> are what it
  held and holds.\<close>

lemma dispatch_ok_upd:
  assumes ok: "dispatch_ok C H T S"
    and old: "\<And>k. k \<in> T' \<Longrightarrow> k \<notin> S' \<Longrightarrow> H a = Some k \<Longrightarrow> x = Some k"
    and keep: "\<And>k. k \<in> T \<Longrightarrow> k \<notin> S \<Longrightarrow> H a \<noteq> Some k \<Longrightarrow> k \<in> T' \<and> k \<notin> S'"
    and sub: "\<And>k. k \<in> T' \<Longrightarrow> k \<notin> S' \<Longrightarrow> x \<noteq> Some k \<Longrightarrow> k \<in> T \<and> k \<notin> S"
    and new: "\<And>k. x = Some k \<Longrightarrow> a \<in> C' \<and> k \<in> T' \<and> k \<notin> S' \<and> (k \<in> S \<or> k \<notin> T \<or> H a = Some k)"
    and st: "S' \<subseteq> T'"
    and cc: "C - {a} \<subseteq> C'"
    and idle: "\<And>k b. k \<in> S' \<Longrightarrow> b \<in> C' \<Longrightarrow> (if b = a then x else H b) \<noteq> None"
  shows "dispatch_ok C' (H(a := x)) T' S'"
proof (rule dispatch_okI)
  fix b k
  assume "(H(a := x)) b = Some k"
  then show "b \<in> C' \<and> k \<in> T' \<and> k \<notin> S'"
  proof (cases "b = a")
    case False
    with \<open>(H(a := x)) b = Some k\<close> have Hb: "H b = Some k" by simp
    with dispatch_okD(2) [OF ok, of b k a] False have "H a \<noteq> Some k" by auto
    with dispatch_okD(1) [OF ok Hb] keep cc False show ?thesis by auto
  qed (use new in auto)
next
  fix b b' k
  assume h: "(H(a := x)) b = Some k" "(H(a := x)) b' = Some k"
  have *: "H c \<noteq> Some k" if "x = Some k" "c \<noteq> a" for c
    using new [OF that(1)] dispatch_okD(1) [OF ok, of c k] dispatch_okD(2) [OF ok, of c k a] that(2)
    by auto
  with h dispatch_okD(2) [OF ok] show "b = b'" by (auto split: if_splits)
next
  fix k
  assume k: "k \<in> T'" "k \<notin> S'"
  show "\<exists>b. (H(a := x)) b = Some k"
  proof (cases "x = Some k")
    case False
    with sub k dispatch_okD(4) [OF ok] obtain b where b: "H b = Some k" by blast
    with old [OF k] False have "b \<noteq> a" by auto
    with b show ?thesis by auto
  qed auto
next
  fix k b
  assume "k \<in> S'" "b \<in> C'"
  with idle [of k b] show "(H(a := x)) b \<noteq> None" by simp
qed (use st in auto)

lemma dispatch_ok_give:
  assumes "dispatch_ok C H T S" and "i \<in> S" and "H a = None"
  shows "dispatch_ok (insert a C) (H(a := Some i)) T (S - {i})"
  by (rule dispatch_ok_upd [OF assms(1)]) (use assms dispatch_okD [OF assms(1)] in auto)

lemma dispatch_ok_finish:
  assumes "dispatch_ok C H T S" and "H a = Some i" and "S = {}"
  shows "dispatch_ok C (H(a := None)) (T - {i}) S"
  by (rule dispatch_ok_upd [OF assms(1)]) (use assms in auto)

lemma dispatch_ok_finish_take:
  assumes "dispatch_ok C H T S" and "H a = Some i" and "j \<in> S"
  shows "dispatch_ok C (H(a := Some j)) (T - {i}) (S - {j})"
  by (rule dispatch_ok_upd [OF assms(1)]) (use assms dispatch_okD [OF assms(1)] in auto)

lemma dispatch_ok_lose:
  assumes "dispatch_ok C H T S" and "H a = Some i" and "\<And>a'. a' \<in> C \<Longrightarrow> H a' \<noteq> None"
  shows "dispatch_ok (C - {a}) (H(a := None)) T (insert i S)"
  by (rule dispatch_ok_upd [OF assms(1)]) (use assms dispatch_okD [OF assms(1)] in auto)

lemma dispatch_ok_pass:
  assumes "dispatch_ok C H T S" and "H a = Some i" and "a' \<in> C" and "H a' = None"
    and "j \<in> insert i S"
  shows "dispatch_ok (C - {a}) (H(a := None, a' := Some j)) T (insert i S - {j})"
proof -
  have S: "S = {}" using dispatch_okD(5) [OF assms(1) _ assms(3)] assms(4) by blast
  have ne: "a' \<noteq> a" using assms(2,4) by auto
  from S assms(5) have j: "j = i" by auto
  have "dispatch_ok (C - {a}) ((H(a' := Some i))(a := None)) T {}"
  proof (rule dispatch_okI)
    fix k
    assume "k \<in> T"
    then obtain b where "H b = Some k" using dispatch_okD(4) [OF assms(1)] S by blast
    then show "\<exists>b. ((H(a' := Some i))(a := None)) b = Some k"
      using ne assms(2,4) by (cases "b = a") (auto intro: exI [of _ a'] exI [of _ b])
  qed (use ne assms dispatch_okD [OF assms(1)] S in \<open>auto split: if_splits\<close>)
  then show ?thesis using S j ne by (simp add: fun_upd_twist)
qed

theorem dstep_dinv: "dstep d d' \<Longrightarrow> dinv d \<Longrightarrow> dinv d'"
proof (induction rule: dstep.induct)
  case (join_take a d i)
  then have "holds d a = None" unfolding dinv_def dispatch_ok_def by (cases "holds d a") auto
  with join_take show ?case by (simp add: dinv_def dispatch_ok_give)
next
  case (join_wait a d)
  then show ?case by (simp add: dinv_def dispatch_ok_def)
next
  case (finish_last d a i)
  then have ok: "dispatch_ok (conn d) (holds d) {i} (spare d)" by (simp add: dinv_def)
  with finish_last(1) have "spare d = {}"
    using dispatch_okD(1) [OF ok finish_last(1)] dispatch_okD(3) [OF ok] by auto
  then show ?case by (simp add: dinv_def dispatch_ok_def)
qed (simp_all add: dinv_def dispatch_ok_finish dispatch_ok_finish_take dispatch_ok_lose
       dispatch_ok_pass)

text \<open>Some connected worker is busy whenever there is work and somebody
  connected.\<close>

lemma dinv_progress: "dinv d \<Longrightarrow> todo d \<noteq> {} \<Longrightarrow> conn d \<noteq> {} \<Longrightarrow> \<exists>a \<in> conn d. holds d a \<noteq> None"
  using dispatch_okD(4,5) [of "conn d" "holds d" "todo d" "spare d"]
    dispatch_okD(1) [of "conn d" "holds d" "todo d" "spare d"]
  unfolding dinv_def by (metis all_not_in_conv option.distinct(1))

lemma dinv_holds: "dinv d \<Longrightarrow> holds d a = Some i \<Longrightarrow> i \<in> todo d \<and> i \<notin> spare d \<and> a \<in> conn d"
  by (auto simp: dinv_def dispatch_ok_def)

end
