(* ===== verification/Server_Refinement.thy ===== *)
theory Server_Refinement
  imports Summa_Server Dispatch
begin

text \<open>
  The lead server implements the dispatch specification: \<open>server_abs\<close> reads the
  abstract state off the two containers, every handler called along the
  protocol returns and is a step of \<^const>\<open>dstep\<close>, and runs of the server are
  related to the rows it records.
\<close>

subsection \<open>Abstraction\<close>

definition conn_of :: "client_container \<Rightarrow> actor_id set" where
  "conn_of cc = {a. getClient a cc \<noteq> None}"

definition holds_of :: "client_container \<Rightarrow> actor_id \<Rightarrow> int option" where
  "holds_of cc a = Option.bind (getClient a cc) (\<lambda>c. map_option batch_id (current_batch c))"

definition server_abs :: "server_state \<Rightarrow> actor_id dispatch" where
  "server_abs s = \<lparr>conn = conn_of (srv_clients s), holds = holds_of (srv_clients s),
                   todo = unsolved_ids (srv_batches s), spare = free_ids (srv_batches s)\<rparr>"

definition server_inv :: "server_state \<Rightarrow> bool" where
  "server_inv s \<longleftrightarrow> cc_inv (srv_clients s) \<and> bc_inv (srv_batches s) \<and> dinv (server_abs s)"

lemma server_abs_simps [simp]:
  "conn (server_abs s) = conn_of (srv_clients s)"
  "holds (server_abs s) = holds_of (srv_clients s)"
  "todo (server_abs s) = unsolved_ids (srv_batches s)"
  "spare (server_abs s) = free_ids (srv_batches s)"
  by (simp_all add: server_abs_def)

lemma abs_assign:
  assumes "cc_inv cc" and "a \<in> conn_of cc"
  shows "conn_of (setBatchForClient a b cc) = conn_of cc"
    and "holds_of (setBatchForClient a b cc) = (holds_of cc)(a := map_option batch_id b)"
  using assms
  by (auto simp: conn_of_def holds_of_def fun_eq_iff registry.look_assign setBatch_def)

lemma abs_join:
  assumes "cc_inv cc" and "a \<notin> conn_of cc"
  shows "conn_of (addClient a h cc) = insert a (conn_of cc)"
    and "holds_of (addClient a h cc) = holds_of cc"
proof -
  from assms(2) have n: "getClient a cc = None" by (simp add: conn_of_def)
  with registry.look_join [OF assms(1) n, of h] obtain i where
    look: "\<And>a'. getClient a' (addClient a h cc) = (if a' = a then Some (Client i a h) else getClient a' cc)"
    by blast
  then show "conn_of (addClient a h cc) = insert a (conn_of cc)"
    by (auto simp: conn_of_def)
  show "holds_of (addClient a h cc) = holds_of cc"
    using look n by (auto simp: holds_of_def fun_eq_iff Client_def)
qed

lemma abs_drop:
  assumes "cc_inv cc" and "getClient a cc = Some c"
  shows "conn_of (removeClient c cc) = conn_of cc - {a}"
    and "holds_of (removeClient c cc) = (holds_of cc)(a := None)"
  using registry.look_drop [OF assms]
  by (auto simp: conn_of_def holds_of_def fun_eq_iff)

lemma holds_None_free: "a \<notin> conn_of cc \<Longrightarrow> holds_of cc a = None"
  by (simp add: conn_of_def holds_of_def)

lemma holds_Some: "holds_of cc a = Some i \<longleftrightarrow>
   (\<exists>c b. getClient a cc = Some c \<and> current_batch c = Some b \<and> batch_id b = i)"
  by (auto simp: holds_of_def bind_eq_Some_conv)

lemma getIdleClient_abs:
  assumes "cc_inv cc"
  shows "getIdleClient cc = Some c \<Longrightarrow> client_actor c \<in> conn_of cc \<and> holds_of cc (client_actor c) = None"
    and "getIdleClient cc = None \<Longrightarrow> a \<in> conn_of cc \<Longrightarrow> holds_of cc a \<noteq> None"
proof -
  assume "getIdleClient cc = Some c"
  then have "c \<in> clients cc" "current_batch c = None" by (auto dest: getIdleClient_Some)
  then have "getClient (client_actor c) cc = Some c" using assms by (simp add: getClient_Some_iff)
  with \<open>current_batch c = None\<close>
  show "client_actor c \<in> conn_of cc \<and> holds_of cc (client_actor c) = None"
    by (simp add: conn_of_def holds_of_def)
next
  assume *: "getIdleClient cc = None" and "a \<in> conn_of cc"
  then obtain c where c: "getClient a cc = Some c" by (auto simp: conn_of_def)
  then have "c \<in> clients cc" using assms by (simp add: getClient_Some_iff)
  with * c show "holds_of cc a \<noteq> None" by (auto simp: getIdleClient_None_iff holds_of_def)
qed

lemma tell_clients_exit_eq:
  "tell_clients_exit cc =
     (map (\<lambda>c. Send (client_actor c) Time_To_Exit) (rev (client_list cc)), cc\<lparr>client_list := []\<rparr>)"
proof (induction cc rule: tell_clients_exit.induct)
  case (1 cc)
  show ?case
  proof (cases "client_list cc = []")
    case True
    then show ?thesis by (subst tell_clients_exit.simps) (simp add: cc_isEmpty_def)
  next
    case False
    then obtain xs c where cl: "client_list cc = xs @ [c]" by (cases "client_list cc" rule: rev_cases) auto
    then have rm: "removeClient_fromBack cc = Inr (c, cc\<lparr>client_list := xs\<rparr>)"
      by (simp add: removeClient_fromBack_def)
    with False 1 cl have "tell_clients_exit (cc\<lparr>client_list := xs\<rparr>) =
        (map (\<lambda>c. Send (client_actor c) Time_To_Exit) (rev xs), cc\<lparr>client_list := []\<rparr>)"
      by (simp add: cc_isEmpty_def)
    with False cl rm show ?thesis
      by (subst tell_clients_exit.simps) (simp add: cc_isEmpty_def)
  qed
qed

subsection \<open>Simulation of the handlers\<close>

lemma draw_cases:
  assumes "bc_inv bc"
  obtains (none) "getUnsolvedBatch bc = (None, bc)" "free_ids bc = {}"
  | (some) b bc' where "getUnsolvedBatch bc = (Some b, bc')" "batch_id b \<in> free_ids bc" "bc_inv bc'"
      "free_ids bc' = free_ids bc - {batch_id b}" "unsolved_ids bc' = unsolved_ids bc"
proof (cases "free_ids bc = {}")
  case True
  obtain r bc' where d: "getUnsolvedBatch bc = (r, bc')" by fastforce
  show ?thesis
  proof (cases r)
    case None
    with d getUnsolvedBatch_None [of bc bc'] show ?thesis by (intro none) auto
  next
    case (Some b)
    with d getUnsolvedBatch_Some(1) [OF assms, of b bc'] True show ?thesis by simp
  qed
next
  case False
  with assms show ?thesis by (rule stats_pool.draw_available) (rule some)
qed

lemma on_connect_to_server_sim:
  assumes "cc_inv (srv_clients s)" and "bc_inv (srv_batches s)"
    and "on_connect_to_server now a h s = (s', es)"
  shows "dstep (server_abs s) (server_abs s')" and "cc_inv (srv_clients s')"
    and "bc_inv (srv_batches s')" and "unsolved_ids (srv_batches s') = unsolved_ids (srv_batches s)"
    and "current_behavior s' = current_behavior s"
proof -
  let ?s = "if \<not> started_simulation s then s\<lparr>started_simulation := True, start_time := now\<rparr> else s"
  let ?cc = "srv_clients s" and ?bc = "srv_batches s"
  have same: "srv_clients ?s = ?cc" "srv_batches ?s = ?bc" "current_behavior ?s = current_behavior s"
    by auto
  have "dstep (server_abs s) (server_abs s') \<and> cc_inv (srv_clients s') \<and> bc_inv (srv_batches s') \<and>
    unsolved_ids (srv_batches s') = unsolved_ids ?bc \<and> current_behavior s' = current_behavior s"
  proof (cases "getClient a ?cc")
    case (Some c)
    with assms(3) same have "s' = ?s" by (simp add: on_connect_to_server_def Let_def split: if_splits)
    moreover have "server_abs ?s = server_abs s" by (simp add: server_abs_def)
    ultimately show ?thesis using assms(1,2) same dstep.stutter [of "server_abs s"] by metis
  next
    case None
    then have a: "a \<notin> conn_of ?cc" by (simp add: conn_of_def)
    note join = abs_join [OF assms(1) a, of h]
    have cc: "cc_inv (addClient a h ?cc)" using assms(1) None by (rule addClient_inv)
    show ?thesis using assms(2)
    proof (cases rule: draw_cases)
      case none
      with assms(3) None same have s': "srv_clients s' = addClient a h ?cc" "srv_batches s' = ?bc"
        "current_behavior s' = current_behavior s"
        by (auto simp: on_connect_to_server_def Let_def)
      then have "server_abs s' = (server_abs s)\<lparr>conn := insert a (conn (server_abs s))\<rparr>"
        using join by (simp add: server_abs_def)
      moreover have "dstep (server_abs s) \<dots>"
        using a none holds_None_free [OF a] by (intro dstep.join_wait) simp_all
      ultimately show ?thesis using s' cc assms(2) by simp
    next
      case (some b bc')
      with assms(3) None same have s': "srv_clients s' = setBatchForClient a (Some b) (addClient a h ?cc)"
        "srv_batches s' = bc'" "current_behavior s' = current_behavior s"
        by (auto simp: on_connect_to_server_def Let_def)
      then have "server_abs s' = (server_abs s)
          \<lparr>conn := insert a (conn (server_abs s)),
           holds := (holds (server_abs s))(a := Some (batch_id b)),
           spare := spare (server_abs s) - {batch_id b}\<rparr>"
        using join some abs_assign [OF cc, of a "Some b"] by (simp add: server_abs_def)
      moreover have "dstep (server_abs s) \<dots>"
        using a some by (intro dstep.join_take) simp_all
      ultimately show ?thesis using s' cc some setBatchForClient_inv by simp
    qed
  qed
  then show "dstep (server_abs s) (server_abs s')" and "cc_inv (srv_clients s')"
    and "bc_inv (srv_batches s')" and "unsolved_ids (srv_batches s') = unsolved_ids (srv_batches s)"
    and "current_behavior s' = current_behavior s" by simp_all
qed

lemma checkForIdleClients_cases:
  assumes "cc_inv (srv_clients s)" and "bc_inv (srv_batches s)" and "free_ids (srv_batches s) \<noteq> {}"
  obtains (no_idle) "checkForIdleClients s = (s, [])" "getIdleClient (srv_clients s) = None"
  | (idle) c b bc where "getIdleClient (srv_clients s) = Some c"
      "batch_id b \<in> free_ids (srv_batches s)" "bc_inv bc"
      "free_ids bc = free_ids (srv_batches s) - {batch_id b}"
      "unsolved_ids bc = unsolved_ids (srv_batches s)"
      "checkForIdleClients s =
         (s\<lparr>srv_batches := bc,
            srv_clients := setBatchForClient (client_actor c) (Some b) (srv_clients s)\<rparr>,
          Send (client_actor c) (Assigned_Batch b) #
          tell_backups (backup_servers_list s) [New_Assigned_Batch (client_actor c) b])"
      "getUnsolvedBatch (srv_batches s) = (Some b, bc)"
proof (cases "getIdleClient (srv_clients s)")
  case None
  then show ?thesis by (intro no_idle) (simp_all add: checkForIdleClients_def)
next
  case (Some c)
  from assms(2) show ?thesis
  proof (cases rule: draw_cases)
    case none
    with assms(3) show ?thesis by simp
  next
    case (some b bc')
    with Some show ?thesis by (intro idle [of c b bc']) (simp_all add: checkForIdleClients_def)
  qed
qed

lemma resolveLostClient_sim:
  assumes "cc_inv (srv_clients s)" and "bc_inv (srv_batches s)" and "dinv (server_abs s)"
    and c: "getClient a (srv_clients s) = Some c" and b: "current_batch c = Some b"
  shows "\<exists>s' es. resolveLostClient c s = Inr (s', es) \<and> dstep (server_abs s) (server_abs s') \<and>
    cc_inv (srv_clients s') \<and> bc_inv (srv_batches s') \<and>
    unsolved_ids (srv_batches s') = unsolved_ids (srv_batches s) \<and>
    current_behavior s' = current_behavior s"
proof -
  let ?cc = "srv_clients s" and ?bc = "srv_batches s" and ?i = "batch_id b"
  have h: "holds_of ?cc a = Some ?i" using b c by (auto simp: holds_Some)
  with dinv_holds [OF assms(3), of a ?i] have i: "?i \<in> unsolved_ids ?bc" by simp
  from setBatchUnassigned_release [OF assms(2) i] obtain bc where
    bc: "setBatchUnassigned b ?bc = Inr bc" "bc_inv bc" "unsolved_ids bc = unsolved_ids ?bc"
      "free_ids bc = insert ?i (free_ids ?bc)" by blast
  let ?s1 = "s\<lparr>srv_batches := bc, srv_clients := removeClient c ?cc\<rparr>"
  have cc: "cc_inv (removeClient c ?cc)" using assms(1) by (rule removeClient_inv)
  note drop = abs_drop [OF assms(1) c]
  have run: "resolveLostClient c s =
    (case checkForIdleClients ?s1 of (s2, es2) \<Rightarrow>
       Inr (s2, notifyBackupServersOfRemovedClient c ?s1 @ es2))"
    using b bc by (simp add: resolveLostClient_def getBatch_def Let_def)
  have pre: "cc_inv (srv_clients ?s1)" "bc_inv (srv_batches ?s1)" "free_ids (srv_batches ?s1) \<noteq> {}"
    using cc bc by auto
  then show ?thesis
  proof (cases rule: checkForIdleClients_cases)
    case no_idle
    have "server_abs ?s1 = (server_abs s)\<lparr>conn := conn (server_abs s) - {a},
        holds := (holds (server_abs s))(a := None), spare := insert ?i (spare (server_abs s))\<rparr>"
      using drop bc by (simp add: server_abs_def)
    moreover have "dstep (server_abs s) \<dots>"
    proof (rule dstep.lose_keep)
      fix a'
      assume "a' \<in> conn (server_abs s)"
      then show "holds (server_abs s) a' \<noteq> None"
        using getIdleClient_abs(2) [OF cc, of a'] no_idle drop h by (cases "a' = a") auto
    qed (use h in simp)
    ultimately show ?thesis using run no_idle pre bc by auto
  next
    case (idle c' b' bc')
    let ?a' = "client_actor c'"
    from idle(1) have a': "?a' \<in> conn_of (removeClient c ?cc)" "holds_of (removeClient c ?cc) ?a' = None"
      using getIdleClient_abs(1) [OF cc, of c'] by auto
    let ?s2 = "?s1\<lparr>srv_batches := bc', srv_clients := setBatchForClient ?a' (Some b') (srv_clients ?s1)\<rparr>"
    have "server_abs ?s2 = (server_abs s)\<lparr>conn := conn (server_abs s) - {a},
        holds := (holds (server_abs s))(a := None, ?a' := Some (batch_id b')),
        spare := insert ?i (spare (server_abs s)) - {batch_id b'}\<rparr>"
      using drop bc idle abs_assign [OF cc a'(1), of "Some b'"] by (simp add: server_abs_def)
    moreover have "dstep (server_abs s) \<dots>"
      using h a' drop idle bc by (intro dstep.lose_pass) auto
    moreover have "cc_inv (srv_clients ?s2)" using cc setBatchForClient_inv by simp
    ultimately show ?thesis using run idle bc by auto
  qed
qed

text \<open>The ids of the batches that \<^verbatim>\<open>writeBatchToFile\<close> is called for, in order.\<close>

definition completed :: "server_effect list \<Rightarrow> int list" where
  "completed es = concat (map (\<lambda>e. case e of Write_Batch f h b \<Rightarrow> [batch_id b] | _ \<Rightarrow> []) es)"

lemma completed_simps [simp]:
  "completed [] = []"
  "completed (Write_Batch f h b # es) = batch_id b # completed es"
  "completed (Send a m # es) = completed es"
  "completed (Monitor a # es) = completed es"
  "completed (Unexpected m # es) = completed es"
  "completed (Quit # es) = completed es"
  "completed (xs @ es) = completed xs @ completed es"
  by (simp_all add: completed_def)

text \<open>What the calls of \<^verbatim>\<open>writeBatchToFile\<close> among some effects do to the files.\<close>

definition write_batches ::
  "(string \<Rightarrow> bool) \<Rightarrow> server_effect list \<Rightarrow> (string \<Rightarrow> batch_row list) \<Rightarrow> (string \<Rightarrow> batch_row list)" where
  "write_batches can_open es files =
     foldl (\<lambda>fs e. case e of Write_Batch f h b \<Rightarrow> writeBatchToFile can_open f h b fs | _ \<Rightarrow> fs) files es"

definition writes_only_to :: "string \<Rightarrow> server_effect list \<Rightarrow> bool" where
  "writes_only_to p es \<longleftrightarrow> (\<forall>e \<in> set es. case e of Write_Batch f h b \<Rightarrow> f = p | _ \<Rightarrow> True)"

lemma writes_only_to_simps [simp]:
  "writes_only_to p []" "writes_only_to p (xs @ ys) \<longleftrightarrow> writes_only_to p xs \<and> writes_only_to p ys"
  "writes_only_to p (Write_Batch f h b # es) \<longleftrightarrow> f = p \<and> writes_only_to p es"
  "writes_only_to p (Send a m # es) \<longleftrightarrow> writes_only_to p es"
  "writes_only_to p (Monitor a # es) \<longleftrightarrow> writes_only_to p es"
  "writes_only_to p (Unexpected m # es) \<longleftrightarrow> writes_only_to p es"
  "writes_only_to p (Quit # es) \<longleftrightarrow> writes_only_to p es"
  "writes_only_to p (map (\<lambda>x. Send (to x) (n x)) zs)"
  by (auto simp: writes_only_to_def)

lemma writes_only_to_tell [simp]: "writes_only_to p (tell_backups bs ms)"
  by (auto simp: writes_only_to_def tell_backups_def)

lemma no_path_no_rows: "writes_only_to [] es \<Longrightarrow> write_batches can_open es files = files"
  unfolding write_batches_def writes_only_to_def
  by (induction es arbitrary: files) (auto simp: writeBatchToFile_def split: server_effect.splits)

lemma completed_sends [simp]: "completed (map (\<lambda>x. Send (f x) (m x)) xs) = []"
  by (induction xs) auto

lemma completed_tell_backups [simp]: "completed (tell_backups bs ms) = []"
proof (induction bs)
  case (Cons b bs)
  then show ?case by (cases b) (simp add: tell_backups_def)
qed (simp add: tell_backups_def)

lemma summa_server_exit_eq:
  "summa_server_exit now s =
     (s\<lparr>srv_clients := (srv_clients s)\<lparr>client_list := []\<rparr>, end_time := now,
        current_behavior := Stopped\<rparr>,
      map (\<lambda>c. Send (client_actor c) Time_To_Exit) (rev (client_list (srv_clients s))) @
      tell_backups (backup_servers_list s) [Time_To_Exit] @ [Quit])"
  by (simp add: summa_server_exit_def tell_clients_exit_eq)

lemma on_done_batch_sim:
  assumes "cc_inv (srv_clients s)" and "bc_inv (srv_batches s)" and "dinv (server_abs s)"
    and held: "holds_of (srv_clients s) a = Some (batch_id b)"
  shows "\<exists>s' es. on_done_batch now a b s = Inr (s', es) \<and> dstep (server_abs s) (server_abs s') \<and>
    cc_inv (srv_clients s') \<and> bc_inv (srv_batches s') \<and>
    unsolved_ids (srv_batches s') = unsolved_ids (srv_batches s) - {batch_id b} \<and>
    completed es = [batch_id b] \<and>
    current_behavior s' =
      (if unsolved_ids (srv_batches s') = {} then Stopped else current_behavior s)"
proof -
  let ?cc = "srv_clients s" and ?bc = "srv_batches s" and ?i = "batch_id b"
  from held obtain c where c: "getClient a ?cc = Some c" by (auto simp: holds_Some)
  then have a: "a \<in> conn_of ?cc" by (simp add: conn_of_def)
  from dinv_holds [OF assms(3), of a ?i] held have i: "?i \<in> unsolved_ids ?bc" "?i \<notin> free_ids ?bc"
    by auto
  from updateBatch_success_finish [OF assms(2) i(1)] obtain bc where
    bc: "updateBatch_success b ?bc = Inr bc" "bc_inv bc" "unsolved_ids bc = unsolved_ids ?bc - {?i}"
      "free_ids bc = free_ids ?bc" using i(2) by auto
  note run = on_done_batch_def updateBatch_success_csv_def
  from bc(2) show ?thesis
  proof (cases rule: draw_cases)
    case (some b' bc')
    let ?s' = "s\<lparr>srv_batches := bc', srv_clients := setBatchForClient a (Some b') ?cc\<rparr>"
    have "server_abs ?s' = (server_abs s)\<lparr>holds := (holds (server_abs s))(a := Some (batch_id b')),
        todo := todo (server_abs s) - {?i}, spare := spare (server_abs s) - {batch_id b'}\<rparr>"
      using bc some abs_assign [OF assms(1) a, of "Some b'"] by (simp add: server_abs_def)
    moreover have "dstep (server_abs s) \<dots>"
      using held some bc by (intro dstep.finish_take) simp_all
    moreover have "cc_inv (srv_clients ?s')" using assms(1) setBatchForClient_inv by simp
    moreover have "unsolved_ids bc' \<noteq> {}" using some free_subset_unsolved [of bc] by auto
    ultimately show ?thesis using c bc some by (simp add: run)
  next
    case none
    show ?thesis
    proof (cases "unsolved_ids bc = {}")
      case True
      then have "\<not> hasUnsolvedBatches bc" using bc(2) bc_inv_unsolved_iff hasUnsolvedBatches_def by simp
      moreover have "server_abs (fst (summa_server_exit now (s\<lparr>srv_batches := bc\<rparr>))) =
        (server_abs s)\<lparr>conn := {}, holds := \<lambda>_. None, todo := {}\<rparr>"
        using True none bc
        by (simp add: server_abs_def summa_server_exit_eq conn_of_def holds_of_def getClient_def fun_eq_iff)
      moreover have "dstep (server_abs s) \<dots>"
        using held True bc i by (intro dstep.finish_last [of _ a ?i]) auto
      ultimately show ?thesis using c bc none True
        by (simp add: run summa_server_exit_eq) (simp add: cc_inv_def)
    next
      case False
      then have "hasUnsolvedBatches bc" using bc(2) bc_inv_unsolved_iff hasUnsolvedBatches_def by simp
      let ?s' = "s\<lparr>srv_batches := bc, srv_clients := setBatchForClient a None ?cc\<rparr>"
      have "server_abs ?s' = (server_abs s)\<lparr>holds := (holds (server_abs s))(a := None),
          todo := todo (server_abs s) - {?i}\<rparr>"
        using bc abs_assign [OF assms(1) a, of None] by (simp add: server_abs_def)
      moreover have "dstep (server_abs s) \<dots>"
        using held none bc False by (intro dstep.finish_wait) auto
      moreover have "cc_inv (srv_clients ?s')" using assms(1) setBatchForClient_inv by simp
      ultimately show ?thesis using c bc none False \<open>hasUnsolvedBatches bc\<close> by (simp add: run)
    qed
  qed
qed

subsection \<open>Runs of the lead server\<close>

datatype lead_event = Receive server_msg | Down actor_id

definition lead_handle :: "real \<Rightarrow> lead_event \<Rightarrow> server_state \<Rightarrow> server_state outcome" where
  "lead_handle now ev s = (case ev of Receive m \<Rightarrow> lead_receive now m s | Down a \<Rightarrow> on_down a s)"

text \<open>What the server relies on: a client reports the batch it was assigned, and
  only clients that work on a batch (or backup servers) are lost.\<close>

definition protocol_ok :: "server_state \<Rightarrow> lead_event \<Rightarrow> bool" where
  "protocol_ok s ev = (case ev of
     Receive (Done_Batch a b) \<Rightarrow> holds_of (srv_clients s) a = Some (batch_id b)
   | Down a \<Rightarrow> a \<in> conn_of (srv_clients s) \<longrightarrow> holds_of (srv_clients s) a \<noteq> None
   | _ \<Rightarrow> True)"

inductive lead_run :: "server_state \<Rightarrow> server_effect list \<Rightarrow> server_state \<Rightarrow> bool" where
  start: "lead_run s [] s"
| step: "lead_run s es s1 \<Longrightarrow> current_behavior s1 = Lead \<Longrightarrow> protocol_ok s1 ev \<Longrightarrow>
    lead_handle now ev s1 = Inr (s2, es') \<Longrightarrow> lead_run s (es @ es') s2"

inductive_cases lead_run_stepE: "lead_run s es s'"

text \<open>One event: the handler returns, is a step of the specification, and
  records a row exactly when it takes the recorded batch out of the unfinished
  ones.\<close>

definition step_records :: "server_state \<Rightarrow> server_effect list \<Rightarrow> server_state \<Rightarrow> bool" where
  "step_records s es s' \<longleftrightarrow>
     completed es = [] \<and> unsolved_ids (srv_batches s') = unsolved_ids (srv_batches s) \<and>
       current_behavior s' = current_behavior s
   \<or> (\<exists>i \<in> unsolved_ids (srv_batches s). completed es = [i] \<and>
        unsolved_ids (srv_batches s') = unsolved_ids (srv_batches s) - {i} \<and>
        current_behavior s' =
          (if unsolved_ids (srv_batches s') = {} then Stopped else current_behavior s))"

lemma completed_sendAllBackupServersList [simp]: "completed (sendAllBackupServersList s) = []"
  by (simp add: sendAllBackupServersList_def)

lemma resolveLostClient_completed:
  "resolveLostClient c s = Inr (s', es) \<Longrightarrow> completed es = []"
  by (auto simp: resolveLostClient_def res_bind_Inr_iff checkForIdleClients_def
      notifyBackupServersOfRemovedClient_def Let_def split: prod.splits option.splits)

lemma on_connect_to_server_completed:
  "on_connect_to_server now a h s = (s', es) \<Longrightarrow> completed es = []"
  by (auto simp: on_connect_to_server_def Let_def split: prod.splits option.splits if_splits)

lemma lead_handle_sim:
  assumes "server_inv s" and "protocol_ok s ev"
  shows "\<exists>s' es. lead_handle now ev s = Inr (s', es) \<and> dstep (server_abs s) (server_abs s') \<and>
    cc_inv (srv_clients s') \<and> bc_inv (srv_batches s') \<and> step_records s es s'"
proof -
  from assms(1) have inv: "cc_inv (srv_clients s)" "bc_inv (srv_batches s)" "dinv (server_abs s)"
    by (simp_all add: server_inv_def)
  show ?thesis
  proof (cases ev)
    case (Down a)
    show ?thesis
    proof (cases "getClient a (srv_clients s)")
      case None
      with Down inv show ?thesis
        by (simp add: lead_handle_def on_down_def resolveLostBackupServer_def Let_def step_records_def
            findAndRemoveLostBackupServer_def server_abs_def dstep.stutter)
    next
      case (Some c)
      with Down assms(2) obtain b where "current_batch c = Some b"
        by (auto simp: protocol_ok_def conn_of_def holds_of_def)
      from resolveLostClient_sim [OF inv Some this] obtain s' es where
        r: "resolveLostClient c s = Inr (s', es)" and "dstep (server_abs s) (server_abs s')"
        "cc_inv (srv_clients s')" "bc_inv (srv_batches s')"
        "unsolved_ids (srv_batches s') = unsolved_ids (srv_batches s)"
        "current_behavior s' = current_behavior s" by blast
      with Down Some resolveLostClient_completed [OF r] show ?thesis
        by (intro exI [of _ s'] exI [of _ es]) (simp add: lead_handle_def on_down_def step_records_def)
    qed
  next
    case (Receive m)
    have other: ?thesis if "\<exists>es s'. lead_handle now ev s = Inr (s', es) \<and> completed es = [] \<and>
        srv_clients s' = srv_clients s \<and> srv_batches s' = srv_batches s \<and>
        current_behavior s' = current_behavior s"
    proof -
      from that obtain es s' where h: "lead_handle now ev s = Inr (s', es)" "completed es = []"
        "srv_clients s' = srv_clients s" "srv_batches s' = srv_batches s"
        "current_behavior s' = current_behavior s" by blast
      then have "server_abs s' = server_abs s" by (simp add: server_abs_def)
      then have "dstep (server_abs s) (server_abs s')" by (simp only: dstep.stutter)
      with h inv show ?thesis
        by (intro exI [of _ s'] exI [of _ es]) (simp add: step_records_def)
    qed
    show ?thesis
    proof (cases m)
      case (Connect_To_Server a h)
      obtain s' es where e: "on_connect_to_server now a h s = (s', es)" by fastforce
      with on_connect_to_server_sim [OF inv(1,2) e] on_connect_to_server_completed [OF e]
        Receive Connect_To_Server show ?thesis
        by (auto simp: lead_handle_def lead_receive_def step_records_def)
    next
      case (Done_Batch a b)
      with Receive assms(2) have h: "holds_of (srv_clients s) a = Some (batch_id b)"
        by (simp add: protocol_ok_def)
      from dinv_holds [OF inv(3), of a "batch_id b"] h
      have i: "batch_id b \<in> unsolved_ids (srv_batches s)" by simp
      from on_done_batch_sim [OF inv h, of now] obtain s' es where
        d: "on_done_batch now a b s = Inr (s', es)" "dstep (server_abs s) (server_abs s')"
        "cc_inv (srv_clients s')" "bc_inv (srv_batches s')"
        and r: "unsolved_ids (srv_batches s') = unsolved_ids (srv_batches s) - {batch_id b}"
        "completed es = [batch_id b]" "current_behavior s' =
          (if unsolved_ids (srv_batches s') = {} then Stopped else current_behavior s)" by blast
      have "step_records s es s'" unfolding step_records_def using i r by blast
      with d Receive Done_Batch show ?thesis
        by (intro exI [of _ s'] exI [of _ es]) (simp add: lead_handle_def lead_receive_def)
    qed (rule other, simp add: lead_handle_def lead_receive_def Receive on_is_lead_server_def
           on_connect_as_backup_def Let_def)+
  qed
qed

lemma lead_handle_inv:
  assumes "server_inv s" and "protocol_ok s ev" and "lead_handle now ev s = Inr (s', es)"
  shows "server_inv s'" and "step_records s es s'"
  using lead_handle_sim [OF assms(1,2), of now] assms(1,3) dstep_dinv
  by (auto simp: server_inv_def)

lemma lead_run_inv:
  assumes "lead_run s0 es s" and "server_inv s0" and "current_behavior s0 = Lead"
  shows "server_inv s \<and> distinct (completed es) \<and>
    unsolved_ids (srv_batches s) \<subseteq> unsolved_ids (srv_batches s0) \<and>
    set (completed es) = unsolved_ids (srv_batches s0) - unsolved_ids (srv_batches s) \<and>
    (current_behavior s = Stopped \<longrightarrow> unsolved_ids (srv_batches s) = {}) \<and>
    (current_behavior s = Lead \<or> current_behavior s = Stopped)"
  using assms
proof (induction rule: lead_run.induct)
  case (step s0 es s1 ev now s2 es')
  from step.IH [OF step.prems] have IH: "server_inv s1" "distinct (completed es)"
    "unsolved_ids (srv_batches s1) \<subseteq> unsolved_ids (srv_batches s0)"
    "set (completed es) = unsolved_ids (srv_batches s0) - unsolved_ids (srv_batches s1)" by auto
  from lead_handle_inv [OF IH(1) step.hyps(3,4)] have n: "server_inv s2" "step_records s1 es' s2" .
  from n(2) show ?case unfolding step_records_def
  proof (elim disjE bexE conjE)
    fix i
    assume "i \<in> unsolved_ids (srv_batches s1)" "completed es' = [i]"
      "unsolved_ids (srv_batches s2) = unsolved_ids (srv_batches s1) - {i}"
      "current_behavior s2 =
        (if unsolved_ids (srv_batches s2) = {} then Stopped else current_behavior s1)"
    with IH n step.hyps(2) show ?thesis by (auto split: if_splits)
  qed (use IH n step.hyps(2) in auto)
qed auto

lemma ints_from_one: "n < INT_MAX \<Longrightarrow> ints_ok 1 n"
  using INT_bounds by (simp add: ints_ok_def)

lemma summa_server_returns:
  assumes "summa_server published s = Some (Inr r)"
    and "0 < ds_num_hru_per_batch (distributed_settings (srv_settings s))"
  shows "ds_total_hru_count (distributed_settings (srv_settings s)) < INT_MAX"
proof (rule ccontr)
  let ?n = "ds_total_hru_count (distributed_settings (srv_settings s))"
  assume "\<not> ?n < INT_MAX"
  then have "0 < ?n" "INT_MAX < 1 + ?n" using INT_bounds by simp_all
  with assms show False by (simp add: summa_server_def BatchContainer_def assembleBatches_beyond)
qed

lemma summa_server_start:
  assumes "0 < ds_num_hru_per_batch (distributed_settings (srv_settings s))"
    and "0 \<le> ds_total_hru_count (distributed_settings (srv_settings s))"
    and "ds_total_hru_count (distributed_settings (srv_settings s)) < INT_MAX"
  obtains s1 where "summa_server True s = Some (Inr (s1, [Publish (port (distributed_settings (srv_settings s)))]))"
    "server_inv s1" "current_behavior s1 = Lead" "client_list (srv_clients s1) = []"
    "unsolved_ids (srv_batches s1) =
       {0 ..< (ds_total_hru_count (distributed_settings (srv_settings s)) +
               ds_num_hru_per_batch (distributed_settings (srv_settings s)) - 1)
              div ds_num_hru_per_batch (distributed_settings (srv_settings s))}"
proof -
  let ?n = "ds_total_hru_count (distributed_settings (srv_settings s))"
  let ?per = "ds_num_hru_per_batch (distributed_settings (srv_settings s))"
  obtain bc where bc: "BatchContainer 1 ?n ?per [] = Some (Inr bc)" "bc_inv bc"
    "batch_list bc = batch_plan ?per (ensure_dir []) ?n 0 1" "free_ids bc = unsolved_ids bc"
    using assms(1) ints_from_one [OF assms(3)] by (rule BatchContainer_bc_inv)
  let ?s1 = "s\<lparr>backup := False, srv_clients := Client_Container, srv_batches := bc,
    current_server_actor := Some (self_ref s), current_behavior := Lead\<rparr>"
  have "summa_server True s = Some (Inr (?s1, [Publish (port (distributed_settings (srv_settings s)))]))"
    using bc(1) by (simp add: summa_server_def Let_def)
  moreover have "\<forall>b \<in> set (batch_list bc). \<not> solved b"
    using batch_plan_fresh [of _ ?per "ensure_dir []" ?n 0 1] bc(3) by (auto simp: fresh_batch_def)
  then have "unsolved_ids bc = {0 ..< int (length (batch_list bc))}"
    unfolding unsolved_ids_def by (auto simp: image_iff intro!: exI [of _ "nat _"])
  then have "unsolved_ids bc = {0 ..< (?n + ?per - 1) div ?per}"
    using bc(3) batch_plan_length [OF assms(1,2)] by simp
  moreover have "dinv (server_abs ?s1)"
    using bc(4) by (simp add: dinv_def dispatch_ok_def conn_of_def holds_of_def getClient_def
        Client_Container_def)
  ultimately show ?thesis using bc(2) that [of ?s1]
    by (simp add: server_inv_def) (simp add: Client_Container_def)
qed

text \<open>The path of the results file never changes.\<close>

lemma checkForIdleClients_path:
  "checkForIdleClients s = (s', es) \<Longrightarrow> csv_file_path s' = csv_file_path s \<and> writes_only_to p es"
  by (auto simp: checkForIdleClients_def split: option.splits prod.splits)

lemma resolveLostClient_path:
  assumes "resolveLostClient c s = Inr (s', es)"
  shows "csv_file_path s' = csv_file_path s \<and> writes_only_to p es"
proof -
  from assms obtain b bc where b: "opt_value (getBatch c) = Inr b" "setBatchUnassigned b (srv_batches s) = Inr bc"
    by (auto simp: resolveLostClient_def res_bind_Inr_iff)
  let ?t = "s\<lparr>srv_batches := bc, srv_clients := removeClient c (srv_clients s)\<rparr>"
  obtain t es2 where "checkForIdleClients ?t = (t, es2)" by fastforce
  with assms b checkForIdleClients_path [of ?t t es2 p] show ?thesis
    by (auto simp: resolveLostClient_def notifyBackupServersOfRemovedClient_def Let_def)
qed

lemma on_done_batch_path:
  assumes "on_done_batch now a b s = Inr (s', es)"
  shows "csv_file_path s' = csv_file_path s \<and> writes_only_to (csv_file_path s) es"
proof -
  from assms obtain c bc where "updateBatch_success b (srv_batches s) = Inr bc"
    "getClient a (srv_clients s) = Some c"
    by (cases "getClient a (srv_clients s)")
       (auto simp: on_done_batch_def updateBatch_success_csv_def res_bind_Inr_iff)
  with assms show ?thesis
    by (cases "getUnsolvedBatch bc"; cases "fst (getUnsolvedBatch bc)")
       (auto simp: on_done_batch_def updateBatch_success_csv_def summa_server_exit_eq Let_def split: if_splits)
qed

lemma on_connect_to_server_path:
  "on_connect_to_server now a h s = (s', es) \<Longrightarrow> csv_file_path s' = csv_file_path s \<and> writes_only_to p es"
  by (auto simp: on_connect_to_server_def Let_def split: prod.splits option.splits if_splits)

lemma lead_handle_path:
  assumes "lead_handle now ev s = Inr (s', es)"
  shows "csv_file_path s' = csv_file_path s \<and> writes_only_to (csv_file_path s) es"
proof (cases ev)
  case (Receive m)
  with assms on_done_batch_path on_connect_to_server_path [where p = "csv_file_path s"] show ?thesis
    by (auto simp: lead_handle_def lead_receive_def on_is_lead_server_def on_connect_as_backup_def
        sendAllBackupServersList_def Let_def split: server_msg.splits)
next
  case (Down a)
  with assms resolveLostClient_path [where p = "csv_file_path s"] show ?thesis
    by (auto simp: lead_handle_def on_down_def resolveLostBackupServer_def findAndRemoveLostBackupServer_def
        sendAllBackupServersList_def Let_def split: option.splits)
qed

lemma lead_run_files:
  "lead_run s1 es s \<Longrightarrow> csv_file_path s = csv_file_path s1 \<and>
   (csv_file_path s1 = [] \<longrightarrow> (\<forall>can_open files. write_batches can_open es files = files))"
proof -
  have "csv_file_path s = csv_file_path s1 \<and> writes_only_to (csv_file_path s1) es" if "lead_run s1 es s"
    using that by induction (auto dest: lead_handle_path)
  then show "lead_run s1 es s \<Longrightarrow> ?thesis" using no_path_no_rows by auto
qed

lemma summa_server_path:
  "summa_server published s0 = Some (Inr (s1, es)) \<Longrightarrow> csv_file_path s1 = csv_file_path s0"
  by (auto simp: summa_server_def res_bind_Inr_iff Let_def split: if_splits)

subsection \<open>Properties\<close>

text \<open>
  C2. Refinement.  In a state that satisfies the invariant, every event of the
  protocol (a message from a client or backup server, the loss of an actor) is
  handled without an exception, the handler's effect on the containers is a
  step of the dispatch specification, and the invariant holds again.
\<close>

theorem lead_server_refines_dispatch:
  assumes "server_inv s" and "protocol_ok s ev"
  shows "\<exists>s' es. lead_handle now ev s = Inr (s', es) \<and>
           dstep (server_abs s) (server_abs s') \<and> server_inv s'"
  using lead_handle_sim [OF assms, of now] assms(1) dstep_dinv by (auto simp: server_inv_def)

definition demo_settings :: settings where
  "demo_settings = (Settings_new [])
     \<lparr>distributed_settings := DistributedSettings_default
        \<lparr>ds_total_hru_count := 3, ds_num_hru_per_batch := 2, port := 4444\<rparr>\<rparr>"

lemma demo_start:
  obtains s1 where "summa_server True (SummaServer 1 demo_settings False) = Some (Inr (s1, [Publish 4444]))"
    "server_inv s1" "current_behavior s1 = Lead" "client_list (srv_clients s1) = []"
    "unsolved_ids (srv_batches s1) = {0, 1}"
proof -
  let ?s0 = "SummaServer 1 demo_settings False"
  have d: "ds_total_hru_count (distributed_settings (srv_settings ?s0)) = 3"
    "ds_num_hru_per_batch (distributed_settings (srv_settings ?s0)) = 2"
    "port (distributed_settings (srv_settings ?s0)) = 4444"
    by (simp_all add: demo_settings_def SummaServer_def)
  have "{0 ..< (2 :: int)} = {0, 1}" by auto
  with that show ?thesis
    by (rule_tac summa_server_start [of ?s0, unfolded d]) (simp_all add: INT_MAX_def)
qed

lemma lead_server_refines_dispatch_witness:
  "\<exists>s1 es1 s' es. summa_server True (SummaServer 1 demo_settings False) = Some (Inr (s1, es1)) \<and>
     lead_handle 0 (Receive (Connect_To_Server 7 ''node'')) s1 = Inr (s', es) \<and> server_inv s'"
proof -
  obtain s1 where s1: "summa_server True (SummaServer 1 demo_settings False) = Some (Inr (s1, [Publish 4444]))"
    "server_inv s1" by (rule demo_start)
  have "protocol_ok s1 (Receive (Connect_To_Server 7 ''node''))" by (simp add: protocol_ok_def)
  from lead_server_refines_dispatch [OF s1(2) this, of 0] s1(1) show ?thesis by blast
qed

text \<open>
  C14. The bookkeeping of the lead server in every state it can reach along the
  protocol: a client's batch is unsolved and marked assigned; no two clients
  work on the same batch; every unsolved batch is either free or worked on by a
  connected client; no batch is free while a client is idle; as long as batches
  are unsolved and a client is connected some client is working; and the
  counter \<^verbatim>\<open>batches_remaining_\<close> is the number of unsolved batches.
\<close>

theorem lead_server_bookkeeping:
  assumes "0 < ds_num_hru_per_batch (distributed_settings (srv_settings s0))"
    and "0 \<le> ds_total_hru_count (distributed_settings (srv_settings s0))"
    and "summa_server True s0 = Some (Inr (s1, es1))" and "lead_run s1 es s"
  shows "(\<forall>a i. holds_of (srv_clients s) a = Some i \<longrightarrow>
            i \<in> unsolved_ids (srv_batches s) - free_ids (srv_batches s)) \<and>
    (\<forall>a a' i. holds_of (srv_clients s) a = Some i \<longrightarrow> holds_of (srv_clients s) a' = Some i \<longrightarrow> a = a') \<and>
    (\<forall>i \<in> unsolved_ids (srv_batches s) - free_ids (srv_batches s).
       \<exists>a. holds_of (srv_clients s) a = Some i) \<and>
    (getIdleClient (srv_clients s) \<noteq> None \<longrightarrow> free_ids (srv_batches s) = {}) \<and>
    (unsolved_ids (srv_batches s) \<noteq> {} \<and> \<not> cc_isEmpty (srv_clients s) \<longrightarrow>
       (\<exists>a. holds_of (srv_clients s) a \<noteq> None)) \<and>
    batches_remaining (srv_batches s) = int (card (unsolved_ids (srv_batches s)))"
proof -
  obtain s1' where "summa_server True s0 = Some (Inr (s1', [Publish (port (distributed_settings (srv_settings s0)))]))"
    "server_inv s1'" "current_behavior s1' = Lead"
    using assms(1,2) summa_server_returns [OF assms(3,1)] by (rule summa_server_start)
  with assms(3,4) lead_run_inv have inv: "server_inv s" by auto
  then have i: "cc_inv (srv_clients s)" "bc_inv (srv_batches s)" "dinv (server_abs s)"
    by (simp_all add: server_inv_def)
  then have ok: "dispatch_ok (conn_of (srv_clients s)) (holds_of (srv_clients s))
      (unsolved_ids (srv_batches s)) (free_ids (srv_batches s))" by (simp add: dinv_def)
  have "free_ids (srv_batches s) = {}" if "getIdleClient (srv_clients s) \<noteq> None"
    using that getIdleClient_abs(1) [OF i(1)] dispatch_okD(5) [OF ok] by fastforce
  moreover have "\<exists>a. holds_of (srv_clients s) a \<noteq> None"
    if "unsolved_ids (srv_batches s) \<noteq> {}" "\<not> cc_isEmpty (srv_clients s)"
  proof -
    from that(2) obtain c where "c \<in> clients (srv_clients s)"
      using hd_in_set by (auto simp: cc_isEmpty_def)
    with i(1) have "getClient (client_actor c) (srv_clients s) = Some c"
      by (simp add: getClient_Some_iff)
    then have "conn_of (srv_clients s) \<noteq> {}" by (auto simp: conn_of_def)
    with dinv_progress [OF i(3)] that(1) show ?thesis by auto
  qed
  moreover note dispatch_okD(1,2,4) [OF ok] bc_inv_remaining_card [OF i(2)]
  ultimately show ?thesis by (intro conjI allI impI ballI) blast+
qed

text \<open>
  C8. Every batch is completed exactly once, and none is recorded.  Along any run of the
  protocol the ids of the batches that the server completes, each with one call
  of \<^verbatim>\<open>writeBatchToFile\<close>, are pairwise distinct and are exactly the batches that are no longer
  unsolved; when the server has stopped they are all the batches of the simulation.  But
  every call has the empty file name, since \<^verbatim>\<open>csv_file_path_\<close> is never assigned, so the file is not
  opened and no row is written, whatever the file system allows.
\<close>

theorem lead_server_completes_each_batch_once:
  assumes "0 < ds_num_hru_per_batch (distributed_settings st)"
    and "0 \<le> ds_total_hru_count (distributed_settings st)"
    and "summa_server True (SummaServer self st bk) = Some (Inr (s1, es1))" and "lead_run s1 es s"
  shows "let n = (ds_total_hru_count (distributed_settings st) +
                  ds_num_hru_per_batch (distributed_settings st) - 1)
                 div ds_num_hru_per_batch (distributed_settings st)
    in distinct (completed es) \<and>
       set (completed es) = {0 ..< n} - unsolved_ids (srv_batches s) \<and>
       (current_behavior s = Stopped \<longrightarrow> set (completed es) = {0 ..< n}) \<and>
       (\<forall>can_open files. write_batches can_open es files = files)"
proof -
  let ?s0 = "SummaServer self st bk"
  have st: "srv_settings ?s0 = st" "csv_file_path ?s0 = []" by (simp_all add: SummaServer_def)
  obtain s1' where "summa_server True ?s0 = Some (Inr (s1', [Publish (port (distributed_settings st))]))"
    "server_inv s1'" "current_behavior s1' = Lead"
    "unsolved_ids (srv_batches s1') =
       {0 ..< (ds_total_hru_count (distributed_settings st) + ds_num_hru_per_batch (distributed_settings st) - 1)
              div ds_num_hru_per_batch (distributed_settings st)}"
    using assms(1,2) summa_server_returns [OF assms(3)] by (rule_tac summa_server_start [of ?s0]) (auto simp: st)
  moreover have "\<forall>can_open files. write_batches can_open es files = files"
    using lead_run_files [OF assms(4)] summa_server_path [OF assms(3)] st(2) by simp
  ultimately show ?thesis
    using assms(3) lead_run_inv [OF assms(4)] unfolding Let_def by auto
qed

text \<open>A sequence of events, checked against the protocol as it goes.\<close>

fun run_events :: "lead_event list \<Rightarrow> server_state \<Rightarrow> (server_effect list \<times> server_state) option" where
  "run_events [] s = Some ([], s)"
| "run_events (ev # evs) s =
     (if current_behavior s = Lead \<and> protocol_ok s ev
      then (case lead_handle 0 ev s of
              Inl e \<Rightarrow> None
            | Inr (s1, es) \<Rightarrow> map_option (\<lambda>(es', s2). (es @ es', s2)) (run_events evs s1))
      else None)"

lemma run_events_lead_run:
  "lead_run s0 es0 s \<Longrightarrow> run_events evs s = Some (es, s') \<Longrightarrow> lead_run s0 (es0 @ es) s'"
proof (induction evs arbitrary: s es0 es)
  case (Cons ev evs)
  then obtain s1 es1 es2 where "current_behavior s = Lead" "protocol_ok s ev"
    "lead_handle 0 ev s = Inr (s1, es1)" "run_events evs s1 = Some (es2, s')" "es = es1 @ es2"
    by (auto split: if_splits sum.splits)
  with Cons.IH [OF lead_run.step [OF Cons.prems(1)]] show ?case by auto
qed simp

definition demo_started :: server_state where
  "demo_started = (SummaServer 1 demo_settings False)
     \<lparr>srv_batches := \<lparr>bc_start_hru = 1, total_hru_count = 3, num_hru_per_batch = 2,
        batches_remaining = 2, batch_list = [Batch 0 1 2, Batch 1 3 1]\<rparr>,
      current_server_actor := Some 1\<rparr>"

lemma demo_started:
  "summa_server True (SummaServer 1 demo_settings False) = Some (Inr (demo_started, [Publish 4444]))"
  by (simp add: summa_server_def SummaServer_def demo_settings_def BatchContainer_def ensure_dir_def
      assembleBatches_plan ints_ok_def INT_MAX_def INT_MIN_def batch_plan.simps demo_started_def
      setLogDir_def Batch_def)

lemmas run_simps =
  lead_handle_def lead_receive_def protocol_ok_def holds_of_def conn_of_def
  on_connect_to_server_def on_done_batch_def updateBatch_success_csv_def updateBatch_success_def
  getUnsolvedBatch_def getClient_def addClient_def setBatchForClient_def setBatch_def Client_def
  Client_Container_def vec_upd_def updateAssigned_def updateSolved_def hasUnsolvedBatches_def
  summa_server_exit_eq tell_backups_def

text \<open>Two clients take the two batches and report them; the server stops.\<close>

lemma demo_run:
  "\<exists>es s. lead_run demo_started es s \<and> completed es = [0, 1] \<and> current_behavior s = Stopped"
proof -
  have "\<exists>es s. run_events
      [Receive (Connect_To_Server 7 ''a''), Receive (Connect_To_Server 8 ''b''),
       Receive (Done_Batch 7 (Batch 0 1 2)), Receive (Done_Batch 8 (Batch 1 3 1))] demo_started =
      Some (es, s) \<and> completed es = [0, 1] \<and> current_behavior s = Stopped"
    by (simp add: demo_started_def SummaServer_def run_simps Batch_def)
  then show ?thesis using run_events_lead_run [OF lead_run.start] by fastforce
qed

lemma lead_server_bookkeeping_witness:
  "\<exists>es s. lead_run demo_started es s \<and> completed es = [0, 1] \<and>
     batches_remaining (srv_batches s) = int (card (unsolved_ids (srv_batches s)))"
proof -
  obtain es s where r: "lead_run demo_started es s" "completed es = [0, 1]" using demo_run by blast
  have "0 < ds_num_hru_per_batch (distributed_settings (srv_settings (SummaServer 1 demo_settings False)))"
    "0 \<le> ds_total_hru_count (distributed_settings (srv_settings (SummaServer 1 demo_settings False)))"
    by (simp_all add: SummaServer_def demo_settings_def)
  from lead_server_bookkeeping [OF this demo_started r(1)] r show ?thesis by blast
qed

lemma lead_server_completes_each_batch_once_witness:
  "\<exists>es s. lead_run demo_started es s \<and> current_behavior s = Stopped \<and>
     distinct (completed es) \<and> set (completed es) = {0, 1} \<and>
     write_batches (\<lambda>_. True) es (\<lambda>_. []) = (\<lambda>_. [])"
proof -
  obtain es s where r: "lead_run demo_started es s" "current_behavior s = Stopped"
    using demo_run by blast
  have d: "0 < ds_num_hru_per_batch (distributed_settings demo_settings)"
    "0 \<le> ds_total_hru_count (distributed_settings demo_settings)"
    by (simp_all add: demo_settings_def)
  have "{0 ..< (4 :: int) div 2} = {0, 1}" by auto
  with lead_server_completes_each_batch_once [OF d demo_started r(1)] r(2)
  have "distinct (completed es)" "set (completed es) = {0, 1}"
    "write_batches (\<lambda>_. True) es (\<lambda>_. []) = (\<lambda>_. [])"
    unfolding Let_def by (auto simp: demo_settings_def)
  with r show ?thesis by blast
qed

text \<open>
  C15. When the last unsolved batch is reported, the server marks it solved,
  tells every connected client and every backup server to exit, and quits.
\<close>

theorem lead_server_exit:
  assumes "server_inv s" and "holds_of (srv_clients s) a = Some (batch_id b)"
    and "unsolved_ids (srv_batches s) = {batch_id b}"
  shows "\<exists>s' es. on_done_batch now a b s = Inr (s', es) \<and> current_behavior s' = Stopped \<and>
    unsolved_ids (srv_batches s') = {} \<and> cc_isEmpty (srv_clients s') \<and> Quit \<in> set es \<and>
    (\<forall>c \<in> clients (srv_clients s). Send (client_actor c) Time_To_Exit \<in> set es) \<and>
    (\<forall>(d, h) \<in> set (backup_servers_list s). Send d Time_To_Exit \<in> set es)"
proof -
  from assms(1) have inv: "cc_inv (srv_clients s)" "bc_inv (srv_batches s)" "dinv (server_abs s)"
    by (simp_all add: server_inv_def)
  from assms(2) obtain c where c: "getClient a (srv_clients s) = Some c" by (auto simp: holds_Some)
  from updateBatch_success_finish [OF inv(2)] assms(3) obtain bc where
    bc: "updateBatch_success b (srv_batches s) = Inr bc" "bc_inv bc" "unsolved_ids bc = {}"
    by fastforce
  then have f: "free_ids bc = {}" using free_subset_unsolved [of bc] by auto
  from bc(2) have d: "getUnsolvedBatch bc = (None, bc)"
    by (cases rule: draw_cases) (use f in auto)
  have "\<not> hasUnsolvedBatches bc" using bc bc_inv_unsolved_iff by (simp add: hasUnsolvedBatches_def)
  with c bc d show ?thesis
    by (auto simp: on_done_batch_def updateBatch_success_csv_def summa_server_exit_eq cc_isEmpty_def
        set_tell_backups image_iff split_beta)
qed

definition demo_last :: server_state where
  "demo_last = demo_started
     \<lparr>srv_batches := \<lparr>bc_start_hru = 1, total_hru_count = 3, num_hru_per_batch = 2,
        batches_remaining = 1,
        batch_list = [updateSolved True (updateAssigned True (Batch 0 1 2)),
                      updateAssigned True (Batch 1 3 1)]\<rparr>,
      srv_clients := \<lparr>client_list = [setBatch None (Client 0 7 ''a''),
                        setBatch (Some (updateAssigned True (Batch 1 3 1))) (Client 1 8 ''b'')],
                      id_counter = 2\<rparr>\<rparr>"

lemma demo_last_ids: "unsolved_ids (srv_batches demo_last) = {1}" "free_ids (srv_batches demo_last) = {}"
proof -
  show "unsolved_ids (srv_batches demo_last) = {1}"
    by (auto simp: demo_last_def unsolved_ids_def less_Suc_eq Batch_def updateSolved_def updateAssigned_def)
  have "\<forall>b \<in> set (batch_list (srv_batches demo_last)). \<not> is_free b"
    by (simp add: demo_last_def is_free_def updateSolved_def updateAssigned_def)
  then show "free_ids (srv_batches demo_last) = {}" by (auto simp: free_ids_def)
qed

lemma demo_last_holds:
  "conn_of (srv_clients demo_last) = {7, 8}"
  "holds_of (srv_clients demo_last) = (\<lambda>a. if a = 8 then Some 1 else None)"
  by (auto simp: demo_last_def conn_of_def holds_of_def getClient_def setBatch_def Client_def Batch_def
      updateAssigned_def fun_eq_iff)

lemma demo_last_inv: "server_inv demo_last"
proof -
  have "cc_inv (srv_clients demo_last)" and "bc_inv (srv_batches demo_last)"
    by (auto simp: demo_last_def cc_inv_def bc_inv_def setBatch_def Client_def Batch_def
        updateSolved_def updateAssigned_def less_Suc_eq)
  then show ?thesis
    by (simp add: server_inv_def dinv_def dispatch_ok_def demo_last_ids demo_last_holds)
qed

lemma lead_server_exit_witness:
  "\<exists>s' es. on_done_batch 0 8 (Batch 1 3 1) demo_last = Inr (s', es) \<and>
     current_behavior s' = Stopped \<and> Send 7 Time_To_Exit \<in> set es"
proof -
  have "holds_of (srv_clients demo_last) 8 = Some (batch_id (Batch 1 3 1))"
    "unsolved_ids (srv_batches demo_last) = {batch_id (Batch 1 3 1)}"
    by (simp_all add: demo_last_holds demo_last_ids Batch_def)
  moreover have "setBatch None (Client 0 7 ''a'') \<in> clients (srv_clients demo_last)"
    "client_actor (setBatch None (Client 0 7 ''a'')) = 7"
    by (simp_all add: demo_last_def setBatch_def Client_def)
  ultimately show ?thesis using lead_server_exit [OF demo_last_inv, of 8 "Batch 1 3 1" 0] by metis
qed

text \<open>
  C20. Exactly when the lead server fails.  The loss of an actor throws
  \<^verbatim>\<open>std::bad_optional_access\<close> if and only if the actor is a connected client
  that holds no batch (\<^verbatim>\<open>resolveLostClient\<close> reads \<^verbatim>\<open>batch.value()\<close> without a
  check); a completed batch throws if and only if its sender is not connected,
  and indexes outside the batch list if and only if its id is not one of the
  container's.
\<close>

theorem lead_server_fails_iff:
  assumes "server_inv s"
  shows "(on_down a s = Inl e \<longleftrightarrow>
            e = Bad_Optional_Access \<and> a \<in> conn_of (srv_clients s) \<and> holds_of (srv_clients s) a = None) \<and>
    (on_done_batch now a b s = Inl e \<longleftrightarrow>
       (if a \<notin> conn_of (srv_clients s) then e = Bad_Optional_Access
        else e = Out_Of_Range \<and>
             \<not> (0 \<le> batch_id b \<and> batch_id b < int (length (batch_list (srv_batches s))))))"
proof
  from assms have inv: "cc_inv (srv_clients s)" "bc_inv (srv_batches s)" "dinv (server_abs s)"
    by (simp_all add: server_inv_def)
  show "on_down a s = Inl e \<longleftrightarrow>
      e = Bad_Optional_Access \<and> a \<in> conn_of (srv_clients s) \<and> holds_of (srv_clients s) a = None"
  proof (cases "getClient a (srv_clients s)")
    case None
    then show ?thesis by (simp add: on_down_def conn_of_def)
  next
    case (Some c)
    then have h: "a \<in> conn_of (srv_clients s)" "holds_of (srv_clients s) a = map_option batch_id (current_batch c)"
      by (simp_all add: conn_of_def holds_of_def)
    show ?thesis
    proof (cases "current_batch c")
      case None
      with Some h show ?thesis by (auto simp: on_down_def resolveLostClient_def getBatch_def)
    next
      case (Some b')
      with resolveLostClient_sim [OF inv \<open>getClient a (srv_clients s) = Some c\<close> Some] h
        \<open>getClient a (srv_clients s) = Some c\<close>
      show ?thesis by (auto simp: on_down_def)
    qed
  qed
next
  show "on_done_batch now a b s = Inl e \<longleftrightarrow>
      (if a \<notin> conn_of (srv_clients s) then e = Bad_Optional_Access
       else e = Out_Of_Range \<and>
            \<not> (0 \<le> batch_id b \<and> batch_id b < int (length (batch_list (srv_batches s)))))"
    by (auto simp: on_done_batch_def conn_of_def updateBatch_success_csv_def updateBatch_success_def
        vec_upd_def summa_server_exit_eq Let_def split: prod.splits option.splits if_splits)
qed

lemma lead_server_fails_iff_witness:
  "server_inv demo_last \<and> on_down 7 demo_last = Inl Bad_Optional_Access \<and>
   on_done_batch 0 9 (Batch 1 3 1) demo_last = Inl Bad_Optional_Access"
  using lead_server_fails_iff [OF demo_last_inv, of 7 Bad_Optional_Access 0 "Batch 1 3 1"]
    lead_server_fails_iff [OF demo_last_inv, of 9 Bad_Optional_Access 0 "Batch 1 3 1"]
  by (simp add: demo_last_inv demo_last_holds)

end
