(* ===== verification/Backup_Server.thy ===== *)
theory Backup_Server
  imports Server_Refinement
begin

text \<open>
  The backup servers (\<^verbatim>\<open>summa_backup_server.cpp\<close>): connecting to the lead
  server, the handlers that replicate its containers, and the callback that
  runs when a monitored actor is lost.  The properties show that a backup server never
  gets registered, and what becomes of one that is promoted.
\<close>

subsection \<open>Connecting\<close>

definition summa_backup_server_init :: "string \<Rightarrow> server_state \<Rightarrow> server_state" where
  "summa_backup_server_init host s = s\<lparr>srv_hostname := host, current_behavior := Backup_Init\<rparr>"

definition connecting_backup ::
  "string \<Rightarrow> int \<Rightarrow> server_state \<Rightarrow> server_state \<times> server_effect list" where
  "connecting_backup host p s = (s\<lparr>current_server := None\<rparr>, [Request_Connect host p])"

definition backup_init_receive :: "server_msg \<Rightarrow> server_state \<Rightarrow> server_state outcome" where
  "backup_init_receive m s =
     (case m of
        Connect_Atom host p \<Rightarrow> Inr (connecting_backup host p s)
      | _ \<Rightarrow> Inr (s, [Unexpected m]))"

definition summa_backup_server :: "server_state \<Rightarrow> server_state \<times> server_effect list" where
  "summa_backup_server s =
     (s\<lparr>current_behavior := Backup\<rparr>,
      (case current_server_actor s of
         None \<Rightarrow> []
       | Some lead \<Rightarrow> [Send lead (Addressed_Connect_As_Backup lead (self_ref s) (srv_hostname s))]))"

text \<open>The reply of the middleman: a resolved actor (possibly none) with its
  interface, or an error.\<close>

datatype connect_reply = Resolved "actor_id option" "string list" | Connect_Failed

definition on_connect_reply ::
  "connect_reply \<Rightarrow> server_state \<Rightarrow> server_state \<times> server_effect list" where
  "on_connect_reply r s =
     (case r of
        Connect_Failed \<Rightarrow> (s, [])
      | Resolved None ifs \<Rightarrow> (s, [])
      | Resolved (Some serv) ifs \<Rightarrow>
          if ifs \<noteq> [] then (s, [])
          else (case summa_backup_server
                       (s\<lparr>current_server := Some serv, current_server_actor := Some serv\<rparr>) of
                  (s', es) \<Rightarrow> (s', Monitor serv # es)))"

subsection \<open>Handlers of a backup server\<close>

definition backup_receive :: "server_msg \<Rightarrow> server_state \<Rightarrow> server_state outcome" where
  "backup_receive m s =
     (case m of
        Is_Lead_Server a \<Rightarrow> Inr (s, [Send a (Is_Lead_Server_Reply False (self_ref s))])
      | Connect_As_Backup_Ack \<Rightarrow> Inr (s, [])
      | Update_With_Current_State bc cc \<Rightarrow> Inr (s\<lparr>srv_batches := bc, srv_clients := cc\<rparr>, [])
      | Update_Backup_Server_List bs \<Rightarrow> Inr (s\<lparr>backup_servers_list := bs\<rparr>, [])
      | New_Client a h \<Rightarrow> Inr (s\<lparr>srv_clients := addClient a h (srv_clients s)\<rparr>, [Monitor a])
      | Client_Removed c \<Rightarrow> Inr (s\<lparr>srv_clients := removeClient c (srv_clients s)\<rparr>, [])
      | Done_Batch a b \<Rightarrow>
          res_bind (updateBatch_success b (srv_batches s)) (\<lambda>bc. Inr (s\<lparr>srv_batches := bc\<rparr>, []))
      | New_Assigned_Batch a b \<Rightarrow>
          res_bind (setBatchAssigned b (srv_batches s)) (\<lambda>bc.
            Inr (s\<lparr>srv_batches := bc,
                   srv_clients := setBatchForClient a (Some b) (srv_clients s)\<rparr>, []))
      | No_More_Batches a \<Rightarrow>
          Inr (s\<lparr>srv_clients := setBatchForClient a None (srv_clients s)\<rparr>, [])
      | Time_To_Exit \<Rightarrow> Inr (s\<lparr>current_behavior := Stopped\<rparr>, [Quit])
      | _ \<Rightarrow> Inr (s, [Unexpected m]))"

text \<open>The callback of \<^verbatim>\<open>monitor\<close>, installed for the lead server and for every
  client the backup server is told about; \<^verbatim>\<open>(uint16_t)\<close> truncates the port.\<close>

definition on_backup_down :: "bool \<Rightarrow> actor_id \<Rightarrow> server_state \<Rightarrow> (server_state outcome) option" where
  "on_backup_down is_published source s =
     (if current_server_actor s = Some (self_ref s)
      then Some (case getClient source (srv_clients s) of
                   Some c \<Rightarrow> resolveLostClient c s
                 | None \<Rightarrow> Inr (resolveLostBackupServer source s))
      else if Some source = current_server s
      then (case vec_at (backup_servers_list s) 0 of
              Inl e \<Rightarrow> Some (Inl e)
            | Inr (a, h) \<Rightarrow>
                if a = self_ref s
                then summa_server is_published (s\<lparr>backup_servers_list := tl (backup_servers_list s)\<rparr>)
                else Some (Inr (connecting_backup h
                       (port (distributed_settings (srv_settings s)) mod 2 ^ 16) s)))
      else Some (Inr (s, [])))"

definition make_behavior :: "bool \<Rightarrow> string \<Rightarrow> server_state \<Rightarrow> (server_state outcome) option" where
  "make_behavior is_published host s =
     (if backup s then Some (Inr (summa_backup_server_init host s, []))
      else summa_server is_published s)"

subsection \<open>Properties\<close>

definition demo_lead :: server_state where
  "demo_lead = demo_last\<lparr>backup_servers_list := [(5, ''standby'')]\<rparr>"

definition demo_backup :: server_state where
  "demo_backup = demo_lead\<lparr>self_ref := 5, backup := True, current_behavior := Backup,
     current_server := Some 1, current_server_actor := Some 1\<rparr>"

text \<open>
  C26. The registration of a backup server never arrives: the message with which
  \<^verbatim>\<open>summa_backup_server\<close> announces itself starts with the receiver's own handle,
  no handler of the lead server takes a message of these types, so the lead
  server drops it as unexpected and stays as it is.
\<close>

theorem backup_registration_is_dropped:
  "\<forall>e \<in> set (snd (summa_backup_server t)). \<exists>lead m.
     e = Send lead m \<and> current_server_actor t = Some lead \<and>
     lead_receive now m s = Inr (s, [Unexpected m])"
  by (auto simp: summa_backup_server_def lead_receive_def split: option.splits)

lemma backup_registration_is_dropped_witness:
  "snd (summa_backup_server demo_backup) = [Send 1 (Addressed_Connect_As_Backup 1 5 [])] \<and>
   lead_receive 0 (Addressed_Connect_As_Backup 1 5 []) demo_lead =
     Inr (demo_lead, [Unexpected (Addressed_Connect_As_Backup 1 5 [])])"
proof -
  have "snd (summa_backup_server demo_backup) = [Send 1 (Addressed_Connect_As_Backup 1 5 [])]"
    by (simp add: summa_backup_server_def demo_backup_def demo_lead_def demo_last_def demo_started_def
        SummaServer_def)
  with backup_registration_is_dropped [of demo_backup 0 demo_lead] show ?thesis by simp
qed

text \<open>
  C21. A promoted backup server starts over: when the lead server is lost and the
  backup server is first in its list, it becomes the lead server through
  \<^verbatim>\<open>summa_server()\<close>, which builds new containers, so that it knows no client and
  every batch is unsolved and free again, whatever it had replicated.  (A count of HRUs that
  is the largest \<^verbatim>\<open>int\<close> makes the assembly of the batches overflow.)
\<close>

theorem promoted_backup_starts_over:
  assumes "current_server_actor t \<noteq> Some (self_ref t)" and "current_server t = Some lead"
    and "backup_servers_list t = (self_ref t, h) # bs"
    and "0 < ds_num_hru_per_batch (distributed_settings (srv_settings t))"
    and "0 \<le> ds_total_hru_count (distributed_settings (srv_settings t))"
  shows "if ds_total_hru_count (distributed_settings (srv_settings t)) < INT_MAX
    then \<exists>t' es. on_backup_down True lead t = Some (Inr (t', es)) \<and> current_behavior t' = Lead \<and>
      cc_isEmpty (srv_clients t') \<and>
      unsolved_ids (srv_batches t') = {0 ..< int (length (batch_list (srv_batches t')))} \<and>
      free_ids (srv_batches t') = unsolved_ids (srv_batches t')
    else on_backup_down True lead t = Some (Inl Int_Overflow)"
proof (cases "ds_total_hru_count (distributed_settings (srv_settings t)) < INT_MAX")
  case True
  let ?t = "t\<lparr>backup_servers_list := bs\<rparr>"
  let ?n = "ds_total_hru_count (distributed_settings (srv_settings t))"
  let ?per = "ds_num_hru_per_batch (distributed_settings (srv_settings t))"
  obtain bc where bc: "BatchContainer 1 ?n ?per [] = Some (Inr bc)"
    "batch_list bc = batch_plan ?per (ensure_dir []) ?n 0 1" "free_ids bc = unsolved_ids bc"
    using assms(4) ints_from_one [OF True] by (rule BatchContainer_bc_inv)
  have "on_backup_down True lead t = summa_server True ?t"
    using assms(1-3) by (simp add: on_backup_down_def vec_at_def)
  moreover have "\<forall>b \<in> set (batch_list bc). \<not> solved b"
    using batch_plan_fresh [of _ ?per "ensure_dir []" ?n 0 1] bc(2) by (auto simp: fresh_batch_def)
  then have "unsolved_ids bc = {0 ..< int (length (batch_list bc))}"
    unfolding unsolved_ids_def by (auto simp: image_iff intro!: exI [of _ "nat _"])
  ultimately show ?thesis using bc(1,3) True
    by (simp add: summa_server_def Let_def cc_isEmpty_def) (simp add: Client_Container_def)
next
  case False
  let ?n = "ds_total_hru_count (distributed_settings (srv_settings t))"
  have "0 < ?n" "INT_MAX < 1 + ?n" using False INT_bounds by simp_all
  with assms(4) have "summa_server True (t\<lparr>backup_servers_list := bs\<rparr>) = Some (Inl Int_Overflow)"
    by (simp add: summa_server_def BatchContainer_def assembleBatches_beyond)
  then show ?thesis using assms(1-3) False by (simp add: on_backup_down_def vec_at_def)
qed

definition demo_heir :: server_state where
  "demo_heir = demo_backup\<lparr>backup_servers_list := [(5, ''standby'')]\<rparr>"

lemma promoted_backup_starts_over_witness:
  "unsolved_ids (srv_batches demo_heir) = {1} \<and>
   (\<exists>t' es. on_backup_down True 1 demo_heir = Some (Inr (t', es)) \<and>
      current_behavior t' = Lead \<and> cc_isEmpty (srv_clients t') \<and>
      free_ids (srv_batches t') = unsolved_ids (srv_batches t'))"
proof -
  have "unsolved_ids (srv_batches demo_heir) = {1}"
    using demo_last_ids by (simp add: demo_heir_def demo_backup_def demo_lead_def)
  moreover have "current_server_actor demo_heir \<noteq> Some (self_ref demo_heir)"
    "current_server demo_heir = Some 1"
    "backup_servers_list demo_heir = (self_ref demo_heir, ''standby'') # []"
    by (simp_all add: demo_heir_def demo_backup_def)
  moreover have "srv_settings demo_heir = demo_settings"
    by (simp add: demo_heir_def demo_backup_def demo_lead_def demo_last_def demo_started_def SummaServer_def)
  then have "0 < ds_num_hru_per_batch (distributed_settings (srv_settings demo_heir))"
    "0 \<le> ds_total_hru_count (distributed_settings (srv_settings demo_heir))"
    "ds_total_hru_count (distributed_settings (srv_settings demo_heir)) < INT_MAX"
    by (simp_all add: demo_settings_def INT_MAX_def)
  ultimately show ?thesis using promoted_backup_starts_over [of demo_heir 1 "''standby''" "[]"] by auto
qed

end
