(* ===== verification/Summa_Client.thy ===== *)
theory Summa_Client
  imports Server_Messages
begin

text \<open>
  The client of the lead server (\<^verbatim>\<open>summa_client.hpp\<close>, \<^verbatim>\<open>summa_client.cpp\<close>): it
  connects, runs a SUMMA actor for every batch it is sent and reports the batch
  with its timings.  Which servers the middleman can reach is an argument.
\<close>

record summa_client =
  cl_self :: actor_id
  cl_current_server :: "actor_id option"
  cl_current_server_actor :: "actor_id option"
  servers :: "actor_id list"
  cl_hostname :: string
  summa_actor_ref :: "actor_id option"
  running :: bool
  cl_backup_servers_list :: backup_list
  cl_current_batch :: batch
  saved_batch :: bool
  cl_distributed_settings :: DistributedSettings
  cl_settings :: settings
  cl_restart :: string
  cl_stopped :: bool
  cl_monitored :: "actor_id list"           \<comment> \<open>the actors \<^verbatim>\<open>monitor\<close> was called for\<close>

definition SummaClient :: "actor_id \<Rightarrow> DistributedSettings \<Rightarrow> settings \<Rightarrow> string \<Rightarrow> summa_client" where
  "SummaClient self ds st r =
     \<lparr>cl_self = self, cl_current_server = None, cl_current_server_actor = None, servers = [],
      cl_hostname = [], summa_actor_ref = None, running = False, cl_backup_servers_list = [],
      cl_current_batch = Batch (- 1) (- 1) (- 1), saved_batch = False,
      cl_distributed_settings = ds, cl_settings = st, cl_restart = r, cl_stopped = False, cl_monitored = []\<rparr>"

text \<open>The loop over the configured hosts; it gives up at the first host that
  cannot be reached, and otherwise keeps the last one.\<close>

fun connect_hosts ::
  "(string \<Rightarrow> int \<Rightarrow> actor_id option) \<Rightarrow> string list \<Rightarrow> summa_client \<Rightarrow> bool \<times> summa_client" where
  "connect_hosts remote_actor [] s = (True, s)"
| "connect_hosts remote_actor (h # hs) s =
     (case remote_actor h (port (cl_distributed_settings s)) of
        None \<Rightarrow> (False, s)
      | Some a \<Rightarrow> connect_hosts remote_actor hs
          (s\<lparr>cl_current_server_actor := Some a, cl_current_server := Some a\<rparr>))"

definition client_make_behavior ::
  "(string \<Rightarrow> int \<Rightarrow> actor_id option) \<Rightarrow> string \<Rightarrow> summa_client \<Rightarrow>
   summa_client \<times> server_effect list" where
  "client_make_behavior remote_actor host s0 =
     (let s = s0\<lparr>running := True, cl_hostname := host\<rparr>
      in (case connect_hosts remote_actor (servers_list (cl_distributed_settings s)) s of
            (False, s1) \<Rightarrow> (s1\<lparr>cl_stopped := True\<rparr>, [])
          | (True, s1) \<Rightarrow>
              (s1, (case cl_current_server_actor s1 of
                      None \<Rightarrow> []
                    | Some a \<Rightarrow> [Send a (Connect_To_Server (cl_self s1) (cl_hostname s1))]))))"

definition send_to :: "actor_id option \<Rightarrow> server_msg \<Rightarrow> server_effect list" where
  "send_to a m = (case a of None \<Rightarrow> [] | Some x \<Rightarrow> [Send x m])"

text \<open>The loop over \<^verbatim>\<open>servers_\<close> in the handler of \<^verbatim>\<open>is_lead_server\<close>.\<close>

fun match_servers ::
  "actor_id \<Rightarrow> actor_id list \<Rightarrow> summa_client \<Rightarrow> summa_client \<times> server_effect list" where
  "match_servers srv [] s = (s, [])"
| "match_servers srv (x # xs) s =
     (if x = srv
      then (let s1 = s\<lparr>cl_current_server := Some x\<rparr>
            in if saved_batch s1
               then (case match_servers srv xs (s1\<lparr>saved_batch := False\<rparr>) of
                       (s2, es) \<Rightarrow>
                         (s2, send_to (cl_current_server_actor s1)
                                (Done_Batch (cl_self s1) (cl_current_batch s1)) @ es))
               else match_servers srv xs s1)
      else match_servers srv xs s)"

definition client_receive :: "actor_id \<Rightarrow> server_msg \<Rightarrow> summa_client \<Rightarrow> summa_client \<times> server_effect list" where
  "client_receive spawned m s =
     (case m of
        Connected_To_Server st bs \<Rightarrow>
          (s\<lparr>cl_settings := (cl_settings s)\<lparr>fa_actor_settings := fa_actor_settings st,
               job_actor_settings := job_actor_settings st,
               hru_actor_settings := hru_actor_settings st\<rparr>\<rparr>, [])
      | Connect_Atom host p \<Rightarrow> (s, [])
      | Is_Lead_Server_Reply is_server srv \<Rightarrow>
          if is_server
          then (case match_servers srv (servers s)
                  (s\<lparr>cl_monitored := srv # cl_monitored s, cl_current_server_actor := Some srv\<rparr>) of
                  (s1, es) \<Rightarrow>
                    (s1\<lparr>servers := []\<rparr>,
                     Monitor srv # es @ [Send srv (Connect_To_Server (cl_self s) (cl_hostname s))]))
          else (s, [])
      | Update_Backup_Server_List bs \<Rightarrow> (s\<lparr>cl_backup_servers_list := bs\<rparr>, [])
      | Assigned_Batch b \<Rightarrow>
          (s\<lparr>cl_current_batch := b, summa_actor_ref := Some spawned\<rparr>,
           [Spawn_Summa_Actor (start_hru b) (num_hru b) (cl_settings s) (cl_restart s)])
      | Done_Batch_Times run rd wr \<Rightarrow>
          (let b = updateWriteTime wr (updateReadTime rd (updateRunTime run (cl_current_batch s)));
               s1 = s\<lparr>cl_current_batch := b\<rparr>
           in if cl_current_server s1 = None then (s1\<lparr>saved_batch := True\<rparr>, [])
              else (s1, send_to (cl_current_server_actor s1) (Done_Batch (cl_self s1) b)))
      | Time_To_Exit \<Rightarrow> (s\<lparr>cl_stopped := True\<rparr>, [Quit])
      | _ \<Rightarrow> (s, [Unexpected m]))"

text \<open>The callback of the monitor on the lead server.  The only call of \<^verbatim>\<open>monitor\<close> is in the
  handler of \<^verbatim>\<open>is_lead_server\<close>; the loss of an actor that is not monitored is not noticed.\<close>

definition on_server_lost :: "actor_id \<Rightarrow> summa_client \<Rightarrow> summa_client" where
  "on_server_lost srv s =
     (if srv \<in> set (cl_monitored s) \<and> Some srv = cl_current_server s then s\<lparr>cl_current_server := None\<rparr> else s)"

datatype client_event = C_Receive actor_id server_msg | C_Lost actor_id

definition client_handle :: "client_event \<Rightarrow> summa_client \<Rightarrow> summa_client \<times> server_effect list" where
  "client_handle ev s =
     (if cl_stopped s then (s, [])
      else (case ev of
              C_Receive spawned m \<Rightarrow> client_receive spawned m s
            | C_Lost srv \<Rightarrow> (on_server_lost srv s, [])))"

fun client_run :: "client_event list \<Rightarrow> summa_client \<Rightarrow> summa_client \<times> server_effect list" where
  "client_run [] s = (s, [])"
| "client_run (ev # evs) s =
     (case client_handle ev s of (s1, es1) \<Rightarrow>
      (case client_run evs s1 of (s2, es2) \<Rightarrow> (s2, es1 @ es2)))"

subsection \<open>Lemmas\<close>

text \<open>The reports a client sends.\<close>

definition reports :: "server_effect list \<Rightarrow> (actor_id \<times> batch) list" where
  "reports es = concat (map (\<lambda>e. case e of Send a (Done_Batch c b) \<Rightarrow> [(a, b)] | _ \<Rightarrow> []) es)"

lemma reports_simps [simp]:
  "reports [] = []"
  "reports (xs @ ys) = reports xs @ reports ys"
  by (simp_all add: reports_def)

text \<open>Events that do not concern the batch in hand: no new batch, no result, no order to
  exit, no change of the server, and no loss the client notices.\<close>

definition quiet :: "summa_client \<Rightarrow> client_event \<Rightarrow> bool" where
  "quiet s ev \<longleftrightarrow> (case ev of
     C_Receive w m \<Rightarrow>
       (case m of Assigned_Batch b \<Rightarrow> False | Done_Batch_Times run rd wr \<Rightarrow> False | Time_To_Exit \<Rightarrow> False
        | Is_Lead_Server_Reply is_server srv \<Rightarrow> \<not> is_server | _ \<Rightarrow> True)
   | C_Lost srv \<Rightarrow> srv \<notin> set (cl_monitored s))"

lemma quiet_cong: "cl_monitored t = cl_monitored s \<Longrightarrow> quiet t = quiet s"
  by (auto simp: quiet_def fun_eq_iff split: client_event.splits)

lemma client_handle_quiet:
  assumes "quiet s ev" and "client_handle ev s = (s', es)"
  shows "cl_current_server s' = cl_current_server s" "cl_current_server_actor s' = cl_current_server_actor s"
    "cl_current_batch s' = cl_current_batch s" "cl_stopped s' = cl_stopped s" "cl_monitored s' = cl_monitored s"
    "reports es = []"
  using assms
  by (auto simp: quiet_def client_handle_def client_receive_def on_server_lost_def reports_def
      split: client_event.splits server_msg.splits if_splits)

text \<open>A client connected to \<open>a\<close> that monitors nobody.\<close>

definition attached :: "actor_id \<Rightarrow> summa_client \<Rightarrow> bool" where
  "attached a s \<longleftrightarrow> cl_current_server s = Some a \<and> cl_current_server_actor s = Some a \<and> cl_monitored s = [] \<and>
     \<not> cl_stopped s"

definition asks_lead :: "client_event \<Rightarrow> bool" where
  "asks_lead ev \<longleftrightarrow> (\<exists>w b srv. ev = C_Receive w (Is_Lead_Server_Reply b srv))"

definition is_exit :: "client_event \<Rightarrow> bool" where
  "is_exit ev \<longleftrightarrow> (\<exists>w. ev = C_Receive w Time_To_Exit)"

definition is_result :: "client_event \<Rightarrow> bool" where
  "is_result ev \<longleftrightarrow> (\<exists>w run rd wr. ev = C_Receive w (Done_Batch_Times run rd wr))"

lemma client_handle_attached:
  assumes "attached a s" and "\<not> asks_lead ev" and "\<not> is_exit ev" and "client_handle ev s = (s', es)"
  shows "attached a s' \<and> map fst (reports es) = (if is_result ev then [a] else [])"
  using assms
  by (auto simp: attached_def asks_lead_def is_exit_def is_result_def client_handle_def client_receive_def
      on_server_lost_def send_to_def reports_def Let_def split: client_event.splits server_msg.splits)

lemma client_run_attached:
  assumes "attached a s" and "\<forall>ev \<in> set evs. \<not> asks_lead ev \<and> \<not> is_exit ev" and "client_run evs s = (s', es)"
  shows "attached a s' \<and> map fst (reports es) = replicate (count_if is_result evs) a"
  using assms
proof (induction evs arbitrary: s s' es)
  case (Cons ev evs)
  obtain s1 es1 where h: "client_handle ev s = (s1, es1)" by fastforce
  obtain s2 es2 where r: "client_run evs s1 = (s2, es2)" by fastforce
  from client_handle_attached [OF Cons.prems(1) _ _ h] Cons.prems(2)
  have a: "attached a s1" "map fst (reports es1) = (if is_result ev then [a] else [])" by auto
  from Cons.IH [OF a(1) _ r] Cons.prems(2) have
    b: "attached a s2" "map fst (reports es2) = replicate (count_if is_result evs) a" by auto
  have "s' = s2" "es = es1 @ es2" using Cons.prems(3) h r by simp_all
  with a b show ?case by simp
qed simp

text \<open>The server a client starts with is the last of the configured hosts.\<close>

lemma connect_hosts_last:
  "hs \<noteq> [] \<Longrightarrow> \<forall>h \<in> set hs. ra h (port (cl_distributed_settings s)) \<noteq> None \<Longrightarrow> ra (last hs) (port (cl_distributed_settings s)) = Some a \<Longrightarrow>
   connect_hosts ra hs s = (True, s\<lparr>cl_current_server_actor := Some a, cl_current_server := Some a\<rparr>)"
  by (induction ra hs s rule: connect_hosts.induct) (auto split: option.splits if_splits)

lemma client_starts_attached:
  assumes "servers_list ds \<noteq> []" and "\<forall>h \<in> set (servers_list ds). ra h (port ds) \<noteq> None"
    and "ra (last (servers_list ds)) (port ds) = Some a"
  shows "attached a (fst (client_make_behavior ra host (SummaClient self ds st r)))"
  using connect_hosts_last [of "servers_list ds" ra "(SummaClient self ds st r)\<lparr>running := True, cl_hostname := host\<rparr>" a] assms
  by (simp add: client_make_behavior_def SummaClient_def Let_def attached_def)

subsection \<open>Properties\<close>

text \<open>
  C28. A connected client reports the batch it was assigned: after a batch and the
  timings from the SUMMA actor the client sends its current server exactly one
  completed batch, which has the id, range and flags of the assigned one and the
  measured times.  In between there may be any events but another batch or result, the
  order to exit, the answer of a lead server, and the loss of an actor the client monitors.
\<close>

theorem client_reports_assigned_batch:
  assumes "cl_current_server s = Some srv" and "cl_current_server_actor s = Some a" and "\<not> cl_stopped s"
    and "\<forall>ev \<in> set mid. quiet s ev"
  shows "reports (snd (client_run
      (C_Receive w (Assigned_Batch b) # mid @ [C_Receive w' (Done_Batch_Times run rd wr)]) s)) =
    [(a, b\<lparr>run_time := run, read_time := rd, write_time := wr\<rparr>)]"
proof -
  let ?s = "fst (client_receive w (Assigned_Batch b) s)"
  have step: "reports (snd (client_run (mid @ [C_Receive w' (Done_Batch_Times run rd wr)]) t)) =
      [(a, b\<lparr>run_time := run, read_time := rd, write_time := wr\<rparr>)]"
    if "cl_current_server t = Some srv" "cl_current_server_actor t = Some a" "cl_current_batch t = b"
      "\<not> cl_stopped t" "\<forall>ev \<in> set mid. quiet t ev" for t
    using that
  proof (induction mid arbitrary: t)
    case Nil
    then show ?case
      by (simp add: client_handle_def client_receive_def Let_def send_to_def reports_def
          updateRunTime_def updateReadTime_def updateWriteTime_def)
  next
    case (Cons ev mid)
    obtain t1 es1 where h: "client_handle ev t = (t1, es1)" by fastforce
    have "quiet t ev" using Cons.prems(5) by simp
    note q = client_handle_quiet [OF this h]
    have "\<forall>ev \<in> set mid. quiet t1 ev" using Cons.prems(5) quiet_cong [OF q(5)] by simp
    with Cons.IH [of t1] Cons.prems(1-4) q h show ?case by (auto split: prod.splits)
  qed
  have "\<forall>ev \<in> set mid. quiet ?s ev"
    using assms(4) quiet_cong [of ?s s] by (simp add: client_receive_def)
  with step [of ?s] assms(1-3) show ?thesis
    by (auto simp: client_handle_def client_receive_def reports_def split: prod.splits)
qed

lemma client_reports_assigned_batch_witness:
  "reports (snd (client_run
      [C_Receive 3 (Assigned_Batch (Batch 4 10 5)), C_Receive 3 (Update_Backup_Server_List []), C_Lost 1,
       C_Receive 3 (Is_Lead_Server_Reply False 8), C_Receive 3 (Done_Batch_Times 2 1 1)]
      ((SummaClient 2 DistributedSettings_default (Settings_new []) ''never'')
         \<lparr>cl_current_server := Some 1, cl_current_server_actor := Some 1\<rparr>))) =
   [(1, (Batch 4 10 5)\<lparr>run_time := 2, read_time := 1, write_time := 1\<rparr>)]"
  using client_reports_assigned_batch
    [of "(SummaClient 2 DistributedSettings_default (Settings_new []) ''never'')
         \<lparr>cl_current_server := Some 1, cl_current_server_actor := Some 1\<rparr>" 1 1
        "[C_Receive 3 (Update_Backup_Server_List []), C_Lost 1, C_Receive 3 (Is_Lead_Server_Reply False 8)]" 3
        "Batch 4 10 5" 3 2 1 1]
  by (simp add: SummaClient_def quiet_def)

text \<open>
  C29. A client does not notice the loss of its server.  The monitor is installed by the
  answer to \<^verbatim>\<open>is_lead_server\<close>, a question that no code asks; so in every run without this
  answer, losses of the server included, the client stays with the last of the
  configured hosts and sends it every completed batch.  Had the monitor been installed, the
  loss would make the client keep its batch.
\<close>

theorem client_does_not_notice_loss:
  assumes "servers_list ds \<noteq> []" and "\<forall>h \<in> set (servers_list ds). ra h (port ds) \<noteq> None"
    and "ra (last (servers_list ds)) (port ds) = Some a"
    and "\<forall>ev \<in> set evs. \<not> asks_lead ev \<and> \<not> is_exit ev"
    and "client_run evs (fst (client_make_behavior ra host (SummaClient self ds st r))) = (s, es)"
  shows "map fst (reports es) = replicate (count_if is_result evs) a \<and>
    client_handle (C_Lost a) s = (s, []) \<and> cl_current_server s = Some a \<and>
    cl_current_server (on_server_lost a (s\<lparr>cl_monitored := [a]\<rparr>)) = None"
proof -
  from client_run_attached [OF client_starts_attached [where ra = ra, OF assms(1-3)] assms(4,5)] have
    "attached a s" "map fst (reports es) = replicate (count_if is_result evs) a" by blast+
  then show ?thesis by (simp add: attached_def client_handle_def on_server_lost_def)
qed

definition demo_client :: summa_client where
  "demo_client = fst (client_make_behavior (\<lambda>h p. Some 1) ''node''
     (SummaClient 2 (DistributedSettings_default\<lparr>servers_list := [''lead'']\<rparr>) (Settings_new []) ''never''))"

lemma client_does_not_notice_loss_witness:
  "map fst (reports (snd (client_run [C_Receive 3 (Assigned_Batch (Batch 4 10 5)), C_Lost 1,
     C_Receive 3 (Done_Batch_Times 2 1 1)] demo_client))) = [1]"
  using client_does_not_notice_loss [of "DistributedSettings_default\<lparr>servers_list := [''lead'']\<rparr>" "\<lambda>h p. Some 1" 1
      "[C_Receive 3 (Assigned_Batch (Batch 4 10 5)), C_Lost 1, C_Receive 3 (Done_Batch_Times 2 1 1)]" "''node''" 2
      "Settings_new []" "''never''", OF _ _ _ _ surjective_pairing]
  unfolding demo_client_def by (simp add: asks_lead_def is_exit_def is_result_def)

end
