(* ===== verification/Timing_Info.thy ===== *)
theory Timing_Info
  imports Prelude
begin

text \<open>
  Named stop watches (\<^verbatim>\<open>timing_info.hpp\<close>, \<^verbatim>\<open>timing_info.cpp\<close>).  A time point is
  the clock reading in nanoseconds, the period of
  \<^verbatim>\<open>std::chrono::high_resolution_clock\<close> on the supported platforms; the reading
  is an argument of the operations that take one.
\<close>

record timing_info =
  ti_start :: "int option list"
  ti_end :: "int option list"
  ti_duration :: "real list"
  name_of_time_point :: "string list"
  num_time_points :: int

definition TimingInfo :: timing_info where
  "TimingInfo = \<lparr>ti_start = [], ti_end = [], ti_duration = [], name_of_time_point = [],
                 num_time_points = 0\<rparr>"

text \<open>\<^verbatim>\<open>std::find\<close> on the names.\<close>

fun index_of :: "'a \<Rightarrow> 'a list \<Rightarrow> nat option" where
  "index_of x [] = None"
| "index_of x (y # ys) = (if x = y then Some 0 else map_option Suc (index_of x ys))"

definition getIndex :: "string \<Rightarrow> timing_info \<Rightarrow> int option" where
  "getIndex n t = map_option int (index_of n (name_of_time_point t))"

text \<open>\<^verbatim>\<open>duration_cast\<close> to microseconds truncates towards zero.\<close>

definition to_microseconds :: "int \<Rightarrow> int" where
  "to_microseconds d = sgn d * (\<bar>d\<bar> div 1000)"

definition calculateDuration :: "int \<Rightarrow> timing_info \<Rightarrow> (int option) res" where
  "calculateDuration i t =
     res_bind (vec_at (ti_start t) i) (\<lambda>s.
     res_bind (vec_at (ti_end t) i) (\<lambda>e.
       Inr (case (s, e) of
              (Some s', Some e') \<Rightarrow> Some (to_microseconds (e' - s'))
            | _ \<Rightarrow> None)))"

definition addTimePoint :: "string \<Rightarrow> timing_info \<Rightarrow> timing_info" where
  "addTimePoint n t =
     t\<lparr>name_of_time_point := name_of_time_point t @ [n], ti_start := ti_start t @ [None],
       ti_end := ti_end t @ [None], ti_duration := ti_duration t @ [0],
       num_time_points := num_time_points t + 1\<rparr>"

definition updateStartPoint :: "int \<Rightarrow> string \<Rightarrow> timing_info \<Rightarrow> timing_info res" where
  "updateStartPoint now n t =
     (case getIndex n t of
        None \<Rightarrow> Inr t
      | Some i \<Rightarrow> res_bind (vec_upd (ti_start t) i (\<lambda>_. Some now)) (\<lambda>s. Inr (t\<lparr>ti_start := s\<rparr>)))"

definition updateEndPoint :: "int \<Rightarrow> string \<Rightarrow> timing_info \<Rightarrow> timing_info res" where
  "updateEndPoint now n t =
     (case getIndex n t of
        None \<Rightarrow> Inr t
      | Some i \<Rightarrow>
          res_bind (vec_upd (ti_end t) i (\<lambda>_. Some now)) (\<lambda>e.
          let t1 = t\<lparr>ti_end := e\<rparr> in
          res_bind (calculateDuration i t1) (\<lambda>d.
            (case d of
               None \<Rightarrow> Inr t1
             | Some v \<Rightarrow> res_bind (vec_upd (ti_duration t1) i (\<lambda>x. x + real_of_int v))
                           (\<lambda>ds. Inr (t1\<lparr>ti_duration := ds\<rparr>))))))"

definition getDuration :: "string \<Rightarrow> timing_info \<Rightarrow> (real option) res" where
  "getDuration n t =
     (case getIndex n t of
        None \<Rightarrow> Inr None
      | Some i \<Rightarrow> res_bind (vec_at (ti_duration t) i) (\<lambda>d. Inr (Some (d / 1000 / 1000))))"

subsection \<open>Invariant and lemmas\<close>

definition ti_inv :: "timing_info \<Rightarrow> bool" where
  "ti_inv t \<longleftrightarrow>
     length (ti_start t) = length (name_of_time_point t) \<and>
     length (ti_end t) = length (name_of_time_point t) \<and>
     length (ti_duration t) = length (name_of_time_point t) \<and>
     num_time_points t = int (length (name_of_time_point t))"

lemma TimingInfo_inv [simp]: "ti_inv TimingInfo"
  by (simp add: ti_inv_def TimingInfo_def)

lemma addTimePoint_inv: "ti_inv t \<Longrightarrow> ti_inv (addTimePoint n t)"
  by (simp add: ti_inv_def addTimePoint_def)

lemma index_of_Some: "index_of x xs = Some i \<Longrightarrow> i < length xs \<and> xs ! i = x"
  by (induction xs arbitrary: i) (auto split: if_splits)

lemma index_of_None_iff: "index_of x xs = None \<longleftrightarrow> x \<notin> set xs"
  by (induction xs) auto

lemma getIndex_cong: "name_of_time_point t' = name_of_time_point t \<Longrightarrow> getIndex n t' = getIndex n t"
  by (simp add: getIndex_def)

lemma getIndex_Some:
  "ti_inv t \<Longrightarrow> getIndex n t = Some i \<Longrightarrow>
   \<exists>k. i = int k \<and> k < length (name_of_time_point t) \<and> name_of_time_point t ! k = n"
  by (auto simp: getIndex_def dest: index_of_Some)

lemma updateStartPoint_ok:
  assumes "ti_inv t"
  shows "\<exists>t'. updateStartPoint now n t = Inr t' \<and> ti_inv t' \<and>
    name_of_time_point t' = name_of_time_point t \<and> ti_duration t' = ti_duration t \<and>
    ti_end t' = ti_end t \<and>
    (\<forall>k. getIndex n t = Some (int k) \<longrightarrow> ti_start t' = (ti_start t)[k := Some now])"
proof (cases "getIndex n t")
  case None
  with assms show ?thesis by (simp add: updateStartPoint_def)
next
  case (Some i)
  with getIndex_Some [OF assms Some] assms show ?thesis
    by (auto simp: updateStartPoint_def ti_inv_def)
qed

text \<open>The elapsed microseconds of a reading, none before the first start.\<close>

definition elapsed :: "int \<Rightarrow> int option \<Rightarrow> real" where
  "elapsed now s = (case s of None \<Rightarrow> 0 | Some v \<Rightarrow> real_of_int (to_microseconds (now - v)))"

lemma updateEndPoint_ok:
  assumes "ti_inv t"
  shows "\<exists>t'. updateEndPoint now n t = Inr t' \<and> ti_inv t' \<and>
    name_of_time_point t' = name_of_time_point t \<and> ti_start t' = ti_start t \<and>
    ti_duration t' = (case getIndex n t of None \<Rightarrow> ti_duration t
      | Some i \<Rightarrow> (ti_duration t)[nat i := ti_duration t ! nat i + elapsed now (ti_start t ! nat i)])"
proof (cases "getIndex n t")
  case None
  with assms show ?thesis by (simp add: updateEndPoint_def)
next
  case (Some i)
  from getIndex_Some [OF assms Some] obtain k where k: "i = int k" "k < length (name_of_time_point t)"
    by blast
  with assms Some show ?thesis
    by (cases "ti_start t ! k")
       (auto simp: updateEndPoint_def calculateDuration_def ti_inv_def elapsed_def Let_def)
qed

subsection \<open>Properties\<close>

text \<open>One measurement: start, then end.\<close>

definition measure_once :: "string \<Rightarrow> timing_info \<Rightarrow> int \<times> int \<Rightarrow> timing_info res" where
  "measure_once n t p = res_bind (updateStartPoint (fst p) n t) (updateEndPoint (snd p) n)"

fun measure_all :: "string \<Rightarrow> timing_info \<Rightarrow> (int \<times> int) list \<Rightarrow> timing_info res" where
  "measure_all n t [] = Inr t"
| "measure_all n t (p # ps) = res_bind (measure_once n t p) (\<lambda>t'. measure_all n t' ps)"

lemma measure_once_ok:
  assumes "ti_inv t" and "getIndex n t = Some i"
  shows "\<exists>t'. measure_once n t p = Inr t' \<and> ti_inv t' \<and>
    name_of_time_point t' = name_of_time_point t \<and>
    ti_duration t' = (ti_duration t)
      [nat i := ti_duration t ! nat i + real_of_int (to_microseconds (snd p - fst p))]"
proof -
  from getIndex_Some [OF assms] obtain k where k: "i = int k" "k < length (name_of_time_point t)" by blast
  from updateStartPoint_ok [OF assms(1), of "fst p" n] assms(2) k obtain t1 where
    t1: "updateStartPoint (fst p) n t = Inr t1" "ti_inv t1"
      "name_of_time_point t1 = name_of_time_point t" "ti_duration t1 = ti_duration t"
      "ti_start t1 = (ti_start t)[k := Some (fst p)]" by auto
  have "getIndex n t1 = Some i" using assms(2) t1(3) getIndex_cong by metis
  moreover have "ti_start t1 ! k = Some (fst p)" using t1 k assms(1) by (simp add: ti_inv_def)
  ultimately show ?thesis
    using updateEndPoint_ok [OF t1(2), of "snd p" n] t1 k by (auto simp: measure_once_def elapsed_def)
qed

lemma measure_all_ok:
  assumes "ti_inv t" and "getIndex n t = Some i"
  shows "\<exists>t'. measure_all n t ps = Inr t' \<and> ti_inv t' \<and>
    name_of_time_point t' = name_of_time_point t \<and>
    ti_duration t' = (ti_duration t)
      [nat i := ti_duration t ! nat i + (\<Sum>p\<leftarrow>ps. real_of_int (to_microseconds (snd p - fst p)))]"
  using assms
proof (induction ps arbitrary: t)
  case (Cons p ps)
  from getIndex_Some [OF Cons.prems] obtain k where k: "i = int k" "k < length (name_of_time_point t)"
    by blast
  from measure_once_ok [OF Cons.prems, of p] obtain t1 where
    t1: "measure_once n t p = Inr t1" "ti_inv t1" "name_of_time_point t1 = name_of_time_point t"
      "ti_duration t1 = (ti_duration t)
         [nat i := ti_duration t ! nat i + real_of_int (to_microseconds (snd p - fst p))]" by blast
  have "getIndex n t1 = Some i" using Cons.prems(2) t1(3) getIndex_cong by metis
  from Cons.IH [OF t1(2) this] t1 k Cons.prems(1) show ?case
    by (auto simp: ti_inv_def algebra_simps)
qed simp

text \<open>
  A stop watch accumulates: on a well-formed object, after any sequence of
  start/end measurements of a known name the reported duration has grown by
  the sum of the measured microseconds, divided by a million; the durations of
  all other names are unchanged, and an unknown name has no duration.
\<close>

lemma timing_accumulates:
  assumes "ti_inv t" and "n \<in> set (name_of_time_point t)"
  shows "\<exists>t' d. measure_all n t ps = Inr t' \<and> ti_inv t' \<and> getDuration n t = Inr (Some d) \<and>
    getDuration n t' = Inr (Some (d +
      (\<Sum>p\<leftarrow>ps. real_of_int (to_microseconds (snd p - fst p))) / 1000000)) \<and>
    (\<forall>n'. n' \<noteq> n \<longrightarrow> getDuration n' t' = getDuration n' t) \<and>
    (\<forall>n'. n' \<notin> set (name_of_time_point t) \<longrightarrow> getDuration n' t' = Inr None)"
proof -
  from assms(2) obtain i where i: "getIndex n t = Some i"
    using index_of_None_iff [of n "name_of_time_point t"] by (auto simp: getIndex_def)
  from getIndex_Some [OF assms(1) i] obtain k where
    k: "i = int k" "k < length (name_of_time_point t)" "name_of_time_point t ! k = n" by blast
  from measure_all_ok [OF assms(1) i, of ps] obtain t' where
    t': "measure_all n t ps = Inr t'" "ti_inv t'" "name_of_time_point t' = name_of_time_point t"
    and d: "ti_duration t' = (ti_duration t)
      [k := ti_duration t ! k + (\<Sum>p\<leftarrow>ps. real_of_int (to_microseconds (snd p - fst p)))]"
    using k by auto
  have len: "length (ti_duration t) = length (name_of_time_point t)" using assms(1) by (simp add: ti_inv_def)
  have same: "getIndex n' t' = getIndex n' t" for n' using t'(3) by (rule getIndex_cong)
  have "getDuration n' t' = getDuration n' t" if "n' \<noteq> n" for n'
  proof (cases "getIndex n' t")
    case (Some j)
    then obtain k' where "j = int k'" "k' < length (name_of_time_point t)" "name_of_time_point t ! k' = n'"
      using getIndex_Some [OF assms(1)] by blast
    with that k len d Some same show ?thesis by (auto simp: getDuration_def nth_list_update)
  qed (simp add: getDuration_def same)
  moreover have "getDuration n' t' = Inr None" if "n' \<notin> set (name_of_time_point t)" for n'
    using that index_of_None_iff [of n' "name_of_time_point t"] same
    by (simp add: getDuration_def getIndex_def)
  moreover have "getDuration n t = Inr (Some (ti_duration t ! k / 1000 / 1000))"
    using i k len by (simp add: getDuration_def)
  moreover have "getDuration n t' = Inr (Some (ti_duration t ! k / 1000 / 1000 +
      (\<Sum>p\<leftarrow>ps. real_of_int (to_microseconds (snd p - fst p))) / 1000000))"
    using i k len d same by (simp add: getDuration_def add_divide_distrib)
  ultimately show ?thesis using t' by blast
qed

end
