(* ===== verification/Summa_Actor.thy ===== *)
theory Summa_Actor
  imports Server_Messages Timing_Info
begin

text \<open>
  The SUMMA actor (\<^verbatim>\<open>summa_actor.hpp\<close>, \<^verbatim>\<open>summa_actor.cpp\<close>,
  \<^verbatim>\<open>summa_global_data.cpp\<close>), which cuts its range of GRUs into batches and runs
  one job actor after the other.  What the environment answers (clock, file
  manager, Fortran initialisation, file system) is collected in a record of
  arguments.
\<close>

subsection \<open>The wrapper of the global Fortran data\<close>

record summa_global_data = global_data_ready :: bool

definition SummaGlobalData :: summa_global_data where
  "SummaGlobalData = \<lparr>global_data_ready = False\<rparr>"

text \<open>\<open>err\<close> is the error code of \<^verbatim>\<open>defineGlobalData_fortran\<close>.\<close>

definition defineGlobalData :: "int \<Rightarrow> summa_global_data \<Rightarrow> int \<times> summa_global_data" where
  "defineGlobalData err g =
     (if err \<noteq> 0 then (err, g\<lparr>global_data_ready := False\<rparr>)
      else (err, g\<lparr>global_data_ready := True\<rparr>))"

text \<open>The destructor calls \<^verbatim>\<open>deallocateGlobalData_fortran\<close> exactly when this
  holds.\<close>

definition deallocates :: "summa_global_data \<Rightarrow> bool" where
  "deallocates g \<longleftrightarrow> global_data_ready g"

subsection \<open>State\<close>

record summa_actor =
  sa_timing :: timing_info
  sa_start_gru :: int
  sa_num_gru :: int
  sa_file_gru :: int
  num_gru_failed :: int
  current_job :: "actor_id option"
  sa_parent :: actor_id
  log_folder :: string
  sa_batches :: "batch_container option"
  sa_current_batch :: "batch option"
  sa_global :: "summa_global_data option"
  sa_settings :: settings
  sa_restart :: string
  sa_stopped :: bool

definition SummaActor :: "int \<Rightarrow> int \<Rightarrow> settings \<Rightarrow> actor_id \<Rightarrow> string \<Rightarrow> summa_actor" where
  "SummaActor start_gru num_gru st par restart =
     \<lparr>sa_timing = TimingInfo, sa_start_gru = start_gru, sa_num_gru = num_gru, sa_file_gru = 0,
      num_gru_failed = 0, current_job = None, sa_parent = par, log_folder = [], sa_batches = None,
      sa_current_batch = None, sa_global = None, sa_settings = st, sa_restart = restart,
      sa_stopped = False\<rparr>"

datatype summa_effect =
    Spawn_Job batch bool JobActorSettings FileAccessActorSettings HRUActorSettings string
  | Tell_Parent server_msg
  | Quit_Summa

type_synonym summa_outcome = "(summa_actor \<times> summa_effect list) res"

datatype stat_result = Is_Directory | Is_Other_File | No_Entry | Stat_Error

record summa_env =
  env_now :: int
  env_file_manager_error :: string
  env_file_gru :: int
  env_global_error :: int
  env_stamp :: string         \<comment> \<open>the formatted local time\<close>
  env_stat :: "string \<Rightarrow> stat_result"
  env_mkdir_ok :: bool
  env_job :: actor_id

subsection \<open>Operations\<close>

definition spawnJob :: "actor_id \<Rightarrow> summa_actor \<Rightarrow> (int \<times> summa_actor \<times> summa_effect list) res" where
  "spawnJob job s =
     (case sa_batches s of
        None \<Rightarrow> Inl Null_Pointer
      | Some bc \<Rightarrow>
          (case getUnsolvedBatch bc of
             (None, bc') \<Rightarrow> Inr (- 1, s\<lparr>sa_batches := Some bc', sa_stopped := True\<rparr>, [Quit_Summa])
           | (Some b, bc') \<Rightarrow>
               Inr (0, s\<lparr>sa_batches := Some bc', sa_current_batch := Some b, current_job := Some job\<rparr>,
                    [Spawn_Job b (enable_logging (summa_actor_settings (sa_settings s)))
                       (job_actor_settings (sa_settings s)) (fa_actor_settings (sa_settings s))
                       (hru_actor_settings (sa_settings s)) (sa_restart s)])))"

definition create_directories :: "stat_result \<Rightarrow> bool \<Rightarrow> bool" where
  "create_directories st mkdir_ok =
     (case st of
        No_Entry \<Rightarrow> mkdir_ok
      | Stat_Error \<Rightarrow> False
      | Is_Other_File \<Rightarrow> False
      | Is_Directory \<Rightarrow> True)"

definition createLogDirectory :: "summa_env \<Rightarrow> summa_actor \<Rightarrow> int \<times> summa_actor" where
  "createLogDirectory env s =
     (let sas = summa_actor_settings (sa_settings s) in
      if enable_logging sas
      then (let f0 = ''startgru-'' @ to_string (sa_start_gru s) @ ''_endgru-'' @
                     to_string (sa_start_gru s + sa_num_gru s - 1) @ ''_'' @ env_stamp env;
                f = (if sa_log_dir sas \<noteq> [] then sa_log_dir sas @ ''/'' @ f0 else f0)
            in (if create_directories (env_stat env f) (env_mkdir_ok env) then 0 else - 1,
                s\<lparr>log_folder := f\<rparr>))
      else (0, s\<lparr>log_folder := []\<rparr>))"

definition stop_with :: "summa_actor \<Rightarrow> summa_outcome" where
  "stop_with s = Inr (s\<lparr>sa_stopped := True\<rparr>, [Quit_Summa])"

text \<open>\<^const>\<open>None\<close> would be an assembly of batches that never ends.\<close>

definition summa_make_behavior :: "summa_env \<Rightarrow> summa_actor \<Rightarrow> summa_outcome option" where
  "summa_make_behavior env s0 =
     (case updateStartPoint (env_now env) ''total_duration'' (addTimePoint ''total_duration'' TimingInfo) of
        Inl e \<Rightarrow> Some (Inl e)
      | Inr t \<Rightarrow>
        (let s1 = s0\<lparr>sa_timing := t\<rparr> in
         if env_file_manager_error env \<noteq> [] then Some (stop_with s1)
         else (let s2 = s1\<lparr>sa_file_gru := env_file_gru env\<rparr> in
         if sa_file_gru s2 < 0 then Some (stop_with s2)
         else (case res_bind (cpp_add (sa_num_gru s2) (sa_start_gru s2)) (\<lambda>e. cpp_sub e 1) of
           Inl e \<Rightarrow> Some (Inl e)
         | Inr last_gru \<Rightarrow>
         if sa_file_gru s2 < last_gru then Some (stop_with s2)
         else (case defineGlobalData (env_global_error env) SummaGlobalData of (err, g) \<Rightarrow>
         (let s3 = s2\<lparr>sa_global := Some g\<rparr> in
         if err \<noteq> 0 then Some (stop_with s3)
         else (case createLogDirectory env s3 of (err2, s4) \<Rightarrow>
         if err2 \<noteq> 0 then Some (stop_with s4)
         else map_option
           (\<lambda>r. res_bind r (\<lambda>bc.
                res_bind (spawnJob (env_job env) (s4\<lparr>sa_batches := Some bc\<rparr>)) (\<lambda>(e, s5, es).
                  if e \<noteq> 0 then Inr (s5\<lparr>sa_stopped := True\<rparr>, es @ [Quit_Summa]) else Inr (s5, es))))
           (BatchContainer (sa_start_gru s4) (sa_num_gru s4)
              (max_gru_per_job (summa_actor_settings (sa_settings s4))) (log_folder s4)))))))))"

definition finalize :: "int \<Rightarrow> summa_actor \<Rightarrow> summa_outcome" where
  "finalize now s =
     (case sa_batches s of
        None \<Rightarrow> Inl Null_Pointer
      | Some bc \<Rightarrow>
          res_bind (updateEndPoint now ''total_duration'' (sa_timing s)) (\<lambda>t.
          res_bind (getDuration ''total_duration'' t) (\<lambda>d.
            Inr (s\<lparr>sa_timing := t\<rparr>,
                 [Tell_Parent (Done_Batch_Times (value_or d (- 1)) (getTotalReadTime bc)
                    (getTotalWriteTime bc))]))))"

definition on_done_job ::
  "int \<Rightarrow> actor_id \<Rightarrow> int \<Rightarrow> real \<Rightarrow> real \<Rightarrow> real \<Rightarrow> summa_actor \<Rightarrow> summa_outcome" where
  "on_done_job now job failed job_dur rd wr s =
     (case (sa_current_batch s, sa_batches s) of
        (Some b, Some bc) \<Rightarrow>
          res_bind (updateBatchStats (batch_id b) job_dur rd wr bc) (\<lambda>bc'.
            let s1 = s\<lparr>sa_batches := Some bc', num_gru_failed := num_gru_failed s + failed\<rparr>
            in if \<not> hasUnsolvedBatches bc' then finalize now s1
               else res_bind (spawnJob job s1) (\<lambda>(e, s2, es).
                      if e \<noteq> 0 then Inr (s2\<lparr>sa_stopped := True\<rparr>, es @ [Quit_Summa])
                      else Inr (s2, es)))
      | _ \<Rightarrow> Inl Null_Pointer)"

text \<open>Both branches of the \<^verbatim>\<open>err_atom\<close> handler print and quit.\<close>

definition on_job_error :: "int \<Rightarrow> string \<Rightarrow> summa_actor \<Rightarrow> summa_outcome" where
  "on_job_error code msg s =
     (if code = - 2 then Inr (s\<lparr>sa_stopped := True\<rparr>, [Quit_Summa])
      else Inr (s\<lparr>sa_stopped := True\<rparr>, [Quit_Summa]))"

record job_reply =
  jr_now :: int
  jr_next :: actor_id
  jr_failed :: int
  jr_duration :: real
  jr_read :: real
  jr_write :: real

fun job_replies :: "job_reply list \<Rightarrow> summa_actor \<Rightarrow> summa_outcome" where
  "job_replies [] s = Inr (s, [])"
| "job_replies (r # rs) s =
     res_bind (on_done_job (jr_now r) (jr_next r) (jr_failed r) (jr_duration r) (jr_read r) (jr_write r) s)
       (\<lambda>(s1, es1). res_bind (job_replies rs s1) (\<lambda>(s2, es2). Inr (s2, es1 @ es2)))"

subsection \<open>Sequential processing of the batches\<close>

text \<open>What identifies a batch; no operation of the container changes it.\<close>

definition job_key :: "batch \<Rightarrow> int \<times> int \<times> int" where
  "job_key b = (batch_id b, start_hru b, num_hru b)"

definition spawned_jobs :: "summa_effect list \<Rightarrow> (int \<times> int \<times> int) list" where
  "spawned_jobs es = concat (map (\<lambda>e. case e of Spawn_Job b l j f h r \<Rightarrow> [job_key b] | _ \<Rightarrow> []) es)"

definition told_parent :: "summa_effect list \<Rightarrow> server_msg list" where
  "told_parent es = concat (map (\<lambda>e. case e of Tell_Parent m \<Rightarrow> [m] | _ \<Rightarrow> []) es)"

lemma effect_simps [simp]:
  "spawned_jobs [] = []" "told_parent [] = []"
  "spawned_jobs (Spawn_Job b l j f h r # es) = job_key b # spawned_jobs es"
  "spawned_jobs (Tell_Parent m # es) = spawned_jobs es"
  "spawned_jobs (xs @ ys) = spawned_jobs xs @ spawned_jobs ys"
  "told_parent (Spawn_Job b l j f h r # es) = told_parent es"
  "told_parent (Tell_Parent m # es) = m # told_parent es"
  "told_parent (xs @ ys) = told_parent xs @ told_parent ys"
  by (simp_all add: spawned_jobs_def told_parent_def)

lemma map_update_same: "k < length xs \<Longrightarrow> f y = f (xs ! k) \<Longrightarrow> map f (xs[k := y]) = map f xs"
  by (metis list_update_id map_update)

lemma getUnsolvedBatch_keys:
  assumes "getUnsolvedBatch bc = (r, bc')"
  shows "map job_key (batch_list bc') = map job_key (batch_list bc)"
proof -
  have "map job_key (snd (take_free bl)) = map job_key bl" for bl
    by (induction bl) (auto simp: job_key_def updateAssigned_def split: prod.splits)
  from this [of "batch_list bc"] assms show ?thesis
    by (auto simp: getUnsolvedBatch_def split: prod.splits)
qed

lemma updateBatchStats_keys:
  assumes "updateBatchStats i run rd wr bc = Inr bc'"
  shows "map job_key (batch_list bc') = map job_key (batch_list bc)"
  using assms
  by (auto simp: updateBatchStats_def res_bind_Inr_iff vec_upd_Inr_iff job_key_def batch_update_defs
      intro!: map_update_same)

text \<open>The state while job \<open>k\<close> of \<open>m\<close> runs: the batches before \<open>k\<close> are solved, those
  after it free.\<close>

definition running_job :: "nat \<Rightarrow> (int \<times> int \<times> int) list \<Rightarrow> summa_actor \<Rightarrow> bool" where
  "running_job k keys s \<longleftrightarrow>
     (\<exists>bc b. sa_batches s = Some bc \<and> bc_inv bc \<and> sa_current_batch s = Some b \<and>
        map job_key (batch_list bc) = keys \<and> batch_id b = int k \<and> job_key b = keys ! k \<and>
        k < length keys \<and> unsolved_ids bc = {int k ..< int (length keys)} \<and>
        free_ids bc = {int k + 1 ..< int (length keys)}) \<and>
     ti_inv (sa_timing s) \<and> \<not> sa_stopped s"

lemma spawnJob_next:
  assumes "sa_batches s = Some bc" and "bc_inv bc" and "map job_key (batch_list bc) = keys"
    and "unsolved_ids bc = {int k ..< int (length keys)}" and "free_ids bc = {int k ..< int (length keys)}"
    and "k < length keys" and "ti_inv (sa_timing s)" and "\<not> sa_stopped s"
  shows "\<exists>s' es. spawnJob job s = Inr (0, s', es) \<and> running_job k keys s' \<and>
    spawned_jobs es = [keys ! k] \<and> told_parent es = [] \<and> num_gru_failed s' = num_gru_failed s"
proof -
  from assms(5,6) have "free_ids bc \<noteq> {}" by auto
  with assms(2) obtain b bc' where d: "getUnsolvedBatch bc = (Some b, bc')"
    by (rule stats_pool.draw_available)
  note g = getUnsolvedBatch_Some [OF assms(2) d]
  have "int k \<in> free_ids bc" using assms(5,6) by simp
  with g(9) have "batch_id b \<le> int k" by blast
  moreover have "int k \<le> batch_id b" using g(1) assms(5) by simp
  ultimately have id: "batch_id b = int k" by simp
  have len: "map job_key (batch_list bc') = keys"
    using getUnsolvedBatch_keys [OF d] assms(3) by simp
  have "length (batch_list bc') = length keys" unfolding len [symmetric] by simp
  then have "keys ! k = job_key (batch_list bc' ! k)" using assms(6) unfolding len [symmetric] by simp
  then have "job_key b = keys ! k" using g(6) id by simp
  moreover have "free_ids bc' = {int k + 1 ..< int (length keys)}"
    unfolding g(3) id assms(5) by (rule int_interval_remove_first)
  moreover have "unsolved_ids bc' = {int k ..< int (length keys)}" using g(4) assms(4) by simp
  ultimately have "running_job k keys (s\<lparr>sa_batches := Some bc', sa_current_batch := Some b,
      current_job := Some job\<rparr>)"
    using g(2) id len assms(6-8) by (auto simp: running_job_def)
  with d assms(1) \<open>job_key b = keys ! k\<close> show ?thesis by (simp add: spawnJob_def)
qed

lemma finalize_ok:
  assumes "sa_batches s = Some bc" and "ti_inv (sa_timing s)"
  shows "\<exists>s' es d. finalize now s = Inr (s', es) \<and> spawned_jobs es = [] \<and>
    told_parent es = [Done_Batch_Times d (getTotalReadTime bc) (getTotalWriteTime bc)] \<and>
    sa_batches s' = Some bc \<and> num_gru_failed s' = num_gru_failed s"
proof -
  from updateEndPoint_ok [OF assms(2), of now "''total_duration''"] obtain t where
    t: "updateEndPoint now ''total_duration'' (sa_timing s) = Inr t" "ti_inv t" by blast
  have "\<exists>d. getDuration ''total_duration'' t = Inr d"
  proof (cases "getIndex ''total_duration'' t")
    case (Some i)
    with getIndex_Some [OF t(2) Some] t(2) show ?thesis by (auto simp: getDuration_def ti_inv_def)
  qed (simp add: getDuration_def)
  with t assms show ?thesis by (auto simp: finalize_def)
qed

lemma on_done_job_step:
  assumes "running_job k keys s"
  shows "\<exists>s' es. on_done_job now job failed dur rd wr s = Inr (s', es) \<and>
    num_gru_failed s' = num_gru_failed s + failed \<and>
    (if Suc k < length keys
     then running_job (Suc k) keys s' \<and> spawned_jobs es = [keys ! Suc k] \<and> told_parent es = []
     else spawned_jobs es = [] \<and> (\<exists>bc d. sa_batches s' = Some bc \<and> unsolved_ids bc = {} \<and>
       map job_key (batch_list bc) = keys \<and>
       told_parent es = [Done_Batch_Times d (getTotalReadTime bc) (getTotalWriteTime bc)]))"
proof -
  from assms obtain bc b where r: "sa_batches s = Some bc" "bc_inv bc" "sa_current_batch s = Some b"
    "map job_key (batch_list bc) = keys" "batch_id b = int k" "k < length keys"
    "unsolved_ids bc = {int k ..< int (length keys)}" "free_ids bc = {int k + 1 ..< int (length keys)}"
    "ti_inv (sa_timing s)" "\<not> sa_stopped s" by (auto simp: running_job_def)
  have "batch_id b \<in> unsolved_ids bc" using r by auto
  from updateBatchStats_finish [OF r(2) this, of dur rd wr] obtain bc' where
    u: "updateBatchStats (batch_id b) dur rd wr bc = Inr bc'" "bc_inv bc'"
      "unsolved_ids bc' = unsolved_ids bc - {batch_id b}" "free_ids bc' = free_ids bc - {batch_id b}"
    by blast
  have ids: "unsolved_ids bc' = {int (Suc k) ..< int (length keys)}"
    "free_ids bc' = {int (Suc k) ..< int (length keys)}" using u r by auto
  have keys: "map job_key (batch_list bc') = keys" using updateBatchStats_keys [OF u(1)] r(4) by simp
  let ?s1 = "s\<lparr>sa_batches := Some bc', num_gru_failed := num_gru_failed s + failed\<rparr>"
  have more: "hasUnsolvedBatches bc' \<longleftrightarrow> Suc k < length keys"
    using bc_inv_unsolved_iff [OF u(2)] ids by (auto simp: hasUnsolvedBatches_def)
  show ?thesis
  proof (cases "Suc k < length keys")
    case True
    have "sa_batches ?s1 = Some bc'" "ti_inv (sa_timing ?s1)" "\<not> sa_stopped ?s1" using r by auto
    from spawnJob_next [OF this(1) u(2) keys ids True this(2,3), of job] True more u r show ?thesis
      by (auto simp: on_done_job_def Let_def)
  next
    case False
    have "sa_batches ?s1 = Some bc'" "ti_inv (sa_timing ?s1)" using r by auto
    from finalize_ok [OF this, of now] obtain s' es d where
      f: "finalize now ?s1 = Inr (s', es)" "spawned_jobs es = []"
        "told_parent es = [Done_Batch_Times d (getTotalReadTime bc') (getTotalWriteTime bc')]"
        "sa_batches s' = Some bc'" "num_gru_failed s' = num_gru_failed s + failed" by auto
    have "unsolved_ids bc' = {}" using ids False by auto
    with f False more u r keys show ?thesis by (auto simp: on_done_job_def Let_def)
  qed
qed

lemma job_replies_prefix:
  assumes "running_job k keys s" and "k + length rs < length keys"
  shows "\<exists>s' es. job_replies rs s = Inr (s', es) \<and> running_job (k + length rs) keys s' \<and>
    num_gru_failed s' = num_gru_failed s + (\<Sum>r\<leftarrow>rs. jr_failed r) \<and>
    spawned_jobs es = take (length rs) (drop (Suc k) keys) \<and> told_parent es = []"
  using assms
proof (induction rs arbitrary: k s)
  case (Cons r rs)
  then have lt: "Suc k < length keys" by simp
  with on_done_job_step [OF Cons.prems(1), of "jr_now r" "jr_next r" "jr_failed r" "jr_duration r"
      "jr_read r" "jr_write r"] obtain s1 es1 where
    h: "on_done_job (jr_now r) (jr_next r) (jr_failed r) (jr_duration r) (jr_read r) (jr_write r) s =
        Inr (s1, es1)" "num_gru_failed s1 = num_gru_failed s + jr_failed r" "running_job (Suc k) keys s1"
      "spawned_jobs es1 = [keys ! Suc k]" "told_parent es1 = []" by auto
  from Cons.IH [OF h(3)] Cons.prems(2) obtain s2 es2 where
    "job_replies rs s1 = Inr (s2, es2)" "running_job (Suc k + length rs) keys s2"
    "num_gru_failed s2 = num_gru_failed s1 + (\<Sum>r\<leftarrow>rs. jr_failed r)"
    "spawned_jobs es2 = take (length rs) (drop (Suc (Suc k)) keys)" "told_parent es2 = []" by auto
  with h lt show ?case by (auto simp: Cons_nth_drop_Suc [symmetric])
qed simp

lemma job_replies_append:
  "job_replies (rs @ rs') s = res_bind (job_replies rs s) (\<lambda>(s1, es1).
     res_bind (job_replies rs' s1) (\<lambda>(s2, es2). Inr (s2, es1 @ es2)))"
proof (induction rs arbitrary: s)
  case (Cons r rs)
  then show ?case by (auto simp: res_bind_def split: sum.splits prod.splits)
qed (auto simp: res_bind_def split: sum.splits prod.splits)

lemma started_timing:
  obtains t where "updateStartPoint now ''total_duration'' (addTimePoint ''total_duration'' TimingInfo) = Inr t"
    "ti_inv t"
  using updateStartPoint_ok [OF addTimePoint_inv [OF TimingInfo_inv], of now "''total_duration''"] that
  by blast

text \<open>The sum of start and number of GRUs, and one less, are \<^verbatim>\<open>int\<close>s.\<close>

definition range_ok :: "int \<Rightarrow> int \<Rightarrow> bool" where
  "range_ok start n \<longleftrightarrow> in_int start \<and> in_int n \<and> in_int (start + n) \<and> in_int (start + n - 1)"

lemma range_ints_ok: "range_ok start n \<Longrightarrow> ints_ok start n"
  by (simp add: range_ok_def ints_ok_def in_int_def)

lemma last_gru:
  "res_bind (cpp_add n start) (\<lambda>e. cpp_sub e 1) =
     (if in_int (start + n) \<and> in_int (start + n - 1) then Inr (n + start - 1) else Inl Int_Overflow)"
  by (simp add: cpp_add_def cpp_sub_def add.commute)

text \<open>The environment lets the actor start, with a range of GRUs that stays within \<^verbatim>\<open>int\<close>.\<close>

definition env_good :: "summa_env \<Rightarrow> summa_actor \<Rightarrow> bool" where
  "env_good env s \<longleftrightarrow> range_ok (sa_start_gru s) (sa_num_gru s) \<and>
     env_file_manager_error env = [] \<and> 0 \<le> env_file_gru env \<and>
     sa_num_gru s + sa_start_gru s - 1 \<le> env_file_gru env \<and> env_global_error env = 0 \<and>
     fst (createLogDirectory env s) = 0"

lemma createLogDirectory_frame:
  "createLogDirectory env (s\<lparr>sa_timing := t, sa_file_gru := f, sa_global := g\<rparr>) =
     (case createLogDirectory env s of (e, s') \<Rightarrow> (e, s'\<lparr>sa_timing := t, sa_file_gru := f, sa_global := g\<rparr>))"
  by (simp add: createLogDirectory_def Let_def)

lemma createLogDirectory_fields:
  "createLogDirectory env s = (e, s') \<Longrightarrow>
   sa_start_gru s' = sa_start_gru s \<and> sa_num_gru s' = sa_num_gru s \<and> sa_settings s' = sa_settings s \<and>
   num_gru_failed s' = num_gru_failed s \<and> sa_stopped s' = sa_stopped s"
  by (auto simp: createLogDirectory_def Let_def split: if_splits)

lemma summa_make_behavior_good:
  assumes "env_good env s"
  obtains s4 where "summa_make_behavior env s = map_option
       (\<lambda>r. res_bind r (\<lambda>bc.
            res_bind (spawnJob (env_job env) (s4\<lparr>sa_batches := Some bc\<rparr>)) (\<lambda>(e, s5, es).
              if e \<noteq> 0 then Inr (s5\<lparr>sa_stopped := True\<rparr>, es @ [Quit_Summa]) else Inr (s5, es))))
       (BatchContainer (sa_start_gru s) (sa_num_gru s)
          (max_gru_per_job (summa_actor_settings (sa_settings s))) (log_folder s4))"
    "ti_inv (sa_timing s4)" "sa_stopped s4 = sa_stopped s" "num_gru_failed s4 = num_gru_failed s"
proof -
  obtain t where t: "updateStartPoint (env_now env) ''total_duration'' (addTimePoint ''total_duration'' TimingInfo) = Inr t"
    "ti_inv t" by (rule started_timing)
  obtain s' where l: "createLogDirectory env s = (0, s')"
    using assms by (cases "createLogDirectory env s") (auto simp: env_good_def)
  let ?s4 = "s'\<lparr>sa_timing := t, sa_file_gru := env_file_gru env,
                  sa_global := Some \<lparr>global_data_ready = True\<rparr>\<rparr>"
  show ?thesis
  proof (rule that [of ?s4])
    show "summa_make_behavior env s = map_option
       (\<lambda>r. res_bind r (\<lambda>bc.
            res_bind (spawnJob (env_job env) (?s4\<lparr>sa_batches := Some bc\<rparr>)) (\<lambda>(e, s5, es).
              if e \<noteq> 0 then Inr (s5\<lparr>sa_stopped := True\<rparr>, es @ [Quit_Summa]) else Inr (s5, es))))
       (BatchContainer (sa_start_gru s) (sa_num_gru s)
          (max_gru_per_job (summa_actor_settings (sa_settings s))) (log_folder ?s4))"
      using assms t l createLogDirectory_fields [OF l]
      by (simp add: summa_make_behavior_def env_good_def Let_def defineGlobalData_def
          SummaGlobalData_def createLogDirectory_frame last_gru range_ok_def)
  qed (use t createLogDirectory_fields [OF l] in simp_all)
qed

lemma fresh_unsolved_ids:
  assumes "batch_list bc = batch_plan per dir n 0 st"
  shows "unsolved_ids bc = {0 ..< int (length (batch_list bc))}"
proof -
  have "\<forall>b \<in> set (batch_list bc). \<not> solved b"
    using batch_plan_fresh assms by (auto simp: fresh_batch_def)
  then show ?thesis
    unfolding unsolved_ids_def by (auto simp: image_iff intro!: exI [of _ "nat _"])
qed

subsection \<open>Properties\<close>

text \<open>
  C17. The SUMMA actor runs its GRU range to the end.  When the environment lets
  it start, it spawns the first job; and for every sequence of \<^verbatim>\<open>done_job\<close>
  replies, one per batch, it has spawned one job per batch in the order of the
  batches, all batches are solved, the failures are added up, and it tells its
  parent \<^verbatim>\<open>done_batch\<close> exactly once, after the last reply and not before.
\<close>

theorem summa_actor_runs_all_batches:
  assumes "env_good env s" and "s = SummaActor start n st par restart"
    and "0 < n" and "0 < max_gru_per_job (summa_actor_settings st)"
  shows "\<exists>s0 es0. summa_make_behavior env s = Some (Inr (s0, es0)) \<and>
    (\<exists>keys. length keys = nat ((n + max_gru_per_job (summa_actor_settings st) - 1)
                               div max_gru_per_job (summa_actor_settings st)) \<and>
      concat (map (\<lambda>(i, a, c). [a .. a + c - 1]) keys) = [start .. start + n - 1] \<and>
      (\<forall>rs. length rs = length keys \<longrightarrow>
        (\<exists>s1 es1 d rd wr. job_replies rs s0 = Inr (s1, es1) \<and>
          spawned_jobs (es0 @ es1) = keys \<and> told_parent (es0 @ es1) = [Done_Batch_Times d rd wr] \<and>
          num_gru_failed s1 = (\<Sum>r\<leftarrow>rs. jr_failed r) \<and>
          (\<exists>bc. sa_batches s1 = Some bc \<and> unsolved_ids bc = {}))) \<and>
      (\<forall>rs. length rs < length keys \<longrightarrow>
        (\<exists>s1 es1. job_replies rs s0 = Inr (s1, es1) \<and> told_parent (es0 @ es1) = [] \<and>
          spawned_jobs (es0 @ es1) = take (Suc (length rs)) keys)))"
proof -
  let ?per = "max_gru_per_job (summa_actor_settings st)"
  obtain s4 where mb: "summa_make_behavior env s = map_option
       (\<lambda>r. res_bind r (\<lambda>bc.
            res_bind (spawnJob (env_job env) (s4\<lparr>sa_batches := Some bc\<rparr>)) (\<lambda>(e, s5, es).
              if e \<noteq> 0 then Inr (s5\<lparr>sa_stopped := True\<rparr>, es @ [Quit_Summa]) else Inr (s5, es))))
       (BatchContainer start n ?per (log_folder s4))"
    "ti_inv (sa_timing s4)" "\<not> sa_stopped s4" "num_gru_failed s4 = 0"
    using summa_make_behavior_good [OF assms(1)] assms(2) by (auto simp: SummaActor_def)
  have rng: "ints_ok start n" using assms(1,2) by (auto simp: env_good_def SummaActor_def intro: range_ints_ok)
  obtain bc where bc: "BatchContainer start n ?per (log_folder s4) = Some (Inr bc)" "bc_inv bc"
    "batch_list bc = batch_plan ?per (ensure_dir (log_folder s4)) n 0 start" "free_ids bc = unsolved_ids bc"
    using assms(4) rng by (rule BatchContainer_bc_inv)
  define keys where "keys = map job_key (batch_list bc)"
  have len: "int (length keys) = (n + ?per - 1) div ?per"
    using batch_plan_length [OF assms(4)] assms(3) bc(3) by (simp add: keys_def)
  have "?per \<le> n + ?per - 1" using assms(3) by simp
  from zdiv_mono1 [OF this assms(4)] assms(4) have "1 \<le> (n + ?per - 1) div ?per" by simp
  with len have pos: "0 < length keys" by linarith
  have cov: "concat (map (\<lambda>(i, a, c). [a .. a + c - 1]) keys) = [start .. start + n - 1]"
    using batch_plan_covers [OF assms(4), of n "ensure_dir (log_folder s4)" 0 start] assms(3) bc(3)
    by (simp add: keys_def o_def job_key_def gru_range_def cong: map_cong)
  have ids: "unsolved_ids bc = {int 0 ..< int (length keys)}" "free_ids bc = {int 0 ..< int (length keys)}"
    using fresh_unsolved_ids [OF bc(3)] bc(4) by (simp_all add: keys_def)
  have "sa_batches (s4\<lparr>sa_batches := Some bc\<rparr>) = Some bc"
    "ti_inv (sa_timing (s4\<lparr>sa_batches := Some bc\<rparr>))" "\<not> sa_stopped (s4\<lparr>sa_batches := Some bc\<rparr>)"
    using mb by simp_all
  from spawnJob_next [OF this(1) bc(2) keys_def [symmetric] ids pos this(2,3), of "env_job env"]
  obtain s0 es0 where s0: "summa_make_behavior env s = Some (Inr (s0, es0))" "running_job 0 keys s0"
    "spawned_jobs es0 = [keys ! 0]" "told_parent es0 = []" "num_gru_failed s0 = 0"
    using mb(1,4) bc(1) by auto
  have prefix: "\<exists>s1 es1. job_replies rs s0 = Inr (s1, es1) \<and> running_job (length rs) keys s1 \<and>
      num_gru_failed s1 = (\<Sum>r\<leftarrow>rs. jr_failed r) \<and>
      told_parent (es0 @ es1) = [] \<and> spawned_jobs (es0 @ es1) = take (Suc (length rs)) keys"
    if "length rs < length keys" for rs
    using job_replies_prefix [OF s0(2), of rs] that s0(3-5) pos
    by (cases keys) auto
  have all: "\<exists>s1 es1 d rd wr. job_replies rs s0 = Inr (s1, es1) \<and>
      spawned_jobs (es0 @ es1) = keys \<and> told_parent (es0 @ es1) = [Done_Batch_Times d rd wr] \<and>
      num_gru_failed s1 = (\<Sum>r\<leftarrow>rs. jr_failed r) \<and> (\<exists>bc. sa_batches s1 = Some bc \<and> unsolved_ids bc = {})"
    if "length rs = length keys" for rs
  proof -
    from that pos obtain rs' r where rs: "rs = rs' @ [r]" by (cases rs rule: rev_cases) auto
    with that have lt: "length rs' < length keys" "\<not> Suc (length rs') < length keys" by auto
    from prefix [OF lt(1)] obtain s1 es1 where p: "job_replies rs' s0 = Inr (s1, es1)"
      "running_job (length rs') keys s1" "num_gru_failed s1 = (\<Sum>r\<leftarrow>rs'. jr_failed r)"
      "told_parent (es0 @ es1) = []" "spawned_jobs (es0 @ es1) = take (Suc (length rs')) keys" by blast
    from on_done_job_step [OF p(2), of "jr_now r" "jr_next r" "jr_failed r" "jr_duration r" "jr_read r"
        "jr_write r"] lt p rs that
    show ?thesis by (auto simp: job_replies_append)
  qed
  from s0(1) len cov all prefix show ?thesis
    by (intro exI [of _ s0] exI [of _ es0] conjI exI [of _ keys]) (auto, blast+)
qed

definition demo_env :: summa_env where
  "demo_env = \<lparr>env_now = 0, env_file_manager_error = [], env_file_gru = 10, env_global_error = 0,
     env_stamp = [], env_stat = (\<lambda>_. No_Entry), env_mkdir_ok = True, env_job = 9\<rparr>"

definition demo_reply :: job_reply where
  "demo_reply = \<lparr>jr_now = 5, jr_next = 9, jr_failed = 1, jr_duration = 2, jr_read = 1, jr_write = 1\<rparr>"

lemma demo_env_good: "0 \<le> n \<Longrightarrow> env_good demo_env (SummaActor 4 n (Settings_new []) par ''never'') \<longleftrightarrow> n \<le> 7"
  by (auto simp: env_good_def demo_env_def SummaActor_def createLogDirectory_def Settings_new_def
      SummaActorSettings_default_def range_ok_def in_int_def INT_MAX_def INT_MIN_def)

lemma summa_actor_runs_all_batches_witness:
  "\<exists>s0 es0 s1 es1 d rd wr.
     summa_make_behavior demo_env (SummaActor 4 5 (Settings_new []) 1 ''never'') = Some (Inr (s0, es0)) \<and>
     job_replies [demo_reply] s0 = Inr (s1, es1) \<and>
     told_parent (es0 @ es1) = [Done_Batch_Times d rd wr] \<and> num_gru_failed s1 = 1"
proof -
  have g: "env_good demo_env (SummaActor 4 5 (Settings_new []) 1 ''never'')" by (simp add: demo_env_good)
  have m: "max_gru_per_job (summa_actor_settings (Settings_new [])) = 1000"
    by (simp add: Settings_new_def SummaActorSettings_default_def)
  have pos: "0 < (5 :: int)" "0 < max_gru_per_job (summa_actor_settings (Settings_new []))" using m by simp_all
  from summa_actor_runs_all_batches [OF g refl pos] obtain s0 es0 keys where
    s0: "summa_make_behavior demo_env (SummaActor 4 5 (Settings_new []) 1 ''never'') = Some (Inr (s0, es0))"
    and k: "length keys = nat ((5 + max_gru_per_job (summa_actor_settings (Settings_new [])) - 1)
        div max_gru_per_job (summa_actor_settings (Settings_new [])))"
    and all: "\<forall>rs. length rs = length keys \<longrightarrow> (\<exists>s1 es1 d rd wr. job_replies rs s0 = Inr (s1, es1) \<and>
      spawned_jobs (es0 @ es1) = keys \<and> told_parent (es0 @ es1) = [Done_Batch_Times d rd wr] \<and>
      num_gru_failed s1 = (\<Sum>r\<leftarrow>rs. jr_failed r) \<and> (\<exists>bc. sa_batches s1 = Some bc \<and> unsolved_ids bc = {}))"
    by blast
  have l: "length [demo_reply] = length keys" using k m by simp
  from all [rule_format, OF l] obtain s1 es1 d rd wr where "job_replies [demo_reply] s0 = Inr (s1, es1)"
    "told_parent (es0 @ es1) = [Done_Batch_Times d rd wr]"
    "num_gru_failed s1 = (\<Sum>r\<leftarrow>[demo_reply]. jr_failed r)" by blast
  moreover have "(\<Sum>r\<leftarrow>[demo_reply]. jr_failed r) = 1" by (simp add: demo_reply_def)
  ultimately show ?thesis using s0 by metis
qed

text \<open>
  C27. When the SUMMA actor does not start a job.  A failed check of the
  environment (file manager, number of GRUs, global data, log directory) makes
  it quit at once.  A range without GRUs, in particular the default range
  \<open>-1, -1\<close> of a run without the option \<^verbatim>\<open>-g\<close>, passes the checks but gives no
  batch, so it quits as well; and with a batch size that is not positive it spawns no job
  either: the assembly of the batches runs into the overflow of an \<^verbatim>\<open>int\<close>.  The range of
  GRUs is one whose end is an \<^verbatim>\<open>int\<close>; otherwise the check against the number of GRUs overflows,
  if it is reached.
\<close>

theorem summa_actor_does_not_start:
  assumes "s = SummaActor start n st par restart" and "in_int start" and "in_int n"
  shows "(range_ok start n \<and> \<not> env_good env s \<longrightarrow>
       (\<exists>s'. summa_make_behavior env s = Some (Inr (s', [Quit_Summa])) \<and> sa_stopped s')) \<and>
    (env_good env s \<and> n \<le> 0 \<longrightarrow>
       (\<exists>s' es. summa_make_behavior env s = Some (Inr (s', es)) \<and> sa_stopped s' \<and>
          spawned_jobs es = [] \<and> told_parent es = [])) \<and>
    (env_good env s \<and> 0 < n \<and> max_gru_per_job (summa_actor_settings st) \<le> 0 \<longrightarrow>
       summa_make_behavior env s = Some (Inl Int_Overflow)) \<and>
    (\<not> range_ok start n \<and> env_file_manager_error env = [] \<and> 0 \<le> env_file_gru env \<longrightarrow>
       summa_make_behavior env s = Some (Inl Int_Overflow))"
proof (intro conjI impI)
  obtain t where t: "updateStartPoint (env_now env) ''total_duration'' (addTimePoint ''total_duration'' TimingInfo) = Inr t"
    "ti_inv t" by (rule started_timing)
  obtain e s' where l: "createLogDirectory env s = (e, s')" by fastforce
  have init: "sa_start_gru s = start" "sa_num_gru s = n" using assms(1) by (simp_all add: SummaActor_def)
  {
    assume "range_ok start n \<and> \<not> env_good env s"
    with t l init show "\<exists>s'. summa_make_behavior env s = Some (Inr (s', [Quit_Summa])) \<and> sa_stopped s'"
      by (auto simp: summa_make_behavior_def env_good_def Let_def defineGlobalData_def stop_with_def
          SummaGlobalData_def createLogDirectory_frame last_gru range_ok_def)
  next
    assume "\<not> range_ok start n \<and> env_file_manager_error env = [] \<and> 0 \<le> env_file_gru env"
    with t init assms(2,3) show "summa_make_behavior env s = Some (Inl Int_Overflow)"
      by (auto simp: summa_make_behavior_def Let_def last_gru range_ok_def)
  }
next
  assume g: "env_good env s \<and> n \<le> 0"
  then obtain s4 where mb: "summa_make_behavior env s = map_option
       (\<lambda>r. res_bind r (\<lambda>bc.
            res_bind (spawnJob (env_job env) (s4\<lparr>sa_batches := Some bc\<rparr>)) (\<lambda>(e, s5, es).
              if e \<noteq> 0 then Inr (s5\<lparr>sa_stopped := True\<rparr>, es @ [Quit_Summa]) else Inr (s5, es))))
       (BatchContainer start n (max_gru_per_job (summa_actor_settings st)) (log_folder s4))"
    using summa_make_behavior_good [of env s] assms(1) by (auto simp: SummaActor_def)
  have "BatchContainer start n (max_gru_per_job (summa_actor_settings st)) (log_folder s4) =
     Some (Inr \<lparr>bc_start_hru = start, total_hru_count = n,
       num_hru_per_batch = max_gru_per_job (summa_actor_settings st), batches_remaining = 0,
       batch_list = []\<rparr>)"
    using g by (simp add: BatchContainer_def assembleBatches_stop)
  with mb show "\<exists>s' es. summa_make_behavior env s = Some (Inr (s', es)) \<and> sa_stopped s' \<and>
      spawned_jobs es = [] \<and> told_parent es = []"
    by (simp add: spawnJob_def getUnsolvedBatch_def spawned_jobs_def told_parent_def)
next
  assume g: "env_good env s \<and> 0 < n \<and> max_gru_per_job (summa_actor_settings st) \<le> 0"
  then obtain s4 where mb: "summa_make_behavior env s = map_option
       (\<lambda>r. res_bind r (\<lambda>bc.
            res_bind (spawnJob (env_job env) (s4\<lparr>sa_batches := Some bc\<rparr>)) (\<lambda>(e, s5, es).
              if e \<noteq> 0 then Inr (s5\<lparr>sa_stopped := True\<rparr>, es @ [Quit_Summa]) else Inr (s5, es))))
       (BatchContainer start n (max_gru_per_job (summa_actor_settings st)) (log_folder s4))"
    using summa_make_behavior_good [of env s] assms(1) by (auto simp: SummaActor_def)
  with g show "summa_make_behavior env s = Some (Inl Int_Overflow)"
    by (simp add: BatchContainer_def assembleBatches_overflow)
qed

lemma summa_actor_does_not_start_witness:
  "\<exists>s' es. summa_make_behavior demo_env (SummaActor (- 1) (- 1) (Settings_new []) 1 ''never'') =
     Some (Inr (s', es)) \<and> sa_stopped s' \<and> spawned_jobs es = []"
proof -
  have r: "in_int (- 1)" "in_int (- 2)" "in_int (- 3)" by (simp_all add: in_int_def INT_MAX_def INT_MIN_def)
  then have "env_good demo_env (SummaActor (- 1) (- 1) (Settings_new []) 1 ''never'')"
    by (simp add: env_good_def demo_env_def SummaActor_def createLogDirectory_def Settings_new_def
        SummaActorSettings_default_def range_ok_def)
  with summa_actor_does_not_start [OF refl r(1,1), where env = demo_env and st = "Settings_new []" and par = 1 and restart = "''never''"]
  show ?thesis by auto
qed

end
