(* ===== verification/Gru_Struc.thy ===== *)
theory Gru_Struc
  imports Clients Settings Batches
begin

text \<open>
  The GRUs of a job and their container (\<^verbatim>\<open>gru_struc.hpp\<close>, \<^verbatim>\<open>gru_struc.cpp\<close>):
  the status of every GRU, the counters of finished and failed GRUs, the retry
  policy, and the distribution of GRUs over the nodes of a data assimilation
  run.  The dimensions that Fortran reads from the files are arguments.
\<close>

subsection \<open>GRU\<close>

datatype gru_state = Gru_Running | Gru_Failed | Gru_Succeeded | Gru_Restarted

record gru =
  index_netcdf :: int
  index_job :: int
  actor_ref :: actor_id
  dt_init_factor :: int
  gru_tol :: ToleranceSettings      \<comment> \<open>\<^verbatim>\<open>be_steps_\<close> and the fourteen tolerances\<close>
  attempts_left :: int
  state_of :: gru_state
  gru_run_time :: real

definition GRU :: "int \<Rightarrow> int \<Rightarrow> actor_id \<Rightarrow> int \<Rightarrow> ToleranceSettings \<Rightarrow> bool \<Rightarrow> int \<Rightarrow> gru" where
  "GRU inet ijob ref dt tol def_tol max_attempts =
     \<lparr>index_netcdf = inet, index_job = ijob, actor_ref = ref, dt_init_factor = dt, gru_tol = tol,
      attempts_left = max_attempts, state_of = Gru_Running, gru_run_time = 0\<rparr>"

definition setSuccess :: "gru \<Rightarrow> gru" where "setSuccess g = g\<lparr>state_of := Gru_Succeeded\<rparr>"
definition setFailed :: "gru \<Rightarrow> gru" where "setFailed g = g\<lparr>state_of := Gru_Failed\<rparr>"
definition setRunning :: "gru \<Rightarrow> gru" where "setRunning g = g\<lparr>state_of := Gru_Running\<rparr>"
definition setRestarted :: "gru \<Rightarrow> gru" where "setRestarted g = g\<lparr>state_of := Gru_Restarted\<rparr>"

definition setRelTol :: "real \<Rightarrow> gru \<Rightarrow> gru" where
  "setRelTol v g = g\<lparr>gru_tol := (gru_tol g)
     \<lparr>rel_tol_temp_cas := v, rel_tol_temp_veg := v, rel_tol_temp_soil_snow := v,
      rel_tol_wat_veg := v, rel_tol_wat_snow := v, rel_tol_matric := v, rel_tol_aquifr := v\<rparr>\<rparr>"

definition setAbsTolWat :: "real \<Rightarrow> gru \<Rightarrow> gru" where
  "setAbsTolWat v g = g\<lparr>gru_tol := (gru_tol g)
     \<lparr>abs_tol_wat_veg := v, abs_tol_wat_snow := v, abs_tol_matric := v, abs_tol_aquifr := v\<rparr>\<rparr>"

definition setAbsTolNrg :: "real \<Rightarrow> gru \<Rightarrow> gru" where
  "setAbsTolNrg v g = g\<lparr>gru_tol := (gru_tol g)
     \<lparr>abs_tol_temp_cas := v, abs_tol_temp_veg := v, abs_tol_temp_soil_snow := v\<rparr>\<rparr>"

definition setAbsTol :: "real \<Rightarrow> gru \<Rightarrow> gru" where
  "setAbsTol v g = g\<lparr>gru_tol := (gru_tol g)
     \<lparr>abs_tol_temp_cas := v, abs_tol_temp_veg := v, abs_tol_temp_soil_snow := v,
      abs_tol_wat_veg := v, abs_tol_wat_snow := v, abs_tol_matric := v, abs_tol_aquifr := v\<rparr>\<rparr>"

subsection \<open>GruStruc\<close>

record node_gru_info =
  node_start_gru :: int
  start_gru_sim :: int
  node_num_gru :: int
  num_gru_sim :: int
  node_file_gru :: int

record gru_struc =
  gs_start_gru :: int
  gs_num_gru :: int
  gs_num_hru :: int
  gs_file_gru :: int
  gs_file_hru :: int
  gru_info :: "gru list"
  node_gru_info_list :: "node_gru_info list"
  num_gru_done :: int
  gs_num_gru_failed :: int
  prev_num_gru_failed :: int
  num_retry_attempts_left :: int
  initial_retry_attempts :: int
  num_hru_per_gru :: "int list"

definition GruStruc :: "int \<Rightarrow> int \<Rightarrow> int \<Rightarrow> gru_struc" where
  "GruStruc start num retries =
     \<lparr>gs_start_gru = start, gs_num_gru = num, gs_num_hru = 0, gs_file_gru = 0, gs_file_hru = 0,
      gru_info = [], node_gru_info_list = [], num_gru_done = 0, gs_num_gru_failed = 0,
      prev_num_gru_failed = INT_MAX, num_retry_attempts_left = retries,
      initial_retry_attempts = retries, num_hru_per_gru = []\<rparr>"

text \<open>\<open>file_gru\<close>, \<open>file_hru\<close>, \<open>nhru\<close> and \<open>err\<close> are what the Fortran routines
  deliver.\<close>

definition readDimension :: "int \<Rightarrow> int \<Rightarrow> int \<Rightarrow> int \<Rightarrow> gru_struc \<Rightarrow> int \<times> gru_struc" where
  "readDimension file_gru file_hru nhru err g =
     (err, g\<lparr>gs_file_gru := file_gru, gs_file_hru := file_hru, gs_num_hru := nhru\<rparr>)"

definition addGRU :: "gru \<Rightarrow> gru_struc \<Rightarrow> gru_struc" where
  "addGRU x g = g\<lparr>gru_info := gru_info g @ [x]\<rparr>"

definition incrementNumGruDone :: "gru_struc \<Rightarrow> gru_struc" where
  "incrementNumGruDone g = g\<lparr>num_gru_done := num_gru_done g + 1\<rparr>"

definition incrementNumGruFailed :: "gru_struc \<Rightarrow> gru_struc" where
  "incrementNumGruFailed g =
     g\<lparr>gs_num_gru_failed := gs_num_gru_failed g + 1, num_gru_done := num_gru_done g + 1\<rparr>"

definition decrementNumGruFailed :: "gru_struc \<Rightarrow> gru_struc" where
  "decrementNumGruFailed g =
     g\<lparr>gs_num_gru_failed := gs_num_gru_failed g - 1, num_gru_done := num_gru_done g - 1\<rparr>"

definition decrementRetryAttempts :: "gru_struc \<Rightarrow> gru_struc" where
  "decrementRetryAttempts g = g\<lparr>num_retry_attempts_left := num_retry_attempts_left g - 1\<rparr>"

definition snapshotFailedCount :: "gru_struc \<Rightarrow> gru_struc" where
  "snapshotFailedCount g = g\<lparr>prev_num_gru_failed := gs_num_gru_failed g\<rparr>"

text \<open>\<^verbatim>\<open>getGRU(index)\<close> is the object at \<^verbatim>\<open>gru_info_[index-1]\<close>; every use
  updates it.\<close>

definition updGRU :: "int \<Rightarrow> (gru \<Rightarrow> gru) \<Rightarrow> gru_struc \<Rightarrow> gru_struc res" where
  "updGRU i f g = res_bind (vec_upd (gru_info g) (i - 1) f) (\<lambda>xs. Inr (g\<lparr>gru_info := xs\<rparr>))"

definition isDone :: "gru_struc \<Rightarrow> bool" where
  "isDone g \<longleftrightarrow> num_gru_done g \<ge> gs_num_gru g"

definition hasFailures :: "gru_struc \<Rightarrow> bool" where
  "hasFailures g \<longleftrightarrow> gs_num_gru_failed g > 0"

definition shouldRetry :: "gru_struc \<Rightarrow> bool \<times> gru_struc" where
  "shouldRetry g =
     (if gs_num_gru_failed g < prev_num_gru_failed g
      then (True, g\<lparr>num_retry_attempts_left := initial_retry_attempts g\<rparr>)
      else (num_retry_attempts_left g > 0, g))"

definition getFailedIndex :: "gru_struc \<Rightarrow> int" where
  "getFailedIndex g =
     (case find (\<lambda>x. state_of x = Gru_Failed) (gru_info g) of
        Some x \<Rightarrow> index_job x
      | None \<Rightarrow> - 1)"

text \<open>\<open>counts\<close> is what \<^verbatim>\<open>f_getNumHruPerGru\<close> stores in the vector.\<close>

definition getNumHrusPerGru :: "int list \<Rightarrow> gru_struc \<Rightarrow> gru_struc" where
  "getNumHrusPerGru counts g = g\<lparr>num_hru_per_gru := take (nat (gs_num_gru g)) counts\<rparr>"

text \<open>The loop of \<^verbatim>\<open>setNodeGruInfo\<close>, from node \<open>i\<close> on.\<close>

function node_loop :: "int \<Rightarrow> int \<Rightarrow> int \<Rightarrow> int \<Rightarrow> gru_struc \<Rightarrow> gru_struc" where
  "node_loop nodes per i remaining g =
     (if i < nodes
      then (let n = (if i = nodes - 1 then remaining else per);
                info = \<lparr>node_start_gru = i * per + gs_start_gru g, start_gru_sim = gs_start_gru g,
                        node_num_gru = n, num_gru_sim = gs_num_gru g,
                        node_file_gru = gs_file_gru g\<rparr>
            in node_loop nodes per (i + 1) (remaining - n)
                 (g\<lparr>node_gru_info_list := node_gru_info_list g @ [info]\<rparr>))
      else g)"
  by pat_completeness auto
termination by (relation "measure (\<lambda>(k, per, i, r, g). nat (k - i))") auto

declare node_loop.simps [simp del]

definition setNodeGruInfo :: "int \<Rightarrow> gru_struc \<Rightarrow> gru_struc res" where
  "setNodeGruInfo nodes g =
     res_bind (cpp_div (gs_num_gru g + nodes - 1) nodes) (\<lambda>per.
       Inr (node_loop nodes per 0 (gs_num_gru g) g))"

definition getNodeGruInfo :: "int \<Rightarrow> gru_struc \<Rightarrow> node_gru_info res" where
  "getNodeGruInfo i g = vec_at (node_gru_info_list g) i"

fun node_strings :: "nat \<Rightarrow> node_gru_info list \<Rightarrow> string" where
  "node_strings i [] = []"
| "node_strings i (x # xs) =
     ''------------------------------------------'' @ newline @
     ''Node '' @ to_string (int i) @ newline @
     ''Start_Gru = '' @ to_string (node_start_gru x) @
     '' : Num_Gru = '' @ to_string (node_num_gru x) @ newline @
     node_strings (Suc i) xs"

definition getNodeGruInfoString :: "gru_struc \<Rightarrow> string" where
  "getNodeGruInfoString g =
     ''Gru Per Node Information'' @ newline @ node_strings 0 (node_gru_info_list g)"

subsection \<open>Distribution over nodes\<close>

definition node_info :: "int \<Rightarrow> int \<Rightarrow> int \<Rightarrow> gru_struc \<Rightarrow> int \<Rightarrow> node_gru_info" where
  "node_info k per n g j =
     \<lparr>node_start_gru = j * per + gs_start_gru g, start_gru_sim = gs_start_gru g,
      node_num_gru = (if j = k - 1 then n - (k - 1) * per else per), num_gru_sim = gs_num_gru g,
      node_file_gru = gs_file_gru g\<rparr>"

lemma node_loop_closed:
  "0 \<le> i \<Longrightarrow> i \<le> k \<Longrightarrow> r = n - i * per \<Longrightarrow>
   node_loop k per i r g =
     g\<lparr>node_gru_info_list := node_gru_info_list g @ map (node_info k per n g) [i .. k - 1]\<rparr>"
proof (induction k per i r g rule: node_loop.induct)
  case (1 k per i r g)
  show ?case
  proof (cases "i < k")
    case True
    let ?n = "if i = k - 1 then r else per"
    let ?g = "g\<lparr>node_gru_info_list := node_gru_info_list g @ [node_info k per n g i]\<rparr>"
    have info: "node_info k per n g i = \<lparr>node_start_gru = i * per + gs_start_gru g,
        start_gru_sim = gs_start_gru g, node_num_gru = ?n, num_gru_sim = gs_num_gru g,
        node_file_gru = gs_file_gru g\<rparr>"
      using 1(4) by (auto simp: node_info_def)
    have step: "node_loop k per i r g = node_loop k per (i + 1) (r - ?n) ?g"
      using True by (subst node_loop.simps) (simp add: info Let_def)
    have same: "node_info k per n ?g = node_info k per n g"
      by (simp add: node_info_def fun_eq_iff)
    show ?thesis
    proof (cases "i = k - 1")
      case True
      then show ?thesis using step by (subst (asm) (2) node_loop.simps) simp
    next
      case False
      then have "node_loop k per (i + 1) (r - ?n) ?g =
          ?g\<lparr>node_gru_info_list := node_gru_info_list ?g @ map (node_info k per n ?g) [i + 1 .. k - 1]\<rparr>"
        using True 1(2,4) by (intro 1(1) [OF True refl info]) (auto simp: algebra_simps)
      with step same True show ?thesis by (simp add: upto.simps [of i "k - 1"])
    qed
  next
    case False
    with 1 show ?thesis by (subst node_loop.simps) simp
  qed
qed

lemma concat_blocks:
  assumes "0 \<le> per" and "0 \<le> m"
  shows "concat (map (\<lambda>j. [st + j * per .. st + j * per + per - 1]) [0 .. m - 1]) =
         [st .. st + m * per - 1 :: int]"
proof -
  have "concat (map (\<lambda>j. [st + j * per .. st + j * per + per - 1]) [0 .. int n - 1]) =
      [st .. st + int n * per - 1]" for n
  proof (induction n)
    case (Suc n)
    have "[0 .. int (Suc n) - 1] = [0 .. int n - 1] @ [int n]"
      using upto_rec2 [of 0 "int n"] by simp
    moreover have "[st .. st + int n * per - 1] @ [st + int n * per - 1 + 1 .. st + int n * per + per - 1] =
        [st .. st + int n * per + per - 1]"
      using assms(1) by (intro upto_append) auto
    ultimately show ?case using Suc by (simp add: algebra_simps)
  qed simp
  from this [of "nat m"] assms(2) show ?thesis by simp
qed

definition node_range :: "node_gru_info \<Rightarrow> int list" where
  "node_range x = [node_start_gru x .. node_start_gru x + node_num_gru x - 1]"

subsection \<open>Properties\<close>

text \<open>
  C30. The distribution of the GRUs over \<open>k\<close> nodes: every node but the last gets
  the quotient rounded up, \<open>q\<close>, the last one what is left, so the counts always
  add up to the number of GRUs.  The node ranges list every GRU exactly once
  and in order if \<open>(k - 1) * q\<close> does not exceed the number of GRUs; otherwise
  the last count is negative (5 GRUs on 4 nodes give 2, 2, 2 and -1).  Without
  nodes there is a division by zero.
\<close>

theorem setNodeGruInfo_partition:
  assumes "0 \<le> gs_num_gru g" and "node_gru_info_list g = []"
  shows "(0 < k \<longrightarrow> (let q = (gs_num_gru g + k - 1) div k in
       \<exists>g'. setNodeGruInfo k g = Inr g' \<and> length (node_gru_info_list g') = nat k \<and>
         (\<Sum>x\<leftarrow>node_gru_info_list g'. node_num_gru x) = gs_num_gru g \<and>
         (if (k - 1) * q \<le> gs_num_gru g
          then concat (map node_range (node_gru_info_list g')) =
                 [gs_start_gru g .. gs_start_gru g + gs_num_gru g - 1]
          else node_num_gru (last (node_gru_info_list g')) < 0))) \<and>
    setNodeGruInfo 0 g = Inl Division_By_Zero"
proof (intro conjI impI)
  show "setNodeGruInfo 0 g = Inl Division_By_Zero" by (simp add: setNodeGruInfo_def cpp_div_def)
next
  assume k: "0 < k"
  let ?n = "gs_num_gru g" and ?st = "gs_start_gru g"
  define q where "q = (?n + k - 1) div k"
  have q0: "0 \<le> q" using assms(1) k by (simp add: q_def pos_imp_zdiv_nonneg_iff)
  let ?l = "map (node_info k q ?n g) [0 .. k - 1]"
  have split: "[0 .. k - 1] = [0 .. k - 2] @ [k - 1]" using k upto_rec2 [of 0 "k - 1"] by simp
  have run: "setNodeGruInfo k g = Inr (g\<lparr>node_gru_info_list := ?l\<rparr>)"
    using assms k node_loop_closed [of 0 k ?n ?n q g]
    by (simp add: setNodeGruInfo_def cpp_div_pos q_def)
  have front: "map node_num_gru (map (node_info k q ?n g) [0 .. k - 2]) = map (\<lambda>_. q) [0 .. k - 2]"
    by (auto simp: node_info_def)
  have "(\<Sum>x\<leftarrow>?l. node_num_gru x) = (k - 1) * q + (?n - (k - 1) * q)"
  proof -
    have "(\<Sum>x\<leftarrow>map (node_info k q ?n g) [0 .. k - 2]. node_num_gru x) = sum_list (map (\<lambda>_. q) [0 .. k - 2])"
      by (simp only: front)
    also have "\<dots> = (k - 1) * q" using k by (simp add: sum_list_triv)
    finally show ?thesis unfolding split by (simp add: node_info_def)
  qed
  moreover have "concat (map node_range ?l) = [?st .. ?st + ?n - 1]" if "(k - 1) * q \<le> ?n"
  proof -
    have "map node_range (map (node_info k q ?n g) [0 .. k - 2]) =
        map (\<lambda>j. [?st + j * q .. ?st + j * q + q - 1]) [0 .. k - 2]"
      by (auto simp: node_range_def node_info_def add.commute)
    moreover have "concat (map (\<lambda>j. [?st + j * q .. ?st + j * q + q - 1]) [0 .. k - 2]) =
        [?st .. ?st + (k - 1) * q - 1]"
      using concat_blocks [of q "k - 1" ?st] q0 k by simp
    ultimately have A: "concat (map node_range (map (node_info k q ?n g) [0 .. k - 2])) =
        [?st .. ?st + (k - 1) * q - 1]" by (simp only:)
    have B: "node_range (node_info k q ?n g (k - 1)) = [?st + (k - 1) * q - 1 + 1 .. ?st + ?n - 1]"
      by (simp add: node_range_def node_info_def add.commute)
    have "[?st .. ?st + (k - 1) * q - 1] @ [?st + (k - 1) * q - 1 + 1 .. ?st + ?n - 1] = [?st .. ?st + ?n - 1]"
      using that q0 k by (intro upto_append) auto
    then show ?thesis unfolding split map_append concat_append A by (simp only: B list.map concat.simps append_Nil2)
  qed
  moreover have "node_num_gru (last ?l) < 0" if "\<not> (k - 1) * q \<le> ?n"
    using that unfolding split by (simp add: node_info_def)
  ultimately show "let q = (?n + k - 1) div k in
       \<exists>g'. setNodeGruInfo k g = Inr g' \<and> length (node_gru_info_list g') = nat k \<and>
         (\<Sum>x\<leftarrow>node_gru_info_list g'. node_num_gru x) = ?n \<and>
         (if (k - 1) * q \<le> ?n then concat (map node_range (node_gru_info_list g')) = [?st .. ?st + ?n - 1]
          else node_num_gru (last (node_gru_info_list g')) < 0)"
    using run by (simp add: Let_def q_def [symmetric])
qed

lemma setNodeGruInfo_partition_witness:
  "\<exists>g'. setNodeGruInfo 4 (GruStruc 1 5 3) = Inr g' \<and> node_num_gru (last (node_gru_info_list g')) < 0 \<and>
     (\<Sum>x\<leftarrow>node_gru_info_list g'. node_num_gru x) = 5"
  using setNodeGruInfo_partition [of "GruStruc 1 5 3" 4] by (auto simp: GruStruc_def Let_def)

end
