(* ===== verification/Tolerances.thy ===== *)
theory Tolerances
  imports Settings
begin

text \<open>
  The error categories of failed GRUs and the tightening of the solver
  tolerances before a restart (\<^verbatim>\<open>handleGRUError\<close> and the handler of
  \<^verbatim>\<open>restart_failures\<close> in \<^verbatim>\<open>job_actor.cpp\<close>).
\<close>

subsection \<open>Error categories\<close>

text \<open>\<^verbatim>\<open>err_msg.find(s) != npos\<close>.\<close>

fun is_prefix :: "'a list \<Rightarrow> 'a list \<Rightarrow> bool" where
  "is_prefix [] ys = True"
| "is_prefix (x # xs) [] = False"
| "is_prefix (x # xs) (y # ys) = (x = y \<and> is_prefix xs ys)"

fun contains :: "'a list \<Rightarrow> 'a list \<Rightarrow> bool" where
  "contains xs [] = (xs = [])"
| "contains xs (y # ys) = (is_prefix xs (y # ys) \<or> contains xs ys)"

text \<open>The map from job index to category, as an association list with one entry
  per key.\<close>

type_synonym error_map = "(int \<times> string) list"

definition map_put :: "'k \<Rightarrow> 'v \<Rightarrow> ('k \<times> 'v) list \<Rightarrow> ('k \<times> 'v) list" where
  "map_put k v m = (k, v) # filter (\<lambda>p. fst p \<noteq> k) m"

definition record_error :: "string \<Rightarrow> int \<Rightarrow> error_map \<Rightarrow> error_map" where
  "record_error err_msg job m =
     (if contains ''canopy temp high'' err_msg then map_put job ''canopy_temp_high'' m
      else if contains ''canopy air space temp high'' err_msg
      then map_put job ''canopy_air_space_temp_high'' m
      else if contains ''layer water out of bounds'' err_msg
      then map_put job ''layer_water_out_of_bounds'' m
      else if contains ''canopy liq water neg'' err_msg then map_put job ''canopy_liq_water_neg'' m
      else if contains ''unreasonable value for snow density'' err_msg
      then map_put job ''unreasonable_snow_density'' m
      else if map_of m job = None then map_put job ''unknown_error'' m
      else m)"

subsection \<open>Tightening\<close>

abbreviation MIN_REL_TOL :: real where "MIN_REL_TOL \<equiv> 1 / 1000000"
abbreviation MIN_ABS_TOL :: real where "MIN_ABS_TOL \<equiv> 1 / 1000000"

definition tighten_tol :: "real \<Rightarrow> real \<Rightarrow> real" where
  "tighten_tol min_tol tol = (if tol > min_tol then tol / 10 else tol)"

definition known_errors :: "string list" where
  "known_errors = [''canopy_temp_high'', ''canopy_air_space_temp_high'',
     ''layer_water_out_of_bounds'', ''canopy_liq_water_neg'', ''unreasonable_snow_density'']"

definition tighten_canopy_temp :: "ToleranceSettings \<Rightarrow> ToleranceSettings" where
  "tighten_canopy_temp t =
     t\<lparr>rel_tol_temp_veg := tighten_tol MIN_REL_TOL (rel_tol_temp_veg t),
       abs_tol_temp_veg := tighten_tol MIN_ABS_TOL (abs_tol_temp_veg t),
       rel_tol_temp_cas := tighten_tol MIN_REL_TOL (rel_tol_temp_cas t)\<rparr>"

definition tighten_canopy_air :: "ToleranceSettings \<Rightarrow> ToleranceSettings" where
  "tighten_canopy_air t =
     t\<lparr>rel_tol_temp_cas := tighten_tol MIN_REL_TOL (rel_tol_temp_cas t),
       rel_tol_temp_veg := tighten_tol MIN_REL_TOL (rel_tol_temp_veg t),
       abs_tol_temp_cas := tighten_tol MIN_ABS_TOL (abs_tol_temp_cas t)\<rparr>"

text \<open>The layer water and the snow density branches tighten the same four.\<close>

definition tighten_snow :: "ToleranceSettings \<Rightarrow> ToleranceSettings" where
  "tighten_snow t =
     t\<lparr>rel_tol_temp_soil_snow := tighten_tol MIN_REL_TOL (rel_tol_temp_soil_snow t),
       abs_tol_temp_soil_snow := tighten_tol MIN_ABS_TOL (abs_tol_temp_soil_snow t),
       rel_tol_wat_snow := tighten_tol MIN_REL_TOL (rel_tol_wat_snow t),
       abs_tol_wat_snow := tighten_tol MIN_ABS_TOL (abs_tol_wat_snow t)\<rparr>"

definition tighten_canopy_water :: "ToleranceSettings \<Rightarrow> ToleranceSettings" where
  "tighten_canopy_water t =
     t\<lparr>rel_tol_wat_veg := tighten_tol MIN_REL_TOL (rel_tol_wat_veg t),
       rel_tol_temp_veg := tighten_tol MIN_REL_TOL (rel_tol_temp_veg t),
       abs_tol_wat_veg := tighten_tol MIN_ABS_TOL (abs_tol_wat_veg t)\<rparr>"

text \<open>The last branch doubles the number of steps in an \<^verbatim>\<open>int\<close>.  The product is
  written with the wrap-around of two's complement; where it does not fit C++ leaves the
  result undefined, which \<open>doubling_overflows\<close> tells.\<close>

definition doubling_overflows :: "ToleranceSettings \<Rightarrow> bool" where
  "doubling_overflows t \<longleftrightarrow> INT_MAX < max 1 (be_steps t) * 2"

definition tighten_all :: "ToleranceSettings \<Rightarrow> ToleranceSettings" where
  "tighten_all t =
     t\<lparr>rel_tol_temp_cas := tighten_tol MIN_REL_TOL (rel_tol_temp_cas t),
       rel_tol_temp_veg := tighten_tol MIN_REL_TOL (rel_tol_temp_veg t),
       rel_tol_wat_veg := tighten_tol MIN_REL_TOL (rel_tol_wat_veg t),
       rel_tol_temp_soil_snow := tighten_tol MIN_REL_TOL (rel_tol_temp_soil_snow t),
       rel_tol_wat_snow := tighten_tol MIN_REL_TOL (rel_tol_wat_snow t),
       rel_tol_matric := tighten_tol MIN_REL_TOL (rel_tol_matric t),
       rel_tol_aquifr := tighten_tol MIN_REL_TOL (rel_tol_aquifr t),
       abs_tol_temp_cas := tighten_tol MIN_ABS_TOL (abs_tol_temp_cas t),
       abs_tol_temp_veg := tighten_tol MIN_ABS_TOL (abs_tol_temp_veg t),
       abs_tol_wat_veg := tighten_tol MIN_ABS_TOL (abs_tol_wat_veg t),
       abs_tol_temp_soil_snow := tighten_tol MIN_ABS_TOL (abs_tol_temp_soil_snow t),
       abs_tol_wat_snow := tighten_tol MIN_ABS_TOL (abs_tol_wat_snow t),
       abs_tol_matric := tighten_tol MIN_ABS_TOL (abs_tol_matric t),
       abs_tol_aquifr := tighten_tol MIN_ABS_TOL (abs_tol_aquifr t),
       be_steps := to_int32 (max 1 (be_steps t) * 2)\<rparr>"

definition tighten :: "error_map \<Rightarrow> ToleranceSettings \<Rightarrow> ToleranceSettings" where
  "tighten m t0 =
     (let triggered = (\<lambda>e. e \<in> snd ` set m);
          t1 = (if triggered ''canopy_temp_high'' then tighten_canopy_temp t0 else t0);
          t2 = (if triggered ''canopy_air_space_temp_high'' then tighten_canopy_air t1 else t1);
          t3 = (if triggered ''layer_water_out_of_bounds'' then tighten_snow t2 else t2);
          t4 = (if triggered ''canopy_liq_water_neg'' then tighten_canopy_water t3 else t3);
          t5 = (if triggered ''unreasonable_snow_density'' then tighten_snow t4 else t4);
          any_known_error = (\<exists>e \<in> set known_errors. triggered e)
      in if \<not> any_known_error then tighten_all t5 else t5)"

subsection \<open>Lemmas\<close>

text \<open>All fourteen tolerances, to compare settings.\<close>

definition tol_list :: "ToleranceSettings \<Rightarrow> real list" where
  "tol_list t = [rel_tol_temp_cas t, rel_tol_temp_veg t, rel_tol_wat_veg t, rel_tol_temp_soil_snow t,
     rel_tol_wat_snow t, rel_tol_matric t, rel_tol_aquifr t, abs_tol_temp_cas t, abs_tol_temp_veg t,
     abs_tol_wat_veg t, abs_tol_temp_soil_snow t, abs_tol_wat_snow t, abs_tol_matric t,
     abs_tol_aquifr t]"

definition tol_le :: "ToleranceSettings \<Rightarrow> ToleranceSettings \<Rightarrow> bool" where
  "tol_le t t' \<longleftrightarrow> list_all2 (\<le>) (tol_list t) (tol_list t')"

definition tol_floor :: "ToleranceSettings \<Rightarrow> bool" where
  "tol_floor t \<longleftrightarrow> (\<forall>x \<in> set (tol_list t). 1 / 10000000 < x)"

lemma tighten_tol_le: "0 \<le> x \<Longrightarrow> 0 \<le> m \<Longrightarrow> tighten_tol m x \<le> x"
  by (simp add: tighten_tol_def)

lemma tighten_tol_floor: "m / 10 < x \<Longrightarrow> m / 10 < tighten_tol m x"
  by (simp add: tighten_tol_def)

lemma tol_le_refl: "tol_le t t"
  by (simp add: tol_le_def list_all2_refl)

lemma tol_le_trans: "tol_le a b \<Longrightarrow> tol_le b c \<Longrightarrow> tol_le a c"
  unfolding tol_le_def by (rule list_all2_trans [of "(\<le>)" "(\<le>)" "(\<le>)"]) auto

lemmas tighten_branch_defs =
  tighten_canopy_temp_def tighten_canopy_air_def tighten_snow_def tighten_canopy_water_def
  tighten_all_def

lemma branches_floor:
  assumes "tol_floor t"
  shows "tol_floor (tighten_canopy_temp t)" "tol_floor (tighten_canopy_air t)"
    "tol_floor (tighten_snow t)" "tol_floor (tighten_canopy_water t)" "tol_floor (tighten_all t)"
  using assms tighten_tol_floor [of "1 / 1000000"]
  by (simp_all add: tol_floor_def tol_list_def tighten_branch_defs)

lemma branches_le:
  assumes "tol_floor t"
  shows "tol_le (tighten_canopy_temp t) t" "tol_le (tighten_canopy_air t) t"
    "tol_le (tighten_snow t) t" "tol_le (tighten_canopy_water t) t" "tol_le (tighten_all t) t"
  using assms tighten_tol_le [of _ "1 / 1000000"]
  by (simp_all add: tol_floor_def tol_le_def tol_list_def tighten_branch_defs)

lemma branches_idle:
  assumes "\<forall>x \<in> set (tol_list t). x \<le> 1 / 1000000"
  shows "tighten_canopy_temp t = t" "tighten_canopy_air t = t" "tighten_snow t = t"
    "tighten_canopy_water t = t"
  using assms by (simp_all add: tol_list_def tighten_branch_defs tighten_tol_def)

lemma branches_be_steps:
  "be_steps (tighten_canopy_temp t) = be_steps t" "be_steps (tighten_canopy_air t) = be_steps t"
  "be_steps (tighten_snow t) = be_steps t" "be_steps (tighten_canopy_water t) = be_steps t"
  "be_steps (tighten_all t) = to_int32 (max 1 (be_steps t) * 2)"
  by (simp_all add: tighten_branch_defs)

text \<open>The composition of the branches that are triggered.\<close>

lemma tighten_induct:
  assumes "P t" and "\<And>x. P x \<Longrightarrow> P (tighten_canopy_temp x)" and "\<And>x. P x \<Longrightarrow> P (tighten_canopy_air x)"
    and "\<And>x. P x \<Longrightarrow> P (tighten_snow x)" and "\<And>x. P x \<Longrightarrow> P (tighten_canopy_water x)"
    and "\<And>x. P x \<Longrightarrow> \<not> (\<exists>e \<in> set known_errors. e \<in> snd ` set m) \<Longrightarrow> P (tighten_all x)"
  shows "P (tighten m t)"
  using assms by (simp add: tighten_def Let_def)

text \<open>The branches before the last do not touch the number of steps.\<close>

lemma tighten_be_steps:
  "be_steps (tighten m t) = (if \<exists>e \<in> set known_errors. e \<in> snd ` set m then be_steps t
     else to_int32 (max 1 (be_steps t) * 2))"
  by (simp add: tighten_def Let_def branches_be_steps)

lemma to_int32_le: "- (2 ^ 31) \<le> i \<Longrightarrow> to_int32 i \<le> i"
  using zmod_le_nonneg_dividend [of "i + 2 ^ 31" "2 ^ 32"] by (simp add: to_int32_def)

lemma tighten_be_steps_le: "be_steps (tighten m t) \<le> max 1 (be_steps t) * 2"
  using to_int32_le [of "max 1 (be_steps t) * 2"] by (auto simp: tighten_be_steps)

subsection \<open>Properties\<close>

text \<open>
  C31. Tightening is monotone and bounded.  If all tolerances are above \<open>1e-7\<close>,
  then, whatever errors were recorded, no tolerance grows and all stay above
  \<open>1e-7\<close>, a tenth of the declared minimum; the number of BE steps is doubled, as an \<^verbatim>\<open>int\<close>,
  exactly when no recorded error is of a known category; and once all
  tolerances are at or below the declared minimum a restart caused by known
  errors changes nothing.
\<close>

theorem tighten_monotone:
  assumes "tol_floor t"
  shows "tol_le (tighten m t) t \<and> tol_floor (tighten m t) \<and>
    be_steps (tighten m t) =
      (if \<exists>e \<in> set known_errors. e \<in> snd ` set m then be_steps t
       else if doubling_overflows t then to_int32 (max 1 (be_steps t) * 2) else max 1 (be_steps t) * 2) \<and>
    ((\<exists>e \<in> set known_errors. e \<in> snd ` set m) \<and> (\<forall>x \<in> set (tol_list t). x \<le> MIN_REL_TOL) \<longrightarrow>
       tighten m t = t)"
proof (intro conjI)
  let ?known = "\<exists>e \<in> set known_errors. e \<in> snd ` set m"
  have "tol_le (tighten m t) t \<and> tol_floor (tighten m t)"
    by (rule tighten_induct [of "\<lambda>x. tol_le x t \<and> tol_floor x"])
       (simp_all add: assms branches_floor tol_le_refl tol_le_trans [OF branches_le(1)]
          tol_le_trans [OF branches_le(2)] tol_le_trans [OF branches_le(3)]
          tol_le_trans [OF branches_le(4)] tol_le_trans [OF branches_le(5)])
  then show "tol_le (tighten m t) t" and "tol_floor (tighten m t)" by auto
  show "be_steps (tighten m t) = (if ?known then be_steps t
      else if doubling_overflows t then to_int32 (max 1 (be_steps t) * 2) else max 1 (be_steps t) * 2)"
    by (simp add: tighten_be_steps doubling_overflows_def to_int32_id)
  have "tighten m t = t" if "?known" and "\<forall>x \<in> set (tol_list t). x \<le> MIN_REL_TOL"
  proof (rule tighten_induct [of "\<lambda>x. x = t"])
    fix x
    assume "\<not> ?known"
    with that(1) show "tighten_all x = t" by contradiction
  qed (use branches_idle [OF that(2)] in simp_all)
  then show "?known \<and> (\<forall>x \<in> set (tol_list t). x \<le> MIN_REL_TOL) \<longrightarrow> tighten m t = t" by blast
qed

definition demo_tol :: ToleranceSettings where
  "demo_tol = \<lparr>be_steps = 4,
      rel_tol_temp_cas = 1, rel_tol_temp_veg = 2 / 1000000, rel_tol_wat_veg = 1,
      rel_tol_temp_soil_snow = 1, rel_tol_wat_snow = 1, rel_tol_matric = 1, rel_tol_aquifr = 1,
      abs_tol_temp_cas = 1, abs_tol_temp_veg = 1, abs_tol_wat_veg = 1,
      abs_tol_temp_soil_snow = 1, abs_tol_wat_snow = 1, abs_tol_matric = 1, abs_tol_aquifr = 1\<rparr>"

lemma tighten_monotone_witness:
  "tol_floor demo_tol \<and> tol_floor (tighten [(3, ''canopy_temp_high'')] demo_tol) \<and>
   rel_tol_temp_veg (tighten [(3, ''canopy_temp_high'')] demo_tol) = 2 / 10000000 \<and>
   be_steps (tighten [(3, ''unknown_error'')] demo_tol) = 8"
proof -
  have f: "tol_floor demo_tol" by (simp add: tol_floor_def tol_list_def demo_tol_def)
  have "rel_tol_temp_veg (tighten [(3, ''canopy_temp_high'')] demo_tol) = 2 / 10000000"
    by (simp add: tighten_def Let_def tighten_canopy_temp_def known_errors_def tighten_tol_def demo_tol_def)
  with f tighten_monotone [OF f, of "[(3, ''canopy_temp_high'')]"]
    tighten_monotone [OF f, of "[(3, ''unknown_error'')]"]
  show ?thesis by (simp add: known_errors_def demo_tol_def doubling_overflows_def INT_MAX_def)
qed

end
