(* ===== verification/Job_Actor.thy ===== *)
theory Job_Actor
  imports Gru_Struc Tolerances Timing_Info
begin

text \<open>
  The job actor (\<^verbatim>\<open>job_actor.hpp\<close>, \<^verbatim>\<open>job_actor.cpp\<close>): it initialises a batch,
  spawns the GRU actors, collects their results, restarts the failed ones and
  reports to its parent.  The handlers of the asynchronous and of the data
  assimilation mode are functions on one state record; messages to other
  actors are effects.  The handle of the actor spawned for a job index is given
  by the argument \<open>ref\<close>, error codes of Fortran routines and clock readings are
  arguments, log files are not modelled.
\<close>

subsection \<open>Messages\<close>

datatype job_msg =
    File_Access_Actor_Ready int
  | Done_Hru int
  | Restart_Failures
  | Finalize
  | Gru_Error int int int string       \<comment> \<open>job index, timestep, code, message\<close>
  | New_Forcing_File int int
  | Update_Hru
  | Done_Update
  | Output_Written int
  | Finalize_Reply int real real       \<comment> \<open>clock, read and write duration\<close>

datatype file_msg =
    Init_File_Access_Actor int int
  | Fa_Access_Forcing int
  | Fa_Write_Output int
  | Fa_Run_Failure int
  | Fa_Restart_Failures
  | Fa_Finalize

datatype gru_msg =
    Update_Hru_Async
  | Update_TimeZoneOffset int
  | Update_Hru_Step int int int        \<comment> \<open>timestep, forcing step, output step\<close>
  | Gru_Exit
  | User_Shutdown

datatype job_effect =
    Spawn_File_Access num_gru_info FileAccessActorSettings
  | Spawn_Gru int int int HRUActorSettings bool int string ToleranceSettings
  | Spawn_Gru_Batch int int int int HRUActorSettings int string ToleranceSettings
  | To_File file_msg
  | To_Gru actor_id gru_msg
  | To_Self job_msg
  | To_Parent_Error int string
  | To_Parent_Done int real real real
  | Exit_File_Access
  | Quit_Job
  | Unexpected_Job job_msg

subsection \<open>State\<close>

datatype job_mode = Job_Init | Async_Mode | DA_Mode | Job_Stopped

record job_actor =
  ja_timing :: timing_info
  ja_batch :: batch
  ja_gru_struc :: "gru_struc option"
  ja_num_gru_info :: num_gru_info
  ja_job_settings :: JobActorSettings
  ja_fa_settings :: FileAccessActorSettings
  ja_hru_settings :: HRUActorSettings
  ja_tol :: ToleranceSettings
  last_error_type :: error_map
  ja_dt_init_factor :: int
  default_tol :: bool
  num_steps :: int
  iFile :: int
  steps_in_ffile :: int
  forcing_step :: int
  timestep :: int
  num_gru_done_timestep :: int
  output_step :: int
  num_write_msgs :: int
  da_paused :: bool
  ja_restart :: string
  ja_mode :: job_mode

type_synonym job_outcome = "(job_actor \<times> job_effect list) res"

definition JobActor ::
  "batch \<Rightarrow> JobActorSettings \<Rightarrow> FileAccessActorSettings \<Rightarrow> HRUActorSettings \<Rightarrow> string \<Rightarrow> job_actor" where
  "JobActor b js fs hs restart =
     \<lparr>ja_timing = TimingInfo, ja_batch = b, ja_gru_struc = None,
      ja_num_gru_info = \<lparr>start_gru_local = 0, start_gru_global = 0, num_gru_local = 0,
        num_gru_global = 0, ngi_file_gru = 0, use_global_for_data_structures = False\<rparr>,
      ja_job_settings = js, ja_fa_settings = fs, ja_hru_settings = hs,
      ja_tol = ToleranceSettings_default, last_error_type = [], ja_dt_init_factor = 1,
      default_tol = True, num_steps = 0, iFile = 1, steps_in_ffile = 0, forcing_step = 1,
      timestep = 1, num_gru_done_timestep = 0, output_step = 1, num_write_msgs = 0,
      da_paused = False, ja_restart = restart, ja_mode = Job_Init\<rparr>"

text \<open>What the Fortran routines deliver during initialisation.\<close>

record job_env =
  je_now :: int
  je_dim_error :: int
  je_file_gru :: int
  je_file_hru :: int
  je_num_hru :: int
  je_icond_error :: int
  je_hru_counts :: "int list"
  je_alloc_error :: int
  je_param_error :: int
  je_restart_error :: int
  je_tol :: ToleranceSettings

subsection \<open>Initialisation\<close>

text \<open>\<^verbatim>\<open>getInitTolerance\<close>: the local \<^verbatim>\<open>def_tol_temp\<close> stays 0, so the flag is
  always cleared.\<close>

definition getInitTolerance :: "ToleranceSettings \<Rightarrow> ToleranceSettings \<times> bool" where
  "getInitTolerance t = (let def_tol_temp = (0 :: int) in (t, def_tol_temp = 1))"

definition job_fail :: "string \<Rightarrow> job_actor \<Rightarrow> job_outcome" where
  "job_fail msg s = Inr (s\<lparr>ja_mode := Job_Stopped\<rparr>, [To_Parent_Error (- 2) msg])"

definition start_timers :: "int \<Rightarrow> timing_info res" where
  "start_timers now =
     res_bind (updateStartPoint now ''total_duration'' (addTimePoint ''total_duration'' TimingInfo))
       (\<lambda>t. updateStartPoint now ''init_duration'' (addTimePoint ''init_duration'' t))"

definition job_make_behavior :: "job_env \<Rightarrow> job_actor \<Rightarrow> job_outcome" where
  "job_make_behavior env s0 =
     res_bind (start_timers (je_now env)) (\<lambda>t.
     let b = ja_batch s0;
         s1 = s0\<lparr>ja_timing := t\<rparr>;
         g0 = GruStruc (start_hru b) (num_hru b) (max_run_attempts (ja_job_settings s0))
     in (case readDimension (je_file_gru env) (je_file_hru env) (je_num_hru env) (je_dim_error env) g0 of
       (err, g1) \<Rightarrow>
         if err \<noteq> 0 then job_fail (''ERROR: Job_Actor - ReadDimension'' @ newline)
                             (s1\<lparr>ja_gru_struc := Some g1\<rparr>)
         else if je_icond_error env \<noteq> 0
         then job_fail (''ERROR: Job_Actor - ReadIcondNlayers'' @ newline) (s1\<lparr>ja_gru_struc := Some g1\<rparr>)
         else (let g = getNumHrusPerGru (je_hru_counts env) g1;
                   s2 = s1\<lparr>ja_gru_struc := Some g\<rparr>
               in if je_alloc_error env \<noteq> 0
                  then job_fail (''ERROR -- Job_Actor: SummaInitStruc allocation failed'' @ newline) s2
                  else if je_param_error env \<noteq> 0
                  then job_fail (''ERROR -- Job_Actor: SummaInitStruc paramSetup failed'' @ newline) s2
                  else if je_restart_error env \<noteq> 0
                  then job_fail (''ERROR -- Job_Actor: SummaInitStruc readRestart failed'' @ newline) s2
                  else (case getInitTolerance (je_tol env) of (tol, dt) \<Rightarrow>
                    let info = \<lparr>start_gru_local = start_hru b, start_gru_global = start_hru b,
                                num_gru_local = num_hru b, num_gru_global = num_hru b,
                                ngi_file_gru = gs_file_gru g, use_global_for_data_structures = False\<rparr>;
                        fs = (if data_assimilation_mode (ja_job_settings s2)
                              then (ja_fa_settings s2)\<lparr>num_partitions_in_output_buffer := 1,
                                     num_timesteps_in_output_buffer := 2\<rparr>
                              else ja_fa_settings s2)
                    in Inr (s2\<lparr>ja_tol := tol, default_tol := dt, ja_num_gru_info := info,
                               ja_fa_settings := fs\<rparr>,
                            [Spawn_File_Access info fs,
                             To_File (Init_File_Access_Actor (gs_file_gru g) (gs_num_hru g))])))))"

text \<open>The reply of the file access actor to the initialisation request.\<close>

definition on_file_access_initialized :: "int \<Rightarrow> int \<Rightarrow> job_actor \<Rightarrow> job_outcome" where
  "on_file_access_initialized now num_timesteps s =
     (if num_timesteps < 0
      then Inr (s\<lparr>ja_mode := Job_Stopped\<rparr>,
                [To_Parent_Error (- 2) (''ERROR: Job_Actor: File Access Actor Not Ready'' @ newline),
                 Quit_Job])
      else res_bind (updateEndPoint now ''init_duration'' (ja_timing s)) (\<lambda>t.
        Inr (s\<lparr>ja_timing := t,
               ja_mode := (if data_assimilation_mode (ja_job_settings s) then DA_Mode
                           else Async_Mode)\<rparr>,
             [To_Self (File_Access_Actor_Ready num_timesteps)])))"

subsection \<open>Spawning\<close>

definition with_gru_struc :: "job_actor \<Rightarrow> (gru_struc \<Rightarrow> 'a res) \<Rightarrow> 'a res" where
  "with_gru_struc s f = (case ja_gru_struc s of None \<Rightarrow> Inl Null_Pointer | Some g \<Rightarrow> f g)"

definition new_gru :: "(int \<Rightarrow> actor_id) \<Rightarrow> job_actor \<Rightarrow> int \<Rightarrow> int \<Rightarrow> gru" where
  "new_gru ref s netcdf job = GRU netcdf job (ref job) (ja_dt_init_factor s) (ja_tol s) (default_tol s)
     (max_run_attempts (ja_job_settings s))"

definition spawn_gru :: "job_actor \<Rightarrow> int \<Rightarrow> int \<Rightarrow> job_effect" where
  "spawn_gru s netcdf job = Spawn_Gru netcdf job (num_steps s) (ja_hru_settings s)
     (data_assimilation_mode (ja_job_settings s)) (num_timesteps_in_output_buffer (ja_fa_settings s))
     (ja_restart s) (ja_tol s)"

text \<open>The \<^verbatim>\<open>for\<close> loop of \<^verbatim>\<open>spawnGruActors\<close>, from \<open>i\<close> on.\<close>

function spawn_loop ::
  "(int \<Rightarrow> actor_id) \<Rightarrow> job_actor \<Rightarrow> int \<Rightarrow> gru_struc \<Rightarrow> gru_struc \<times> job_effect list" where
  "spawn_loop ref s i g =
     (if i < gs_num_gru g
      then (let netcdf = gs_start_gru g + i; job = i + 1
            in (case spawn_loop ref s (i + 1) (addGRU (new_gru ref s netcdf job) g) of
                  (g', es) \<Rightarrow>
                    (g', spawn_gru s netcdf job #
                         (if \<not> data_assimilation_mode (ja_job_settings s)
                          then [To_Gru (ref job) Update_Hru_Async] else []) @ es)))
      else (g, []))"
  by pat_completeness auto
termination
  by (relation "measure (\<lambda>(ref, s, i, g). nat (gs_num_gru g - i))") (auto simp: addGRU_def)

declare spawn_loop.simps [simp del]

definition spawnGruActors :: "(int \<Rightarrow> actor_id) \<Rightarrow> job_actor \<Rightarrow> job_outcome" where
  "spawnGruActors ref s =
     with_gru_struc s (\<lambda>g.
       (case spawn_loop ref s 0 g of
          (g', es) \<Rightarrow> Inr (s\<lparr>ja_gru_struc := Some (decrementRetryAttempts g')\<rparr>, es)))"

text \<open>The \<^verbatim>\<open>while\<close> loop of \<^verbatim>\<open>spawnGruBatches\<close>; the batch size is above 1 there.\<close>

function batch_loop ::
  "(int \<Rightarrow> actor_id) \<Rightarrow> job_actor \<Rightarrow> int \<Rightarrow> int \<Rightarrow> int \<Rightarrow> int \<Rightarrow> gru_struc \<Rightarrow>
   gru_struc \<times> job_effect list" where
  "batch_loop ref s bsize remaining netcdf job g =
     (if 0 < remaining \<and> 0 < bsize
      then (let n = min bsize remaining
            in (case batch_loop ref s bsize (remaining - n) (netcdf + n) (job + n)
                       (addGRU (new_gru ref s netcdf job) g) of
                  (g', es) \<Rightarrow>
                    (g', Spawn_Gru_Batch netcdf job n (num_steps s) (ja_hru_settings s)
                           (num_timesteps_in_output_buffer (ja_fa_settings s)) (ja_restart s)
                           (ja_tol s) # es)))
      else (g, []))"
  by pat_completeness auto
termination
  by (relation "measure (\<lambda>(ref, s, bsize, r, net, job, g). nat r)") auto

declare batch_loop.simps [simp del]

text \<open>\<open>threads\<close> is \<^verbatim>\<open>std::thread::hardware_concurrency()\<close>; on 0 the quotient is
  an infinity whose conversion to \<^verbatim>\<open>int\<close> is undefined.\<close>

definition spawnGruBatches :: "int \<Rightarrow> (int \<Rightarrow> actor_id) \<Rightarrow> job_actor \<Rightarrow> job_outcome" where
  "spawnGruBatches threads ref s =
     with_gru_struc s (\<lambda>g.
       if batch_size (ja_job_settings s) < 0 \<and> threads = 0 then Inl Division_By_Zero
       else (let bsize = (if batch_size (ja_job_settings s) < 0
                         then \<lceil>real_of_int (gs_num_gru g) / real_of_int threads\<rceil>
                         else batch_size (ja_job_settings s))
             in if bsize \<le> 1 then spawnGruActors ref s
                else (case batch_loop ref s bsize (gs_num_gru g) (start_hru (ja_batch s)) 1 g of
                        (g', es) \<Rightarrow> Inr (s\<lparr>ja_gru_struc := Some g'\<rparr>, es))))"

subsection \<open>Asynchronous mode\<close>

text \<open>What follows every report once all GRUs are done.\<close>

definition retry_or_finalize :: "gru_struc \<Rightarrow> gru_struc \<times> job_effect list" where
  "retry_or_finalize g =
     (if isDone g
      then (if hasFailures g
            then (case shouldRetry g of
                    (True, g') \<Rightarrow> (g', [To_Self Restart_Failures])
                  | (False, g') \<Rightarrow> (g', [To_Self Finalize]))
            else (g, [To_Self Finalize]))
      else (g, []))"

definition handleFinishedGRU :: "int \<Rightarrow> job_actor \<Rightarrow> job_outcome" where
  "handleFinishedGRU job s =
     with_gru_struc s (\<lambda>g.
     res_bind (updGRU job setSuccess (incrementNumGruDone g)) (\<lambda>g1.
       (case retry_or_finalize g1 of (g2, es) \<Rightarrow> Inr (s\<lparr>ja_gru_struc := Some g2\<rparr>, es))))"

definition handleGRUError :: "int \<Rightarrow> int \<Rightarrow> int \<Rightarrow> string \<Rightarrow> job_actor \<Rightarrow> job_outcome" where
  "handleGRUError err_code job tstep err_msg s =
     with_gru_struc s (\<lambda>g.
     res_bind (updGRU job setFailed g) (\<lambda>g1.
       (case retry_or_finalize (incrementNumGruFailed g1) of
          (g2, es) \<Rightarrow>
            Inr (s\<lparr>ja_gru_struc := Some g2,
                   last_error_type := record_error err_msg job (last_error_type s)\<rparr>,
                 To_File (Fa_Run_Failure job) # es))))"

definition handleFileAccessError :: "int \<Rightarrow> string \<Rightarrow> job_actor \<Rightarrow> job_outcome" where
  "handleFileAccessError err_code err_msg s =
     (if err_code \<noteq> - 1 then Inr (s\<lparr>ja_mode := Job_Stopped\<rparr>, [Quit_Job]) else Inr (s, []))"

lemma updGRU_failed_count: "updGRU i f g = Inr g' \<Longrightarrow> gs_num_gru_failed g' = gs_num_gru_failed g"
  by (auto simp: updGRU_def res_bind_Inr_iff)

text \<open>The \<^verbatim>\<open>while\<close> loop that restarts the failed GRUs; every round takes one off
  the counter of failures.\<close>

function restart_loop ::
  "(int \<Rightarrow> actor_id) \<Rightarrow> job_actor \<Rightarrow> gru_struc \<Rightarrow> (gru_struc \<times> job_effect list) res" where
  "restart_loop ref s g =
     (if gs_num_gru_failed g > 0
      then (let job = getFailedIndex g; netcdf = job + gs_start_gru g - 1
            in (case updGRU job setRestarted g of
                  Inl e \<Rightarrow> Inl e
                | Inr g1 \<Rightarrow>
                    (case restart_loop ref s
                            (addGRU (new_gru ref s netcdf job) (decrementNumGruFailed g1)) of
                       Inl e \<Rightarrow> Inl e
                     | Inr (g', es) \<Rightarrow>
                         Inr (g', spawn_gru s netcdf job # To_Gru (ref job) Update_Hru_Async # es))))
      else Inr (g, []))"
  by pat_completeness auto
termination
  by (relation "measure (\<lambda>(ref, s, g). nat (gs_num_gru_failed g))")
     (auto simp: addGRU_def decrementNumGruFailed_def dest!: updGRU_failed_count)

declare restart_loop.simps [simp del]

definition on_restart_failures :: "(int \<Rightarrow> actor_id) \<Rightarrow> job_actor \<Rightarrow> job_outcome" where
  "on_restart_failures ref s =
     with_gru_struc s (\<lambda>g.
       let s1 = s\<lparr>ja_tol := tighten (last_error_type s) (ja_tol s)\<rparr>
       in res_bind (restart_loop ref s1 (snapshotFailedCount g)) (\<lambda>(g', es).
            Inr (s1\<lparr>last_error_type := [], ja_gru_struc := Some (decrementRetryAttempts g')\<rparr>,
                 To_File Fa_Restart_Failures # es)))"

definition finalizeJob :: "job_actor \<Rightarrow> job_outcome" where
  "finalizeJob s = Inr (s, [To_File Fa_Finalize])"

text \<open>The reply of the file access actor to \<^verbatim>\<open>finalize\<close>.\<close>

definition on_finalize_reply :: "int \<Rightarrow> real \<Rightarrow> real \<Rightarrow> job_actor \<Rightarrow> job_outcome" where
  "on_finalize_reply now rd wr s =
     with_gru_struc s (\<lambda>g.
     res_bind (updateEndPoint now ''total_duration'' (ja_timing s)) (\<lambda>t.
     res_bind (getDuration ''total_duration'' t) (\<lambda>d.
       Inr (s\<lparr>ja_timing := t, ja_gru_struc := None, ja_mode := Job_Stopped\<rparr>,
            [To_Parent_Done (gs_num_gru_failed g) (value_or d (- 1)) rd wr, Quit_Job]))))"

definition async_receive :: "(int \<Rightarrow> actor_id) \<Rightarrow> job_msg \<Rightarrow> job_actor \<Rightarrow> job_outcome" where
  "async_receive ref m s =
     (case m of
        File_Access_Actor_Ready n \<Rightarrow> spawnGruActors ref (s\<lparr>num_steps := n\<rparr>)
      | Done_Hru job \<Rightarrow> handleFinishedGRU job s
      | Restart_Failures \<Rightarrow> on_restart_failures ref s
      | Finalize \<Rightarrow> finalizeJob s
      | Finalize_Reply now rd wr \<Rightarrow> on_finalize_reply now rd wr s
      | Gru_Error job tstep code msg \<Rightarrow>
          if job = 0 then handleFileAccessError code msg s else handleGRUError code job tstep msg s
      | _ \<Rightarrow> Inr (s, [Unexpected_Job m]))"

subsection \<open>Data assimilation mode\<close>

definition to_all_grus :: "gru_struc \<Rightarrow> gru_msg \<Rightarrow> job_effect list" where
  "to_all_grus g m = map (\<lambda>x. To_Gru (actor_ref x) m) (gru_info g)"

definition processTimestep :: "job_actor \<Rightarrow> job_effect list res" where
  "processTimestep s =
     (if timestep s > num_steps s
      then with_gru_struc s (\<lambda>g. Inr (to_all_grus g User_Shutdown @ [To_Self Finalize]))
      else if forcing_step s > steps_in_ffile s then Inr [To_File (Fa_Access_Forcing (iFile s + 1))]
      else Inr [To_Self Update_Hru])"

definition da_file_access_ready :: "int \<Rightarrow> (int \<Rightarrow> actor_id) \<Rightarrow> int \<Rightarrow> job_actor \<Rightarrow> job_outcome" where
  "da_file_access_ready threads ref n s =
     res_bind (spawnGruBatches threads ref (s\<lparr>num_steps := n\<rparr>)) (\<lambda>(s1, es).
       Inr (s1, es @ [To_File (Fa_Access_Forcing (iFile s1))]))"

definition da_new_forcing_file :: "int \<Rightarrow> int \<Rightarrow> job_actor \<Rightarrow> job_outcome" where
  "da_new_forcing_file steps next_file s =
     with_gru_struc s (\<lambda>g.
       Inr (s\<lparr>iFile := next_file, steps_in_ffile := steps, forcing_step := 1\<rparr>,
            to_all_grus g (Update_TimeZoneOffset next_file) @ [To_Self Update_Hru]))"

definition da_update_hru :: "job_actor \<Rightarrow> job_outcome" where
  "da_update_hru s =
     with_gru_struc s (\<lambda>g.
       Inr (s, to_all_grus g (Update_Hru_Step (timestep s) (forcing_step s) (output_step s + 1))))"

definition da_done_update :: "job_actor \<Rightarrow> job_outcome" where
  "da_done_update s0 =
     with_gru_struc s0 (\<lambda>g.
       let s = s0\<lparr>num_gru_done_timestep := num_gru_done_timestep s0 + 1\<rparr>
       in if num_gru_done_timestep s < int (length (gru_info g)) then Inr (s, [])
          else
            res_bind (if print_output (ja_hru_settings s)
                      then cpp_mod (timestep s) (output_frequency (ja_hru_settings s)) else Inr 0) (\<lambda>_.
            res_bind (cpp_mod (output_step s + 1) (num_timesteps_in_output_buffer (ja_fa_settings s)))
              (\<lambda>out.
                 let w = To_File (Fa_Write_Output (output_step s + 1));
                     s1 = s\<lparr>num_write_msgs := num_write_msgs s + 1, timestep := timestep s + 1,
                            forcing_step := forcing_step s + 1, output_step := out,
                            num_gru_done_timestep := 0\<rparr>
                 in if num_write_msgs s1 \<ge> num_timesteps_in_output_buffer (ja_fa_settings s)
                    then Inr (s1\<lparr>da_paused := True\<rparr>, [w])
                    else res_bind (processTimestep s1) (\<lambda>es. Inr (s1, w # es)))))"

text \<open>\<^verbatim>\<open>quit()\<close> does not return from the handler, so an error is followed by the
  same bookkeeping as a success.\<close>

definition da_write_output :: "int \<Rightarrow> job_actor \<Rightarrow> job_outcome" where
  "da_write_output err s =
     res_bind (if err \<noteq> 0
               then with_gru_struc s (\<lambda>g. Inr (to_all_grus g Gru_Exit @ [Exit_File_Access, Quit_Job]))
               else Inr []) (\<lambda>es0.
       let s1 = s\<lparr>num_write_msgs := num_write_msgs s - 1,
                  ja_mode := (if err \<noteq> 0 then Job_Stopped else ja_mode s)\<rparr>
       in if da_paused s1
          then (let s2 = s1\<lparr>da_paused := False\<rparr>
                in res_bind (processTimestep s2) (\<lambda>es. Inr (s2, es0 @ es)))
          else Inr (s1, es0))"

definition da_receive :: "int \<Rightarrow> (int \<Rightarrow> actor_id) \<Rightarrow> job_msg \<Rightarrow> job_actor \<Rightarrow> job_outcome" where
  "da_receive threads ref m s =
     (case m of
        File_Access_Actor_Ready n \<Rightarrow> da_file_access_ready threads ref n s
      | New_Forcing_File steps next_file \<Rightarrow> da_new_forcing_file steps next_file s
      | Update_Hru \<Rightarrow> da_update_hru s
      | Done_Update \<Rightarrow> da_done_update s
      | Output_Written err \<Rightarrow> da_write_output err s
      | Finalize \<Rightarrow> finalizeJob s
      | Finalize_Reply now rd wr \<Rightarrow> on_finalize_reply now rd wr s
      | _ \<Rightarrow> Inr (s, [Unexpected_Job m]))"

end
