(* ===== verification/Job_Async.thy ===== *)
theory Job_Async
  imports Job_Actor
begin

text \<open>
  The asynchronous mode of the job actor: the counters of the GRU container
  describe the states of the GRUs, a restart restarts exactly the failed GRUs,
  the job decides exactly when the last outstanding GRU has reported, and the
  number of restarts is bounded.
\<close>

subsection \<open>Invariant of the GRU container\<close>

definition is_failed :: "gru \<Rightarrow> bool" where "is_failed x \<longleftrightarrow> state_of x = Gru_Failed"
definition is_finished :: "gru \<Rightarrow> bool" where
  "is_finished x \<longleftrightarrow> state_of x = Gru_Failed \<or> state_of x = Gru_Succeeded"

abbreviation orig :: "gru_struc \<Rightarrow> gru list" where
  "orig g \<equiv> take (nat (gs_num_gru g)) (gru_info g)"

text \<open>The first \<^verbatim>\<open>num_gru_\<close> objects carry the status of the GRUs; the objects that
  restarts append stay \<open>running\<close>.\<close>

definition gs_ok :: "gru_struc \<Rightarrow> bool" where
  "gs_ok g \<longleftrightarrow>
     0 \<le> gs_num_gru g \<and> nat (gs_num_gru g) \<le> length (gru_info g) \<and>
     (\<forall>i < nat (gs_num_gru g). index_job (gru_info g ! i) = int i + 1) \<and>
     (\<forall>i. nat (gs_num_gru g) \<le> i \<and> i < length (gru_info g) \<longrightarrow> state_of (gru_info g ! i) = Gru_Running) \<and>
     gs_num_gru_failed g = int (count_if is_failed (orig g)) \<and>
     num_gru_done g = int (count_if is_finished (orig g))"

definition outstanding :: "gru_struc \<Rightarrow> int set" where
  "outstanding g = {int i + 1 | i. i < nat (gs_num_gru g) \<and> \<not> is_finished (gru_info g ! i)}"

definition failed_jobs :: "gru_struc \<Rightarrow> int list" where
  "failed_jobs g = map (\<lambda>i. int i + 1)
     (filter (\<lambda>i. is_failed (gru_info g ! i)) [0 ..< nat (gs_num_gru g)])"

text \<open>What no operation on the status of GRUs changes.\<close>

definition same_frame :: "gru_struc \<Rightarrow> gru_struc \<Rightarrow> bool" where
  "same_frame g g' \<longleftrightarrow>
     gs_num_gru g' = gs_num_gru g \<and> gs_start_gru g' = gs_start_gru g \<and>
     initial_retry_attempts g' = initial_retry_attempts g"

lemma orig_update:
  "i < nat (gs_num_gru g) \<Longrightarrow> gs_ok g \<Longrightarrow>
   take (nat (gs_num_gru g)) ((gru_info g)[i := x]) = (orig g)[i := x] \<and> i < length (orig g) \<and>
   orig g ! i = gru_info g ! i"
  by (simp add: take_update_swap gs_ok_def)

lemma updGRU_job:
  assumes "gs_ok g" and "i < nat (gs_num_gru g)"
  shows "updGRU (int i + 1) f g = Inr (g\<lparr>gru_info := (gru_info g)[i := f (gru_info g ! i)]\<rparr>)"
  using assms by (simp add: updGRU_def gs_ok_def)

text \<open>One report of an outstanding GRU, as failed or as succeeded.\<close>

definition reported :: "nat \<Rightarrow> bool \<Rightarrow> gru_struc \<Rightarrow> gru_struc" where
  "reported i ok g =
     (if ok then g\<lparr>num_gru_done := num_gru_done g + 1,
                   gru_info := (gru_info g)[i := setSuccess (gru_info g ! i)]\<rparr>
      else g\<lparr>gru_info := (gru_info g)[i := setFailed (gru_info g ! i)],
             gs_num_gru_failed := gs_num_gru_failed g + 1, num_gru_done := num_gru_done g + 1\<rparr>)"

lemma reported_gs_ok:
  assumes ok: "gs_ok g" and i: "i < nat (gs_num_gru g)" and o: "\<not> is_finished (gru_info g ! i)"
  shows "gs_ok (reported i b g)" and "outstanding (reported i b g) = outstanding g - {int i + 1}"
    and "same_frame g (reported i b g)"
proof -
  let ?x = "if b then setSuccess (gru_info g ! i) else setFailed (gru_info g ! i)"
  note u = orig_update [OF i ok, of ?x]
  have fin: "is_finished ?x" "is_failed ?x \<longleftrightarrow> \<not> b" "index_job ?x = index_job (gru_info g ! i)"
    by (auto simp: is_finished_def is_failed_def setSuccess_def setFailed_def)
  have "\<not> is_failed (gru_info g ! i)" using o by (simp add: is_finished_def is_failed_def)
  with u o fin have "int (count_if is_failed ((orig g)[i := ?x])) = int (count_if is_failed (orig g)) + (if b then 0 else 1)"
    "int (count_if is_finished ((orig g)[i := ?x])) = int (count_if is_finished (orig g)) + 1"
    by (simp_all add: count_if_update)
  with ok i u fin show "gs_ok (reported i b g)"
    by (auto simp: gs_ok_def reported_def nth_list_update split: if_splits)
  show "outstanding (reported i b g) = outstanding g - {int i + 1}"
    using i fin ok by (auto simp: outstanding_def reported_def nth_list_update gs_ok_def split: if_splits)
  show "same_frame g (reported i b g)" by (simp add: same_frame_def reported_def)
qed

lemma isDone_iff:
  assumes "gs_ok g"
  shows "isDone g \<longleftrightarrow> outstanding g = {}"
proof -
  have len: "length (orig g) = nat (gs_num_gru g)" using assms by (simp add: gs_ok_def)
  have "isDone g \<longleftrightarrow> count_if is_finished (orig g) = length (orig g)"
    using assms count_if_le_length [of is_finished "orig g"] len by (auto simp: isDone_def gs_ok_def)
  also have "\<dots> \<longleftrightarrow> (\<forall>i < nat (gs_num_gru g). is_finished (gru_info g ! i))"
    unfolding count_if_all_iff using len by (simp add: all_set_conv_all_nth)
  finally show ?thesis by (auto simp: outstanding_def)
qed

lemma failed_le_num:
  assumes "gs_ok g"
  shows "0 \<le> gs_num_gru_failed g" "gs_num_gru_failed g \<le> gs_num_gru g"
  using assms count_if_le_length [of is_failed "orig g"] by (auto simp: gs_ok_def)

subsection \<open>The restart loop\<close>

lemma getFailedIndex_first:
  assumes ok: "gs_ok g" and pos: "0 < gs_num_gru_failed g"
  obtains i where "i < nat (gs_num_gru g)" "is_failed (gru_info g ! i)" "getFailedIndex g = int i + 1"
    "\<And>j. j < i \<Longrightarrow> \<not> is_failed (gru_info g ! j)"
proof -
  have "count_if is_failed (orig g) \<noteq> 0" using ok pos by (simp add: gs_ok_def)
  then obtain x where "x \<in> set (orig g)" "is_failed x" by (auto simp: count_if_zero_iff)
  then have "\<exists>x \<in> set (gru_info g). state_of x = Gru_Failed"
    by (auto simp: is_failed_def dest: in_set_takeD)
  then obtain x where f: "find (\<lambda>x. state_of x = Gru_Failed) (gru_info g) = Some x"
    by (cases "find (\<lambda>x. state_of x = Gru_Failed) (gru_info g)") (auto simp: find_None_iff)
  then obtain i where i: "i < length (gru_info g)" "state_of (gru_info g ! i) = Gru_Failed"
    "x = gru_info g ! i" "\<And>j. j < i \<Longrightarrow> state_of (gru_info g ! j) \<noteq> Gru_Failed"
    unfolding find_Some_iff by blast
  have lt: "i < nat (gs_num_gru g)"
  proof (rule ccontr)
    assume "\<not> i < nat (gs_num_gru g)"
    then have "state_of (gru_info g ! i) = Gru_Running" using ok i(1) unfolding gs_ok_def by auto
    with i(2) show False by simp
  qed
  show ?thesis
    by (rule that [of i]) (use lt i f ok in \<open>auto simp: is_failed_def getFailedIndex_def gs_ok_def\<close>)
qed

lemma failed_jobs_first:
  assumes "i < nat (gs_num_gru g)" and "is_failed (gru_info g ! i)"
    and "\<And>j. j < i \<Longrightarrow> \<not> is_failed (gru_info g ! j)"
    and "gs_num_gru g' = gs_num_gru g"
    and "\<And>j. j < nat (gs_num_gru g) \<Longrightarrow> is_failed (gru_info g' ! j) \<longleftrightarrow> j \<noteq> i \<and> is_failed (gru_info g ! j)"
  shows "failed_jobs g = (int i + 1) # failed_jobs g'"
proof -
  let ?n = "nat (gs_num_gru g)"
  have split: "[0 ..< ?n] = [0 ..< i] @ i # [Suc i ..< ?n]"
    using assms(1) by (metis le_add1 less_imp_add_positive upt_add_eq_append upt_conv_Cons add_0 less_imp_le_nat le_add_diff_inverse)
  have "filter (\<lambda>i. is_failed (gru_info g ! i)) [0 ..< ?n] =
      i # filter (\<lambda>i. is_failed (gru_info g ! i)) [Suc i ..< ?n]"
    unfolding split using assms(2,3) by simp
  moreover have "filter (\<lambda>j. is_failed (gru_info g' ! j)) [0 ..< ?n] =
      filter (\<lambda>i. is_failed (gru_info g ! i)) [Suc i ..< ?n]"
  proof -
    have "filter (\<lambda>j. is_failed (gru_info g' ! j)) [0 ..< ?n] =
        filter (\<lambda>j. j \<noteq> i \<and> is_failed (gru_info g ! j)) [0 ..< ?n]"
      using assms(5) by (intro filter_cong) auto
    also have "\<dots> = filter (\<lambda>i. is_failed (gru_info g ! i)) [Suc i ..< ?n]"
      unfolding split using assms(3) by (auto intro!: filter_cong)
    finally show ?thesis .
  qed
  ultimately show ?thesis using assms(4) by (simp add: failed_jobs_def)
qed

definition restart_one :: "(int \<Rightarrow> actor_id) \<Rightarrow> job_actor \<Rightarrow> nat \<Rightarrow> gru_struc \<Rightarrow> gru_struc" where
  "restart_one ref s i g =
     addGRU (new_gru ref s (int i + 1 + gs_start_gru g - 1) (int i + 1))
       (decrementNumGruFailed (g\<lparr>gru_info := (gru_info g)[i := setRestarted (gru_info g ! i)]\<rparr>))"

lemma restart_one_ok:
  assumes ok: "gs_ok g" and i: "i < nat (gs_num_gru g)" and f: "is_failed (gru_info g ! i)"
    and first: "\<And>j. j < i \<Longrightarrow> \<not> is_failed (gru_info g ! j)"
  shows "gs_ok (restart_one ref s i g)"
    and "gs_num_gru_failed (restart_one ref s i g) = gs_num_gru_failed g - 1"
    and "outstanding (restart_one ref s i g) = insert (int i + 1) (outstanding g)"
    and "failed_jobs g = (int i + 1) # failed_jobs (restart_one ref s i g)"
    and "same_frame g (restart_one ref s i g)"
proof -
  let ?g = "restart_one ref s i g"
  let ?x = "setRestarted (gru_info g ! i)"
  have len: "nat (gs_num_gru g) \<le> length (gru_info g)" using ok by (simp add: gs_ok_def)
  have info: "gru_info ?g = (gru_info g)[i := ?x] @ [new_gru ref s (int i + 1 + gs_start_gru g - 1) (int i + 1)]"
    and num: "gs_num_gru ?g = gs_num_gru g"
    and cnt: "gs_num_gru_failed ?g = gs_num_gru_failed g - 1" "num_gru_done ?g = num_gru_done g - 1"
    by (simp_all add: restart_one_def addGRU_def decrementNumGruFailed_def)
  have st: "state_of ?x = Gru_Restarted" "index_job ?x = index_job (gru_info g ! i)"
    by (simp_all add: setRestarted_def)
  note u = orig_update [OF i ok, of ?x]
  have o: "orig ?g = (orig g)[i := ?x]" using info num len u by simp
  have c: "int (count_if is_failed (orig ?g)) = int (count_if is_failed (orig g)) - 1"
    "int (count_if is_finished (orig ?g)) = int (count_if is_finished (orig g)) - 1"
    unfolding o using u f st by (simp_all add: count_if_update is_failed_def is_finished_def)
  have nth: "gru_info ?g ! j = (if j = i then ?x else gru_info g ! j)" if "j < nat (gs_num_gru g)" for j
    using that len by (simp add: info nth_append nth_list_update)
  have run: "state_of (gru_info ?g ! j) = Gru_Running"
    if "nat (gs_num_gru g) \<le> j" "j < length (gru_info ?g)" for j
  proof (cases "j < length (gru_info g)")
    case True
    with that i have "gru_info ?g ! j = gru_info g ! j" by (simp add: info nth_append nth_list_update)
    with True that ok show ?thesis by (simp add: gs_ok_def)
  next
    case False
    with that have "j = length (gru_info g)" by (simp add: info)
    then show ?thesis by (simp add: info nth_append new_gru_def GRU_def)
  qed
  show "gs_ok ?g"
    unfolding gs_ok_def num
  proof (intro conjI allI impI)
    show "0 \<le> gs_num_gru g" using ok by (simp add: gs_ok_def)
    show "nat (gs_num_gru g) \<le> length (gru_info ?g)" using len info by simp
    show "index_job (gru_info ?g ! j) = int j + 1" if "j < nat (gs_num_gru g)" for j
      using that nth st ok by (simp add: gs_ok_def)
    show "state_of (gru_info ?g ! j) = Gru_Running"
      if "nat (gs_num_gru g) \<le> j \<and> j < length (gru_info ?g)" for j
      using that run by blast
    show "gs_num_gru_failed ?g = int (count_if is_failed (take (nat (gs_num_gru g)) (gru_info ?g)))"
      using c(1) cnt(1) ok num by (simp add: gs_ok_def)
    show "num_gru_done ?g = int (count_if is_finished (take (nat (gs_num_gru g)) (gru_info ?g)))"
      using c(2) cnt(2) ok num by (simp add: gs_ok_def)
  qed
  show "gs_num_gru_failed ?g = gs_num_gru_failed g - 1" by (rule cnt(1))
  show "outstanding ?g = insert (int i + 1) (outstanding g)"
    using i nth st f by (auto simp: outstanding_def num is_finished_def)
  show "failed_jobs g = (int i + 1) # failed_jobs ?g"
    using i f first num nth st by (intro failed_jobs_first) (auto simp: is_failed_def)
  show "same_frame g ?g"
    by (simp add: same_frame_def restart_one_def addGRU_def decrementNumGruFailed_def)
qed

definition spawned_ids :: "job_effect list \<Rightarrow> int list" where
  "spawned_ids es = concat (map (\<lambda>e. case e of Spawn_Gru n j a b c d f t \<Rightarrow> [j] | _ \<Rightarrow> []) es)"

definition to_self :: "job_effect list \<Rightarrow> job_msg list" where
  "to_self es = concat (map (\<lambda>e. case e of To_Self m \<Rightarrow> [m] | _ \<Rightarrow> []) es)"

lemma job_effect_simps [simp]:
  "spawned_ids [] = []" "to_self [] = []"
  "spawned_ids (spawn_gru s n j # es) = j # spawned_ids es"
  "spawned_ids (To_Gru a m # es) = spawned_ids es"
  "spawned_ids (To_File fm # es) = spawned_ids es"
  "to_self (spawn_gru s n j # es) = to_self es"
  "to_self (To_Gru a m # es) = to_self es"
  "to_self (To_File fm # es) = to_self es"
  "to_self (To_Self m' # es) = m' # to_self es"
  "to_self (xs @ es) = to_self xs @ to_self es"
  by (simp_all add: spawned_ids_def to_self_def spawn_gru_def)

text \<open>The counters that only the retry policy touches.\<close>

definition same_retry :: "gru_struc \<Rightarrow> gru_struc \<Rightarrow> bool" where
  "same_retry g g' \<longleftrightarrow> prev_num_gru_failed g' = prev_num_gru_failed g \<and>
     num_retry_attempts_left g' = num_retry_attempts_left g"

text \<open>A restarted GRU keeps its slot, marked as restarted; the new object comes at the end.\<close>

definition mark_restarted :: "gru \<Rightarrow> gru" where
  "mark_restarted x = (if is_failed x then setRestarted x else x)"

definition restarted_info :: "(int \<Rightarrow> actor_id) \<Rightarrow> job_actor \<Rightarrow> gru_struc \<Rightarrow> gru list" where
  "restarted_info ref s g = map mark_restarted (gru_info g) @
     map (\<lambda>j. new_gru ref s (j + gs_start_gru g - 1) j) (failed_jobs g)"

lemma restarted_info_one:
  assumes i: "is_failed (gru_info g ! i)" "i < length (gru_info g)"
    and f: "failed_jobs g = (int i + 1) # failed_jobs (restart_one ref s i g)"
  shows "restarted_info ref s (restart_one ref s i g) = restarted_info ref s g"
proof -
  have "mark_restarted (setRestarted (gru_info g ! i)) = mark_restarted (gru_info g ! i)"
    using i(1) by (simp add: mark_restarted_def is_failed_def setRestarted_def)
  then have "map mark_restarted ((gru_info g)[i := setRestarted (gru_info g ! i)]) = map mark_restarted (gru_info g)"
    using i(2) by (simp add: map_update list_update_same_conv)
  then show ?thesis unfolding restarted_info_def f
    by (simp add: restart_one_def addGRU_def decrementNumGruFailed_def mark_restarted_def is_failed_def
        new_gru_def GRU_def)
qed

lemma restart_loop_ok:
  "gs_ok g \<Longrightarrow> \<exists>g' es. restart_loop ref s g = Inr (g', es) \<and> gs_ok g' \<and> gs_num_gru_failed g' = 0 \<and>
     spawned_ids es = failed_jobs g \<and> to_self es = [] \<and>
     outstanding g' = outstanding g \<union> set (failed_jobs g) \<and> same_frame g g' \<and> same_retry g g' \<and>
     gru_info g' = restarted_info ref s g"
proof (induction "nat (gs_num_gru_failed g)" arbitrary: g)
  case 0
  then have z: "gs_num_gru_failed g = 0" using failed_le_num [OF 0(2)] by simp
  then have "count_if is_failed (orig g) = 0" using 0(2) by (simp add: gs_ok_def)
  then have "\<forall>i < nat (gs_num_gru g). \<not> is_failed (gru_info g ! i)"
    using 0(2) by (simp add: count_if_zero_iff all_set_conv_all_nth gs_ok_def)
  then have "failed_jobs g = []" by (simp add: failed_jobs_def filter_empty_conv)
  moreover have "\<not> is_failed (gru_info g ! k)" if "k < length (gru_info g)" for k
    using that 0(2) \<open>\<forall>i < nat (gs_num_gru g). \<not> is_failed (gru_info g ! i)\<close>
    by (cases "k < nat (gs_num_gru g)") (auto simp: gs_ok_def is_failed_def)
  then have "map mark_restarted (gru_info g) = gru_info g"
    by (intro map_idI) (auto simp: mark_restarted_def in_set_conv_nth)
  ultimately show ?case using z 0(2)
    by (subst restart_loop.simps) (simp add: same_frame_def same_retry_def restarted_info_def)
next
  case (Suc n)
  then have pos: "0 < gs_num_gru_failed g" by simp
  from Suc.prems pos obtain i where i: "i < nat (gs_num_gru g)" "is_failed (gru_info g ! i)"
    "getFailedIndex g = int i + 1" "\<And>j. j < i \<Longrightarrow> \<not> is_failed (gru_info g ! j)"
    by (rule getFailedIndex_first) blast
  let ?g = "restart_one ref s i g"
  note r = restart_one_ok [OF Suc.prems i(1,2,4), of ref s]
  from Suc.hyps(2) r(2) have "n = nat (gs_num_gru_failed ?g)" by simp
  from Suc.hyps(1) [OF this r(1)] obtain g' es where
    IH: "restart_loop ref s ?g = Inr (g', es)" "gs_ok g'" "gs_num_gru_failed g' = 0"
      "spawned_ids es = failed_jobs ?g" "to_self es = []"
      "outstanding g' = outstanding ?g \<union> set (failed_jobs ?g)" "same_frame ?g g'" "same_retry ?g g'"
      "gru_info g' = restarted_info ref s ?g"
    by blast
  have "i < length (gru_info g)" using i(1) Suc.prems by (simp add: gs_ok_def)
  with IH(9) restarted_info_one [OF i(2) this r(4)] have slots: "gru_info g' = restarted_info ref s g" by simp
  have step: "restart_loop ref s g = Inr (g', spawn_gru s (int i + 1 + gs_start_gru g - 1) (int i + 1) #
      To_Gru (ref (int i + 1)) Update_Hru_Async # es)"
    using pos i(3) updGRU_job [OF Suc.prems i(1), of setRestarted] IH(1)
    by (subst restart_loop.simps) (simp add: restart_one_def Let_def)
  have "same_retry g ?g"
    by (simp add: same_retry_def restart_one_def addGRU_def decrementNumGruFailed_def)
  moreover from IH(7) r(5) have "same_frame g g'" by (simp add: same_frame_def)
  ultimately show ?case using IH(2-6,8) r(3,4) step slots by (auto simp: same_retry_def)
qed

lemma updGRU_start: "updGRU i f g = Inr g' \<Longrightarrow> gs_start_gru g' = gs_start_gru g"
  by (auto simp: updGRU_def res_bind_Inr_iff)

text \<open>What the loop spawns and sends.\<close>

definition relaunch :: "(int \<Rightarrow> actor_id) \<Rightarrow> job_actor \<Rightarrow> int \<Rightarrow> int list \<Rightarrow> job_effect list" where
  "relaunch ref s start js =
     concat (map (\<lambda>j. [spawn_gru s (j + start - 1) j, To_Gru (ref j) Update_Hru_Async]) js)"

lemma relaunch_simps [simp]:
  "relaunch ref s start [] = []"
  "relaunch ref s start (j # js) =
     spawn_gru s (j + start - 1) j # To_Gru (ref j) Update_Hru_Async # relaunch ref s start js"
  by (simp_all add: relaunch_def)

lemma restart_loop_relaunch:
  "restart_loop ref s g = Inr (g', es) \<Longrightarrow> es = relaunch ref s (gs_start_gru g) (spawned_ids es)"
proof (induction ref s g arbitrary: g' es rule: restart_loop.induct)
  case (1 ref s g)
  show ?case
  proof (cases "gs_num_gru_failed g > 0")
    case False
    then have "es = []" using 1(2) by (subst (asm) restart_loop.simps) simp
    then show ?thesis by simp
  next
    case True
    let ?j = "getFailedIndex g"
    let ?next = "\<lambda>g1. addGRU (new_gru ref s (?j + gs_start_gru g - 1) ?j) (decrementNumGruFailed g1)"
    from 1(2) True obtain g1 es1 where
      u: "updGRU ?j setRestarted g = Inr g1" "restart_loop ref s (?next g1) = Inr (g', es1)"
      and es: "es = spawn_gru s (?j + gs_start_gru g - 1) ?j # To_Gru (ref ?j) Update_Hru_Async # es1"
      by (subst (asm) restart_loop.simps) (auto simp: Let_def split: sum.splits)
    from 1(1) [OF True refl refl u(1) u(2)]
    have "es1 = relaunch ref s (gs_start_gru (?next g1)) (spawned_ids es1)" .
    moreover have "gs_start_gru (?next g1) = gs_start_gru g"
      using updGRU_start [OF u(1)] by (simp add: addGRU_def decrementNumGruFailed_def)
    ultimately show ?thesis unfolding es by simp
  qed
qed

subsection \<open>Spawning\<close>

lemma spawn_loop_closed:
  "0 \<le> i \<Longrightarrow> i \<le> gs_num_gru g \<Longrightarrow>
   fst (spawn_loop ref s i g) = g\<lparr>gru_info := gru_info g @
     map (\<lambda>j. new_gru ref s (gs_start_gru g + j) (j + 1)) [i .. gs_num_gru g - 1]\<rparr> \<and>
   spawned_ids (snd (spawn_loop ref s i g)) = map (\<lambda>j. j + 1) [i .. gs_num_gru g - 1] \<and>
   to_self (snd (spawn_loop ref s i g)) = []"
proof (induction ref s i g rule: spawn_loop.induct)
  case (1 ref s i g)
  show ?case
  proof (cases "i < gs_num_gru g")
    case True
    let ?g = "addGRU (new_gru ref s (gs_start_gru g + i) (i + 1)) g"
    have f: "gs_num_gru ?g = gs_num_gru g" "gs_start_gru ?g = gs_start_gru g"
      "gru_info ?g = gru_info g @ [new_gru ref s (gs_start_gru g + i) (i + 1)]"
      "g\<lparr>gru_info := x\<rparr> = ?g\<lparr>gru_info := x\<rparr>" for x
      by (simp_all add: addGRU_def)
    have r: "[i .. gs_num_gru g - 1] = i # [i + 1 .. gs_num_gru g - 1]"
      using True by (simp add: upto.simps [of i])
    from 1(1) [OF True refl refl] True 1(2) f(1-3) show ?thesis
      unfolding r by (subst (1 2 3) spawn_loop.simps) (auto simp: Let_def f(4) split: prod.splits)
  next
    case False
    with 1 show ?thesis by (subst (1 2 3) spawn_loop.simps) simp
  qed
qed

text \<open>A container that was just constructed and whose dimensions have been read.\<close>

definition fresh_struc :: "gru_struc \<Rightarrow> bool" where
  "fresh_struc g \<longleftrightarrow> gru_info g = [] \<and> num_gru_done g = 0 \<and> gs_num_gru_failed g = 0 \<and>
     prev_num_gru_failed g = INT_MAX \<and> 0 \<le> gs_num_gru g"

lemma fresh_struc_init:
  "0 \<le> n \<Longrightarrow> fresh_struc (getNumHrusPerGru cs (snd (readDimension a b c e (GruStruc st n r))))"
  by (simp add: fresh_struc_def GruStruc_def readDimension_def getNumHrusPerGru_def)

lemma spawnGruActors_ok:
  assumes "ja_gru_struc s = Some g" and "fresh_struc g"
  shows "\<exists>g' es. spawnGruActors ref s = Inr (s\<lparr>ja_gru_struc := Some g'\<rparr>, es) \<and> gs_ok g' \<and>
    spawned_ids es = map (\<lambda>i. int i + 1) [0 ..< nat (gs_num_gru g)] \<and> to_self es = [] \<and>
    outstanding g' = (\<lambda>i. int i + 1) ` {0 ..< nat (gs_num_gru g)} \<and> same_frame g g' \<and>
    gs_num_gru_failed g' = 0 \<and> prev_num_gru_failed g' = INT_MAX"
proof -
  let ?n = "gs_num_gru g"
  have n: "0 \<le> ?n" using assms(2) by (simp add: fresh_struc_def)
  obtain g1 es where sl: "spawn_loop ref s 0 g = (g1, es)" by fastforce
  have upt: "[0 .. ?n - 1] = map int [0 ..< nat ?n]" using upto_map_int [of "nat ?n"] n by simp
  let ?l = "map (\<lambda>i. new_gru ref s (gs_start_gru g + int i) (int i + 1)) [0 ..< nat ?n]"
  from spawn_loop_closed [of 0 g ref s] sl n assms(2)
  have g1: "g1 = g\<lparr>gru_info := ?l\<rparr>" and es: "to_self es = []"
    "spawned_ids es = map (\<lambda>i. int i + 1) [0 ..< nat ?n]"
    by (simp_all add: upt fresh_struc_def o_def)
  let ?g = "decrementRetryAttempts g1"
  have info: "gru_info ?g = ?l" "gs_num_gru ?g = ?n" by (simp_all add: g1 decrementRetryAttempts_def)
  have st: "state_of (?l ! i) = Gru_Running" "index_job (?l ! i) = int i + 1" if "i < nat ?n" for i
    using that by (simp_all add: new_gru_def GRU_def)
  have none: "\<forall>x \<in> set ?l. \<not> is_failed x \<and> \<not> is_finished x"
    by (auto simp: new_gru_def GRU_def is_failed_def is_finished_def)
  then have z: "count_if is_failed ?l = 0" "count_if is_finished ?l = 0"
    by (simp_all add: count_if_zero_iff)
  have "gs_ok ?g"
    unfolding gs_ok_def info using n st z assms(2)
    by (auto simp: g1 decrementRetryAttempts_def fresh_struc_def)
  moreover have "outstanding ?g = (\<lambda>i. int i + 1) ` {0 ..< nat ?n}"
    unfolding outstanding_def info by (auto simp: new_gru_def GRU_def is_finished_def)
  ultimately show ?thesis using assms sl es
    by (auto simp: spawnGruActors_def with_gru_struc_def same_frame_def g1 decrementRetryAttempts_def
        fresh_struc_def)
qed

subsection \<open>Reports\<close>

lemma retry_or_finalize_cases:
  assumes "gs_ok g"
  obtains (wait) "retry_or_finalize g = (g, [])" "outstanding g \<noteq> {}"
  | (retry) "retry_or_finalize g = (snd (shouldRetry g), [To_Self Restart_Failures])"
      "outstanding g = {}" "0 < gs_num_gru_failed g" "fst (shouldRetry g)"
  | (finished) g' where "retry_or_finalize g = (g', [To_Self Finalize])" "outstanding g = {}"
      "g' = g \<or> g' = snd (shouldRetry g)" 
      "gs_num_gru_failed g = 0 \<or> (\<not> fst (shouldRetry g) \<and> 0 < gs_num_gru_failed g)"
proof (cases "isDone g")
  case False
  then show ?thesis using isDone_iff [OF assms] by (intro wait) (simp_all add: retry_or_finalize_def)
next
  case True
  then have o: "outstanding g = {}" using isDone_iff [OF assms] by simp
  obtain b g' where sr: "shouldRetry g = (b, g')" by fastforce
  show ?thesis
  proof (cases "hasFailures g")
    case False
    then have "gs_num_gru_failed g = 0" using failed_le_num(1) [OF assms] by (simp add: hasFailures_def)
    with True False o show ?thesis by (intro finished [of g]) (simp_all add: retry_or_finalize_def)
  next
    case f: True
    then have "0 < gs_num_gru_failed g" by (simp add: hasFailures_def)
    then show ?thesis
      by (cases b) (use True f o sr retry finished in \<open>auto simp: retry_or_finalize_def\<close>)
  qed
qed

lemma shouldRetry_frame:
  "gs_ok (snd (shouldRetry g)) = gs_ok g" "outstanding (snd (shouldRetry g)) = outstanding g"
  "same_frame g (snd (shouldRetry g))" "gs_num_gru_failed (snd (shouldRetry g)) = gs_num_gru_failed g"
  "gru_info (snd (shouldRetry g)) = gru_info g"
  by (simp_all add: shouldRetry_def gs_ok_def outstanding_def same_frame_def)

text \<open>A report is either kind of message about one job index.\<close>

definition is_report :: "int \<Rightarrow> job_msg \<Rightarrow> bool" where
  "is_report job m \<longleftrightarrow> m = Done_Hru job \<or> (\<exists>t c msg. m = Gru_Error job t c msg)"

lemma report_step:
  assumes "ja_gru_struc s = Some g" and "gs_ok g" and "job \<in> outstanding g" and "is_report job m"
  obtains i b s' es where "job = int i + 1" "i < nat (gs_num_gru g)" "\<not> is_finished (gru_info g ! i)"
    "async_receive ref m s = Inr (s', es)"
    "ja_gru_struc s' = Some (fst (retry_or_finalize (reported i b g)))"
    "to_self es = to_self (snd (retry_or_finalize (reported i b g)))"
proof -
  from assms(3) obtain i where i: "job = int i + 1" "i < nat (gs_num_gru g)" "\<not> is_finished (gru_info g ! i)"
    by (auto simp: outstanding_def)
  have u: "updGRU job f h = Inr (h\<lparr>gru_info := (gru_info h)[i := f (gru_info h ! i)]\<rparr>)"
    if "gru_info h = gru_info g" for f h
    using i assms(2) that by (simp add: updGRU_def gs_ok_def)
  from assms(4) show ?thesis unfolding is_report_def
  proof (elim disjE exE)
    assume m: "m = Done_Hru job"
    obtain g2 es where r: "retry_or_finalize (reported i True g) = (g2, es)" by fastforce
    have "async_receive ref m s = Inr (s\<lparr>ja_gru_struc := Some g2\<rparr>, es)"
      using m assms(1) u [of "incrementNumGruDone g" setSuccess] r
      by (simp add: async_receive_def handleFinishedGRU_def with_gru_struc_def incrementNumGruDone_def
          reported_def)
    with r i show ?thesis by (intro that [of i "s\<lparr>ja_gru_struc := Some g2\<rparr>" es True]) simp_all
  next
    fix t c msg
    assume m: "m = Gru_Error job t c msg"
    obtain g2 es where r: "retry_or_finalize (reported i False g) = (g2, es)" by fastforce
    have "async_receive ref m s = Inr (s\<lparr>ja_gru_struc := Some g2,
        last_error_type := record_error msg job (last_error_type s)\<rparr>, To_File (Fa_Run_Failure job) # es)"
      using m i assms(1) u [of g setFailed] r
      by (simp add: async_receive_def handleGRUError_def with_gru_struc_def incrementNumGruFailed_def
          reported_def)
    with r i show ?thesis by (intro that [of i "s\<lparr>ja_gru_struc := Some g2,
        last_error_type := record_error msg job (last_error_type s)\<rparr>"
          "To_File (Fa_Run_Failure job) # es" False]) simp_all
  qed
qed

lemma restart_step:
  assumes "ja_gru_struc s = Some g" and "gs_ok g"
  shows "\<exists>s' es g'. async_receive ref Restart_Failures s = Inr (s', es) \<and> ja_gru_struc s' = Some g' \<and>
    gs_ok g' \<and> to_self es = [] \<and> spawned_ids es = failed_jobs g \<and> gs_num_gru_failed g' = 0 \<and>
    outstanding g' = outstanding g \<union> set (failed_jobs g) \<and> same_frame g g' \<and>
    prev_num_gru_failed g' = gs_num_gru_failed g \<and>
    num_retry_attempts_left g' = num_retry_attempts_left g - 1 \<and>
    ja_tol s' = tighten (last_error_type s) (ja_tol s) \<and> last_error_type s' = [] \<and>
    es = To_File Fa_Restart_Failures #
      relaunch ref (s\<lparr>ja_tol := tighten (last_error_type s) (ja_tol s)\<rparr>) (gs_start_gru g) (failed_jobs g) \<and>
    gru_info g' = restarted_info ref (s\<lparr>ja_tol := tighten (last_error_type s) (ja_tol s)\<rparr>) g"
proof -
  let ?s1 = "s\<lparr>ja_tol := tighten (last_error_type s) (ja_tol s)\<rparr>"
  have ok: "gs_ok (snapshotFailedCount g)" "failed_jobs (snapshotFailedCount g) = failed_jobs g"
    "outstanding (snapshotFailedCount g) = outstanding g"
    using assms(2) by (simp_all add: snapshotFailedCount_def gs_ok_def failed_jobs_def outstanding_def)
  from restart_loop_ok [OF ok(1), of ref ?s1] obtain g1 es where
    r: "restart_loop ref ?s1 (snapshotFailedCount g) = Inr (g1, es)" "gs_ok g1" "gs_num_gru_failed g1 = 0"
      "spawned_ids es = failed_jobs g" "to_self es = []"
      "outstanding g1 = outstanding g \<union> set (failed_jobs g)" "same_frame (snapshotFailedCount g) g1"
      "same_retry (snapshotFailedCount g) g1" "gru_info g1 = restarted_info ref ?s1 g"
    using ok by (auto simp: restarted_info_def snapshotFailedCount_def)
  have "es = relaunch ref ?s1 (gs_start_gru g) (failed_jobs g)"
    using restart_loop_relaunch [OF r(1)] r(4) by (simp add: snapshotFailedCount_def)
  have "gs_ok (decrementRetryAttempts g1)" "outstanding (decrementRetryAttempts g1) = outstanding g1"
    using r(2) by (simp_all add: decrementRetryAttempts_def gs_ok_def outstanding_def)
  with r \<open>es = relaunch ref ?s1 (gs_start_gru g) (failed_jobs g)\<close> assms(1) show ?thesis
    by (auto simp: async_receive_def on_restart_failures_def with_gru_struc_def Let_def same_frame_def
        same_retry_def snapshotFailedCount_def decrementRetryAttempts_def)
qed

subsection \<open>Runs\<close>

text \<open>A run of the asynchronous mode: outstanding GRUs report in any order, and
  the messages the job sends itself are handled in order.  The counter is the
  number of restarts, the list the job's own pending messages.\<close>

inductive async_run ::
  "(int \<Rightarrow> actor_id) \<Rightarrow> job_actor \<Rightarrow> nat \<Rightarrow> job_msg list \<Rightarrow> job_actor \<Rightarrow> bool" for ref s0 where
  start: "async_run ref s0 0 [] s0"
| report: "async_run ref s0 r q s \<Longrightarrow> ja_gru_struc s = Some g \<Longrightarrow> job \<in> outstanding g \<Longrightarrow>
    is_report job m \<Longrightarrow> async_receive ref m s = Inr (s', es) \<Longrightarrow>
    async_run ref s0 r (q @ to_self es) s'"
| own: "async_run ref s0 r (m # q) s \<Longrightarrow> async_receive ref m s = Inr (s', es) \<Longrightarrow>
    async_run ref s0 (if m = Restart_Failures then Suc r else r) (q @ to_self es) s'"

definition budget_unit :: "gru_struc \<Rightarrow> int" where
  "budget_unit g = max 1 (initial_retry_attempts g)"

text \<open>How many more restarts the policy can still grant: every value of the
  failure count allows at most \<open>budget_unit\<close> restarts.\<close>

definition retry_potential :: "nat \<Rightarrow> gru_struc \<Rightarrow> int" where
  "retry_potential r g =
     (if r = 0 then gs_num_gru g * budget_unit g
      else (prev_num_gru_failed g - 1) * budget_unit g + max 0 (num_retry_attempts_left g))"

definition running_phase :: "nat \<Rightarrow> gru_struc \<Rightarrow> bool" where
  "running_phase r g \<longleftrightarrow>
     (if r = 0 then prev_num_gru_failed g = INT_MAX
      else 1 \<le> prev_num_gru_failed g \<and>
        gs_num_gru_failed g + int (card (outstanding g)) \<le> prev_num_gru_failed g) \<and>
     int r + retry_potential r g \<le> gs_num_gru g * budget_unit g"

definition restart_phase :: "nat \<Rightarrow> gru_struc \<Rightarrow> bool" where
  "restart_phase r g \<longleftrightarrow> outstanding g = {} \<and> 0 < gs_num_gru_failed g \<and>
     int r + 1 + (gs_num_gru_failed g - 1) * budget_unit g + max 0 (num_retry_attempts_left g - 1)
       \<le> gs_num_gru g * budget_unit g"

definition final_phase :: "nat \<Rightarrow> gru_struc \<Rightarrow> bool" where
  "final_phase r g \<longleftrightarrow> outstanding g = {} \<and> int r \<le> gs_num_gru g * budget_unit g"

definition phase :: "nat \<Rightarrow> job_msg list \<Rightarrow> gru_struc \<Rightarrow> bool" where
  "phase r q g \<longleftrightarrow>
     (q = [] \<and> running_phase r g) \<or> (q = [Restart_Failures] \<and> restart_phase r g) \<or>
     ((q = [Finalize] \<or> q = []) \<and> final_phase r g)"

lemma finite_outstanding [simp]: "finite (outstanding g)"
proof -
  have "outstanding g \<subseteq> (\<lambda>i. int i + 1) ` {0 ..< nat (gs_num_gru g)}" by (auto simp: outstanding_def)
  then show ?thesis by (rule finite_subset) simp
qed

lemma card_failed_jobs:
  assumes "gs_ok g"
  shows "card (set (failed_jobs g)) = nat (gs_num_gru_failed g)"
proof -
  have "distinct (failed_jobs g)" by (simp add: failed_jobs_def distinct_map inj_on_def)
  then have "card (set (failed_jobs g)) = length (failed_jobs g)" by (rule distinct_card)
  also have "\<dots> = length (filter (\<lambda>i. is_failed (orig g ! i)) [0 ..< length (orig g)])"
    using assms by (auto simp: failed_jobs_def gs_ok_def intro!: arg_cong [where f = length] filter_cong)
  also have "\<dots> = length (filter is_failed (orig g))"
    using filter_map [of is_failed "(!) (orig g)" "[0 ..< length (orig g)]"]
    by (simp only: map_nth o_def length_map)
  finally show ?thesis using assms by (simp add: gs_ok_def count_if_def)
qed

text \<open>The decision after the last report of a round.\<close>

lemma phase_decide:
  assumes ok: "gs_ok g" and o: "outstanding g = {}" and f: "0 < gs_num_gru_failed g"
    and retry: "fst (shouldRetry g)" and n: "gs_num_gru g < INT_MAX" and ph: "running_phase r g"
  shows "restart_phase r (snd (shouldRetry g))"
proof -
  let ?M = "budget_unit g" and ?f = "gs_num_gru_failed g"
  have M: "1 \<le> ?M" "1 + max 0 (initial_retry_attempts g - 1) = ?M" by (auto simp: budget_unit_def)
  have le: "?f \<le> gs_num_gru g" using failed_le_num [OF ok] by simp
  have unit: "budget_unit (snd (shouldRetry g)) = ?M" "gs_num_gru (snd (shouldRetry g)) = gs_num_gru g"
    using shouldRetry_frame(3) [of g] by (simp_all add: budget_unit_def same_frame_def)
  have goal: "restart_phase r (snd (shouldRetry g)) \<longleftrightarrow>
      int r + 1 + (?f - 1) * ?M + max 0 (num_retry_attempts_left (snd (shouldRetry g)) - 1) \<le> gs_num_gru g * ?M"
    using o f shouldRetry_frame [of g] unit by (simp add: restart_phase_def)
  show ?thesis
  proof (cases "?f < prev_num_gru_failed g")
    case True
    then have "num_retry_attempts_left (snd (shouldRetry g)) = initial_retry_attempts g"
      by (simp add: shouldRetry_def)
    moreover have "int r + ?f * ?M \<le> gs_num_gru g * ?M"
    proof (cases "r = 0")
      case False
      have "?f * ?M \<le> (prev_num_gru_failed g - 1) * ?M" using True M(1) by (intro mult_right_mono) auto
      moreover have "int r + ((prev_num_gru_failed g - 1) * ?M + max 0 (num_retry_attempts_left g))
          \<le> gs_num_gru g * ?M"
        using ph False by (simp add: running_phase_def retry_potential_def)
      ultimately show ?thesis by linarith
    qed (use le M(1) in \<open>auto intro: mult_right_mono\<close>)
    ultimately show ?thesis unfolding goal using M(2) by (simp add: algebra_simps)
  next
    case False
    with retry have b: "0 < num_retry_attempts_left g" "snd (shouldRetry g) = g"
      by (auto simp: shouldRetry_def)
    have "r \<noteq> 0"
    proof
      assume "r = 0"
      with ph have "prev_num_gru_failed g = INT_MAX" by (simp add: running_phase_def)
      with False le n show False by simp
    qed
    with ph o False have "?f = prev_num_gru_failed g" by (simp add: running_phase_def)
    with ph \<open>r \<noteq> 0\<close> b show ?thesis unfolding goal
      by (simp add: running_phase_def retry_potential_def)
  qed
qed

lemma running_phase_bound:
  assumes "gs_ok g" and "running_phase r g"
  shows "int r \<le> gs_num_gru g * budget_unit g"
proof (cases "r = 0")
  case True
  then show ?thesis using assms(1) by (simp add: gs_ok_def budget_unit_def)
next
  case False
  have "0 \<le> (prev_num_gru_failed g - 1) * budget_unit g"
    using assms(2) False by (intro mult_nonneg_nonneg) (auto simp: running_phase_def budget_unit_def)
  moreover have "int r + ((prev_num_gru_failed g - 1) * budget_unit g +
      max 0 (num_retry_attempts_left g)) \<le> gs_num_gru g * budget_unit g"
    using assms(2) False by (simp add: running_phase_def retry_potential_def)
  ultimately show ?thesis by linarith
qed

lemma restart_phase_bound:
  assumes "restart_phase r g"
  shows "int r \<le> gs_num_gru g * budget_unit g"
proof -
  have "0 \<le> (gs_num_gru_failed g - 1) * budget_unit g"
    using assms by (intro mult_nonneg_nonneg) (auto simp: restart_phase_def budget_unit_def)
  moreover have "int r + 1 + (gs_num_gru_failed g - 1) * budget_unit g +
      max 0 (num_retry_attempts_left g - 1) \<le> gs_num_gru g * budget_unit g"
    using assms by (simp add: restart_phase_def)
  ultimately show ?thesis by linarith
qed

lemma phase_report:
  assumes ok: "gs_ok g" and i: "i < nat (gs_num_gru g)" "\<not> is_finished (gru_info g ! i)"
    and n: "gs_num_gru g < INT_MAX" and ph: "phase r q g"
  shows "q = [] \<and> gs_ok (fst (retry_or_finalize (reported i b g))) \<and>
    same_frame g (fst (retry_or_finalize (reported i b g))) \<and>
    phase r (to_self (snd (retry_or_finalize (reported i b g)))) (fst (retry_or_finalize (reported i b g)))"
proof -
  let ?g = "reported i b g"
  note rep = reported_gs_ok [OF ok i, of b]
  have mem: "int i + 1 \<in> outstanding g" using i by (auto simp: outstanding_def)
  then have q: "q = []" and run: "running_phase r g"
    using ph by (auto simp: phase_def restart_phase_def final_phase_def)
  have c: "card (outstanding ?g) = card (outstanding g) - 1" "0 < card (outstanding g)"
    using mem rep(2) by (auto simp: card_gt_0_iff)
  moreover have "gs_num_gru_failed ?g \<le> gs_num_gru_failed g + 1"
    "prev_num_gru_failed ?g = prev_num_gru_failed g" "retry_potential r ?g = retry_potential r g"
    "gs_num_gru ?g = gs_num_gru g" "budget_unit ?g = budget_unit g"
    by (simp_all add: reported_def retry_potential_def budget_unit_def)
  ultimately have run': "running_phase r ?g" using run by (auto simp: running_phase_def)
  have n': "gs_num_gru ?g < INT_MAX" using n by (simp add: reported_def)
  from rep(1) show ?thesis
  proof (cases rule: retry_or_finalize_cases)
    case wait
    with q rep run' show ?thesis by (simp add: phase_def)
  next
    case retry
    from phase_decide [OF rep(1) retry(2-4) n' run'] retry q rep shouldRetry_frame [of ?g]
    show ?thesis by (simp add: phase_def same_frame_def)
  next
    case (finished g')
    have "gs_ok g'" "same_frame g g'" "outstanding g' = {}" "gs_num_gru g' = gs_num_gru g"
      "budget_unit g' = budget_unit g"
      using finished rep shouldRetry_frame [of ?g] by (auto simp: same_frame_def budget_unit_def)
    moreover have "int r \<le> gs_num_gru g * budget_unit g" using ok run by (rule running_phase_bound)
    ultimately show ?thesis using finished q by (simp add: phase_def final_phase_def)
  qed
qed

lemma phase_restart:
  assumes "gs_ok g" and "phase r (Restart_Failures # q) g" and "same_frame g g'"
    and "gs_num_gru_failed g' = 0" and "outstanding g' = outstanding g \<union> set (failed_jobs g)"
    and "prev_num_gru_failed g' = gs_num_gru_failed g"
    and "num_retry_attempts_left g' = num_retry_attempts_left g - 1"
  shows "q = [] \<and> phase (Suc r) [] g'"
proof -
  from assms(2) have q: "q = []" and ph: "restart_phase r g" by (auto simp: phase_def)
  then have "card (outstanding g') = nat (gs_num_gru_failed g)"
    using assms(5) card_failed_jobs [OF assms(1)] by (simp add: restart_phase_def)
  moreover have "budget_unit g' = budget_unit g" "gs_num_gru g' = gs_num_gru g"
    using assms(3) by (simp_all add: same_frame_def budget_unit_def)
  ultimately have "running_phase (Suc r) g'"
    using ph assms(4,6,7) by (simp add: running_phase_def restart_phase_def retry_potential_def)
  with q show ?thesis by (simp add: phase_def)
qed

lemma async_run_inv:
  assumes "async_run ref s0 r q s" and "ja_gru_struc s0 = Some g0" and "gs_ok g0" and "phase 0 [] g0"
    and "gs_num_gru g0 < INT_MAX"
  shows "\<exists>g. ja_gru_struc s = Some g \<and> gs_ok g \<and> same_frame g0 g \<and> phase r q g"
  using assms(1)
proof induction
  case start
  then show ?case using assms(2-4) by (simp add: same_frame_def)
next
  case (report r q s g job m s' es)
  then have g: "gs_ok g" "same_frame g0 g" "phase r q g" by auto
  have n: "gs_num_gru g < INT_MAX" using g(2) assms(5) by (simp add: same_frame_def)
  from report.hyps(2) g(1) report.hyps(3,4) obtain i b s1 es1 where
    r: "i < nat (gs_num_gru g)" "\<not> is_finished (gru_info g ! i)" "async_receive ref m s = Inr (s1, es1)"
      "ja_gru_struc s1 = Some (fst (retry_or_finalize (reported i b g)))"
      "to_self es1 = to_self (snd (retry_or_finalize (reported i b g)))"
    by (rule report_step)
  from phase_report [OF g(1) r(1,2) n g(3), of b] r(3-5) report.hyps(5) g(2) show ?case
    by (auto simp: same_frame_def)
next
  case (own r m q s s' es)
  then obtain g where g: "ja_gru_struc s = Some g" "gs_ok g" "same_frame g0 g" "phase r (m # q) g" by auto
  then consider "m = Restart_Failures" | "m = Finalize" by (auto simp: phase_def)
  then show ?case
  proof cases
    case 1
    from restart_step [OF g(1,2), of ref] own.hyps(2) 1 obtain g' where
      "ja_gru_struc s' = Some g'" "gs_ok g'" "to_self es = []" "gs_num_gru_failed g' = 0"
      "outstanding g' = outstanding g \<union> set (failed_jobs g)" "same_frame g g'"
      "prev_num_gru_failed g' = gs_num_gru_failed g"
      "num_retry_attempts_left g' = num_retry_attempts_left g - 1" by auto
    with phase_restart [OF g(2), of r q g'] g 1 show ?thesis by (auto simp: same_frame_def)
  next
    case 2
    with own.hyps(2) g show ?thesis
      by (auto simp: async_receive_def finalizeJob_def phase_def)
  qed
qed

lemma started_phase:
  assumes "gs_ok g" and "gs_num_gru_failed g = 0" and "prev_num_gru_failed g = INT_MAX"
  shows "phase 0 [] g"
  using assms by (simp add: phase_def running_phase_def retry_potential_def)

subsection \<open>Properties\<close>

text \<open>
  C11. A restart restarts exactly the failed GRUs: the handler of
  \<^verbatim>\<open>restart_failures\<close> ends without indexing outside the container
  (\<^verbatim>\<open>getFailedIndex\<close> never returns -1) and tells the file access actor; then, for each failed GRU
  in ascending order of the job index and for no other, it spawns a GRU actor with the
  tightened tolerances, the NetCDF index of the GRU and the settings of the job, and sends it
  \<^verbatim>\<open>update_hru_async\<close>.  It leaves no GRU failed: the failed ones are marked
  restarted and get a new entry with the tightened tolerances, the other entries stay as they
  are.  It clears the recorded errors.
\<close>

theorem restart_restarts_exactly_failed:
  assumes "ja_gru_struc s = Some g" and "gs_ok g"
  shows "\<exists>s' g'. on_restart_failures ref s = Inr (s', To_File Fa_Restart_Failures #
      concat (map (\<lambda>j.
        [Spawn_Gru (j + gs_start_gru g - 1) j (num_steps s) (ja_hru_settings s)
           (data_assimilation_mode (ja_job_settings s)) (num_timesteps_in_output_buffer (ja_fa_settings s))
           (ja_restart s) (tighten (last_error_type s) (ja_tol s)),
         To_Gru (ref j) Update_Hru_Async]) (failed_jobs g))) \<and>
    ja_gru_struc s' = Some g' \<and> gs_ok g' \<and> gs_num_gru_failed g' = 0 \<and>
    gru_info g' = map (\<lambda>x. if state_of x = Gru_Failed then setRestarted x else x) (gru_info g) @
      map (\<lambda>j. GRU (j + gs_start_gru g - 1) j (ref j) (ja_dt_init_factor s)
        (tighten (last_error_type s) (ja_tol s)) (default_tol s) (max_run_attempts (ja_job_settings s)))
        (failed_jobs g) \<and>
    outstanding g' = outstanding g \<union> set (failed_jobs g) \<and>
    ja_tol s' = tighten (last_error_type s) (ja_tol s) \<and> last_error_type s' = []"
  using restart_step [OF assms, of ref]
  by (force simp: async_receive_def relaunch_def restarted_info_def mark_restarted_def spawn_gru_def
      new_gru_def is_failed_def)

definition demo_struc :: gru_struc where
  "demo_struc = (GruStruc 5 2 1)\<lparr>gru_info :=
     [setSuccess (GRU 5 1 10 1 demo_tol False 1), setFailed (GRU 6 2 11 1 demo_tol False 1)],
     num_gru_done := 2, gs_num_gru_failed := 1\<rparr>"

definition demo_job :: job_actor where
  "demo_job = (JobActor (Batch 0 5 2) JobActorSettings_default FileAccessActorSettings_default
     HRUActorSettings_default ''never'')\<lparr>ja_tol := demo_tol, ja_mode := Async_Mode\<rparr>"

lemma demo_struc_ok: "gs_ok demo_struc" "failed_jobs demo_struc = [2]"
  by (auto simp: gs_ok_def demo_struc_def GruStruc_def GRU_def setSuccess_def setFailed_def
      is_failed_def is_finished_def failed_jobs_def less_Suc_eq numeral_2_eq_2)

lemma restart_restarts_exactly_failed_witness:
  "\<exists>s'. on_restart_failures nat (demo_job\<lparr>ja_gru_struc := Some demo_struc, last_error_type := [(2, ''unknown_error'')]\<rparr>) =
     Inr (s', [To_File Fa_Restart_Failures,
       Spawn_Gru 6 2 0 HRUActorSettings_default False (num_timesteps_in_output_buffer FileAccessActorSettings_default)
         ''never'' (tighten [(2, ''unknown_error'')] demo_tol),
       To_Gru 2 Update_Hru_Async])"
proof -
  have "ja_gru_struc (demo_job\<lparr>ja_gru_struc := Some demo_struc, last_error_type := [(2, ''unknown_error'')]\<rparr>) = Some demo_struc" by simp
  from restart_restarts_exactly_failed [OF this demo_struc_ok(1), of nat] demo_struc_ok(2) show ?thesis
    by (auto simp: demo_job_def JobActor_def JobActorSettings_default_def demo_struc_def GruStruc_def)
qed

text \<open>
  C10. The asynchronous mode of a job.  After the GRU actors have been spawned,
  one for each job index from 1 to the number of GRUs, and whatever the order
  and the outcome of the reports: the counter of failures is the number of
  failed GRUs and the counter of finished GRUs the number of failed and
  succeeded ones; the job has a message to itself (restart or finalize) only
  when no GRU is outstanding, and then exactly one; and every further report
  of an outstanding GRU and every such message is handled without an error.
\<close>

theorem async_job_bookkeeping:
  assumes "ja_gru_struc s0 = Some g0" and "fresh_struc g0" and "gs_num_gru g0 < INT_MAX"
    and "spawnGruActors ref s0 = Inr (s1, es1)" and "async_run ref s1 r q s"
  shows "spawned_ids es1 = map (\<lambda>i. int i + 1) [0 ..< nat (gs_num_gru g0)] \<and>
    (\<exists>g. ja_gru_struc s = Some g \<and> gs_num_gru g = gs_num_gru g0 \<and>
      gs_num_gru_failed g = int (count_if is_failed (orig g)) \<and>
      num_gru_done g = int (count_if is_finished (orig g)) \<and>
      (q \<noteq> [] \<longrightarrow> outstanding g = {} \<and> (q = [Restart_Failures] \<or> q = [Finalize])) \<and>
      (\<forall>job m. job \<in> outstanding g \<and> is_report job m \<longrightarrow> (\<exists>s' es. async_receive ref m s = Inr (s', es))) \<and>
      (\<forall>m \<in> set q. \<exists>s' es. async_receive ref m s = Inr (s', es)))"
proof -
  from spawnGruActors_ok [OF assms(1,2), of ref] assms(4) obtain g1 where
    g1: "ja_gru_struc s1 = Some g1" "gs_ok g1" "same_frame g0 g1" "gs_num_gru_failed g1 = 0"
      "prev_num_gru_failed g1 = INT_MAX"
      "spawned_ids es1 = map (\<lambda>i. int i + 1) [0 ..< nat (gs_num_gru g0)]" by auto
  have n: "gs_num_gru g1 < INT_MAX" using g1(3) assms(3) by (simp add: same_frame_def)
  from async_run_inv [OF assms(5) g1(1,2) started_phase [OF g1(2,4,5)] n] obtain g where
    g: "ja_gru_struc s = Some g" "gs_ok g" "same_frame g1 g" "phase r q g" by blast
  have "\<exists>s' es. async_receive ref m s = Inr (s', es)" if "job \<in> outstanding g" "is_report job m" for job m
    by (rule report_step [OF g(1,2) that, of ref]) blast
  moreover have "\<exists>s' es. async_receive ref m s = Inr (s', es)" if "m \<in> set q" for m
  proof -
    from g(4) that have "m = Restart_Failures \<or> m = Finalize" by (auto simp: phase_def)
    then show ?thesis
    proof
      assume m: "m = Restart_Failures"
      from restart_step [OF g(1,2), of ref] show ?thesis unfolding m by blast
    next
      assume "m = Finalize"
      then show ?thesis by (simp add: async_receive_def finalizeJob_def)
    qed
  qed
  moreover have "outstanding g = {} \<and> (q = [Restart_Failures] \<or> q = [Finalize])" if "q \<noteq> []"
    using g(4) that by (auto simp: phase_def restart_phase_def final_phase_def)
  moreover have "gs_num_gru g = gs_num_gru g0" using g(3) g1(3) by (simp add: same_frame_def)
  moreover have "gs_num_gru_failed g = int (count_if is_failed (orig g))"
    "num_gru_done g = int (count_if is_finished (orig g))" using g(2) by (simp_all add: gs_ok_def)
  ultimately show ?thesis using g(1) g1(6) by blast
qed

definition demo_fresh :: job_actor where
  "demo_fresh = demo_job\<lparr>ja_gru_struc := Some (GruStruc 5 1 1)\<rparr>"

lemma demo_fresh_ok: "ja_gru_struc demo_fresh = Some (GruStruc 5 1 1)" "fresh_struc (GruStruc 5 1 1)"
  "gs_num_gru (GruStruc 5 1 1) < INT_MAX"
  by (simp_all add: demo_fresh_def fresh_struc_def GruStruc_def INT_MAX_def)

text \<open>The only GRU fails and is restarted.\<close>

lemma demo_async_run:
  "\<exists>s1 es1 s. spawnGruActors nat demo_fresh = Inr (s1, es1) \<and> async_run nat s1 1 [] s"
proof -
  from spawnGruActors_ok [OF demo_fresh_ok(1,2), of nat] obtain g1 es1 where
    g1: "spawnGruActors nat demo_fresh = Inr (demo_fresh\<lparr>ja_gru_struc := Some g1\<rparr>, es1)" "gs_ok g1"
      "outstanding g1 = {1}" "gs_num_gru_failed g1 = 0" "prev_num_gru_failed g1 = INT_MAX"
      "same_frame (GruStruc 5 1 1) g1"
    by (auto simp: GruStruc_def)
  let ?s1 = "demo_fresh\<lparr>ja_gru_struc := Some g1\<rparr>" and ?m = "Gru_Error 1 3 20 ''boom''"
  have s1: "ja_gru_struc ?s1 = Some g1" by simp
  have n: "nat (gs_num_gru g1) = 1" using g1(6) by (simp add: same_frame_def GruStruc_def)
  let ?g2 = "reported 0 False g1"
  have o: "\<not> is_finished (gru_info g1 ! 0)" using g1(3) n by (auto simp: outstanding_def)
  note rep = reported_gs_ok [OF g1(2), of 0 False, unfolded n, OF _ o]
  have f2: "gs_num_gru_failed ?g2 = 1" "prev_num_gru_failed ?g2 = INT_MAX"
    using g1(4,5) by (simp_all add: reported_def)
  then have sr: "fst (shouldRetry ?g2)" by (simp add: shouldRetry_def INT_MAX_def)
  have "outstanding ?g2 = {}" using rep(2) g1(3) by simp
  then have rf: "retry_or_finalize ?g2 = (snd (shouldRetry ?g2), [To_Self Restart_Failures])"
    using isDone_iff [of ?g2] rep(1) f2(1) sr
    by (cases "shouldRetry ?g2") (simp add: retry_or_finalize_def hasFailures_def)
  let ?s2 = "?s1\<lparr>ja_gru_struc := Some (snd (shouldRetry ?g2)),
      last_error_type := record_error ''boom'' 1 (last_error_type ?s1)\<rparr>"
  have u: "updGRU 1 setFailed g1 = Inr (g1\<lparr>gru_info := (gru_info g1)[0 := setFailed (gru_info g1 ! 0)]\<rparr>)"
    using updGRU_job [OF g1(2), of 0] n by simp
  have recv: "async_receive nat ?m ?s1 = Inr (?s2, [To_File (Fa_Run_Failure 1), To_Self Restart_Failures])"
    using u rf by (simp add: async_receive_def handleGRUError_def with_gru_struc_def
        incrementNumGruFailed_def reported_def)
  have job: "(1::int) \<in> outstanding g1" "is_report 1 ?m" using g1(3) by (simp_all add: is_report_def)
  have self: "[] @ to_self [To_File (Fa_Run_Failure 1), To_Self Restart_Failures] = [Restart_Failures]"
    by simp
  note run = async_run.report [OF async_run.start s1 job recv, unfolded self]
  have ok: "gs_ok (snd (shouldRetry ?g2))" using rep(1) by (simp add: shouldRetry_frame(1))
  have "ja_gru_struc ?s2 = Some (snd (shouldRetry ?g2))" by simp
  from restart_step [OF this ok, of nat] obtain s3 es3 where
    r3: "async_receive nat Restart_Failures ?s2 = Inr (s3, es3)" "to_self es3 = []" by blast
  from async_run.own [OF run r3(1)] r3(2) have "async_run nat ?s1 1 [] s3" by (simp only: simp_thms if_True One_nat_def append_Nil)
  with g1(1) show ?thesis by blast
qed

lemma async_job_bookkeeping_witness:
  "\<exists>s1 es1 s g. spawnGruActors nat demo_fresh = Inr (s1, es1) \<and> async_run nat s1 1 [] s \<and>
     ja_gru_struc s = Some g \<and> gs_num_gru_failed g = int (count_if is_failed (orig g))"
proof -
  obtain s1 es1 s where r: "spawnGruActors nat demo_fresh = Inr (s1, es1)" "async_run nat s1 1 [] s"
    using demo_async_run by blast
  from async_job_bookkeeping [OF demo_fresh_ok r] r show ?thesis by blast
qed

text \<open>
  C4. Retrying ends.  In every run the number of restarts is at most the number
  of GRUs times the larger of one and the configured number of attempts: each failure
  count allows that many restarts, and the count never grows.  (With no attempts configured
  the first failures are restarted once all the same.)
\<close>

theorem async_job_restarts_bounded:
  assumes "ja_gru_struc s0 = Some g0" and "fresh_struc g0" and "gs_num_gru g0 < INT_MAX"
    and "spawnGruActors ref s0 = Inr (s1, es1)" and "async_run ref s1 r q s"
  shows "int r \<le> gs_num_gru g0 * max 1 (initial_retry_attempts g0)"
proof -
  from spawnGruActors_ok [OF assms(1,2), of ref] assms(4) obtain g1 where
    g1: "ja_gru_struc s1 = Some g1" "gs_ok g1" "same_frame g0 g1" "gs_num_gru_failed g1 = 0"
      "prev_num_gru_failed g1 = INT_MAX" by auto
  have n: "gs_num_gru g1 < INT_MAX" using g1(3) assms(3) by (simp add: same_frame_def)
  from async_run_inv [OF assms(5) g1(1,2) started_phase [OF g1(2,4,5)] n] obtain g where
    g: "gs_ok g" "same_frame g1 g" "phase r q g" by blast
  have "int r \<le> gs_num_gru g * budget_unit g"
    using g(3) running_phase_bound [OF g(1)] restart_phase_bound unfolding phase_def final_phase_def by blast
  with g(2) g1(3) show ?thesis by (simp add: same_frame_def budget_unit_def)
qed

lemma async_job_restarts_bounded_witness:
  "\<exists>s1 es1 s. spawnGruActors nat demo_fresh = Inr (s1, es1) \<and> async_run nat s1 1 [] s \<and>
     int 1 \<le> gs_num_gru (GruStruc 5 1 1) * max 1 (initial_retry_attempts (GruStruc 5 1 1))"
proof -
  obtain s1 es1 s where r: "spawnGruActors nat demo_fresh = Inr (s1, es1)" "async_run nat s1 1 [] s"
    using demo_async_run by blast
  from async_job_restarts_bounded [OF demo_fresh_ok r] r show ?thesis by blast
qed

end
