(* ===== verification/Forcing_Files.thy ===== *)
theory Forcing_Files
  imports Timing_Info
begin

text \<open>
  The forcing file container (\<^verbatim>\<open>forcing_file_info.hpp\<close>, \<^verbatim>\<open>forcing_file_info.cpp\<close>).
  What the Fortran side reports about the files, the error code of a read and
  the clock are arguments; a read is an effect.
\<close>

record file_info =
  filenmData :: string
  nVars :: int
  nTimeSteps :: int
  var_ix :: "int list"
  data_id :: "int list"
  varName :: "string list"
  firstJulDay :: real
  convTime2Days :: real
  is_loaded :: bool

definition fileInfo :: file_info where
  "fileInfo = \<lparr>filenmData = [], nVars = 0, nTimeSteps = 0, var_ix = [], data_id = [], varName = [],
     firstJulDay = 0, convTime2Days = 0, is_loaded = False\<rparr>"

record forcing_files =
  ff_files :: "file_info list"
  files_loaded :: int
  ff_timing :: timing_info

definition forcingFileContainer :: forcing_files where
  "forcingFileContainer =
     \<lparr>ff_files = [], files_loaded = 0,
      ff_timing = addTimePoint ''read_duration'' (addTimePoint ''init_duration'' TimingInfo)\<rparr>"

text \<open>The body of the loop over the files: everything but \<^verbatim>\<open>is_loaded\<close> is copied, and
  the number of variables is that of the names.\<close>

definition copy_info :: "file_info \<Rightarrow> file_info \<Rightarrow> file_info" where
  "copy_info info old = info\<lparr>nVars := int (length (varName info)), is_loaded := is_loaded old\<rparr>"

definition initForcingFiles ::
  "int \<Rightarrow> int \<Rightarrow> file_info list \<Rightarrow> forcing_files \<Rightarrow> (int \<times> forcing_files) res" where
  "initForcingFiles t0 t1 infos c =
     res_bind (updateStartPoint t0 ''init_duration'' (ff_timing c)) (\<lambda>ti.
     res_bind (vec_resize (int (length infos)) fileInfo (ff_files c)) (\<lambda>olds.
     res_bind (updateEndPoint t1 ''init_duration'' ti) (\<lambda>ti'.
       Inr (0, c\<lparr>ff_files := map2 copy_info infos olds, ff_timing := ti'\<rparr>))))"

text \<open>The flag of the file is read before its index is checked.\<close>

definition loadForcingFile ::
  "int \<Rightarrow> int \<Rightarrow> int \<Rightarrow> int \<Rightarrow> forcing_files \<Rightarrow> (int \<times> forcing_files \<times> int list) res" where
  "loadForcingFile t0 t1 err file_ID c =
     res_bind (vec_at (ff_files c) (file_ID - 1)) (\<lambda>f.
       if is_loaded f then Inr (0, c, [])
       else if file_ID < 1 \<or> file_ID > int (length (ff_files c)) then Inr (- 1, c, [])
       else
         res_bind (updateStartPoint t0 ''read_duration'' (ff_timing c)) (\<lambda>ti.
         res_bind (updateEndPoint t1 ''read_duration'' ti) (\<lambda>ti'.
           let c1 = c\<lparr>ff_timing := ti'\<rparr> in
           if err \<noteq> 0 then Inr (- 2, c1, [file_ID])
           else res_bind (vec_upd (ff_files c1) (file_ID - 1) (\<lambda>x. x\<lparr>is_loaded := True\<rparr>)) (\<lambda>fs.
                  Inr (0, c1\<lparr>ff_files := fs, files_loaded := files_loaded c1 + 1\<rparr>, [file_ID])))))"

definition isFileLoaded :: "int \<Rightarrow> forcing_files \<Rightarrow> bool res" where
  "isFileLoaded file_ID c = res_bind (vec_at (ff_files c) (file_ID - 1)) (\<lambda>f. Inr (is_loaded f))"

definition allFilesLoaded :: "forcing_files \<Rightarrow> bool" where
  "allFilesLoaded c \<longleftrightarrow> files_loaded c = int (length (ff_files c))"

definition getNumSteps :: "int \<Rightarrow> forcing_files \<Rightarrow> int res" where
  "getNumSteps i c = res_bind (vec_at (ff_files c) (i - 1)) (\<lambda>f. Inr (nTimeSteps f))"

definition getReadDuration :: "forcing_files \<Rightarrow> real res" where
  "getReadDuration c = res_bind (getDuration ''read_duration'' (ff_timing c)) (\<lambda>d. Inr (value_or d (- 1)))"

definition getInitDuration :: "forcing_files \<Rightarrow> real res" where
  "getInitDuration c = res_bind (getDuration ''init_duration'' (ff_timing c)) (\<lambda>d. Inr (value_or d (- 1)))"

subsection \<open>Lemmas\<close>

text \<open>The files loaded are a prefix.\<close>

definition prefix_loaded :: "nat \<Rightarrow> forcing_files \<Rightarrow> bool" where
  "prefix_loaded m c \<longleftrightarrow> ti_inv (ff_timing c) \<and> m \<le> length (ff_files c) \<and> files_loaded c = int m \<and>
     (\<forall>i < length (ff_files c). is_loaded (ff_files c ! i) = (i < m))"

lemma initForcingFiles_prefix:
  "\<exists>c. initForcingFiles t0 t1 infos forcingFileContainer = Inr (0, c) \<and> prefix_loaded 0 c \<and>
     map nTimeSteps (ff_files c) = map nTimeSteps infos"
proof -
  let ?t = "addTimePoint ''read_duration'' (addTimePoint ''init_duration'' TimingInfo)"
  have "ti_inv ?t" by (simp add: TimingInfo_inv addTimePoint_inv)
  from updateStartPoint_ok [OF this, of t0 "''init_duration''"] obtain t' where
    t': "updateStartPoint t0 ''init_duration'' ?t = Inr t'" "ti_inv t'" by blast
  from updateEndPoint_ok [OF t'(2), of t1 "''init_duration''"] obtain t'' where
    t'': "updateEndPoint t1 ''init_duration'' t' = Inr t''" "ti_inv t''" by blast
  have "map2 copy_info infos (replicate (length infos) fileInfo) = map (\<lambda>f. copy_info f fileInfo) infos"
    by (induction infos) simp_all
  with t'(1) t'' show ?thesis
    by (auto simp: initForcingFiles_def forcingFileContainer_def vec_resize_def prefix_loaded_def
        copy_info_def fileInfo_def)
qed

lemma loadForcingFile_loaded:
  "prefix_loaded m c \<Longrightarrow> 1 \<le> i \<Longrightarrow> i \<le> int m \<Longrightarrow> loadForcingFile t0 t1 err i c = Inr (0, c, [])"
  by (auto simp: loadForcingFile_def vec_at_def prefix_loaded_def nat_less_iff)

lemma loadForcingFile_next:
  assumes "prefix_loaded m c" and "m < length (ff_files c)"
  shows "\<exists>c'. loadForcingFile t0 t1 0 (int m + 1) c = Inr (0, c', [int m + 1]) \<and> prefix_loaded (Suc m) c' \<and>
    map nTimeSteps (ff_files c') = map nTimeSteps (ff_files c)"
proof -
  have ti: "ti_inv (ff_timing c)" using assms(1) by (simp add: prefix_loaded_def)
  from updateStartPoint_ok [OF ti, of t0 "''read_duration''"] obtain t' where
    t': "updateStartPoint t0 ''read_duration'' (ff_timing c) = Inr t'" "ti_inv t'" by blast
  from updateEndPoint_ok [OF t'(2), of t1 "''read_duration''"] obtain t'' where
    t'': "updateEndPoint t1 ''read_duration'' t' = Inr t''" "ti_inv t''" by blast
  let ?c = "c\<lparr>ff_timing := t'', ff_files := (ff_files c)[m := (ff_files c ! m)\<lparr>is_loaded := True\<rparr>],
    files_loaded := files_loaded c + 1\<rparr>"
  have "loadForcingFile t0 t1 0 (int m + 1) c = Inr (0, ?c, [int m + 1])"
    using assms t'(1) t''(1) by (simp add: loadForcingFile_def prefix_loaded_def Let_def)
  moreover have "prefix_loaded (Suc m) ?c"
    using assms t''(2) by (auto simp: prefix_loaded_def nth_list_update less_Suc_eq)
  moreover have "map nTimeSteps (ff_files ?c) = map nTimeSteps (ff_files c)"
    using assms(2) by (simp add: map_update list_update_same_conv)
  ultimately show ?thesis by blast
qed

lemma getNumSteps_ok:
  "1 \<le> i \<Longrightarrow> i \<le> int (length (ff_files c)) \<Longrightarrow> getNumSteps i c = Inr (map nTimeSteps (ff_files c) ! nat (i - 1))"
  by (simp add: getNumSteps_def vec_at_def nat_less_iff)

end
