(* ===== verification/Output_Buffer.thy ===== *)
theory Output_Buffer
  imports Settings Clients
begin

text \<open>
  The output buffer (\<^verbatim>\<open>output_buffer.hpp\<close>, \<^verbatim>\<open>output_buffer.cpp\<close>): it decides when
  the output of a partition of GRUs is written.  The Fortran routines are
  effects; the error code and the message a write returns are arguments.
\<close>

subsection \<open>Partitions\<close>

datatype write_effect =
    F_WriteOutput int int int bool      \<comment> \<open>steps, first GRU, last GRU, with parameters\<close>
  | F_WriteOutputDA int int int bool    \<comment> \<open>output step, first GRU, last GRU, with parameters\<close>
  | F_SetFailedGruMissing int int
  | F_AddFailedGru int
  | F_ResetFailedGru
  | F_ResetOutputTimestep int
  | F_WriteRestart int int int int int int int
  | F_DefOutput int int int int bool string
  | F_SetChunkSize int
  | F_AllocateOutputBuffer int int

record write_output_return =
  wr_err :: int
  wr_message :: string
  actor_to_update :: "actor_id list"
  num_steps_update :: int

record output_partition =
  op_start_gru :: int
  op_end_gru :: int
  op_num_gru :: int
  op_num_steps_buffer :: int
  op_steps_remaining :: int
  op_write_params :: bool
  op_ready_to_write :: "actor_id list"
  op_hru_timesteps :: "int list"

definition OutputPartition :: "int \<Rightarrow> int \<Rightarrow> int \<Rightarrow> int \<Rightarrow> output_partition" where
  "OutputPartition start n nbuf steps =
     \<lparr>op_start_gru = start, op_end_gru = start + n - 1, op_num_gru = n,
      op_num_steps_buffer = (if nbuf > steps then steps else nbuf), op_steps_remaining = steps,
      op_write_params = True, op_ready_to_write = [], op_hru_timesteps = replicate (nat n) 0\<rparr>"

definition isReadyToWrite :: "output_partition \<Rightarrow> bool" where
  "isReadyToWrite p \<longleftrightarrow> int (length (op_ready_to_write p)) = op_num_gru p \<and> length (op_ready_to_write p) > 0"

definition decrementNumGRU :: "output_partition \<Rightarrow> output_partition" where
  "decrementNumGRU p = p\<lparr>op_num_gru := op_num_gru p - 1\<rparr>"

definition isWriteParams :: "output_partition \<Rightarrow> bool \<times> output_partition" where
  "isWriteParams p =
     (if op_write_params p then (True, p\<lparr>op_write_params := False\<rparr>) else (op_write_params p, p))"

type_synonym write_result = "output_partition \<times> write_output_return option \<times> write_effect list"

text \<open>The body both overloads of \<^verbatim>\<open>OutputPartition::writeOutput\<close> share once the
  partition is ready.\<close>

definition write_partition :: "int \<Rightarrow> string \<Rightarrow> output_partition \<Rightarrow> write_result" where
  "write_partition err msg p0 =
     (case isWriteParams p0 of (wp, p) \<Rightarrow>
        let w = F_WriteOutput (op_num_steps_buffer p) (op_start_gru p) (op_end_gru p) wp;
            remaining = op_steps_remaining p - op_num_steps_buffer p;
            nbuf = (if remaining < op_num_steps_buffer p then remaining else op_num_steps_buffer p)
        in (p\<lparr>op_steps_remaining := remaining, op_num_steps_buffer := nbuf, op_ready_to_write := []\<rparr>,
            Some \<lparr>wr_err = err, wr_message = msg, actor_to_update = op_ready_to_write p,
                  num_steps_update = nbuf\<rparr>,
            [w]))"

definition partition_writeOutput_gru :: "int \<Rightarrow> string \<Rightarrow> actor_id \<Rightarrow> output_partition \<Rightarrow> write_result" where
  "partition_writeOutput_gru err msg gru p0 =
     (let p = p0\<lparr>op_ready_to_write := op_ready_to_write p0 @ [gru]\<rparr>
      in if isReadyToWrite p
         then (case write_partition err msg p of (p', ret, es) \<Rightarrow>
                 (p', ret, es @ [F_SetFailedGruMissing (op_start_gru p) (op_end_gru p)]))
         else (p, None, []))"

definition partition_writeOutput :: "int \<Rightarrow> string \<Rightarrow> output_partition \<Rightarrow> write_result" where
  "partition_writeOutput err msg p =
     (if isReadyToWrite p then write_partition err msg p else (p, None, []))"

text \<open>\<^verbatim>\<open>OutputPartition::writeRestart\<close> records the checkpoint and prints the slowest;
  it returns 0.\<close>

definition partition_writeRestart :: "int \<Rightarrow> int \<Rightarrow> output_partition \<Rightarrow> output_partition res" where
  "partition_writeRestart gru checkpoint p =
     res_bind (vec_upd (op_hru_timesteps p) (gru - op_start_gru p) (\<lambda>_. checkpoint)) (\<lambda>ts.
       if op_num_gru p \<le> int (length ts) then Inr (p\<lparr>op_hru_timesteps := ts\<rparr>) else Inl Out_Of_Range)"

subsection \<open>The buffer\<close>

record output_buffer =
  ob_fa_settings :: FileAccessActorSettings
  ob_num_gru_info :: num_gru_info
  ob_num_hru :: int
  ob_num_gru_partition :: int
  ob_num_buffer_steps :: int
  ob_num_timesteps :: int
  ob_write_params_da :: bool
  ob_partitions :: "output_partition list"
  ob_failed_grus :: "int list"

text \<open>The loop of the constructor over the remaining partition indices.\<close>

fun make_partitions :: "int list \<Rightarrow> int \<Rightarrow> int \<Rightarrow> int \<Rightarrow> int \<Rightarrow> int \<Rightarrow> output_partition list" where
  "make_partitions [] per rest nbuf steps start = []"
| "make_partitions (i # is) per rest nbuf steps start =
     (let n = per + (if i < rest then 1 else 0)
      in OutputPartition start n nbuf steps # make_partitions is per rest nbuf steps (start + n))"

definition OutputBuffer ::
  "FileAccessActorSettings \<Rightarrow> num_gru_info \<Rightarrow> int \<Rightarrow> int \<Rightarrow> output_buffer res" where
  "OutputBuffer fs info nhru steps =
     (let nbuf = num_timesteps_in_output_buffer fs;
          n = num_gru_local info;
          k = (if num_partitions_in_output_buffer fs > n then n else num_partitions_in_output_buffer fs)
      in res_bind (cpp_div n k) (\<lambda>per.
         res_bind (cpp_mod n k) (\<lambda>rest.
           Inr \<lparr>ob_fa_settings = fs, ob_num_gru_info = info, ob_num_hru = nhru,
                ob_num_gru_partition = per, ob_num_buffer_steps = nbuf, ob_num_timesteps = steps,
                ob_write_params_da = True,
                ob_partitions = make_partitions [0 .. k - 1] per rest nbuf steps 1,
                ob_failed_grus = []\<rparr>)))"

text \<open>The index loop shared by \<^verbatim>\<open>findPartitionIndex\<close>, \<^verbatim>\<open>getPartitionStart\<close> and
  \<^verbatim>\<open>getPartitionEnd\<close>.\<close>

definition in_partition :: "int \<Rightarrow> output_partition \<Rightarrow> bool" where
  "in_partition i p \<longleftrightarrow> op_start_gru p \<le> i \<and> i \<le> op_end_gru p"

fun find_from :: "int \<Rightarrow> ('a \<Rightarrow> bool) \<Rightarrow> 'a list \<Rightarrow> int" where
  "find_from k P [] = - 1"
| "find_from k P (x # xs) = (if P x then k else find_from (k + 1) P xs)"

definition findPartitionIndex :: "int \<Rightarrow> output_buffer \<Rightarrow> int" where
  "findPartitionIndex i b = find_from 0 (in_partition i) (ob_partitions b)"

definition getPartitionStart :: "int \<Rightarrow> output_buffer \<Rightarrow> int" where
  "getPartitionStart i b =
     (case find (in_partition i) (ob_partitions b) of None \<Rightarrow> - 1 | Some p \<Rightarrow> op_start_gru p)"

definition getPartitionEnd :: "int \<Rightarrow> output_buffer \<Rightarrow> int" where
  "getPartitionEnd i b =
     (case find (in_partition i) (ob_partitions b) of None \<Rightarrow> - 1 | Some p \<Rightarrow> op_end_gru p)"

definition getNumStepsBuffer :: "int \<Rightarrow> output_buffer \<Rightarrow> int res" where
  "getNumStepsBuffer i b =
     (let k = findPartitionIndex i b
      in if k = - 1 then Inr (- 1)
         else res_bind (vec_at (ob_partitions b) k) (\<lambda>p. Inr (op_num_steps_buffer p)))"

definition defOutput :: "int \<Rightarrow> string \<Rightarrow> output_buffer \<Rightarrow> int \<times> output_buffer \<times> write_effect list" where
  "defOutput err address b =
     (let info = ob_num_gru_info b;
          ext = (if use_global_for_data_structures info then address else []);
          suffix = output_file_suffix (ob_fa_settings b);
          (ext', info') = (if suffix \<noteq> [] then (suffix, info\<lparr>use_global_for_data_structures := True\<rparr>)
                           else (ext, info))
      in (err, b\<lparr>ob_num_gru_info := info'\<rparr>,
          [F_DefOutput (start_gru_local info) (num_gru_local info) (ob_num_hru b) (ngi_file_gru info)
             (use_global_for_data_structures info') ext']))"

text \<open>The quotient is a double division; with no partitions it is an infinity whose
  conversion to \<^verbatim>\<open>int\<close> is undefined.\<close>

definition setChunkSize :: "output_buffer \<Rightarrow> (int \<times> write_effect list) res" where
  "setChunkSize b =
     (let k = num_partitions_in_output_buffer (ob_fa_settings b)
      in if k = 0 then Inl Division_By_Zero
         else (let c = \<lceil>real_of_int (num_gru_local (ob_num_gru_info b)) / real_of_int k\<rceil>
               in Inr (c, [F_SetChunkSize c])))"

definition allocateOutputBuffer :: "int \<Rightarrow> int \<Rightarrow> output_buffer \<Rightarrow> int \<times> output_buffer \<times> write_effect list" where
  "allocateOutputBuffer err steps b =
     (let fs = ob_fa_settings b;
          fs' = (if steps < num_timesteps_in_output_buffer fs
                 then fs\<lparr>num_timesteps_in_output_buffer := steps\<rparr> else fs)
      in (err, b\<lparr>ob_fa_settings := fs'\<rparr>,
          [F_AllocateOutputBuffer (num_timesteps_in_output_buffer fs')
             (num_gru_local (ob_num_gru_info b))]))"

definition writeOutputDA :: "int \<Rightarrow> int \<Rightarrow> output_buffer \<Rightarrow> (int \<times> output_buffer \<times> write_effect list) res" where
  "writeOutputDA err output_step b =
     res_bind (vec_at (ob_partitions b) 0) (\<lambda>p.
       Inr (err, b\<lparr>ob_write_params_da := False\<rparr>,
            [F_WriteOutputDA output_step (op_start_gru p) (op_end_gru p) (ob_write_params_da b)]))"

type_synonym buffer_result = "(output_buffer \<times> write_output_return option \<times> write_effect list) res"

definition at_partition :: "int \<Rightarrow> (output_partition \<Rightarrow> write_result) \<Rightarrow> output_buffer \<Rightarrow> buffer_result" where
  "at_partition k f b =
     res_bind (vec_at (ob_partitions b) k) (\<lambda>p.
       (case f p of (p', ret, es) \<Rightarrow>
          res_bind (vec_upd (ob_partitions b) k (\<lambda>_. p')) (\<lambda>ps. Inr (b\<lparr>ob_partitions := ps\<rparr>, ret, es))))"

definition buffer_writeOutput :: "int \<Rightarrow> string \<Rightarrow> int \<Rightarrow> actor_id \<Rightarrow> output_buffer \<Rightarrow> buffer_result" where
  "buffer_writeOutput err msg index gru b =
     (let k = findPartitionIndex index b
      in if k = - 1 then Inr (b, None, []) else at_partition k (partition_writeOutput_gru err msg gru) b)"

definition buffer_writeRestart ::
  "int \<Rightarrow> int \<Rightarrow> int \<Rightarrow> int \<Rightarrow> int \<Rightarrow> int \<Rightarrow> int \<Rightarrow> write_effect list" where
  "buffer_writeRestart start n checkpoint year month day hour =
     [F_WriteRestart start n checkpoint year month day hour]"

definition addFailedGRU :: "int \<Rightarrow> string \<Rightarrow> int \<Rightarrow> output_buffer \<Rightarrow> buffer_result" where
  "addFailedGRU err msg index b0 =
     (let b = b0\<lparr>ob_failed_grus := ob_failed_grus b0 @ [index]\<rparr>;
          k = findPartitionIndex index b
      in if k = - 1 then Inr (b, None, [F_AddFailedGru index])
         else res_bind (at_partition k (\<lambda>p. partition_writeOutput err msg (decrementNumGRU p)) b)
                (\<lambda>(b', ret, es). Inr (b', ret, F_AddFailedGru index # es)))"

definition reconstruct :: "output_buffer \<Rightarrow> output_buffer \<times> write_effect list" where
  "reconstruct b =
     (b\<lparr>ob_partitions := map (\<lambda>g. OutputPartition g 1 (ob_num_buffer_steps b) (ob_num_timesteps b))
                           (ob_failed_grus b)\<rparr>,
      F_ResetFailedGru # map F_ResetOutputTimestep (ob_failed_grus b))"

subsection \<open>Lemmas\<close>

definition partition_range :: "output_partition \<Rightarrow> int list" where
  "partition_range p = [op_start_gru p .. op_end_gru p]"

lemma OutputPartition_simps [simp]:
  "op_start_gru (OutputPartition a n c t) = a" "op_end_gru (OutputPartition a n c t) = a + n - 1"
  "op_num_gru (OutputPartition a n c t) = n" "op_steps_remaining (OutputPartition a n c t) = t"
  "op_num_steps_buffer (OutputPartition a n c t) = min c t" "op_write_params (OutputPartition a n c t)"
  "op_ready_to_write (OutputPartition a n c t) = []"
  by (simp_all add: OutputPartition_def)

lemma make_partitions_range:
  "0 \<le> per \<Longrightarrow> i \<le> k \<Longrightarrow> 0 \<le> i \<Longrightarrow> rest \<le> k \<Longrightarrow>
   concat (map partition_range (make_partitions [i .. k - 1] per rest nbuf steps start)) =
     [start .. start + per * (k - i) + max 0 (rest - i) - 1] \<and>
   length (make_partitions [i .. k - 1] per rest nbuf steps start) = nat (k - i) \<and>
   (\<forall>p \<in> set (make_partitions [i .. k - 1] per rest nbuf steps start).
      op_num_gru p \<in> {per, per + 1} \<and> op_end_gru p = op_start_gru p + op_num_gru p - 1)"
proof (induction "nat (k - i)" arbitrary: i start)
  case 0
  then show ?case by simp
next
  case (Suc m)
  define n where "n = per + (if i < rest then 1 else 0)"
  define total where "total = per * (k - i) + max 0 (rest - i)"
  have l: "[i .. k - 1] = i # [i + 1 .. k - 1]" using Suc.hyps(2) by (subst upto.simps) simp
  have IH: "concat (map partition_range (make_partitions [i + 1 .. k - 1] per rest nbuf steps (start + n))) =
     [start + n .. start + n + per * (k - (i + 1)) + max 0 (rest - (i + 1)) - 1] \<and>
   length (make_partitions [i + 1 .. k - 1] per rest nbuf steps (start + n)) = nat (k - (i + 1)) \<and>
   (\<forall>p \<in> set (make_partitions [i + 1 .. k - 1] per rest nbuf steps (start + n)).
      op_num_gru p \<in> {per, per + 1} \<and> op_end_gru p = op_start_gru p + op_num_gru p - 1)"
    using Suc.hyps(2) Suc.prems by (intro Suc.hyps(1)) auto
  have sum: "n + per * (k - (i + 1)) + max 0 (rest - (i + 1)) = total"
    by (auto simp: n_def total_def algebra_simps max_def)
  have "0 \<le> per * (k - (i + 1))" using Suc.prems Suc.hyps(2) by (intro mult_nonneg_nonneg) auto
  then have nn: "0 \<le> n" "n \<le> total" using Suc.prems sum by (auto simp: n_def)
  have "[start .. start + n - 1] @ [start + n .. start + total - 1] = [start .. start + total - 1]"
    using nn upto_append [of start "start + n - 1" "start + total - 1"] by simp
  moreover have fin: "start + n + per * (k - (i + 1)) + max 0 (rest - (i + 1)) - 1 = start + total - 1"
    "start + per * (k - i) + max 0 (rest - i) - 1 = start + total - 1"
    using sum by (simp_all add: total_def)
  moreover have mp: "make_partitions [i .. k - 1] per rest nbuf steps start =
      OutputPartition start n nbuf steps # make_partitions [i + 1 .. k - 1] per rest nbuf steps (start + n)"
    unfolding l by (simp add: n_def Let_def)
  moreover have "n \<in> {per, per + 1}" by (simp add: n_def)
  ultimately show ?case unfolding mp fin using IH [unfolded fin] Suc.hyps(2) by (simp add: partition_range_def)
qed

lemma find_from_index:
  "(\<exists>x \<in> set xs. P x) \<Longrightarrow> \<exists>j < length xs. find_from k P xs = k + int j \<and> P (xs ! j)"
proof (induction xs arbitrary: k)
  case (Cons x xs)
  show ?case
  proof (cases "P x")
    case True
    then show ?thesis by (intro exI [of _ 0]) simp
  next
    case False
    with Cons.prems Cons.IH [of "k + 1"] obtain j where
      "j < length xs" "find_from (k + 1) P xs = k + 1 + int j" "P (xs ! j)" by auto
    with False show ?thesis by (intro exI [of _ "Suc j"]) simp
  qed
qed simp

lemma find_from_none: "\<forall>x \<in> set xs. \<not> P x \<Longrightarrow> find_from k P xs = - 1"
  by (induction xs arbitrary: k) auto

lemma in_partition_range: "in_partition i p \<longleftrightarrow> i \<in> set (partition_range p)"
  by (simp add: in_partition_def partition_range_def)

text \<open>A run of one partition: the GRUs still computing report or fail in any
  order; a successful write releases the waiting GRUs, which compute again as
  long as timesteps remain.  The list records the writes.\<close>

definition released :: "output_partition \<Rightarrow> write_output_return option \<Rightarrow> actor_id set" where
  "released p ret = (case ret of None \<Rightarrow> {}
     | Some r \<Rightarrow> if 0 < op_steps_remaining p then set (actor_to_update r) else {})"

definition writes :: "write_effect list \<Rightarrow> (int \<times> int \<times> int \<times> bool) list" where
  "writes es = concat (map (\<lambda>e. case e of F_WriteOutput n a b wp \<Rightarrow> [(n, a, b, wp)] | _ \<Rightarrow> []) es)"

lemma writes_simps [simp]:
  "writes [] = []" "writes (F_WriteOutput n a b wp # es) = (n, a, b, wp) # writes es"
  "writes (F_SetFailedGruMissing a b # es) = writes es"
  by (simp_all add: writes_def)

inductive partition_run ::
  "output_partition \<Rightarrow> actor_id set \<Rightarrow> (int \<times> int \<times> int \<times> bool) list \<Rightarrow> output_partition \<Rightarrow> actor_id set \<Rightarrow> bool"
  for p0 A0 where
  start: "partition_run p0 A0 [] p0 A0"
| report: "partition_run p0 A0 ws p A \<Longrightarrow> a \<in> A \<Longrightarrow> partition_writeOutput_gru 0 msg a p = (p', ret, es) \<Longrightarrow>
    partition_run p0 A0 (ws @ writes es) p' (A - {a} \<union> released p' ret)"
| fail: "partition_run p0 A0 ws p A \<Longrightarrow> a \<in> A \<Longrightarrow>
    partition_writeOutput 0 msg (decrementNumGRU p) = (p', ret, es) \<Longrightarrow>
    partition_run p0 A0 (ws @ writes es) p' (A - {a} \<union> released p' ret)"

text \<open>The steps left are bounded by the buffer, and the counter of GRUs is that of
  the computing and the waiting ones; at the end nobody is left.\<close>

definition partition_inv :: "output_partition \<Rightarrow> actor_id set \<Rightarrow> bool" where
  "partition_inv p A \<longleftrightarrow> finite A \<and> distinct (op_ready_to_write p) \<and> set (op_ready_to_write p) \<inter> A = {} \<and>
     (if op_steps_remaining p = 0 then A = {} \<and> op_ready_to_write p = []
      else 0 < op_num_steps_buffer p \<and> op_num_steps_buffer p \<le> op_steps_remaining p \<and>
        op_num_gru p = int (card A) + int (length (op_ready_to_write p)) \<and>
        (A = {} \<longrightarrow> op_ready_to_write p = []))"

definition log_inv :: "int \<Rightarrow> int \<Rightarrow> int \<Rightarrow> (int \<times> int \<times> int \<times> bool) list \<Rightarrow> output_partition \<Rightarrow> bool" where
  "log_inv a b t ws p \<longleftrightarrow> op_start_gru p = a \<and> op_end_gru p = b \<and>
     (\<Sum>w\<leftarrow>ws. fst w) + op_steps_remaining p = t \<and>
     map (\<lambda>w. (fst (snd w), fst (snd (snd w)))) ws = replicate (length ws) (a, b) \<and>
     (if ws = [] then op_write_params p
      else \<not> op_write_params p \<and> map (\<lambda>w. snd (snd (snd w))) ws = True # replicate (length ws - 1) False)"

lemma write_partition_fields:
  assumes "write_partition err msg p = (p', ret, es)"
  shows "op_start_gru p' = op_start_gru p" "op_end_gru p' = op_end_gru p" "op_num_gru p' = op_num_gru p"
    "op_steps_remaining p' = op_steps_remaining p - op_num_steps_buffer p"
    "op_num_steps_buffer p' = min (op_num_steps_buffer p) (op_steps_remaining p - op_num_steps_buffer p)"
    "op_ready_to_write p' = []" "\<not> op_write_params p'"
    "ret = Some \<lparr>wr_err = err, wr_message = msg, actor_to_update = op_ready_to_write p,
       num_steps_update = op_num_steps_buffer p'\<rparr>"
    "es = [F_WriteOutput (op_num_steps_buffer p) (op_start_gru p) (op_end_gru p) (op_write_params p)]"
  using assms by (auto simp: write_partition_def isWriteParams_def Let_def min_def split: if_splits)

lemma write_partition_log:
  assumes "log_inv a b t ws p" and "write_partition err msg p = (p', ret, es)"
  shows "log_inv a b t (ws @ writes es) p'"
proof (cases "ws = []")
  case True
  with assms(1) write_partition_fields [OF assms(2)] show ?thesis by (simp add: log_inv_def)
next
  case False
  then obtain m where m: "length ws = Suc m" by (cases ws) auto
  have "replicate m x @ [x] = x # replicate m x" for x :: 'x by (simp add: replicate_append_same)
  with assms(1) write_partition_fields [OF assms(2)] False m show ?thesis
    by (simp add: log_inv_def replicate_append_same)
qed

lemma write_partition_inv:
  assumes "write_partition err msg p = (p', ret, es)" and "isReadyToWrite p"
    and "0 < op_num_steps_buffer p" "op_num_steps_buffer p \<le> op_steps_remaining p"
    and "distinct (op_ready_to_write p)"
  shows "partition_inv p' (released p' ret)"
proof -
  have "card (set (op_ready_to_write p)) = length (op_ready_to_write p)"
    using assms(5) by (rule distinct_card)
  with assms(2-5) write_partition_fields [OF assms(1)] show ?thesis
    by (auto simp: partition_inv_def released_def isReadyToWrite_def)
qed

lemma report_inv:
  assumes "partition_inv p A" and "a \<in> A" and "partition_writeOutput_gru err msg a p = (p', ret, es)"
  shows "partition_inv p' (A - {a} \<union> released p' ret)"
proof -
  let ?p = "p\<lparr>op_ready_to_write := op_ready_to_write p @ [a]\<rparr>"
  have st: "op_steps_remaining p \<noteq> 0" using assms(1,2) by (auto simp: partition_inv_def)
  have c: "card A = Suc (card (A - {a}))" "finite A"
    using assms(1,2) card.remove [of A a] by (simp_all add: partition_inv_def)
  show ?thesis
  proof (cases "isReadyToWrite ?p")
    case True
    from assms(3) True obtain es' where w: "write_partition err msg ?p = (p', ret, es')"
      by (auto simp: partition_writeOutput_gru_def Let_def split: prod.splits)
    have "card (A - {a}) = 0" using True st assms(1) c by (auto simp: isReadyToWrite_def partition_inv_def)
    then have "A - {a} \<union> released p' ret = released p' ret" using c(2) by auto
    moreover have "partition_inv p' (released p' ret)"
      using w True st assms(1,2) by (intro write_partition_inv [OF w]) (auto simp: partition_inv_def)
    ultimately show ?thesis by (simp only:)
  next
    case False
    then have "p' = ?p" "ret = None" using assms(3) by (auto simp: partition_writeOutput_gru_def Let_def)
    moreover define B where "B = A - {a}"
    then have "card A = Suc (card B)" "finite B" "B \<subseteq> A" "a \<notin> B" using c by auto
    ultimately show ?thesis unfolding B_def [symmetric] using False assms(1,2) st
      by (auto simp: partition_inv_def released_def isReadyToWrite_def)
  qed
qed

lemma fail_inv:
  assumes "partition_inv p A" and "a \<in> A" and "partition_writeOutput err msg (decrementNumGRU p) = (p', ret, es)"
  shows "partition_inv p' (A - {a} \<union> released p' ret)"
proof -
  let ?p = "decrementNumGRU p"
  have st: "op_steps_remaining p \<noteq> 0" using assms(1,2) by (auto simp: partition_inv_def)
  have c: "card A = Suc (card (A - {a}))" "finite A"
    using assms(1,2) card.remove [of A a] by (simp_all add: partition_inv_def)
  show ?thesis
  proof (cases "isReadyToWrite ?p")
    case True
    from assms(3) True have w: "write_partition err msg ?p = (p', ret, es)"
      by (simp add: partition_writeOutput_def)
    have "card (A - {a}) = 0"
      using True st assms(1) c by (auto simp: isReadyToWrite_def partition_inv_def decrementNumGRU_def)
    then have "A - {a} \<union> released p' ret = released p' ret" using c(2) by auto
    moreover have "partition_inv p' (released p' ret)"
      using w True st assms(1,2)
      by (intro write_partition_inv [OF w]) (auto simp: partition_inv_def decrementNumGRU_def)
    ultimately show ?thesis by (simp only:)
  next
    case False
    then have "p' = ?p" "ret = None" using assms(3) by (auto simp: partition_writeOutput_def)
    moreover define B where "B = A - {a}"
    then have "card A = Suc (card B)" "finite B" "B \<subseteq> A" using c by auto
    ultimately show ?thesis unfolding B_def [symmetric] using False assms(1) st
      by (auto simp: partition_inv_def released_def isReadyToWrite_def decrementNumGRU_def)
  qed
qed

lemma partition_run_inv:
  assumes "partition_run p0 A0 ws p A" and "partition_inv p0 A0" and "log_inv a b t [] p0"
  shows "partition_inv p A \<and> log_inv a b t ws p"
  using assms(1)
proof induction
  case start
  then show ?case using assms(2,3) by simp
next
  case (report ws p A x msg p' ret es)
  have "log_inv a b t (ws @ writes es) p'"
  proof (cases "isReadyToWrite (p\<lparr>op_ready_to_write := op_ready_to_write p @ [x]\<rparr>)")
    case True
    with report.hyps(3) obtain es' where
      w: "write_partition 0 msg (p\<lparr>op_ready_to_write := op_ready_to_write p @ [x]\<rparr>) = (p', ret, es')"
      and "es = es' @ [F_SetFailedGruMissing (op_start_gru p) (op_end_gru p)]"
      by (auto simp: partition_writeOutput_gru_def Let_def split: prod.splits)
    then have "writes es = writes es'" by (simp add: writes_def)
    moreover have "log_inv a b t ws (p\<lparr>op_ready_to_write := op_ready_to_write p @ [x]\<rparr>)"
      using report.IH by (simp add: log_inv_def)
    ultimately show ?thesis using write_partition_log [OF _ w] by simp
  next
    case False
    with report.hyps(3) report.IH show ?thesis by (auto simp: partition_writeOutput_gru_def Let_def log_inv_def)
  qed
  with report_inv [OF _ report.hyps(2,3)] report.IH show ?case by simp
next
  case (fail ws p A x msg p' ret es)
  have "log_inv a b t ws (decrementNumGRU p)" using fail.IH by (simp add: log_inv_def decrementNumGRU_def)
  then have "log_inv a b t (ws @ writes es) p'"
    using fail.hyps(3) write_partition_log by (auto simp: partition_writeOutput_def split: if_splits)
  with fail_inv [OF _ fail.hyps(2,3)] fail.IH show ?case by simp
qed

text \<open>What the constructor builds.\<close>

lemma make_partitions_elem:
  "p \<in> set (make_partitions is per rest nbuf steps start) \<Longrightarrow> \<exists>a n. p = OutputPartition a n nbuf steps"
  by (induction "is" per rest nbuf steps start rule: make_partitions.induct) (auto simp: Let_def)

lemma OutputBuffer_parts:
  assumes "0 < num_gru_local info" and "0 < num_partitions_in_output_buffer fs"
  shows "\<exists>b. OutputBuffer fs info nhru steps = Inr b \<and>
    (let n = num_gru_local info; k = min n (num_partitions_in_output_buffer fs) in
      length (ob_partitions b) = nat k \<and> concat (map partition_range (ob_partitions b)) = [1 .. n] \<and>
      (\<forall>p \<in> set (ob_partitions b). op_num_gru p \<in> {n div k, n div k + 1} \<and> 0 < op_num_gru p \<and>
         (\<exists>a m. p = OutputPartition a m (num_timesteps_in_output_buffer fs) steps))) \<and>
    ob_num_buffer_steps b = num_timesteps_in_output_buffer fs \<and> ob_num_timesteps b = steps \<and> ob_failed_grus b = []"
proof -
  let ?n = "num_gru_local info" and ?k = "min (num_gru_local info) (num_partitions_in_output_buffer fs)"
  have k: "(if num_partitions_in_output_buffer fs > ?n then ?n else num_partitions_in_output_buffer fs) = ?k"
    by (simp add: min_def)
  have pos: "0 < ?k" "?k \<le> ?n" using assms by auto
  let ?ps = "make_partitions [0 .. ?k - 1] (?n div ?k) (?n mod ?k) (num_timesteps_in_output_buffer fs) steps 1"
  obtain b where b: "OutputBuffer fs info nhru steps = Inr b" "ob_partitions b = ?ps"
    "ob_num_buffer_steps b = num_timesteps_in_output_buffer fs" "ob_num_timesteps b = steps" "ob_failed_grus b = []"
    unfolding OutputBuffer_def Let_def k using pos assms by (simp add: cpp_div_pos cpp_mod_pos)
  have q: "1 \<le> ?n div ?k" using zdiv_mono1 [OF pos(2,1)] pos(1) by (simp only: div_self)
  have "concat (map partition_range ?ps) = [1 .. 1 + ?n div ?k * (?k - 0) + max 0 (?n mod ?k - 0) - 1] \<and>
      length ?ps = nat (?k - 0) \<and> (\<forall>p \<in> set ?ps. op_num_gru p \<in> {?n div ?k, ?n div ?k + 1} \<and>
        op_end_gru p = op_start_gru p + op_num_gru p - 1)"
    using pos q pos_mod_bound [OF pos(1), of ?n] by (intro make_partitions_range) auto
  moreover have "1 + ?n div ?k * (?k - 0) + max 0 (?n mod ?k - 0) - 1 = ?n"
    using pos_mod_sign [OF pos(1), of ?n] div_mult_mod_eq [of ?n ?k] by simp
  ultimately have mp: "concat (map partition_range ?ps) = [1 .. ?n]" "length ?ps = nat ?k"
    "\<forall>p \<in> set ?ps. op_num_gru p \<in> {?n div ?k, ?n div ?k + 1}" by simp_all
  have "\<forall>p \<in> set ?ps. op_num_gru p \<in> {?n div ?k, ?n div ?k + 1} \<and> 0 < op_num_gru p \<and>
      (\<exists>a m. p = OutputPartition a m (num_timesteps_in_output_buffer fs) steps)"
    using mp(3) q make_partitions_elem by fastforce
  with b mp(1,2) show ?thesis unfolding Let_def by (intro exI [of _ b]) (simp only: b(2) simp_thms)
qed

text \<open>Where a GRU is found.\<close>

lemma find_in_cover:
  assumes "concat (map partition_range (ob_partitions b)) = [1 .. n]"
  shows "if 1 \<le> i \<and> i \<le> n
    then \<exists>j < length (ob_partitions b). findPartitionIndex i b = int j \<and> in_partition i (ob_partitions b ! j)
    else findPartitionIndex i b = - 1"
proof -
  let ?ps = "ob_partitions b"
  have "(\<exists>p \<in> set ?ps. in_partition i p) \<longleftrightarrow> i \<in> set (concat (map partition_range ?ps))"
    by (auto simp: in_partition_range)
  then have "(\<exists>p \<in> set ?ps. in_partition i p) \<longleftrightarrow> 1 \<le> i \<and> i \<le> n" unfolding assms by simp
  then show ?thesis
    using find_from_index [of ?ps "in_partition i" 0] find_from_none [of ?ps "in_partition i" 0]
    by (auto simp: findPartitionIndex_def)
qed

subsection \<open>Properties\<close>

text \<open>
  C19. The partitions of the output buffer.  With at least one GRU and one
  configured partition the constructor cuts the GRUs 1 to \<open>n\<close> into at most as
  many consecutive non-empty partitions as configured, whose sizes differ by
  at most one; every GRU of the job is found in a partition that holds it, and
  an index outside is reported as -1.  Without GRUs or without partitions the
  constructor divides by zero.
\<close>

theorem OutputBuffer_partitions:
  assumes "0 \<le> num_gru_local info" and "0 \<le> num_partitions_in_output_buffer fs"
  shows "let n = num_gru_local info; k = min n (num_partitions_in_output_buffer fs) in
    if k = 0 then OutputBuffer fs info nhru steps = Inl Division_By_Zero
    else \<exists>b. OutputBuffer fs info nhru steps = Inr b \<and> length (ob_partitions b) = nat k \<and>
      concat (map partition_range (ob_partitions b)) = [1 .. n] \<and>
      (\<forall>p \<in> set (ob_partitions b). op_num_gru p \<in> {n div k, n div k + 1} \<and> 0 < op_num_gru p) \<and>
      (\<forall>i. if 1 \<le> i \<and> i \<le> n
           then \<exists>j < length (ob_partitions b). findPartitionIndex i b = int j \<and> in_partition i (ob_partitions b ! j)
           else findPartitionIndex i b = - 1)"
proof -
  let ?n = "num_gru_local info" and ?k = "min (num_gru_local info) (num_partitions_in_output_buffer fs)"
  show ?thesis
  proof (cases "?k = 0")
    case True
    have "(if num_partitions_in_output_buffer fs > ?n then ?n else num_partitions_in_output_buffer fs) = ?k"
      by (simp add: min_def)
    with True show ?thesis unfolding OutputBuffer_def Let_def by (simp add: cpp_div_def)
  next
    case False
    then have "0 < ?n" "0 < num_partitions_in_output_buffer fs" using assms by (auto simp: min_def split: if_splits)
    from OutputBuffer_parts [OF this, of nhru steps] obtain b where
      b: "OutputBuffer fs info nhru steps = Inr b" "length (ob_partitions b) = nat ?k"
        "concat (map partition_range (ob_partitions b)) = [1 .. ?n]"
        "\<forall>p \<in> set (ob_partitions b). op_num_gru p \<in> {?n div ?k, ?n div ?k + 1} \<and> 0 < op_num_gru p"
      unfolding Let_def by blast
    from find_in_cover [OF b(3)] b show ?thesis unfolding Let_def if_not_P [OF False]
      by (intro exI [of _ b] conjI allI) blast+
  qed
qed

definition demo_info :: num_gru_info where
  "demo_info = \<lparr>start_gru_local = 5, start_gru_global = 5, num_gru_local = 7, num_gru_global = 7,
     ngi_file_gru = 100, use_global_for_data_structures = False\<rparr>"

lemma OutputBuffer_partitions_witness:
  "\<exists>b. OutputBuffer (FileAccessActorSettings_default\<lparr>num_partitions_in_output_buffer := 3\<rparr>) demo_info 7 10 = Inr b \<and>
     concat (map partition_range (ob_partitions b)) = [1 .. 7]"
proof -
  have "0 \<le> num_gru_local demo_info" "0 \<le> num_partitions_in_output_buffer
      (FileAccessActorSettings_default\<lparr>num_partitions_in_output_buffer := 3\<rparr>)"
    by (simp_all add: demo_info_def)
  from OutputBuffer_partitions [OF this, of 7 10] show ?thesis by (auto simp: demo_info_def)
qed

text \<open>
  C12. The write barrier of a partition of \<open>n\<close> GRUs over \<open>t\<close> timesteps.  Whatever
  the order in which GRUs report and fail: a GRU waits only while another one
  still computes, so nobody waits for ever; the steps already written and the
  steps remaining add up to \<open>t\<close>; every write covers the range of the partition
  and only the first one carries the parameters; and when no GRU is left
  computing, either all timesteps have been written or all GRUs have failed.
\<close>

theorem partition_write_barrier:
  assumes "finite A0" and "int (card A0) = n" and "0 < n" and "0 < nbuf" and "0 < t"
    and "partition_run (OutputPartition start n nbuf t) A0 ws p A"
  shows "(op_ready_to_write p \<noteq> [] \<longrightarrow> A \<noteq> {}) \<and>
    (\<Sum>w\<leftarrow>ws. fst w) + op_steps_remaining p = t \<and>
    map (\<lambda>w. (fst (snd w), fst (snd (snd w)))) ws = replicate (length ws) (start, start + n - 1) \<and>
    (ws \<noteq> [] \<longrightarrow> map (\<lambda>w. snd (snd (snd w))) ws = True # replicate (length ws - 1) False) \<and>
    (A = {} \<longrightarrow> op_steps_remaining p = 0 \<or> op_num_gru p = 0)"
proof -
  have "A0 \<noteq> {}" using assms(2,3) by auto
  then have "partition_inv (OutputPartition start n nbuf t) A0"
    using assms(1-5) by (simp add: partition_inv_def)
  moreover have "log_inv start (start + n - 1) t [] (OutputPartition start n nbuf t)" by (simp add: log_inv_def)
  ultimately have "partition_inv p A \<and> log_inv start (start + n - 1) t ws p"
    by (rule partition_run_inv [OF assms(6)])
  then show ?thesis by (auto simp: partition_inv_def log_inv_def split: if_splits)
qed

text \<open>Two GRUs over five timesteps with room for three: one reports, the other
  fails, which triggers the first write.\<close>

lemma partition_write_barrier_witness:
  "\<exists>ws p A. partition_run (OutputPartition 1 2 3 5) {10, 11} ws p A \<and> ws = [(3, 1, 2, True)] \<and>
     (\<Sum>w\<leftarrow>ws. fst w) + op_steps_remaining p = 5"
proof -
  let ?p0 = "OutputPartition 1 2 3 5"
  let ?p1 = "?p0\<lparr>op_ready_to_write := [10]\<rparr>"
  have "partition_writeOutput_gru 0 [] 10 ?p0 = (?p1, None, [])"
    by (simp add: partition_writeOutput_gru_def isReadyToWrite_def)
  from partition_run.report [OF partition_run.start _ this, of "{10, 11}"]
  have r1: "partition_run ?p0 {10, 11} [] ?p1 {11}" by (simp add: released_def insert_Diff_if)
  obtain p' ret es where w: "partition_writeOutput 0 [] (decrementNumGRU ?p1) = (p', ret, es)"
    by (metis prod_cases3)
  then have "write_partition 0 [] (decrementNumGRU ?p1) = (p', ret, es)"
    by (simp add: partition_writeOutput_def isReadyToWrite_def decrementNumGRU_def)
  from write_partition_fields(9) [OF this] have "writes es = [(3, 1, 2, True)]"
    by (simp add: decrementNumGRU_def)
  with partition_run.fail [OF r1 _ w, of 11]
  have r2: "partition_run ?p0 {10, 11} [(3, 1, 2, True)] p' ({11} - {11} \<union> released p' ret)" by simp
  have "finite {10, 11 :: nat}" "int (card {10, 11 :: nat}) = 2" "(0 :: int) < 2" "(0 :: int) < 3" "(0 :: int) < 5"
    by simp_all
  from partition_write_barrier [OF this r2] r2 show ?thesis by blast
qed

end
