(* ===== verification/File_Access_Actor.thy ===== *)
theory File_Access_Actor
  imports Forcing_Files Output_Buffer
begin

text \<open>
  The file access actor (\<^verbatim>\<open>file_access_actor.hpp\<close>, \<^verbatim>\<open>file_access_actor.cpp\<close>): it
  loads forcing files ahead of the GRUs, collects output, writes restart files
  and reconstructs the buffer for restarted GRUs.  Clock readings and what the
  Fortran routines return are arguments; messages and Fortran calls are
  effects.
\<close>

subsection \<open>State and effects\<close>

datatype fa_effect =
    New_Forcing_To actor_id int int        \<comment> \<open>receiver, steps in the file, file\<close>
  | Internal_Forcing int                   \<comment> \<open>\<^verbatim>\<open>access_forcing_internal\<close> to itself\<close>
  | Steps_Before_Write_To actor_id int
  | Run_Hru_To actor_id
  | Output_Written_To_Parent int
  | Error_To_Parent int string
  | Reply_Int int
  | Reply_Durations real real
  | Read_Forcing int int int               \<comment> \<open>file, first GRU, number of GRUs\<close>
  | Fortran write_effect
  | Quit_File_Access

record file_access =
  fa_timing :: timing_info
  fa_num_gru_info :: num_gru_info
  fa_settings :: FileAccessActorSettings
  fa_start_gru :: int
  fa_num_gru :: int
  fa_num_hru :: int
  fa_num_steps :: int
  fa_forcing :: "forcing_files option"
  fa_buffer :: "output_buffer option"
  completed_checkpoints :: int
  fa_hru_timesteps :: "int list"
  fa_stopped :: bool

type_synonym fa_outcome = "(file_access \<times> fa_effect list) res"

text \<open>The constructor and the start of \<^verbatim>\<open>make_behavior\<close>; the members the constructor
  leaves uninitialised get their values there or in the first handler.\<close>

definition FileAccessActor :: "num_gru_info \<Rightarrow> FileAccessActorSettings \<Rightarrow> file_access" where
  "FileAccessActor info fs =
     \<lparr>fa_timing = TimingInfo, fa_num_gru_info = info, fa_settings = fs, fa_start_gru = 0, fa_num_gru = 0,
      fa_num_hru = 0, fa_num_steps = 0, fa_forcing = None, fa_buffer = None, completed_checkpoints = 1,
      fa_hru_timesteps = [], fa_stopped = False\<rparr>"

definition fa_make_behavior :: "file_access \<Rightarrow> file_access" where
  "fa_make_behavior s =
     (let info = fa_num_gru_info s;
          s1 = s\<lparr>fa_timing := addTimePoint ''write_duration'' TimingInfo\<rparr>
      in if use_global_for_data_structures info
         then s1\<lparr>fa_start_gru := start_gru_global info, fa_num_gru := num_gru_global info\<rparr>
         else s1\<lparr>fa_start_gru := start_gru_local info, fa_num_gru := num_gru_local info\<rparr>)"

definition with_forcing :: "file_access \<Rightarrow> (forcing_files \<Rightarrow> 'a res) \<Rightarrow> 'a res" where
  "with_forcing s f = (case fa_forcing s of None \<Rightarrow> Inl Null_Pointer | Some c \<Rightarrow> f c)"

definition with_buffer :: "file_access \<Rightarrow> (output_buffer \<Rightarrow> 'a res) \<Rightarrow> 'a res" where
  "with_buffer s f = (case fa_buffer s of None \<Rightarrow> Inl Null_Pointer | Some b \<Rightarrow> f b)"

subsection \<open>Initialisation\<close>

record fa_env =
  fe_num_steps :: int
  fe_t0 :: int
  fe_t1 :: int
  fe_infos :: "file_info list"
  fe_address :: string
  fe_def_err :: int
  fe_alloc_err :: int

definition on_init_file_access :: "fa_env \<Rightarrow> int \<Rightarrow> int \<Rightarrow> file_access \<Rightarrow> fa_outcome" where
  "on_init_file_access env file_gru nhru s0 =
     res_bind (vec_resize nhru 0 (fa_hru_timesteps s0)) (\<lambda>ts.
     let s1 = s0\<lparr>fa_num_hru := nhru, fa_hru_timesteps := ts, fa_num_steps := fe_num_steps env\<rparr> in
     res_bind (initForcingFiles (fe_t0 env) (fe_t1 env) (fe_infos env) forcingFileContainer) (\<lambda>(ferr, c).
     let s2 = s1\<lparr>fa_forcing := Some c\<rparr> in
     if ferr \<noteq> 0 then Inr (s2, [Reply_Int (- 1)])
     else
       res_bind (OutputBuffer (fa_settings s2) (fa_num_gru_info s2) nhru (fe_num_steps env)) (\<lambda>b0.
       res_bind (setChunkSize b0) (\<lambda>(chunk, es1).
       (case defOutput (fe_def_err env) (fe_address env) b0 of (derr, b1, es2) \<Rightarrow>
          if derr \<noteq> 0
          then Inr (s2\<lparr>fa_buffer := Some b1, fa_stopped := True\<rparr>,
                    map Fortran (es1 @ es2) @ [Quit_File_Access, Reply_Int (- 1)])
          else (case allocateOutputBuffer (fe_alloc_err env) (fe_num_steps env) b1 of (aerr, b2, es3) \<Rightarrow>
            res_bind (updateEndPoint (fe_t1 env) ''init_duration'' (fa_timing s2)) (\<lambda>ti.
              Inr (s2\<lparr>fa_buffer := Some b2, fa_timing := ti\<rparr>,
                   map Fortran (es1 @ es2 @ es3) @ [Reply_Int (fe_num_steps env)]))))))))"

subsection \<open>Forcing files\<close>

definition load_failed :: "int \<Rightarrow> file_access \<Rightarrow> fa_effect list \<Rightarrow> fa_outcome" where
  "load_failed err s es =
     Inr (s\<lparr>fa_stopped := True\<rparr>,
          es @ [Error_To_Parent err (''Can'' @ CHR 0x27 # ''t load forcing file'' @ newline), Quit_File_Access])"

definition on_access_forcing :: "int \<Rightarrow> int \<Rightarrow> int \<Rightarrow> int \<Rightarrow> actor_id \<Rightarrow> file_access \<Rightarrow> fa_outcome" where
  "on_access_forcing t0 t1 rerr i_file resp s =
     with_forcing s (\<lambda>c.
       if allFilesLoaded c then res_bind (getNumSteps i_file c) (\<lambda>n. Inr (s, [New_Forcing_To resp n i_file]))
       else res_bind (loadForcingFile t0 t1 rerr i_file c) (\<lambda>(err, c1, reads).
         let s1 = s\<lparr>fa_forcing := Some c1\<rparr>;
             rs = map (\<lambda>i. Read_Forcing i (fa_start_gru s) (fa_num_gru s)) reads
         in if err \<noteq> 0 then load_failed err s1 rs
            else res_bind (getNumSteps i_file c1) (\<lambda>n.
                   Inr (s1, rs @ [Internal_Forcing (i_file + 1), New_Forcing_To resp n i_file]))))"

definition on_access_forcing_internal :: "int \<Rightarrow> int \<Rightarrow> int \<Rightarrow> int \<Rightarrow> file_access \<Rightarrow> fa_outcome" where
  "on_access_forcing_internal t0 t1 rerr i_file s =
     with_forcing s (\<lambda>c.
       if allFilesLoaded c then Inr (s, [])
       else res_bind (loadForcingFile t0 t1 rerr i_file c) (\<lambda>(err, c1, reads).
         let s1 = s\<lparr>fa_forcing := Some c1\<rparr>;
             rs = map (\<lambda>i. Read_Forcing i (fa_start_gru s) (fa_num_gru s)) reads
         in if err \<noteq> 0 then load_failed err s1 rs else Inr (s1, rs @ [Internal_Forcing (i_file + 1)])))"

subsection \<open>Output\<close>

definition on_get_num_output_steps :: "int \<Rightarrow> file_access \<Rightarrow> fa_outcome" where
  "on_get_num_output_steps job s =
     with_buffer s (\<lambda>b. res_bind (getNumStepsBuffer job b) (\<lambda>n. Inr (s, [Reply_Int n])))"

text \<open>What \<^verbatim>\<open>write_output\<close> and \<^verbatim>\<open>run_failure\<close> do with the status of the buffer; on an
  error the end point of the timer is not updated.\<close>

definition after_write ::
  "int \<Rightarrow> (output_buffer \<times> write_output_return option \<times> write_effect list) res \<Rightarrow> file_access \<Rightarrow> fa_outcome" where
  "after_write t1 r s =
     res_bind r (\<lambda>(b, status, es).
     let s1 = s\<lparr>fa_buffer := Some b\<rparr>; fs = map Fortran es in
     (case status of
        None \<Rightarrow> res_bind (updateEndPoint t1 ''write_duration'' (fa_timing s1)) (\<lambda>ti.
                  Inr (s1\<lparr>fa_timing := ti\<rparr>, fs))
      | Some st \<Rightarrow>
          if wr_err st \<noteq> 0
          then Inr (s1\<lparr>fa_stopped := True\<rparr>,
                    fs @ [Error_To_Parent (wr_err st) (wr_message st), Quit_File_Access])
          else res_bind (updateEndPoint t1 ''write_duration'' (fa_timing s1)) (\<lambda>ti.
                 Inr (s1\<lparr>fa_timing := ti\<rparr>,
                      fs @ concat (map (\<lambda>g. [Steps_Before_Write_To g (num_steps_update st), Run_Hru_To g])
                                    (actor_to_update st))))))"

definition on_write_output ::
  "int \<Rightarrow> int \<Rightarrow> int \<Rightarrow> string \<Rightarrow> int \<Rightarrow> actor_id \<Rightarrow> file_access \<Rightarrow> fa_outcome" where
  "on_write_output t0 t1 werr wmsg index gru s =
     res_bind (updateStartPoint t0 ''write_duration'' (fa_timing s)) (\<lambda>ti.
       let s1 = s\<lparr>fa_timing := ti\<rparr>
       in with_buffer s1 (\<lambda>b. after_write t1 (buffer_writeOutput werr wmsg index gru b) s1))"

definition on_run_failure :: "int \<Rightarrow> int \<Rightarrow> int \<Rightarrow> string \<Rightarrow> int \<Rightarrow> file_access \<Rightarrow> fa_outcome" where
  "on_run_failure t0 t1 werr wmsg index s =
     res_bind (updateStartPoint t0 ''write_duration'' (fa_timing s)) (\<lambda>ti.
       let s1 = s\<lparr>fa_timing := ti\<rparr>
       in with_buffer s1 (\<lambda>b. after_write t1 (addFailedGRU werr wmsg index b) s1))"

definition on_write_output_da :: "int \<Rightarrow> int \<Rightarrow> int \<Rightarrow> int \<Rightarrow> file_access \<Rightarrow> fa_outcome" where
  "on_write_output_da t0 t1 werr out s =
     res_bind (updateStartPoint t0 ''write_duration'' (fa_timing s)) (\<lambda>ti.
     with_buffer s (\<lambda>b.
     res_bind (writeOutputDA werr out b) (\<lambda>(err, b1, es).
     res_bind (updateEndPoint t1 ''write_duration'' ti) (\<lambda>ti'.
       Inr (s\<lparr>fa_timing := ti', fa_buffer := Some b1\<rparr>, map Fortran es @ [Output_Written_To_Parent err])))))"

definition on_restart_failures_fa :: "file_access \<Rightarrow> fa_outcome" where
  "on_restart_failures_fa s =
     with_buffer s (\<lambda>b. (case reconstruct b of (b', es) \<Rightarrow> Inr (s\<lparr>fa_buffer := Some b'\<rparr>, map Fortran es)))"

definition on_finalize_fa :: "file_access \<Rightarrow> fa_outcome" where
  "on_finalize_fa s =
     with_forcing s (\<lambda>c.
     res_bind (getReadDuration c) (\<lambda>rd.
     res_bind (getDuration ''write_duration'' (fa_timing s)) (\<lambda>wr.
       Inr (s\<lparr>fa_buffer := None, fa_stopped := True\<rparr>, [Quit_File_Access, Reply_Durations rd (value_or wr (- 1))]))))"

subsection \<open>Restart files\<close>

text \<open>\<^verbatim>\<open>*std::min_element\<close> on a vector that is not empty.\<close>

definition on_write_restart ::
  "int \<Rightarrow> int \<Rightarrow> int \<Rightarrow> int \<Rightarrow> int \<Rightarrow> int \<Rightarrow> int \<Rightarrow> file_access \<Rightarrow> fa_outcome" where
  "on_write_restart g t out year month day hour s =
     res_bind (vec_upd (fa_hru_timesteps s) (g - 1) (\<lambda>_. t)) (\<lambda>ts.
       let slowest = min_list ts; s1 = s\<lparr>fa_hru_timesteps := ts\<rparr>
       in if slowest > completed_checkpoints s
          then with_buffer s (\<lambda>b.
                 Inr (s1\<lparr>completed_checkpoints := slowest\<rparr>,
                      map Fortran (buffer_writeRestart (fa_start_gru s) (fa_num_hru s) (out - 1)
                                     year month day hour)))
          else Inr (s1, []))"

definition on_write_restart_da ::
  "int \<Rightarrow> int \<Rightarrow> int \<Rightarrow> int \<Rightarrow> int \<Rightarrow> int \<Rightarrow> int \<Rightarrow> file_access \<Rightarrow> fa_outcome" where
  "on_write_restart_da g t out year month day hour s =
     res_bind (vec_upd (fa_hru_timesteps s) (g - 1) (\<lambda>_. t)) (\<lambda>ts.
       if min_list ts > 0
       then with_buffer s (\<lambda>b.
              Inr (s\<lparr>fa_hru_timesteps := replicate (length ts) 0\<rparr>,
                   map Fortran (buffer_writeRestart (fa_start_gru s) (fa_num_hru s) out year month day hour)))
       else Inr (s\<lparr>fa_hru_timesteps := ts\<rparr>, []))"

subsection \<open>Loading ahead\<close>

definition internal_of :: "fa_effect list \<Rightarrow> int list" where
  "internal_of es = concat (map (\<lambda>e. case e of Internal_Forcing i \<Rightarrow> [i] | _ \<Rightarrow> []) es)"

definition reads_of :: "fa_effect list \<Rightarrow> int list" where
  "reads_of es = concat (map (\<lambda>e. case e of Read_Forcing i a n \<Rightarrow> [i] | _ \<Rightarrow> []) es)"

lemma fa_effect_simps [simp]:
  "internal_of [] = []" "internal_of (Internal_Forcing i # es) = i # internal_of es"
  "internal_of (New_Forcing_To a n i # es) = internal_of es"
  "internal_of (Read_Forcing i g0 k # es) = internal_of es"
  "reads_of [] = []" "reads_of (Internal_Forcing i # es) = reads_of es"
  "reads_of (New_Forcing_To a n i # es) = reads_of es" "reads_of (Read_Forcing i g0 k # es) = i # reads_of es"
  by (simp_all add: internal_of_def reads_of_def)

text \<open>A request is for the first file or the one after a file that has been
  delivered; reads succeed.  A run keeps the internal messages in flight and
  the files read so far.\<close>

definition may_request :: "file_access \<Rightarrow> int \<Rightarrow> bool" where
  "may_request s i \<longleftrightarrow> (\<exists>c. fa_forcing s = Some c \<and> 1 \<le> i \<and> i \<le> files_loaded c + 1 \<and>
     i \<le> int (length (ff_files c)))"

inductive forcing_run :: "file_access \<Rightarrow> file_access \<Rightarrow> int list \<Rightarrow> int list \<Rightarrow> bool" for s0 where
  start: "forcing_run s0 s0 [] []"
| request: "forcing_run s0 s q rs \<Longrightarrow> may_request s i \<Longrightarrow>
    on_access_forcing t0 t1 0 i resp s = Inr (s', es) \<Longrightarrow> forcing_run s0 s' (q @ internal_of es) (rs @ reads_of es)"
| ahead: "forcing_run s0 s (i # q) rs \<Longrightarrow> on_access_forcing_internal t0 t1 0 i s = Inr (s', es) \<Longrightarrow>
    forcing_run s0 s' (q @ internal_of es) (rs @ reads_of es)"

definition forcing_inv :: "int list \<Rightarrow> file_access \<Rightarrow> int list \<Rightarrow> int list \<Rightarrow> bool" where
  "forcing_inv steps s q rs \<longleftrightarrow> (\<exists>m c. fa_forcing s = Some c \<and> prefix_loaded m c \<and>
     map nTimeSteps (ff_files c) = steps \<and> rs = map (\<lambda>i. int i + 1) [0 ..< m] \<and>
     (\<forall>i \<in> set q. 1 \<le> i \<and> i \<le> int m + 1))"

text \<open>Loading file \<open>i\<close> when the first \<open>m\<close> files are loaded: either it is there already
  or it is the next one.\<close>

lemma load_step:
  assumes "prefix_loaded m c" and "\<not> allFilesLoaded c" and "1 \<le> i" "i \<le> int m + 1"
  shows "\<exists>c' m'. loadForcingFile t0 t1 0 i c = Inr (0, c', map (\<lambda>j. int j + 1) [m ..< m']) \<and> m \<le> m' \<and>
    prefix_loaded m' c' \<and> map nTimeSteps (ff_files c') = map nTimeSteps (ff_files c) \<and> i + 1 \<le> int m' + 1"
proof (cases "i \<le> int m")
  case True
  with loadForcingFile_loaded [OF assms(1,3) True] assms(1) show ?thesis
    by (intro exI [of _ c] exI [of _ m]) simp
next
  case False
  then have i: "i = int m + 1" using assms(4) by simp
  have "m < length (ff_files c)" using assms(1,2) by (simp add: prefix_loaded_def allFilesLoaded_def)
  from loadForcingFile_next [OF assms(1) this, of t0 t1] obtain c' where
    "loadForcingFile t0 t1 0 (int m + 1) c = Inr (0, c', [int m + 1])" "prefix_loaded (Suc m) c'"
    "map nTimeSteps (ff_files c') = map nTimeSteps (ff_files c)" by blast
  with i show ?thesis by (intro exI [of _ c'] exI [of _ "Suc m"]) simp
qed

lemma request_step:
  assumes "forcing_inv steps s q rs" and "may_request s i"
  shows "\<exists>s' es. on_access_forcing t0 t1 0 i resp s = Inr (s', es) \<and>
    New_Forcing_To resp (steps ! nat (i - 1)) i \<in> set es \<and>
    forcing_inv steps s' (q @ internal_of es) (rs @ reads_of es)"
proof -
  obtain m c where c: "fa_forcing s = Some c" "prefix_loaded m c" "map nTimeSteps (ff_files c) = steps"
    "rs = map (\<lambda>i. int i + 1) [0 ..< m]" "\<forall>i \<in> set q. 1 \<le> i \<and> i \<le> int m + 1"
    using assms(1) unfolding forcing_inv_def by blast
  have i: "1 \<le> i" "i \<le> int m + 1" "i \<le> int (length (ff_files c))"
    using assms(2) c(1,2) by (auto simp: may_request_def prefix_loaded_def)
  note ns = getNumSteps_ok [OF i(1)]
  show ?thesis
  proof (cases "allFilesLoaded c")
    case True
    with c i ns [of c] show ?thesis
      by (auto simp: on_access_forcing_def with_forcing_def forcing_inv_def)
  next
    case False
    from load_step [OF c(2) False i(1,2), of t0 t1] obtain c' m' where
      l: "loadForcingFile t0 t1 0 i c = Inr (0, c', map (\<lambda>j. int j + 1) [m ..< m'])" "m \<le> m'"
        "prefix_loaded m' c'" "map nTimeSteps (ff_files c') = steps" "i + 1 \<le> int m' + 1"
      unfolding c(3) by blast
    have "length (ff_files c') = length (ff_files c)" using l(4) c(3) map_eq_imp_length_eq by metis
    with ns [of c'] i(3) l(4) have n: "getNumSteps i c' = Inr (steps ! nat (i - 1))" by simp
    let ?es = "map (\<lambda>i. Read_Forcing i (fa_start_gru s) (fa_num_gru s)) (map (\<lambda>j. int j + 1) [m ..< m']) @
      [Internal_Forcing (i + 1), New_Forcing_To resp (steps ! nat (i - 1)) i]"
    have h: "on_access_forcing t0 t1 0 i resp s = Inr (s\<lparr>fa_forcing := Some c'\<rparr>, ?es)"
      using False c(1) l(1) n by (simp add: on_access_forcing_def with_forcing_def Let_def)
    have e: "internal_of ?es = [i + 1]" "reads_of ?es = map (\<lambda>j. int j + 1) [m ..< m']"
      by (simp_all add: internal_of_def reads_of_def o_def)
    have "rs @ reads_of ?es = map (\<lambda>i. int i + 1) [0 ..< m']"
      using l(2) upt_add_eq_append [of 0 m "m' - m"] unfolding e c(4) by simp
    moreover have "\<forall>x \<in> set (q @ internal_of ?es). 1 \<le> x \<and> x \<le> int m' + 1"
      using c(5) l(2,5) i(1) unfolding e by auto
    ultimately have "forcing_inv steps (s\<lparr>fa_forcing := Some c'\<rparr>) (q @ internal_of ?es) (rs @ reads_of ?es)"
      using l(3,4) unfolding forcing_inv_def by auto
    with h show ?thesis by (intro exI [of _ "s\<lparr>fa_forcing := Some c'\<rparr>"] exI [of _ ?es]) simp
  qed
qed

lemma ahead_step:
  assumes "forcing_inv steps s (i # q) rs"
  shows "\<exists>s' es. on_access_forcing_internal t0 t1 0 i s = Inr (s', es) \<and>
    forcing_inv steps s' (q @ internal_of es) (rs @ reads_of es)"
proof -
  obtain m c where c: "fa_forcing s = Some c" "prefix_loaded m c" "map nTimeSteps (ff_files c) = steps"
    "rs = map (\<lambda>i. int i + 1) [0 ..< m]" "1 \<le> i" "i \<le> int m + 1" "\<forall>i \<in> set q. 1 \<le> i \<and> i \<le> int m + 1"
    using assms unfolding forcing_inv_def by auto
  show ?thesis
  proof (cases "allFilesLoaded c")
    case True
    with c show ?thesis by (auto simp: on_access_forcing_internal_def with_forcing_def forcing_inv_def)
  next
    case False
    from load_step [OF c(2) False c(5,6), of t0 t1] obtain c' m' where
      l: "loadForcingFile t0 t1 0 i c = Inr (0, c', map (\<lambda>j. int j + 1) [m ..< m'])" "m \<le> m'"
        "prefix_loaded m' c'" "map nTimeSteps (ff_files c') = steps" "i + 1 \<le> int m' + 1"
      unfolding c(3) by blast
    let ?es = "map (\<lambda>i. Read_Forcing i (fa_start_gru s) (fa_num_gru s)) (map (\<lambda>j. int j + 1) [m ..< m']) @
      [Internal_Forcing (i + 1)]"
    have h: "on_access_forcing_internal t0 t1 0 i s = Inr (s\<lparr>fa_forcing := Some c'\<rparr>, ?es)"
      using False c(1) l(1) by (simp add: on_access_forcing_internal_def with_forcing_def Let_def)
    have e: "internal_of ?es = [i + 1]" "reads_of ?es = map (\<lambda>j. int j + 1) [m ..< m']"
      by (simp_all add: internal_of_def reads_of_def o_def)
    have "rs @ reads_of ?es = map (\<lambda>i. int i + 1) [0 ..< m']"
      using l(2) upt_add_eq_append [of 0 m "m' - m"] unfolding e c(4) by simp
    moreover have "\<forall>x \<in> set (q @ internal_of ?es). 1 \<le> x \<and> x \<le> int m' + 1"
      using c(5,7) l(2,5) unfolding e by auto
    ultimately have "forcing_inv steps (s\<lparr>fa_forcing := Some c'\<rparr>) (q @ internal_of ?es) (rs @ reads_of ?es)"
      using l(3,4) unfolding forcing_inv_def by auto
    with h show ?thesis by blast
  qed
qed

lemma forcing_run_inv:
  assumes "forcing_run s0 s q rs" and "forcing_inv steps s0 [] []"
  shows "forcing_inv steps s q rs"
  using assms(1)
proof induction
  case start
  then show ?case using assms(2) .
next
  case (request s q rs i t0 t1 resp s' es)
  from request_step [OF request.IH request.hyps(2), of t0 t1 resp] request.hyps(3) show ?case by simp
next
  case (ahead s i q rs t0 t1 s' es)
  from ahead_step [OF ahead.IH, of t0 t1] ahead.hyps(2) show ?case by simp
qed

subsection \<open>Checkpoints\<close>

type_synonym restart_report = "int \<times> int \<times> int \<times> int \<times> int \<times> int \<times> int"

fun restart_run :: "restart_report list \<Rightarrow> file_access \<Rightarrow> fa_outcome" where
  "restart_run [] s = Inr (s, [])"
| "restart_run ((g, t, out, y, mo, d, h) # rs) s =
     res_bind (on_write_restart g t out y mo d h s) (\<lambda>(s1, es).
     res_bind (restart_run rs s1) (\<lambda>(s2, es'). Inr (s2, es @ es')))"

lemma min_list_less_iff: "xs \<noteq> [] \<Longrightarrow> c < min_list xs \<longleftrightarrow> (\<forall>x \<in> set xs. (c :: int) < x)"
  by (simp add: min_list_Min)

lemma write_restart_step:
  assumes "fa_buffer s = Some b" and "1 \<le> g" "g \<le> int (length (fa_hru_timesteps s))"
  shows "\<exists>s' es. on_write_restart g t out y mo d h s = Inr (s', es) \<and> fa_buffer s' = Some b \<and>
    fa_hru_timesteps s' = (fa_hru_timesteps s)[nat (g - 1) := t] \<and>
    (if \<forall>x \<in> set ((fa_hru_timesteps s)[nat (g - 1) := t]). completed_checkpoints s < x
     then es \<noteq> [] \<and> completed_checkpoints s < completed_checkpoints s'
     else es = [] \<and> completed_checkpoints s' = completed_checkpoints s)"
proof -
  let ?ts = "(fa_hru_timesteps s)[nat (g - 1) := t]"
  have "vec_upd (fa_hru_timesteps s) (g - 1) (\<lambda>_. t) = Inr ?ts" using assms by (simp add: vec_upd_def)
  moreover have "?ts \<noteq> []" using assms by auto
  note min_list_less_iff [OF this, of "completed_checkpoints s"]
  ultimately show ?thesis using assms(1)
    by (auto simp: on_write_restart_def Let_def with_buffer_def buffer_writeRestart_def)
qed

lemma restart_run_ok:
  "fa_buffer s = Some b \<Longrightarrow> \<forall>r \<in> set rs. 1 \<le> fst r \<and> fst r \<le> int (length (fa_hru_timesteps s)) \<Longrightarrow>
   \<exists>s' es. restart_run rs s = Inr (s', es) \<and> completed_checkpoints s \<le> completed_checkpoints s' \<and>
     (es \<noteq> [] \<longrightarrow> completed_checkpoints s < completed_checkpoints s') \<and>
     ((\<exists>j < length (fa_hru_timesteps s). fa_hru_timesteps s ! j \<le> completed_checkpoints s \<and>
        (\<forall>r \<in> set rs. fst r = int j + 1 \<longrightarrow> fst (snd r) \<le> completed_checkpoints s)) \<longrightarrow> es = [])"
proof (induction rs arbitrary: s)
  case (Cons r rs)
  obtain g t out y mo d h where r: "r = (g, t, out, y, mo, d, h)" by (metis prod_cases7)
  let ?c = "completed_checkpoints s" and ?ts = "(fa_hru_timesteps s)[nat (g - 1) := t]"
  have g: "1 \<le> g" "g \<le> int (length (fa_hru_timesteps s))" using Cons.prems(2) r by auto
  from write_restart_step [OF Cons.prems(1) g, of t out y mo d h] obtain s1 es where
    s1: "on_write_restart g t out y mo d h s = Inr (s1, es)" "fa_buffer s1 = Some b" "fa_hru_timesteps s1 = ?ts"
      "if \<forall>x \<in> set ?ts. ?c < x then es \<noteq> [] \<and> ?c < completed_checkpoints s1
       else es = [] \<and> completed_checkpoints s1 = ?c" by blast
  have "\<forall>r \<in> set rs. 1 \<le> fst r \<and> fst r \<le> int (length (fa_hru_timesteps s1))"
    using Cons.prems(2) s1(3) by simp
  from Cons.IH [OF s1(2) this] obtain s2 es' where
    s2: "restart_run rs s1 = Inr (s2, es')" "completed_checkpoints s1 \<le> completed_checkpoints s2"
      "es' \<noteq> [] \<longrightarrow> completed_checkpoints s1 < completed_checkpoints s2"
      "(\<exists>j < length ?ts. ?ts ! j \<le> completed_checkpoints s1 \<and>
        (\<forall>r \<in> set rs. fst r = int j + 1 \<longrightarrow> fst (snd r) \<le> completed_checkpoints s1)) \<longrightarrow> es' = []"
    unfolding s1(3) by blast
  have stuck: "es @ es' = []" if "j < length (fa_hru_timesteps s)" "fa_hru_timesteps s ! j \<le> ?c"
    "\<forall>r \<in> set ((g, t, out, y, mo, d, h) # rs). fst r = int j + 1 \<longrightarrow> fst (snd r) \<le> ?c" for j
  proof -
    have j: "j < length ?ts" "?ts ! j \<le> ?c" using that g by (auto simp: nth_list_update)
    then have "\<not> (\<forall>x \<in> set ?ts. ?c < x)" by (meson not_less nth_mem)
    with s1(4) have e: "es = []" "completed_checkpoints s1 = ?c" by auto
    with s2(4) j that(3) show ?thesis by auto
  qed
  have "es @ es' \<noteq> [] \<longrightarrow> ?c < completed_checkpoints s2" "?c \<le> completed_checkpoints s2"
    using s1(4) s2(2,3) by (auto split: if_splits)
  with stuck r s1(1) s2(1) show ?case by auto
qed simp

subsection \<open>Properties\<close>

text \<open>
  C18. Forcing files are read once and ahead of the GRUs.  After initialisation
  with \<open>n\<close> files, whatever the interleaving of requests (for the first file or
  the one after a loaded file) and of the messages by which the actor loads
  ahead: no handler fails, the files read so far are 1 to \<open>m\<close> in order, each
  once, and every request is answered with the number of steps of its file.
  Once all files are read, a request for file \<open>n + 1\<close>, which a simulation
  longer than its forcing makes, indexes outside the vector.
\<close>

theorem forcing_files_read_once:
  assumes "initForcingFiles a0 a1 infos forcingFileContainer = Inr (0, c0)" and "fa_forcing s0 = Some c0"
    and "forcing_run s0 s q rs"
  shows "\<exists>m \<le> length infos. rs = map (\<lambda>i. int i + 1) [0 ..< m] \<and>
    (\<forall>i. may_request s i \<longrightarrow> (\<exists>s' es. on_access_forcing t0 t1 0 i resp s = Inr (s', es) \<and>
       New_Forcing_To resp (nTimeSteps (infos ! nat (i - 1))) i \<in> set es)) \<and>
    (q \<noteq> [] \<longrightarrow> (\<exists>s' es. on_access_forcing_internal t0 t1 0 (hd q) s = Inr (s', es))) \<and>
    (m = length infos \<longrightarrow> on_access_forcing t0 t1 0 (int (length infos) + 1) resp s = Inl Out_Of_Range)"
proof -
  let ?steps = "map nTimeSteps infos"
  from initForcingFiles_prefix [of a0 a1 infos] assms(1)
  have c0: "prefix_loaded 0 c0" "map nTimeSteps (ff_files c0) = ?steps" by auto
  then have "forcing_inv ?steps s0 [] []" using assms(2) unfolding forcing_inv_def by auto
  from forcing_run_inv [OF assms(3) this] have inv: "forcing_inv ?steps s q rs" .
  then obtain m c where c: "fa_forcing s = Some c" "prefix_loaded m c" "map nTimeSteps (ff_files c) = ?steps"
    "rs = map (\<lambda>i. int i + 1) [0 ..< m]" unfolding forcing_inv_def by blast
  have len: "length (ff_files c) = length infos" using c(3) map_eq_imp_length_eq by metis
  have nth: "?steps ! nat (i - 1) = nTimeSteps (infos ! nat (i - 1))" if "may_request s i" for i
    using that c(1) len by (auto simp: may_request_def)
  have "\<exists>s' es. on_access_forcing t0 t1 0 i resp s = Inr (s', es) \<and>
      New_Forcing_To resp (nTimeSteps (infos ! nat (i - 1))) i \<in> set es" if "may_request s i" for i
    using request_step [OF inv that, of t0 t1 resp] nth [OF that] by auto
  moreover have "\<exists>s' es. on_access_forcing_internal t0 t1 0 (hd q) s = Inr (s', es)" if "q \<noteq> []"
    using ahead_step [of ?steps s "hd q" "tl q" rs t0 t1] inv that by auto
  moreover have "on_access_forcing t0 t1 0 (int (length infos) + 1) resp s = Inl Out_Of_Range"
    if "m = length infos"
    using c(1,2) len that by (simp add: on_access_forcing_def with_forcing_def prefix_loaded_def
        allFilesLoaded_def getNumSteps_def vec_at_def)
  ultimately show ?thesis using c(2,4) len
    by (intro exI [of _ m]) (simp add: prefix_loaded_def)
qed

definition demo_files :: "file_info list" where
  "demo_files = [fileInfo\<lparr>nTimeSteps := 24\<rparr>, fileInfo\<lparr>nTimeSteps := 12\<rparr>]"

lemma forcing_files_read_once_witness:
  "\<exists>c0 s q. initForcingFiles 0 1 demo_files forcingFileContainer = Inr (0, c0) \<and>
     forcing_run ((FileAccessActor demo_info FileAccessActorSettings_default)\<lparr>fa_forcing := Some c0\<rparr>) s q [1] \<and>
     q = [2] \<and> (\<exists>s' es. on_access_forcing_internal 4 5 0 2 s = Inr (s', es))"
proof -
  from initForcingFiles_prefix [of 0 1 demo_files] obtain c0 where
    c0: "initForcingFiles 0 1 demo_files forcingFileContainer = Inr (0, c0)" "prefix_loaded 0 c0"
      "map nTimeSteps (ff_files c0) = [24, 12]" by (auto simp: demo_files_def)
  let ?s0 = "(FileAccessActor demo_info FileAccessActorSettings_default)\<lparr>fa_forcing := Some c0\<rparr>"
  have len: "length (ff_files c0) = 2" using arg_cong [OF c0(3), of length] by simp
  then have m1: "may_request ?s0 1" using c0(2) by (simp add: may_request_def prefix_loaded_def)
  have nl: "\<not> allFilesLoaded c0" using c0(2) len by (simp add: allFilesLoaded_def prefix_loaded_def)
  from loadForcingFile_next [OF c0(2), of 2 3] len obtain c1 where
    c1: "loadForcingFile 2 3 0 1 c0 = Inr (0, c1, [1])" "map nTimeSteps (ff_files c1) = [24, 12]"
    unfolding c0(3) by auto
  have len1: "length (ff_files c1) = 2" using arg_cong [OF c1(2), of length] by simp
  have "getNumSteps 1 c1 = Inr 24" using getNumSteps_ok [of 1 c1] len1 c1(2) by simp
  then have h: "on_access_forcing 2 3 0 1 7 ?s0 = Inr (?s0\<lparr>fa_forcing := Some c1\<rparr>,
      [Read_Forcing 1 (fa_start_gru ?s0) (fa_num_gru ?s0), Internal_Forcing 2, New_Forcing_To 7 24 1])"
    using nl c1(1) by (simp add: on_access_forcing_def with_forcing_def Let_def)
  note run = forcing_run.request [OF forcing_run.start m1 h, simplified]
  have "fa_forcing ?s0 = Some c0" by simp
  from forcing_files_read_once [OF c0(1) this run, of 4 5 7] run c0(1) show ?thesis by auto
qed

text \<open>
  C34. Restart files wait for the slowest HRU.  For any sequence of reports about
  existing indices no report fails, the completed checkpoint never decreases,
  and grows whenever a restart file is written; and as long as one entry of
  the vector stays at or below the completed checkpoint no restart file is
  written at all.  The vector has one entry per HRU while reports carry GRU
  indices, so with more HRUs than GRUs the last entries stay 0 for ever.
\<close>

theorem restart_waits_for_slowest:
  assumes "fa_buffer s = Some b"
    and "\<forall>r \<in> set rs. 1 \<le> fst r \<and> fst r \<le> int (length (fa_hru_timesteps s))"
  shows "\<exists>s' es. restart_run rs s = Inr (s', es) \<and> completed_checkpoints s \<le> completed_checkpoints s' \<and>
    (es \<noteq> [] \<longrightarrow> completed_checkpoints s < completed_checkpoints s') \<and>
    ((\<exists>j < length (fa_hru_timesteps s). fa_hru_timesteps s ! j \<le> completed_checkpoints s \<and>
       (\<forall>r \<in> set rs. fst r = int j + 1 \<longrightarrow> fst (snd r) \<le> completed_checkpoints s)) \<longrightarrow> es = [])"
  using assms by (rule restart_run_ok)

text \<open>One GRU with two HRUs: its reports never lead to a restart file.\<close>

lemma restart_waits_for_slowest_witness:
  "\<exists>b s' es. OutputBuffer FileAccessActorSettings_default (demo_info\<lparr>num_gru_local := 1\<rparr>) 2 10 = Inr b \<and>
     restart_run [(1, 5, 1, 2020, 1, 1, 0), (1, 9, 1, 2020, 1, 2, 0)]
       ((FileAccessActor demo_info FileAccessActorSettings_default)\<lparr>fa_buffer := Some b,
         fa_hru_timesteps := [0, 0]\<rparr>) = Inr (s', es) \<and> es = []"
proof -
  obtain b where b: "OutputBuffer FileAccessActorSettings_default (demo_info\<lparr>num_gru_local := 1\<rparr>) 2 10 = Inr b"
    by (simp add: OutputBuffer_def FileAccessActorSettings_default_def cpp_div_def cpp_mod_def)
  let ?s = "(FileAccessActor demo_info FileAccessActorSettings_default)\<lparr>fa_buffer := Some b,
      fa_hru_timesteps := [0, 0]\<rparr>"
  have "completed_checkpoints ?s = 1" by (simp add: FileAccessActor_def)
  with b restart_waits_for_slowest [of ?s b "[(1, 5, 1, 2020, 1, 1, 0), (1, 9, 1, 2020, 1, 2, 0)]"]
  show ?thesis by (auto intro: exI [of _ 1])
qed

end
