(* ===== verification/Gru_Actor.thy ===== *)
theory Gru_Actor
  imports Clients Settings
begin

text \<open>
  The GRU actor (\<^verbatim>\<open>gru_actor.hpp\<close>, \<^verbatim>\<open>gru_actor.cpp\<close>) and the batch of GRU actors
  (\<^verbatim>\<open>gru_batch_actor.hpp\<close>, \<^verbatim>\<open>gru_batch_actor.cpp\<close>).  What the Fortran model
  returns for a timestep is given by a function of the timestep; its calls and
  the messages to other actors are effects.
\<close>

subsection \<open>State\<close>

record date =
  dt_y :: int
  dt_m :: int
  dt_d :: int
  dt_h :: int

definition RESTART_NEVER :: int where "RESTART_NEVER = 0"
definition RESTART_EVERY :: int where "RESTART_EVERY = 1"
definition RESTART_DAILY :: int where "RESTART_DAILY = 2"
definition RESTART_MONTHLY :: int where "RESTART_MONTHLY = 3"
definition RESTART_YEARLY :: int where "RESTART_YEARLY = 4"

datatype gru_mode = Gru_Init | Gru_Async | Gru_DA | Gru_Stopped

record gru_actor =
  ga_netcdf_index :: int
  ga_job_index :: int
  ga_hru_settings :: HRUActorSettings
  ga_tol :: ToleranceSettings
  ga_num_steps_output_buffer :: int
  ga_restart :: int
  ga_dt_init_factor :: int
  num_steps_until_write :: int
  ga_num_steps :: int
  ga_timestep :: int
  ga_iFile :: int
  stepsInCurrentFFile :: int
  forcingStep :: int
  ga_output_step :: int
  ga_da_mode :: bool
  current_time :: date
  start_time :: date
  ga_mode :: gru_mode

definition parse_restart :: "string \<Rightarrow> int" where
  "parse_restart r =
     (if r = ''never'' then RESTART_NEVER
      else if r = ''e'' then RESTART_EVERY
      else if r = ''d'' then RESTART_DAILY
      else if r = ''m'' then RESTART_MONTHLY
      else if r = ''y'' then RESTART_YEARLY
      else RESTART_NEVER)"

text \<open>The constructor leaves the write and forcing counters uninitialised; the last
  two arguments stand for what is found there.\<close>

definition GruActor ::
  "int \<Rightarrow> int \<Rightarrow> int \<Rightarrow> HRUActorSettings \<Rightarrow> bool \<Rightarrow> int \<Rightarrow> string \<Rightarrow> ToleranceSettings \<Rightarrow> int \<Rightarrow> int \<Rightarrow> gru_actor" where
  "GruActor netcdf job steps hs da nout restart tol u1 u2 =
     \<lparr>ga_netcdf_index = netcdf, ga_job_index = job, ga_hru_settings = hs, ga_tol = tol,
      ga_num_steps_output_buffer = nout, ga_restart = parse_restart restart, ga_dt_init_factor = 1,
      num_steps_until_write = u1, ga_num_steps = steps, ga_timestep = 1, ga_iFile = 1,
      stepsInCurrentFFile = u2, forcingStep = 1, ga_output_step = 1, ga_da_mode = da,
      current_time = \<lparr>dt_y = 0, dt_m = 0, dt_d = 0, dt_h = 0\<rparr>,
      start_time = \<lparr>dt_y = - 1, dt_m = - 1, dt_d = - 1, dt_h = - 1\<rparr>, ga_mode = Gru_Init\<rparr>"

datatype gru_effect =
    F_InitGru int int
  | F_SetupGru int
  | F_ReadGruRestart int
  | F_SetGruTolerances ToleranceSettings
  | F_SetTimeZoneOffset int
  | F_ReadForcing int int int int          \<comment> \<open>job index, timestep, forcing step, file\<close>
  | F_RunGru int int int                   \<comment> \<open>job index, timestep, step factor\<close>
  | F_WriteGruOutput int int int           \<comment> \<open>job index, timestep, output step\<close>
  | Ask_Num_Output_Steps int
  | Ask_Forcing int
  | Ask_Write_Output int
  | Send_Restart int int int date
  | Send_Restart_DA int int int date
  | Self_Run_Hru
  | Self_Done_Hru
  | Parent_Done_Hru int
  | Parent_Done_Update
  | Parent_Error int int int string
  | Quit_Gru

text \<open>What the three Fortran calls of a timestep return.\<close>

record gru_step =
  gs_read_err :: int
  gs_read_msg :: string
  gs_run_err :: int
  gs_run_msg :: string
  gs_write_err :: int
  gs_write_msg :: string
  gs_date :: date

subsection \<open>Checkpoints and errors\<close>

definition isCheckpoint :: "gru_actor \<Rightarrow> bool" where
  "isCheckpoint s =
     (let a = start_time s; b = current_time s
      in if ga_restart s = RESTART_NEVER then False
         else if ga_restart s = RESTART_EVERY then True
         else if ga_restart s = RESTART_DAILY then dt_h a = dt_h b
         else if ga_restart s = RESTART_MONTHLY then dt_d a = dt_d b \<and> dt_h a = dt_h b
         else if ga_restart s = RESTART_YEARLY then dt_m a = dt_m b \<and> dt_d a = dt_d b \<and> dt_h a = dt_h b
         else False)"

definition handleErr :: "int \<Rightarrow> string \<Rightarrow> gru_actor \<Rightarrow> gru_actor \<times> gru_effect list" where
  "handleErr err msg s =
     (s\<lparr>ga_mode := Gru_Stopped\<rparr>, [Parent_Error (ga_job_index s) (ga_timestep s) err msg, Quit_Gru])"

subsection \<open>Start\<close>

definition gru_make_behavior :: "int \<Rightarrow> int \<Rightarrow> int \<Rightarrow> gru_actor \<Rightarrow> gru_actor \<times> gru_effect list" where
  "gru_make_behavior init_err setup_err restart_err s =
     (let job = ga_job_index s;
          i = F_InitGru job (ga_num_steps_output_buffer s);
          stopped = s\<lparr>ga_mode := Gru_Stopped\<rparr>
      in if init_err \<noteq> 0 then (stopped, [i, Quit_Gru])
         else if setup_err \<noteq> 0 then (stopped, [i, F_SetupGru job, Quit_Gru])
         else if restart_err \<noteq> 0 then (stopped, [i, F_SetupGru job, F_ReadGruRestart job, Quit_Gru])
         else (s\<lparr>ga_mode := (if ga_da_mode s then Gru_DA else Gru_Async)\<rparr>,
               [i, F_SetupGru job, F_ReadGruRestart job, F_SetGruTolerances (ga_tol s)]))"

subsection \<open>Asynchronous mode\<close>

text \<open>One iteration of the loop of \<^verbatim>\<open>run_hru\<close> after the forcing check: the result says
  whether the loop goes on, was left by \<^verbatim>\<open>break\<close>, or the handler returned.\<close>

datatype loop_exit = Next | Break | Return

definition run_timestep :: "gru_step \<Rightarrow> gru_actor \<Rightarrow> gru_actor \<times> gru_effect list \<times> loop_exit" where
  "run_timestep f s0 =
     (let s = s0\<lparr>num_steps_until_write := num_steps_until_write s0 - 1\<rparr>;
          job = ga_job_index s; t = ga_timestep s;
          rd = F_ReadForcing job t (forcingStep s) (ga_iFile s);
          run = F_RunGru job t (ga_dt_init_factor s);
          wr = F_WriteGruOutput job t (ga_output_step s)
      in if gs_read_err f \<noteq> 0
         then (case handleErr (gs_read_err f) (gs_read_msg f) s of (s', es) \<Rightarrow> (s', rd # es, Return))
         else if gs_run_err f \<noteq> 0
         then (case handleErr (gs_run_err f) (gs_run_msg f) s of (s', es) \<Rightarrow> (s', rd # run # es, Return))
         else if gs_write_err f \<noteq> 0
         then (case handleErr (gs_write_err f) (gs_write_msg f) s of (s', es) \<Rightarrow> (s', rd # run # wr # es, Return))
         else
           (let s1 = (if t = 1 then s\<lparr>start_time := gs_date f\<rparr> else s);
                s2 = s1\<lparr>ga_timestep := t + 1, forcingStep := forcingStep s + 1,
                        ga_output_step := ga_output_step s + 1\<rparr>
            in if ga_timestep s2 > ga_num_steps s2 then (s2, [rd, run, wr, Self_Done_Hru], Break)
               else (let s3 = s2\<lparr>current_time := gs_date f\<rparr>
                     in (s3, [rd, run, wr] @
                             (if isCheckpoint s3
                              then [Send_Restart job (ga_timestep s3) (ga_output_step s3) (current_time s3)]
                              else []), Next))))"

lemma run_timestep_until: "num_steps_until_write (fst (run_timestep f s)) = num_steps_until_write s - 1"
  by (simp add: run_timestep_def Let_def handleErr_def)

function run_loop ::
  "(int \<Rightarrow> gru_step) \<Rightarrow> gru_actor \<Rightarrow> (gru_actor \<times> gru_effect list \<times> bool) res" where
  "run_loop fort s =
     (if num_steps_until_write s > 0
      then if forcingStep s > stepsInCurrentFFile s
           then Inr (s, [Ask_Forcing (ga_iFile s + 1)], False)
           else (case (if print_output (ga_hru_settings s)
                       then cpp_mod (ga_timestep s) (output_frequency (ga_hru_settings s)) else Inr 0) of
                   Inl e \<Rightarrow> Inl e
                 | Inr _ \<Rightarrow>
                     (let r = run_timestep (fort (ga_timestep s)) s
                      in (case snd (snd r) of
                            Return \<Rightarrow> Inr (fst r, fst (snd r), True)
                          | Break \<Rightarrow> Inr (fst r, fst (snd r), False)
                          | Next \<Rightarrow>
                              (case run_loop fort (fst r) of
                                 Inl e \<Rightarrow> Inl e
                               | Inr (s', es, ret) \<Rightarrow> Inr (s', fst (snd r) @ es, ret)))))
      else Inr (s, [], False))"
  by pat_completeness auto
termination
  by (relation "measure (\<lambda>(fort, s). nat (num_steps_until_write s))") (auto simp: run_timestep_until)

declare run_loop.simps [simp del]

datatype gru_in =
    In_Update_Hru_Async
  | In_Num_Output_Steps int                \<comment> \<open>the reply of the file access actor\<close>
  | In_New_Forcing_File int int int        \<comment> \<open>error of the time zone routine, steps, file\<close>
  | In_Num_Steps_Before_Write int
  | In_Run_Hru
  | In_Done_Hru

definition on_run_hru :: "(int \<Rightarrow> gru_step) \<Rightarrow> gru_actor \<Rightarrow> (gru_actor \<times> gru_effect list) res" where
  "on_run_hru fort s =
     res_bind (run_loop fort s) (\<lambda>(s', es, ret).
       if ret then Inr (s', es)
       else Inr (s', es @ (if num_steps_until_write s' \<le> 0 then [Ask_Write_Output (ga_job_index s')] else [])))"

definition gru_async_receive ::
  "(int \<Rightarrow> gru_step) \<Rightarrow> gru_in \<Rightarrow> gru_actor \<Rightarrow> (gru_actor \<times> gru_effect list) res" where
  "gru_async_receive fort m s =
     (case m of
        In_Update_Hru_Async \<Rightarrow> Inr (s, [Ask_Num_Output_Steps (ga_job_index s)])
      | In_Num_Output_Steps n \<Rightarrow> Inr (s\<lparr>num_steps_until_write := n\<rparr>, [Ask_Forcing (ga_iFile s)])
      | In_New_Forcing_File err n i \<Rightarrow>
          (let s1 = s\<lparr>ga_iFile := i, stepsInCurrentFFile := n\<rparr>
           in if err \<noteq> 0 then Inr (s1\<lparr>ga_mode := Gru_Stopped\<rparr>, [F_SetTimeZoneOffset i, Quit_Gru])
              else Inr (s1\<lparr>forcingStep := 1\<rparr>, [F_SetTimeZoneOffset i, Self_Run_Hru]))
      | In_Num_Steps_Before_Write n \<Rightarrow> Inr (s\<lparr>num_steps_until_write := n, ga_output_step := 1\<rparr>, [])
      | In_Run_Hru \<Rightarrow> on_run_hru fort s
      | In_Done_Hru \<Rightarrow> Inr (s\<lparr>ga_mode := Gru_Stopped\<rparr>, [Parent_Done_Hru (ga_job_index s), Quit_Gru]))"

subsection \<open>Data assimilation mode\<close>

definition gru_da_timezone :: "int \<Rightarrow> string \<Rightarrow> int \<Rightarrow> gru_actor \<Rightarrow> gru_actor \<times> gru_effect list" where
  "gru_da_timezone err msg i s =
     (let s1 = s\<lparr>ga_iFile := i\<rparr>
      in if err \<noteq> 0
         then (s1\<lparr>ga_mode := Gru_Stopped\<rparr>,
               [F_SetTimeZoneOffset i, Parent_Error (ga_job_index s) (ga_timestep s) err msg, Quit_Gru])
         else (s1, [F_SetTimeZoneOffset i]))"

text \<open>Errors of the Fortran calls are printed at most; the update is always reported
  as done, and the restart message carries the members \<^verbatim>\<open>timestep_\<close> and
  \<^verbatim>\<open>output_step_\<close>, which this mode never changes.\<close>

definition gru_da_update :: "gru_step \<Rightarrow> int \<Rightarrow> int \<Rightarrow> int \<Rightarrow> gru_actor \<Rightarrow> gru_actor \<times> gru_effect list" where
  "gru_da_update f time_step forcing_step output_step s =
     (let job = ga_job_index s;
          s1 = s\<lparr>current_time := gs_date f\<rparr>;
          a = start_time s1;
          s2 = (if dt_y a = - 1 \<and> dt_m a = - 1 \<and> dt_d a = - 1 \<and> dt_h a = - 1
                then s1\<lparr>start_time := gs_date f\<rparr> else s1)
      in (s2, [F_ReadForcing job time_step forcing_step (ga_iFile s),
               F_RunGru job time_step (ga_dt_init_factor s), F_WriteGruOutput job time_step output_step] @
              (if isCheckpoint s2
               then [Send_Restart_DA job (ga_timestep s2) (ga_output_step s2) (current_time s2)] else []) @
              [Parent_Done_Update]))"

subsection \<open>The batch of GRU actors\<close>

record gru_batch_actor =
  gb_netcdf_start :: int
  gb_job_start :: int
  gb_num_gru :: int
  gb_num_steps :: int
  gb_restart :: string
  gb_hru_settings :: HRUActorSettings
  gb_tol :: ToleranceSettings
  gb_num_steps_output_buffer :: int
  gb_gru_actors :: "actor_id list"
  gb_num_gru_done :: int

datatype gru_batch_effect =
    Spawn_Gru_Actor int int int HRUActorSettings bool int string ToleranceSettings
  | Batch_Timezone_To actor_id int
  | Batch_Update_To actor_id int int int
  | Batch_Done_Parent

datatype gru_batch_in = Bin_Timezone int | Bin_Update int int int | Bin_Done_Update

definition GruBatchActor ::
  "int \<Rightarrow> int \<Rightarrow> int \<Rightarrow> int \<Rightarrow> HRUActorSettings \<Rightarrow> int \<Rightarrow> string \<Rightarrow> ToleranceSettings \<Rightarrow> gru_batch_actor" where
  "GruBatchActor netcdf job n steps hs nout restart tol =
     \<lparr>gb_netcdf_start = netcdf, gb_job_start = job, gb_num_gru = n, gb_num_steps = steps,
      gb_restart = restart, gb_hru_settings = hs, gb_tol = tol, gb_num_steps_output_buffer = nout,
      gb_gru_actors = [], gb_num_gru_done = 0\<rparr>"

text \<open>\<open>ref\<close> gives the handle of the actor spawned for a job index.\<close>

definition batch_make_behavior ::
  "(int \<Rightarrow> actor_id) \<Rightarrow> gru_batch_actor \<Rightarrow> gru_batch_actor \<times> gru_batch_effect list" where
  "batch_make_behavior ref b =
     (let is = [0 .. gb_num_gru b - 1]
      in (b\<lparr>gb_gru_actors := gb_gru_actors b @ map (\<lambda>i. ref (gb_job_start b + i)) is\<rparr>,
          map (\<lambda>i. Spawn_Gru_Actor (gb_netcdf_start b + i) (gb_job_start b + i) (gb_num_steps b)
                 (gb_hru_settings b) True (gb_num_steps_output_buffer b) (gb_restart b) (gb_tol b)) is))"

definition batch_receive :: "gru_batch_in \<Rightarrow> gru_batch_actor \<Rightarrow> gru_batch_actor \<times> gru_batch_effect list" where
  "batch_receive m b =
     (case m of
        Bin_Timezone i \<Rightarrow> (b, map (\<lambda>a. Batch_Timezone_To a i) (gb_gru_actors b))
      | Bin_Update t f out \<Rightarrow> (b, map (\<lambda>a. Batch_Update_To a t f out) (gb_gru_actors b))
      | Bin_Done_Update \<Rightarrow>
          (let n = gb_num_gru_done b + 1
           in if n \<ge> int (length (gb_gru_actors b))
              then (b\<lparr>gb_num_gru_done := 0\<rparr>, [Batch_Done_Parent])
              else (b\<lparr>gb_num_gru_done := n\<rparr>, [])))"

subsection \<open>Lemmas\<close>

text \<open>The Fortran calls of a run, and what remains of its effects for the control flow.\<close>

definition reads_done :: "gru_effect list \<Rightarrow> (int \<times> int \<times> int) list" where
  "reads_done es = concat (map (\<lambda>e. case e of F_ReadForcing job t f i \<Rightarrow> [(t, i, f)] | _ \<Rightarrow> []) es)"

definition runs_done :: "gru_effect list \<Rightarrow> int list" where
  "runs_done es = concat (map (\<lambda>e. case e of F_RunGru job t d \<Rightarrow> [t] | _ \<Rightarrow> []) es)"

definition outputs_done :: "gru_effect list \<Rightarrow> (int \<times> int) list" where
  "outputs_done es = concat (map (\<lambda>e. case e of F_WriteGruOutput job t k \<Rightarrow> [(t, k)] | _ \<Rightarrow> []) es)"

fun is_control :: "gru_effect \<Rightarrow> bool" where
  "is_control (Ask_Num_Output_Steps j) = True"
| "is_control (Ask_Forcing i) = True"
| "is_control (Ask_Write_Output j) = True"
| "is_control Self_Run_Hru = True"
| "is_control Self_Done_Hru = True"
| "is_control (Parent_Done_Hru j) = True"
| "is_control Quit_Gru = True"
| "is_control (Parent_Error j t e m) = True"
| "is_control e = False"

lemma done_simps [simp]:
  "reads_done [] = []" "runs_done [] = []" "outputs_done [] = []"
  "reads_done (xs @ ys) = reads_done xs @ reads_done ys" "runs_done (xs @ ys) = runs_done xs @ runs_done ys"
  "outputs_done (xs @ ys) = outputs_done xs @ outputs_done ys"
  by (simp_all add: reads_done_def runs_done_def outputs_done_def)

definition good_step :: "gru_step \<Rightarrow> bool" where
  "good_step f \<longleftrightarrow> gs_read_err f = 0 \<and> gs_run_err f = 0 \<and> gs_write_err f = 0"

definition prints_ok :: "gru_actor \<Rightarrow> bool" where
  "prints_ok s \<longleftrightarrow> (print_output (ga_hru_settings s) \<longrightarrow> output_frequency (ga_hru_settings s) \<noteq> 0)"

text \<open>The state after \<open>k\<close> timesteps, up to the dates.\<close>

definition advanced :: "int \<Rightarrow> gru_actor \<Rightarrow> gru_actor \<Rightarrow> bool" where
  "advanced k s s' \<longleftrightarrow> s'\<lparr>start_time := start_time s, current_time := current_time s\<rparr> =
     s\<lparr>num_steps_until_write := num_steps_until_write s - k, ga_timestep := ga_timestep s + k,
       forcingStep := forcingStep s + k, ga_output_step := ga_output_step s + k\<rparr>"

lemma advanced_fields:
  assumes "advanced k s s'"
  shows "num_steps_until_write s' = num_steps_until_write s - k" "ga_timestep s' = ga_timestep s + k"
    "forcingStep s' = forcingStep s + k" "ga_output_step s' = ga_output_step s + k" "ga_iFile s' = ga_iFile s"
    "stepsInCurrentFFile s' = stepsInCurrentFFile s" "ga_num_steps s' = ga_num_steps s"
    "ga_job_index s' = ga_job_index s" "ga_mode s' = ga_mode s" "prints_ok s' = prints_ok s"
  using assms by (cases s; cases s'; simp add: advanced_def prints_ok_def)+

lemma advanced_refl: "advanced 0 s s"
  by (cases s) (simp add: advanced_def)

lemma advanced_trans: "advanced k s s1 \<Longrightarrow> advanced m s1 s2 \<Longrightarrow> advanced (k + m) s s2"
  by (cases s; cases s1; cases s2) (simp add: advanced_def)

lemma run_timestep_good:
  assumes "good_step f"
  shows "\<exists>s' es. run_timestep f s = (s', es, if ga_timestep s < ga_num_steps s then Next else Break) \<and>
    advanced 1 s s' \<and> reads_done es = [(ga_timestep s, ga_iFile s, forcingStep s)] \<and>
    runs_done es = [ga_timestep s] \<and> outputs_done es = [(ga_timestep s, ga_output_step s)] \<and>
    filter is_control es = (if ga_timestep s < ga_num_steps s then [] else [Self_Done_Hru])"
  using assms by (cases s)
    (auto simp: run_timestep_def Let_def good_step_def reads_done_def runs_done_def outputs_done_def advanced_def)

text \<open>How many timesteps a run computes, and how it ends.\<close>

definition steps_left :: "gru_actor \<Rightarrow> int" where
  "steps_left s = ga_num_steps s - ga_timestep s + 1"

definition run_length :: "gru_actor \<Rightarrow> int" where
  "run_length s = min (num_steps_until_write s) (min (stepsInCurrentFFile s - forcingStep s + 1) (steps_left s))"

definition run_control :: "gru_actor \<Rightarrow> gru_effect list" where
  "run_control s =
     (if run_length s = steps_left s then [Self_Done_Hru]
      else if run_length s = num_steps_until_write s then [] else [Ask_Forcing (ga_iFile s + 1)])"

definition runnable :: "gru_actor \<Rightarrow> bool" where
  "runnable s \<longleftrightarrow> prints_ok s \<and> 0 \<le> num_steps_until_write s \<and>
     forcingStep s \<le> stepsInCurrentFFile s + 1 \<and> 0 < steps_left s"

text \<open>What a run has computed when it returns to its mailbox.\<close>

definition run_computed :: "gru_actor \<Rightarrow> gru_actor \<Rightarrow> gru_effect list \<Rightarrow> bool" where
  "run_computed s s' es \<longleftrightarrow> advanced (run_length s) s s' \<and>
     reads_done es = map (\<lambda>j. (ga_timestep s + j, ga_iFile s, forcingStep s + j)) [0 .. run_length s - 1] \<and>
     runs_done es = map (\<lambda>j. ga_timestep s + j) [0 .. run_length s - 1] \<and>
     outputs_done es = map (\<lambda>j. (ga_timestep s + j, ga_output_step s + j)) [0 .. run_length s - 1] \<and>
     filter is_control es = run_control s"

lemma upto_from_0:
  fixes n :: int
  assumes "0 \<le> n"
  shows "[0 .. n] = 0 # map ((+) 1) [0 .. n - 1]"
proof -
  have "[0 .. n] = 0 # [1 .. n]" using assms by (subst upto.simps) simp
  moreover have "[1 .. n] = map ((+) 1) [0 .. n - 1]" using upto_shift [of 0 "n - 1"] by simp
  ultimately show ?thesis by simp
qed

text \<open>A good timestep in front of such a run.\<close>

lemma run_computed_Cons:
  assumes c: "run_computed s1 s2 es2" and r: "run_timestep f s = (s1, es1, Next)" and f: "good_step f" and ok: "runnable s"
    and more: "ga_timestep s < ga_num_steps s" "0 < num_steps_until_write s" "forcingStep s \<le> stepsInCurrentFFile s"
  shows "run_computed s s2 (es1 @ es2)"
proof -
  from run_timestep_good [OF f, of s] r more(1) have
    g: "advanced 1 s s1" "reads_done es1 = [(ga_timestep s, ga_iFile s, forcingStep s)]" "runs_done es1 = [ga_timestep s]"
      "outputs_done es1 = [(ga_timestep s, ga_output_step s)]" "filter is_control es1 = []" by auto
  note adv = advanced_fields [OF g(1)]
  have len: "run_length s = run_length s1 + 1" "0 \<le> run_length s1"
    using adv more ok by (auto simp: run_length_def steps_left_def runnable_def)
  have "run_control s1 = run_control s" using adv len by (auto simp: run_control_def steps_left_def)
  moreover have "advanced (run_length s) s s2"
    using advanced_trans [OF g(1), of "run_length s1" s2] c len(1) by (simp add: run_computed_def add.commute)
  moreover have "[0 .. run_length s - 1] = 0 # map ((+) 1) [0 .. run_length s1 - 1]"
    using len upto_from_0 [of "run_length s1"] by simp
  ultimately show ?thesis
    using c g(2-5) adv by (simp add: run_computed_def add.assoc)
qed

lemma run_loop_computes:
  "runnable s \<Longrightarrow> \<forall>t. good_step (fort t) \<Longrightarrow>
   \<exists>s' es. run_loop fort s = Inr (s', es, False) \<and> run_computed s s' es"
proof (induction fort s rule: run_loop.induct)
  case (1 fort s)
  note ok = 1(2) [unfolded runnable_def]
  consider (full) "num_steps_until_write s = 0"
    | (dry) "0 < num_steps_until_write s" "stepsInCurrentFFile s < forcingStep s"
    | (step) "0 < num_steps_until_write s" "forcingStep s \<le> stepsInCurrentFFile s"
    using ok by linarith
  then show ?case
  proof cases
    case full
    then have "run_loop fort s = Inr (s, [], False)" by (subst run_loop.simps) simp
    moreover have "run_length s = 0" "run_control s = []"
      using full ok by (auto simp: run_length_def run_control_def)
    ultimately show ?thesis using advanced_refl [of s] by (simp add: run_computed_def)
  next
    case dry
    then have "run_loop fort s = Inr (s, [Ask_Forcing (ga_iFile s + 1)], False)"
      by (subst run_loop.simps) simp
    moreover have "run_length s = 0" "run_control s = [Ask_Forcing (ga_iFile s + 1)]"
      using dry ok by (auto simp: run_length_def run_control_def)
    ultimately show ?thesis using advanced_refl [of s]
      by (simp add: run_computed_def reads_done_def runs_done_def outputs_done_def)
  next
    case step
    let ?f = "fort (ga_timestep s)" and ?last = "\<not> ga_timestep s < ga_num_steps s"
    obtain v where pr: "(if print_output (ga_hru_settings s)
        then cpp_mod (ga_timestep s) (output_frequency (ga_hru_settings s)) else Inr 0) = Inr v"
      using ok by (cases "print_output (ga_hru_settings s)") (auto simp: prints_ok_def cpp_mod_def)
    have f: "good_step ?f" using 1(3) by blast
    from run_timestep_good [OF this, of s] obtain s1 es1 where
      r: "run_timestep ?f s = (s1, es1, if ?last then Break else Next)" "advanced 1 s s1"
        "reads_done es1 = [(ga_timestep s, ga_iFile s, forcingStep s)]" "runs_done es1 = [ga_timestep s]"
        "outputs_done es1 = [(ga_timestep s, ga_output_step s)]"
        "filter is_control es1 = (if ?last then [Self_Done_Hru] else [])" by auto
    show ?thesis
    proof (cases ?last)
      case True
      then have "run_loop fort s = Inr (s1, es1, False)"
        using step pr r(1) by (subst run_loop.simps) simp
      moreover have "run_length s = 1" "steps_left s = 1"
        using True ok step by (auto simp: run_length_def steps_left_def)
      ultimately show ?thesis using r(2-6) True by (simp add: run_computed_def run_control_def)
    next
      case False
      then have n: "run_timestep ?f s = (s1, es1, Next)" using r(1) by simp
      have run1: "runnable s1"
        using ok advanced_fields [OF r(2)] step False by (auto simp: runnable_def steps_left_def)
      from 1(1) [OF step(1) _ pr refl] step(2) n run1 1(3) obtain s2 es2 where
        IH: "run_loop fort s1 = Inr (s2, es2, False)" "run_computed s1 s2 es2" by auto
      have "run_loop fort s = Inr (s2, es1 @ es2, False)"
        using step pr n IH(1) by (subst run_loop.simps) simp
      with run_computed_Cons [OF IH(2) n f 1(2)] False step show ?thesis by simp
    qed
  qed
qed

lemma batch_done_step:
  assumes "gb_gru_actors b \<noteq> []" and "gb_num_gru_done b = int k" and "k < length (gb_gru_actors b)"
  shows "fst (batch_receive Bin_Done_Update b) =
      b\<lparr>gb_num_gru_done := int (Suc k mod length (gb_gru_actors b))\<rparr>"
    "length (snd (batch_receive Bin_Done_Update b)) = (if Suc k = length (gb_gru_actors b) then 1 else 0)"
proof -
  have "Suc k mod length (gb_gru_actors b) = (if Suc k = length (gb_gru_actors b) then 0 else Suc k)"
    using assms(3) by simp
  with assms show "fst (batch_receive Bin_Done_Update b) =
      b\<lparr>gb_num_gru_done := int (Suc k mod length (gb_gru_actors b))\<rparr>"
    by (simp add: batch_receive_def Let_def)
qed (use assms in \<open>simp add: batch_receive_def Let_def\<close>)

subsection \<open>Properties\<close>

text \<open>
  C16. One \<^verbatim>\<open>run_hru\<close> message.  If the Fortran calls succeed, the handler computes
  exactly as many timesteps as the output buffer, the forcing file and the
  simulation allow, in order and each with its forcing step and output slot;
  it then ends in the way that fits: the simulation is over, or the forcing
  file is exhausted and the next one is requested, or nothing but the request
  to write remains.  A write is requested exactly when the buffer is full.
\<close>

theorem run_hru_computes:
  assumes "runnable s" and "\<forall>t. good_step (fort t)"
  shows "\<exists>s' es. on_run_hru fort s = Inr (s', es) \<and> advanced (run_length s) s s' \<and>
    reads_done es = map (\<lambda>j. (ga_timestep s + j, ga_iFile s, forcingStep s + j)) [0 .. run_length s - 1] \<and>
    runs_done es = map (\<lambda>j. ga_timestep s + j) [0 .. run_length s - 1] \<and>
    outputs_done es = map (\<lambda>j. (ga_timestep s + j, ga_output_step s + j)) [0 .. run_length s - 1] \<and>
    filter is_control es = run_control s @
      (if run_length s = num_steps_until_write s then [Ask_Write_Output (ga_job_index s)] else [])"
proof -
  from run_loop_computes [OF assms] obtain s' es where
    r: "run_loop fort s = Inr (s', es, False)" "advanced (run_length s) s s'"
      "reads_done es = map (\<lambda>j. (ga_timestep s + j, ga_iFile s, forcingStep s + j)) [0 .. run_length s - 1]"
      "runs_done es = map (\<lambda>j. ga_timestep s + j) [0 .. run_length s - 1]"
      "outputs_done es = map (\<lambda>j. (ga_timestep s + j, ga_output_step s + j)) [0 .. run_length s - 1]"
      "filter is_control es = run_control s" unfolding run_computed_def by blast
  have "num_steps_until_write s' \<le> 0 \<longleftrightarrow> run_length s = num_steps_until_write s"
    using advanced_fields(1) [OF r(2)] by (auto simp: run_length_def)
  with r advanced_fields(8) [OF r(2)] show ?thesis
    by (auto simp: on_run_hru_def reads_done_def runs_done_def outputs_done_def)
qed

definition demo_step :: "int \<Rightarrow> gru_step" where
  "demo_step t = \<lparr>gs_read_err = 0, gs_read_msg = [], gs_run_err = 0, gs_run_msg = [], gs_write_err = 0,
     gs_write_msg = [], gs_date = \<lparr>dt_y = 2020, dt_m = 1, dt_d = 1 + t div 24, dt_h = t mod 24\<rparr>\<rparr>"

definition demo_gru :: gru_actor where
  "demo_gru = GruActor 5 1 10 HRUActorSettings_default False 4 ''d'' ToleranceSettings_default 4 3"

lemma run_hru_computes_witness:
  "\<exists>s' es. on_run_hru demo_step demo_gru = Inr (s', es) \<and> runs_done es = [1, 2, 3] \<and>
     filter is_control es = [Ask_Forcing 2]"
proof -
  have "\<forall>t. good_step (demo_step t)" by (simp add: good_step_def demo_step_def)
  moreover have "runnable demo_gru" "run_length demo_gru = 3" "run_control demo_gru = [Ask_Forcing 2]"
    "num_steps_until_write demo_gru = 4" "ga_timestep demo_gru = 1"
    by (simp_all add: runnable_def run_length_def run_control_def steps_left_def prints_ok_def demo_gru_def
        GruActor_def HRUActorSettings_default_def)
  moreover have "[0 .. 2] = [0, 1, 2 :: int]" by (simp add: upto.simps)
  ultimately show ?thesis using run_hru_computes [of demo_gru demo_step] by auto
qed

fun batch_run :: "gru_batch_in list \<Rightarrow> gru_batch_actor \<Rightarrow> gru_batch_actor \<times> gru_batch_effect list" where
  "batch_run [] b = (b, [])"
| "batch_run (m # ms) b =
     (case batch_receive m b of (b1, es) \<Rightarrow> (case batch_run ms b1 of (b2, es') \<Rightarrow> (b2, es @ es')))"

lemma batch_run_snoc:
  "batch_run (ms @ [m]) b =
     (fst (batch_receive m (fst (batch_run ms b))), snd (batch_run ms b) @ snd (batch_receive m (fst (batch_run ms b))))"
  by (induction ms arbitrary: b) (simp_all split: prod.splits)

lemma mod_div_step:
  fixes m n :: nat
  assumes "0 < n"
  shows "Suc m div n = m div n + (if Suc (m mod n) = n then 1 else 0)" "Suc (m mod n) mod n = Suc m mod n"
  using assms by (auto simp: div_Suc mod_Suc)

text \<open>
  C33. The barrier of a batch of GRU actors: after \<open>m\<close> messages
  \<^verbatim>\<open>done_update\<close> the batch has reported to the job \<open>m div n\<close> times, where \<open>n\<close>
  is the number of its GRUs, and the counter is \<open>m mod n\<close>; so it reports once per
  timestep, when the last of its GRUs is done.
\<close>

theorem gru_batch_barrier:
  assumes "0 < n" and "b = fst (batch_make_behavior ref (GruBatchActor netcdf job (int n) steps hs nout restart tol))"
  shows "snd (batch_run (replicate m Bin_Done_Update) b) = replicate (m div n) Batch_Done_Parent \<and>
    gb_num_gru_done (fst (batch_run (replicate m Bin_Done_Update) b)) = int (m mod n)"
proof -
  have len: "length (gb_gru_actors b) = n" "gb_num_gru_done b = 0"
    using assms(2) by (simp_all add: batch_make_behavior_def GruBatchActor_def Let_def)
  have "fst (batch_run (replicate m Bin_Done_Update) b) = b\<lparr>gb_num_gru_done := int (m mod n)\<rparr> \<and>
      snd (batch_run (replicate m Bin_Done_Update) b) = replicate (m div n) Batch_Done_Parent"
  proof (induction m)
    case 0
    then show ?case using len by simp
  next
    case (Suc m)
    let ?b = "b\<lparr>gb_num_gru_done := int (m mod n)\<rparr>"
    have rep: "replicate (Suc m) Bin_Done_Update = replicate m Bin_Done_Update @ [Bin_Done_Update]"
      by (simp add: replicate_append_same)
    have k: "gb_gru_actors ?b \<noteq> []" "gb_num_gru_done ?b = int (m mod n)" "m mod n < length (gb_gru_actors ?b)"
      using len assms(1) by auto
    have es: "snd (batch_receive Bin_Done_Update ?b) =
        (if Suc (m mod n) = n then [Batch_Done_Parent] else [])"
      using k(3) len by (simp add: batch_receive_def Let_def)
    show ?case unfolding rep batch_run_snoc
      using Suc batch_done_step(1) [OF k] es len mod_div_step [OF assms(1), of m]
      by (simp add: replicate_append_same)
  qed
  then show ?thesis by simp
qed

lemma gru_batch_barrier_witness:
  "snd (batch_run (replicate 7 Bin_Done_Update)
     (fst (batch_make_behavior nat (GruBatchActor 5 1 3 10 HRUActorSettings_default 2 ''never''
        ToleranceSettings_default)))) = [Batch_Done_Parent, Batch_Done_Parent]"
  using gru_batch_barrier [of 3 _ nat 5 1 10 HRUActorSettings_default 2 "''never''" ToleranceSettings_default 7, OF _ refl]
  by (simp add: numeral_2_eq_2)

end
