(* ===== verification/Job_System.thy ===== *)
theory Job_System
  imports Job_Async File_Access_Actor Gru_Actor
begin

text \<open>
  A whole job in asynchronous mode: the job actor, the file access actor and the
  GRU actors with their mailboxes.  A step lets one of them handle the first
  message of its mailbox; what it sends is appended to the mailboxes of the
  receivers.  The GRU actor of job index \<open>i\<close> has the handle \<open>nat i\<close>, also when it is
  started again; its mailbox is then empty.  Fortran answers a GRU actor differently
  at every message, errors of a timestep included; the initialisation of a GRU, setting
  its time zone and the reading and writing of files succeed.
\<close>

subsection \<open>State\<close>

datatype fa_msg =
    Fm_Access_Forcing int actor_id
  | Fm_Access_Internal int
  | Fm_Get_Num_Steps int actor_id
  | Fm_Write_Output int actor_id
  | Fm_Write_Restart int int int date      \<comment> \<open>job index, timestep, output step\<close>
  | Fm_Run_Failure int
  | Fm_Restart_Failures
  | Fm_Finalize

record job_sys =
  js_job :: job_actor
  js_fa :: file_access
  js_gru :: "actor_id \<Rightarrow> gru_actor"
  js_job_box :: "job_msg list"
  js_fa_box :: "fa_msg list"
  js_gru_box :: "actor_id \<Rightarrow> gru_in list"
  js_log :: "actor_id \<Rightarrow> gru_effect list"   \<comment> \<open>the effects of a GRU since its last start\<close>
  js_reported :: "int list"                 \<comment> \<open>the failures told to the parent\<close>

definition fa_receive :: "int \<Rightarrow> int \<Rightarrow> fa_msg \<Rightarrow> file_access \<Rightarrow> fa_outcome" where
  "fa_receive t0 t1 m s =
     (case m of
        Fm_Access_Forcing i a \<Rightarrow> on_access_forcing t0 t1 0 i a s
      | Fm_Access_Internal i \<Rightarrow> on_access_forcing_internal t0 t1 0 i s
      | Fm_Get_Num_Steps j a \<Rightarrow> on_get_num_output_steps j s
      | Fm_Write_Output j a \<Rightarrow> on_write_output t0 t1 0 [] j a s
      | Fm_Write_Restart j t out d \<Rightarrow> on_write_restart j t out (dt_y d) (dt_m d) (dt_d d) (dt_h d) s
      | Fm_Run_Failure j \<Rightarrow> on_run_failure t0 t1 0 [] j s
      | Fm_Restart_Failures \<Rightarrow> on_restart_failures_fa s
      | Fm_Finalize \<Rightarrow> on_finalize_fa s)"

subsection \<open>Sending\<close>

abbreviation sent :: "('e \<Rightarrow> 'm list) \<Rightarrow> 'e list \<Rightarrow> 'm list" where
  "sent f es \<equiv> concat (map f es)"

fun gru_to_fa :: "actor_id \<Rightarrow> gru_effect \<Rightarrow> fa_msg list" where
  "gru_to_fa a (Ask_Num_Output_Steps j) = [Fm_Get_Num_Steps j a]"
| "gru_to_fa a (Ask_Forcing i) = [Fm_Access_Forcing i a]"
| "gru_to_fa a (Ask_Write_Output j) = [Fm_Write_Output j a]"
| "gru_to_fa a (Send_Restart j t out d) = [Fm_Write_Restart j t out d]"
| "gru_to_fa a _ = []"

fun gru_to_self :: "gru_effect \<Rightarrow> gru_in list" where
  "gru_to_self Self_Run_Hru = [In_Run_Hru]"
| "gru_to_self Self_Done_Hru = [In_Done_Hru]"
| "gru_to_self _ = []"

fun gru_to_job :: "gru_effect \<Rightarrow> job_msg list" where
  "gru_to_job (Parent_Done_Hru j) = [Done_Hru j]"
| "gru_to_job (Parent_Error j t e msg) = [Gru_Error j t e msg]"
| "gru_to_job _ = []"

text \<open>The reply to a request goes to its sender.\<close>

fun reply_to :: "fa_msg \<Rightarrow> actor_id option" where
  "reply_to (Fm_Get_Num_Steps j a) = Some a"
| "reply_to _ = None"

fun fa_to_gru :: "fa_msg \<Rightarrow> actor_id \<Rightarrow> fa_effect \<Rightarrow> gru_in list" where
  "fa_to_gru m b (New_Forcing_To a n i) = (if a = b then [In_New_Forcing_File 0 n i] else [])"
| "fa_to_gru m b (Steps_Before_Write_To a n) = (if a = b then [In_Num_Steps_Before_Write n] else [])"
| "fa_to_gru m b (Run_Hru_To a) = (if a = b then [In_Run_Hru] else [])"
| "fa_to_gru m b (Reply_Int n) = (if reply_to m = Some b then [In_Num_Output_Steps n] else [])"
| "fa_to_gru m b _ = []"

fun fa_to_self :: "fa_effect \<Rightarrow> fa_msg list" where
  "fa_to_self (Internal_Forcing i) = [Fm_Access_Internal i]"
| "fa_to_self _ = []"

fun fa_to_job :: "int \<Rightarrow> fa_effect \<Rightarrow> job_msg list" where
  "fa_to_job now (Reply_Durations rd wr) = [Finalize_Reply now rd wr]"
| "fa_to_job now (Error_To_Parent e msg) = [Gru_Error 0 0 e msg]"
| "fa_to_job now _ = []"

fun job_to_fa :: "job_effect \<Rightarrow> fa_msg list" where
  "job_to_fa (To_File (Fa_Run_Failure j)) = [Fm_Run_Failure j]"
| "job_to_fa (To_File Fa_Restart_Failures) = [Fm_Restart_Failures]"
| "job_to_fa (To_File Fa_Finalize) = [Fm_Finalize]"
| "job_to_fa _ = []"

fun job_to_gru :: "actor_id \<Rightarrow> job_effect \<Rightarrow> gru_in list" where
  "job_to_gru b (To_Gru a Update_Hru_Async) = (if a = b then [In_Update_Hru_Async] else [])"
| "job_to_gru b _ = []"

fun job_to_self :: "job_effect \<Rightarrow> job_msg list" where
  "job_to_self (To_Self m) = [m]"
| "job_to_self _ = []"

fun job_to_parent :: "job_effect \<Rightarrow> int list" where
  "job_to_parent (To_Parent_Done n d rd wr) = [n]"
| "job_to_parent _ = []"

text \<open>The GRU actor an effect starts; \<open>u1\<close> and \<open>u2\<close> are the values of its uninitialised
  members, its initialisation succeeds.\<close>

fun spawned_gru :: "int \<Rightarrow> int \<Rightarrow> actor_id \<Rightarrow> job_effect \<Rightarrow> gru_actor list" where
  "spawned_gru u1 u2 b (Spawn_Gru netcdf job steps hs da nout restart tol) =
     (if b = nat job
      then [fst (gru_make_behavior 0 0 0 (GruActor netcdf job steps hs da nout restart tol u1 u2))] else [])"
| "spawned_gru u1 u2 b _ = []"

subsection \<open>Steps\<close>

definition gru_handled :: "actor_id \<Rightarrow> gru_in list \<Rightarrow> gru_actor \<Rightarrow> gru_effect list \<Rightarrow> job_sys \<Rightarrow> job_sys" where
  "gru_handled a q s es x = x\<lparr>js_gru := (js_gru x)(a := s),
     js_gru_box := (js_gru_box x)(a := q @ sent gru_to_self es),
     js_fa_box := js_fa_box x @ sent (gru_to_fa a) es, js_job_box := js_job_box x @ sent gru_to_job es,
     js_log := (js_log x)(a := js_log x a @ es)\<rparr>"

definition file_handled :: "int \<Rightarrow> fa_msg \<Rightarrow> fa_msg list \<Rightarrow> file_access \<Rightarrow> fa_effect list \<Rightarrow> job_sys \<Rightarrow> job_sys" where
  "file_handled now m q s es x = x\<lparr>js_fa := s, js_fa_box := q @ sent fa_to_self es,
     js_gru_box := (\<lambda>b. js_gru_box x b @ sent (fa_to_gru m b) es),
     js_job_box := js_job_box x @ sent (fa_to_job now) es\<rparr>"

definition job_handled :: "(actor_id \<Rightarrow> int) \<Rightarrow> (actor_id \<Rightarrow> int) \<Rightarrow> job_msg list \<Rightarrow> job_actor \<Rightarrow> job_effect list \<Rightarrow> job_sys \<Rightarrow> job_sys" where
  "job_handled u1 u2 q s es x = x\<lparr>js_job := s, js_job_box := q @ sent job_to_self es,
     js_fa_box := js_fa_box x @ sent job_to_fa es,
     js_gru := (\<lambda>b. last (js_gru x b # sent (spawned_gru (u1 b) (u2 b) b) es)),
     js_gru_box := (\<lambda>b. (if sent (spawned_gru (u1 b) (u2 b) b) es = [] then js_gru_box x b else []) @
       sent (job_to_gru b) es),
     js_log := (\<lambda>b. if sent (spawned_gru (u1 b) (u2 b) b) es = [] then js_log x b else []),
     js_reported := js_reported x @ sent job_to_parent es\<rparr>"

inductive job_step :: "job_sys \<Rightarrow> job_sys \<Rightarrow> bool" where
  at_gru: "js_gru_box x a = m # q \<Longrightarrow> ga_mode (js_gru x a) \<noteq> Gru_Stopped \<Longrightarrow>
    gru_async_receive fort m (js_gru x a) = Inr (s, es) \<Longrightarrow> job_step x (gru_handled a q s es x)"
| at_fa: "js_fa_box x = m # q \<Longrightarrow> \<not> fa_stopped (js_fa x) \<Longrightarrow>
    fa_receive t0 t1 m (js_fa x) = Inr (s, es) \<Longrightarrow> job_step x (file_handled now m q s es x)"
| at_job: "js_job_box x = m # q \<Longrightarrow> ja_mode (js_job x) \<noteq> Job_Stopped \<Longrightarrow>
    async_receive nat m (js_job x) = Inr (s, es) \<Longrightarrow> job_step x (job_handled u1 u2 q s es x)"

inductive_cases job_stepE: "job_step x y"

text \<open>The handler of some actor leaves the defined behaviour of C++.\<close>

definition job_error :: "job_sys \<Rightarrow> bool" where
  "job_error x \<longleftrightarrow>
     (\<exists>a m q fort e. js_gru_box x a = m # q \<and> ga_mode (js_gru x a) \<noteq> Gru_Stopped \<and>
        gru_async_receive fort m (js_gru x a) = Inl e) \<or>
     (\<exists>m q t0 t1 e. js_fa_box x = m # q \<and> \<not> fa_stopped (js_fa x) \<and> fa_receive t0 t1 m (js_fa x) = Inl e) \<or>
     (\<exists>m q e. js_job_box x = m # q \<and> ja_mode (js_job x) \<noteq> Job_Stopped \<and> async_receive nat m (js_job x) = Inl e)"

text \<open>The job actor is about to double the number of BE steps beyond \<^const>\<open>INT_MAX\<close>.\<close>

definition be_overflow :: "job_sys \<Rightarrow> bool" where
  "be_overflow x \<longleftrightarrow> (\<exists>q. js_job_box x = Restart_Failures # q) \<and> ja_mode (js_job x) \<noteq> Job_Stopped \<and>
     \<not> (\<exists>e \<in> set known_errors. e \<in> snd ` set (last_error_type (js_job x))) \<and>
     doubling_overflows (ja_tol (js_job x))"

subsection \<open>Start\<close>

text \<open>The actors after the initialisation of both: the job actor has the number of
  timesteps \<open>steps\<close> in its mailbox; \<open>n\<close> is the number of GRUs, \<open>files\<close> are the lengths of the
  forcing files.\<close>

definition files_ready :: "nat \<Rightarrow> int list \<Rightarrow> int \<Rightarrow> file_access \<Rightarrow> bool" where
  "files_ready n files steps s \<longleftrightarrow> \<not> fa_stopped s \<and> ti_inv (fa_timing s) \<and>
     n \<le> length (fa_hru_timesteps s) \<and>
     (\<exists>c. fa_forcing s = Some c \<and> prefix_loaded 0 c \<and> map nTimeSteps (ff_files c) = files) \<and>
     (\<exists>fs info nhru b. OutputBuffer fs info nhru steps = Inr b \<and> num_gru_local info = int n \<and>
        0 < num_partitions_in_output_buffer fs \<and> 0 < num_timesteps_in_output_buffer fs \<and>
        (\<exists>b'. fa_buffer s = Some b' \<and> ob_partitions b' = ob_partitions b \<and> ob_failed_grus b' = [] \<and>
           ob_num_buffer_steps b' = ob_num_buffer_steps b \<and> ob_num_timesteps b' = steps))"

definition job_ready :: "nat \<Rightarrow> int list \<Rightarrow> int \<Rightarrow> job_sys \<Rightarrow> bool" where
  "job_ready n files steps x \<longleftrightarrow>
     files_ready n files steps (js_fa x) \<and> ja_mode (js_job x) = Async_Mode \<and> ti_inv (ja_timing (js_job x)) \<and>
     \<not> data_assimilation_mode (ja_job_settings (js_job x)) \<and>
     (print_output (ja_hru_settings (js_job x)) \<longrightarrow> output_frequency (ja_hru_settings (js_job x)) \<noteq> 0) \<and>
     (\<exists>g. ja_gru_struc (js_job x) = Some g \<and> fresh_struc g \<and> gs_num_gru g = int n) \<and>
     js_job_box x = [File_Access_Actor_Ready steps] \<and> js_fa_box x = [] \<and> (\<forall>a. js_gru_box x a = []) \<and>
     js_reported x = []"

text \<open>What the theorems assume of the job: there is a GRU, and the forcing files cover the
  simulation.\<close>

definition job_config :: "nat \<Rightarrow> int list \<Rightarrow> int \<Rightarrow> bool" where
  "job_config n files steps \<longleftrightarrow> 0 < n \<and> int n < INT_MAX \<and> 0 < steps \<and> steps \<le> sum_list files \<and> (\<forall>k \<in> set files. 0 < k)"

subsection \<open>End\<close>

text \<open>What the last attempt of a GRU has left in its log: all timesteps in order and the report
  of success, or the report of an error.\<close>

definition gru_done :: "actor_id \<Rightarrow> int \<Rightarrow> gru_effect list \<Rightarrow> bool" where
  "gru_done a steps lg \<longleftrightarrow> runs_done lg = [1 .. steps] \<and> sent gru_to_job lg = [Done_Hru (int a)]"

definition gru_lost :: "actor_id \<Rightarrow> gru_effect list \<Rightarrow> bool" where
  "gru_lost a lg \<longleftrightarrow> (\<exists>t e msg. sent gru_to_job lg = [Gru_Error (int a) t e msg])"

text \<open>The job told its parent once how many of its GRUs have failed for good.\<close>

definition job_completed :: "nat \<Rightarrow> int \<Rightarrow> job_sys \<Rightarrow> bool" where
  "job_completed n steps x \<longleftrightarrow> ja_mode (js_job x) = Job_Stopped \<and> fa_stopped (js_fa x) \<and>
     (\<forall>a \<in> {1 .. n}. ga_mode (js_gru x a) = Gru_Stopped \<and> (gru_done a steps (js_log x a) \<or> gru_lost a (js_log x a))) \<and>
     js_reported x = [int (card {a \<in> {1 .. n}. gru_lost a (js_log x a)})]"

end
