(* ===== verification/Job_Rounds.thy ===== *)
theory Job_Rounds
  imports Job_System
begin

text \<open>
  What a GRU actor sends while it runs, whatever Fortran answers: restart requests,
  then one message that hands control on.
\<close>

subsection \<open>One timestep\<close>

definition restart_msgs :: "int \<Rightarrow> int \<Rightarrow> fa_msg list \<Rightarrow> bool" where
  "restart_msgs job k ws \<longleftrightarrow> int (length ws) \<le> k \<and> (\<forall>m \<in> set ws. \<exists>t out d. m = Fm_Write_Restart job t out d)"

lemma restart_msgs_Nil [simp]: "restart_msgs job k [] \<longleftrightarrow> 0 \<le> k"
  by (simp add: restart_msgs_def)

lemma restart_msgs_append:
  "restart_msgs job k ws \<Longrightarrow> restart_msgs job k' ws' \<Longrightarrow> restart_msgs job (k + k') (ws @ ws')"
  by (auto simp: restart_msgs_def)

text \<open>How a run of timesteps ends: with an error after \<open>k\<close> of them, or with all.\<close>

definition failed_after :: "actor_id \<Rightarrow> int \<Rightarrow> gru_actor \<Rightarrow> gru_actor \<Rightarrow> gru_effect list \<Rightarrow> bool" where
  "failed_after a k s s' es \<longleftrightarrow> 0 \<le> k \<and> k < steps_left s \<and> ga_mode s' = Gru_Stopped \<and>
     sent gru_to_self es = [] \<and> restart_msgs (ga_job_index s) k (sent (gru_to_fa a) es) \<and>
     (\<exists>t e msg. sent gru_to_job es = [Gru_Error (ga_job_index s) t e msg])"

definition computed :: "actor_id \<Rightarrow> int \<Rightarrow> gru_actor \<Rightarrow> gru_actor \<Rightarrow> gru_effect list \<Rightarrow> gru_in list \<Rightarrow> fa_msg list \<Rightarrow> bool" where
  "computed a k s s' es self ctl \<longleftrightarrow> 0 \<le> k \<and> advanced k s s' \<and> runs_done es = [ga_timestep s .. ga_timestep s + k - 1] \<and>
     sent gru_to_job es = [] \<and> sent gru_to_self es = self \<and>
     (\<exists>ws. restart_msgs (ga_job_index s) k ws \<and> sent (gru_to_fa a) es = ws @ ctl)"

lemma computed_0 [simp]: "computed a 0 s s [] [] []"
  by (simp add: computed_def advanced_refl)

lemma computed_trans:
  assumes "computed a k s s1 es1 [] []" and "computed a k' s1 s2 es2 self ctl"
  shows "computed a (k + k') s s2 (es1 @ es2) self ctl"
proof -
  note adv = advanced_fields [of k s s1]
  have k: "0 \<le> k" "0 \<le> k'" "advanced k s s1" "advanced k' s1 s2" using assms by (simp_all add: computed_def)
  have "[ga_timestep s .. ga_timestep s + k - 1] @ [ga_timestep s + k - 1 + 1 .. ga_timestep s + (k + k') - 1] =
      [ga_timestep s .. ga_timestep s + (k + k') - 1]"
    using k by (intro upto_append) auto
  then have "runs_done (es1 @ es2) = [ga_timestep s .. ga_timestep s + (k + k') - 1]"
    using assms adv(2) [OF k(3)] by (simp add: computed_def algebra_simps)
  moreover obtain ws where "restart_msgs (ga_job_index s) k' ws" "sent (gru_to_fa a) es2 = ws @ ctl"
    using assms(2) adv(8) [OF k(3)] by (auto simp: computed_def)
  moreover have "restart_msgs (ga_job_index s) k (sent (gru_to_fa a) es1)" using assms(1) by (auto simp: computed_def)
  ultimately have "\<exists>ws. restart_msgs (ga_job_index s) (k + k') ws \<and> sent (gru_to_fa a) (es1 @ es2) = ws @ ctl"
    using restart_msgs_append by (intro exI [of _ "sent (gru_to_fa a) es1 @ ws"]) simp
  with \<open>runs_done (es1 @ es2) = _\<close> assms k advanced_trans [OF k(3,4)] show ?thesis by (simp add: computed_def)
qed

lemma failed_trans:
  assumes "computed a k s s1 es1 [] []" and "failed_after a k' s1 s2 es2"
  shows "failed_after a (k + k') s s2 (es1 @ es2)"
proof -
  have "advanced k s s1" using assms(1) by (simp add: computed_def)
  note adv = advanced_fields [OF this]
  have "steps_left s1 = steps_left s - k" using adv by (simp add: steps_left_def)
  with assms adv(8) restart_msgs_append show ?thesis by (auto simp: failed_after_def computed_def)
qed

lemma run_timestep_sends:
  assumes "0 < steps_left s"
  obtains (failed) s' es where "run_timestep f s = (s', es, Return)" "failed_after a 0 s s' es"
  | (last) s' es where "run_timestep f s = (s', es, Break)" "computed a 1 s s' es [In_Done_Hru] []" "steps_left s = 1"
  | (again) s' es where "run_timestep f s = (s', es, Next)" "computed a 1 s s' es [] []" "1 < steps_left s"
proof (cases "good_step f")
  case False
  then show ?thesis using assms
    by (intro failed [of "fst (run_timestep f s)" "fst (snd (run_timestep f s))"])
       (auto simp: run_timestep_def handleErr_def good_step_def failed_after_def Let_def)
next
  case True
  from run_timestep_good [OF True, of s] obtain s' es where
    r: "run_timestep f s = (s', es, if ga_timestep s < ga_num_steps s then Next else Break)" "advanced 1 s s'"
      "runs_done es = [ga_timestep s]" by blast
  have "sent gru_to_job es = []" "sent gru_to_self es = (if ga_timestep s < ga_num_steps s then [] else [In_Done_Hru])"
    "restart_msgs (ga_job_index s) 1 (sent (gru_to_fa a) es)"
    using r(1) True by (auto simp: run_timestep_def good_step_def Let_def restart_msgs_def split: if_splits)
  with r have "computed a 1 s s' es (if ga_timestep s < ga_num_steps s then [] else [In_Done_Hru]) []"
    by (simp add: computed_def)
  with r(1) assms last again show ?thesis
    by (cases "ga_timestep s < ga_num_steps s") (auto simp: steps_left_def)
qed

subsection \<open>A run\<close>

lemma run_loop_sends:
  "runnable s \<Longrightarrow> \<exists>s' es ret. run_loop fort s = Inr (s', es, ret) \<and>
    (if ret then \<exists>k. failed_after a k s s' es
     else computed a (run_length s) s s' es (if run_length s = steps_left s then [In_Done_Hru] else [])
       (if run_length s = steps_left s \<or> run_length s = num_steps_until_write s then []
        else [Fm_Access_Forcing (ga_iFile s + 1) a]))"
proof (induction "nat (num_steps_until_write s)" arbitrary: s rule: less_induct)
  case less
  note ok = less.prems [unfolded runnable_def]
  consider (full) "num_steps_until_write s = 0"
    | (dry) "0 < num_steps_until_write s" "stepsInCurrentFFile s < forcingStep s"
    | (step) "0 < num_steps_until_write s" "forcingStep s \<le> stepsInCurrentFFile s"
    using ok by linarith
  then show ?case
  proof cases
    case full
    then have "run_loop fort s = Inr (s, [], False)" by (subst run_loop.simps) simp
    moreover have "run_length s = 0" "steps_left s \<noteq> 0" using full ok by (auto simp: run_length_def)
    ultimately show ?thesis using full by auto
  next
    case dry
    then have "run_loop fort s = Inr (s, [Ask_Forcing (ga_iFile s + 1)], False)" by (subst run_loop.simps) simp
    moreover have "run_length s = 0" "steps_left s \<noteq> 0" using dry ok by (auto simp: run_length_def)
    moreover have "computed a 0 s s [Ask_Forcing (ga_iFile s + 1)] [] [Fm_Access_Forcing (ga_iFile s + 1) a]"
      by (simp add: computed_def advanced_refl runs_done_def)
    ultimately show ?thesis using dry by auto
  next
    case step
    obtain v where pr: "(if print_output (ga_hru_settings s)
        then cpp_mod (ga_timestep s) (output_frequency (ga_hru_settings s)) else Inr 0) = Inr v"
      using ok by (cases "print_output (ga_hru_settings s)") (auto simp: prints_ok_def cpp_mod_def)
    have left: "0 < steps_left s" using ok by simp
    from left show ?thesis
    proof (cases rule: run_timestep_sends [where f = "fort (ga_timestep s)" and a = a])
      case (failed s' es)
      with step pr have "run_loop fort s = Inr (s', es, True)" by (subst run_loop.simps) simp
      with failed(2) show ?thesis by auto
    next
      case (last s' es)
      with step pr have "run_loop fort s = Inr (s', es, False)" by (subst run_loop.simps) simp
      moreover have "run_length s = steps_left s" "run_length s = 1"
        using last(3) step by (auto simp: run_length_def)
      ultimately show ?thesis using last(2) by auto
    next
      case (again s1 es1)
      have "advanced 1 s s1" using again(2) by (simp add: computed_def)
      note adv = advanced_fields [OF this]
      have run1: "runnable s1" using ok step again(3) adv by (simp add: runnable_def steps_left_def)
      have len: "run_length s1 = run_length s - 1" "steps_left s1 = steps_left s - 1"
        using adv by (auto simp: run_length_def steps_left_def)
      from less.hyps [OF _ run1] adv(1) step(1) obtain s' es ret where
        r: "run_loop fort s1 = Inr (s', es, ret)"
          "if ret then \<exists>k. failed_after a k s1 s' es
           else computed a (run_length s1) s1 s' es (if run_length s1 = steps_left s1 then [In_Done_Hru] else [])
             (if run_length s1 = steps_left s1 \<or> run_length s1 = num_steps_until_write s1 then []
              else [Fm_Access_Forcing (ga_iFile s1 + 1) a])" by auto
      have "run_loop fort s = Inr (s', es1 @ es, ret)"
        using step pr again(1) r(1) by (subst run_loop.simps) simp
      moreover have "\<exists>k. failed_after a k s s' (es1 @ es)" if ret
        using r(2) that failed_trans [OF again(2)] by auto
      moreover have "computed a (run_length s) s s' (es1 @ es) (if run_length s = steps_left s then [In_Done_Hru] else [])
          (if run_length s = steps_left s \<or> run_length s = num_steps_until_write s then []
           else [Fm_Access_Forcing (ga_iFile s + 1) a])" if "\<not> ret"
        using r(2) that computed_trans [OF again(2)] adv len by fastforce
      ultimately show ?thesis by auto
    qed
  qed
qed

text \<open>How the handler of \<^verbatim>\<open>run_hru\<close> ends.\<close>

lemma on_run_hru_sends:
  assumes "runnable s" and "0 < num_steps_until_write s" and "num_steps_until_write s \<le> steps_left s"
  obtains (failed) s' es k where "on_run_hru fort s = Inr (s', es)" "failed_after a k s s' es"
  | (finished) s' es where "on_run_hru fort s = Inr (s', es)" "run_length s = steps_left s"
      "num_steps_until_write s' = 0"
      "computed a (steps_left s) s s' es [In_Done_Hru] [Fm_Write_Output (ga_job_index s) a]"
  | (full) s' es where "on_run_hru fort s = Inr (s', es)" "num_steps_until_write s < steps_left s"
      "run_length s = num_steps_until_write s" "num_steps_until_write s' = 0"
      "computed a (num_steps_until_write s) s s' es [] [Fm_Write_Output (ga_job_index s) a]"
  | (dry) s' es where "on_run_hru fort s = Inr (s', es)" "run_length s = stepsInCurrentFFile s - forcingStep s + 1"
      "0 < num_steps_until_write s'" "run_length s < steps_left s"
      "computed a (run_length s) s s' es [] [Fm_Access_Forcing (ga_iFile s + 1) a]"
proof -
  from run_loop_sends [OF assms(1), of fort a] obtain s' es ret where
    r: "run_loop fort s = Inr (s', es, ret)"
      "if ret then \<exists>k. failed_after a k s s' es
       else computed a (run_length s) s s' es (if run_length s = steps_left s then [In_Done_Hru] else [])
         (if run_length s = steps_left s \<or> run_length s = num_steps_until_write s then []
          else [Fm_Access_Forcing (ga_iFile s + 1) a])" by blast
  show ?thesis
  proof (cases ret)
    case True
    with r show ?thesis by (auto intro!: failed simp: on_run_hru_def)
  next
    case False
    with r(2) have c: "computed a (run_length s) s s' es (if run_length s = steps_left s then [In_Done_Hru] else [])
         (if run_length s = steps_left s \<or> run_length s = num_steps_until_write s then []
          else [Fm_Access_Forcing (ga_iFile s + 1) a])" by simp
    then have "advanced (run_length s) s s'" by (simp add: computed_def)
    note adv = advanced_fields [OF this]
    have h: "on_run_hru fort s = Inr (s', es @ (if num_steps_until_write s' \<le> 0 then [Ask_Write_Output (ga_job_index s')] else []))"
      using r(1) False by (simp add: on_run_hru_def)
    have w: "computed a k s s' (es @ [Ask_Write_Output (ga_job_index s)]) self [Fm_Write_Output (ga_job_index s) a]"
      if "computed a k s s' es self []" for k self
      using that by (auto simp: computed_def runs_done_def)
    consider "run_length s = steps_left s" | "run_length s \<noteq> steps_left s" "run_length s = num_steps_until_write s"
      | "run_length s \<noteq> steps_left s" "run_length s \<noteq> num_steps_until_write s" by blast
    then show ?thesis
    proof cases
      case 1
      then have "num_steps_until_write s' = 0" using assms(3) adv(1) by (auto simp: run_length_def)
      with 1 h c w adv(8) show ?thesis by (intro finished) simp_all
    next
      case 2
      then have "num_steps_until_write s' = 0" "num_steps_until_write s < steps_left s"
        using assms(3) adv(1) by (auto simp: run_length_def)
      with 2 h c w adv(8) show ?thesis by (intro full) simp_all
    next
      case 3
      then have "run_length s = stepsInCurrentFFile s - forcingStep s + 1" "0 < num_steps_until_write s'"
        "run_length s < steps_left s"
        using assms(3) adv(1) by (auto simp: run_length_def min_def split: if_splits)
      with 3 h c show ?thesis by (intro dry) simp_all
    qed
  qed
qed

end
