(* ===== verification/Job_Files.thy ===== *)
theory Job_Files
  imports File_Access_Actor
begin

text \<open>
  The partitions of the output buffer as the GRUs of a job see them: which GRUs a
  partition waits for, which are queued in it, and what one request to write and one
  failure do to it.
\<close>

subsection \<open>One partition\<close>

lemma report_cases:
  assumes "partition_inv p A" and "a \<in> A" and "partition_writeOutput_gru 0 [] a p = (p', ret, es)"
  obtains (queued) "ret = None" "p' = p\<lparr>op_ready_to_write := op_ready_to_write p @ [a]\<rparr>" "partition_inv p' (A - {a})"
  | (written) "ret = Some \<lparr>wr_err = 0, wr_message = [], actor_to_update = op_ready_to_write p @ [a],
        num_steps_update = op_num_steps_buffer p'\<rparr>" "A = {a}" "op_ready_to_write p' = []"
      "op_start_gru p' = op_start_gru p" "op_end_gru p' = op_end_gru p"
      "op_steps_remaining p' = op_steps_remaining p - op_num_steps_buffer p"
      "op_num_steps_buffer p' = min (op_num_steps_buffer p) (op_steps_remaining p - op_num_steps_buffer p)"
      "partition_inv p' (if 0 < op_steps_remaining p' then set (op_ready_to_write p @ [a]) else {})"
proof -
  let ?p = "p\<lparr>op_ready_to_write := op_ready_to_write p @ [a]\<rparr>"
  note inv = report_inv [OF assms]
  show ?thesis
  proof (cases "isReadyToWrite ?p")
    case False
    then have "ret = None" "p' = ?p" using assms(3) by (auto simp: partition_writeOutput_gru_def Let_def)
    with inv show ?thesis by (intro queued) (simp_all add: released_def)
  next
    case True
    from assms(3) True obtain es' where w: "write_partition 0 [] ?p = (p', ret, es')"
      by (auto simp: partition_writeOutput_gru_def Let_def split: prod.splits)
    have st: "op_steps_remaining p \<noteq> 0" "finite A" using assms(1,2) by (auto simp: partition_inv_def)
    have "card A = 1" using True st assms(1) by (auto simp: isReadyToWrite_def partition_inv_def)
    then have A: "A = {a}" using assms(2) by (metis card_1_singletonE singletonD)
    note f = write_partition_fields [OF w]
    have "released p' ret = (if 0 < op_steps_remaining p' then set (op_ready_to_write p @ [a]) else {})"
      using f(8) by (simp add: released_def)
    with inv A f show ?thesis by (intro written) simp_all
  qed
qed

lemma fail_cases:
  assumes "partition_inv p A" and "a \<in> A" and "partition_writeOutput 0 [] (decrementNumGRU p) = (p', ret, es)"
  obtains (waits) "ret = None" "p' = decrementNumGRU p" "partition_inv p' (A - {a})"
  | (written) "ret = Some \<lparr>wr_err = 0, wr_message = [], actor_to_update = op_ready_to_write p,
        num_steps_update = op_num_steps_buffer p'\<rparr>" "A = {a}" "op_ready_to_write p' = []"
      "op_start_gru p' = op_start_gru p" "op_end_gru p' = op_end_gru p"
      "op_steps_remaining p' = op_steps_remaining p - op_num_steps_buffer p"
      "op_num_steps_buffer p' = min (op_num_steps_buffer p) (op_steps_remaining p - op_num_steps_buffer p)"
      "partition_inv p' (if 0 < op_steps_remaining p' then set (op_ready_to_write p) else {})"
proof -
  let ?p = "decrementNumGRU p"
  note inv = fail_inv [OF assms]
  show ?thesis
  proof (cases "isReadyToWrite ?p")
    case False
    then have "ret = None" "p' = ?p" using assms(3) by (auto simp: partition_writeOutput_def)
    with inv show ?thesis by (intro waits) (simp_all add: released_def)
  next
    case True
    then have w: "write_partition 0 [] ?p = (p', ret, es)" using assms(3) by (simp add: partition_writeOutput_def)
    have st: "op_steps_remaining p \<noteq> 0" "finite A" using assms(1,2) by (auto simp: partition_inv_def)
    have "card A = 1"
      using True st assms(1) by (auto simp: isReadyToWrite_def partition_inv_def decrementNumGRU_def)
    then have A: "A = {a}" using assms(2) by (metis card_1_singletonE singletonD)
    note f = write_partition_fields [OF w]
    have "released p' ret = (if 0 < op_steps_remaining p' then set (op_ready_to_write p) else {})"
      using f(8) by (simp add: released_def decrementNumGRU_def)
    with inv A f show ?thesis by (intro written) (simp_all add: decrementNumGRU_def)
  qed
qed

subsection \<open>The partitions of a buffer\<close>

text \<open>The GRUs of \<open>P\<close> in the partition of \<open>a\<close>, and the steps left and the steps until the next
  write of that partition.\<close>

definition members :: "output_buffer \<Rightarrow> nat set \<Rightarrow> nat \<Rightarrow> nat set" where
  "members b P a = {c \<in> P. findPartitionIndex (int c) b = findPartitionIndex (int a) b}"

definition part :: "output_buffer \<Rightarrow> nat \<Rightarrow> output_partition" where
  "part b a = ob_partitions b ! nat (findPartitionIndex (int a) b)"

text \<open>\<open>C\<close> are the GRUs of \<open>P\<close> the partitions wait for, \<open>Q\<close> those queued in them.\<close>

definition parts_ok :: "output_buffer \<Rightarrow> nat set \<Rightarrow> nat set \<Rightarrow> nat set \<Rightarrow> bool" where
  "parts_ok b P C Q \<longleftrightarrow> C \<subseteq> P \<and> Q \<subseteq> P \<and>
     (\<forall>a \<in> P. 0 \<le> findPartitionIndex (int a) b \<and> findPartitionIndex (int a) b < int (length (ob_partitions b)) \<and>
        partition_inv (part b a) (C \<inter> members b P a) \<and>
        set (op_ready_to_write (part b a)) = Q \<inter> members b P a)"

definition settles ::
  "bool \<Rightarrow> output_buffer \<Rightarrow> nat set \<Rightarrow> nat set \<Rightarrow> nat set \<Rightarrow> nat \<Rightarrow> output_buffer \<Rightarrow> write_output_return option \<Rightarrow> bool" where
  "settles reports b P C Q a b' ret \<longleftrightarrow>
     (let M = members b P a; R = Q \<inter> M \<union> (if reports then {a} else {})
      in (\<forall>c. c \<in> P - M \<longrightarrow> part b' c = part b c) \<and>
         (case ret of
            None \<Rightarrow> parts_ok b' P (C - {a}) (Q \<union> R) \<and>
              (\<forall>c \<in> M. op_steps_remaining (part b' c) = op_steps_remaining (part b c) \<and>
                 op_num_steps_buffer (part b' c) = op_num_steps_buffer (part b c))
          | Some r \<Rightarrow> wr_err r = 0 \<and> distinct (actor_to_update r) \<and> set (actor_to_update r) = R \<and> C \<inter> M = {a} \<and>
              num_steps_update r = op_num_steps_buffer (part b' a) \<and>
              (\<forall>c \<in> M. op_steps_remaining (part b' c) = op_steps_remaining (part b c) - op_num_steps_buffer (part b c) \<and>
                 op_num_steps_buffer (part b' c) = min (op_num_steps_buffer (part b c)) (op_steps_remaining (part b' c))) \<and>
              parts_ok b' P (C - {a} \<union> (if 0 < op_steps_remaining (part b' a) then R else {})) (Q - M)))"

lemma find_from_cong: "map P xs = map P' ys \<Longrightarrow> find_from k P xs = find_from k P' ys"
  by (induction xs arbitrary: k ys) auto

lemma find_update:
  assumes "op_start_gru p' = op_start_gru (ob_partitions b ! k)" "op_end_gru p' = op_end_gru (ob_partitions b ! k)"
    and "k < length (ob_partitions b)" and "ob_partitions b' = (ob_partitions b)[k := p']"
  shows "findPartitionIndex i b' = findPartitionIndex i b"
proof -
  have "in_partition i p' = map (in_partition i) (ob_partitions b) ! k" using assms(1-3) by (simp add: in_partition_def)
  then have "map (in_partition i) ((ob_partitions b)[k := p']) = map (in_partition i) (ob_partitions b)"
    by (simp only: map_update list_update_id)
  then show ?thesis unfolding findPartitionIndex_def assms(4) by (rule find_from_cong)
qed

text \<open>Replacing the partition of \<open>a\<close>.\<close>

lemma part_update:
  assumes ok: "parts_ok b P C Q" and a: "a \<in> P"
    and p: "op_start_gru p' = op_start_gru (part b a)" "op_end_gru p' = op_end_gru (part b a)"
    and b': "ob_partitions b' = (ob_partitions b)[nat (findPartitionIndex (int a) b) := p']"
  shows "findPartitionIndex i b' = findPartitionIndex i b" and "members b' P c = members b P c"
    and "c \<in> P \<Longrightarrow> part b' c = (if c \<in> members b P a then p' else part b c)"
proof -
  have k: "0 \<le> findPartitionIndex (int a) b" "findPartitionIndex (int a) b < int (length (ob_partitions b))"
    using ok a by (simp_all add: parts_ok_def)
  show f: "findPartitionIndex i b' = findPartitionIndex i b" for i
    using p k b' by (intro find_update [where k = "nat (findPartitionIndex (int a) b)" and p' = p'])
      (simp_all add: part_def nat_less_iff)
  show "members b' P c = members b P c" by (simp add: members_def f)
  show "part b' c = (if c \<in> members b P a then p' else part b c)" if "c \<in> P"
  proof -
    have c: "0 \<le> findPartitionIndex (int c) b" using ok that by (simp add: parts_ok_def)
    show ?thesis
    proof (cases "c \<in> members b P a")
      case True
      then show ?thesis using k by (simp add: part_def f b' members_def nat_less_iff)
    next
      case False
      then have "nat (findPartitionIndex (int c) b) \<noteq> nat (findPartitionIndex (int a) b)"
        using that c k by (simp add: members_def eq_nat_nat_iff)
      with False show ?thesis by (simp add: part_def f b')
    qed
  qed
qed

lemma members_self [simp]: "a \<in> P \<Longrightarrow> a \<in> members b P a"
  by (simp add: members_def)

lemma members_eq: "c \<in> members b P a \<Longrightarrow> members b P c = members b P a"
  by (auto simp: members_def)

lemma members_disjoint: "a \<in> P \<Longrightarrow> c \<in> P - members b P a \<Longrightarrow> members b P c \<inter> members b P a = {}"
  by (auto simp: members_def)

lemma part_members: "c \<in> members b P a \<Longrightarrow> part b c = part b a"
  by (simp add: members_def part_def)

text \<open>The accounts after a change in the partition of \<open>a\<close>: elsewhere nothing changes.\<close>

lemma parts_ok_update:
  assumes ok: "parts_ok b P C Q" and a: "a \<in> P"
    and p: "op_start_gru p' = op_start_gru (part b a)" "op_end_gru p' = op_end_gru (part b a)"
    and b': "ob_partitions b' = (ob_partitions b)[nat (findPartitionIndex (int a) b) := p']"
    and sub: "C' \<subseteq> P" "Q' \<subseteq> P" "C' - members b P a = C - members b P a" "Q' - members b P a = Q - members b P a"
    and inv: "partition_inv p' (C' \<inter> members b P a)" "set (op_ready_to_write p') = Q' \<inter> members b P a"
  shows "parts_ok b' P C' Q'"
proof -
  note u = part_update [OF ok a p b']
  have "partition_inv (part b' c) (C' \<inter> members b' P c) \<and> set (op_ready_to_write (part b' c)) = Q' \<inter> members b' P c"
    if c: "c \<in> P" for c
  proof (cases "c \<in> members b P a")
    case True
    with inv c show ?thesis by (simp add: u(2,3) members_eq)
  next
    case False
    have "members b P c \<inter> members b P a = {}" using members_disjoint [OF a] False c by blast
    then have "C' \<inter> members b P c = C \<inter> members b P c" "Q' \<inter> members b P c = Q \<inter> members b P c"
      using sub(3,4) by blast+
    with False c ok show ?thesis by (simp add: u(2,3) parts_ok_def)
  qed
  moreover have "length (ob_partitions b') = length (ob_partitions b)" by (simp add: b')
  ultimately show ?thesis using ok sub(1,2) unfolding parts_ok_def u(1) by simp
qed

subsection \<open>Requests and failures\<close>

lemma settlesI:
  assumes ok: "parts_ok b P C Q" and a: "a \<in> C"
    and f: "op_start_gru p' = op_start_gru (part b a)" "op_end_gru p' = op_end_gru (part b a)"
    and b': "ob_partitions b' = (ob_partitions b)[nat (findPartitionIndex (int a) b) := p']"
    and cases: "(ret = None \<and> partition_inv p' (C \<inter> members b P a - {a}) \<and>
        set (op_ready_to_write p') = Q \<inter> members b P a \<union> (if reports then {a} else {}) \<and>
        op_steps_remaining p' = op_steps_remaining (part b a) \<and> op_num_steps_buffer p' = op_num_steps_buffer (part b a)) \<or>
      (\<exists>l. ret = Some \<lparr>wr_err = 0, wr_message = [], actor_to_update = l, num_steps_update = op_num_steps_buffer p'\<rparr> \<and>
        distinct l \<and> set l = Q \<inter> members b P a \<union> (if reports then {a} else {}) \<and> C \<inter> members b P a = {a} \<and>
        op_ready_to_write p' = [] \<and>
        op_steps_remaining p' = op_steps_remaining (part b a) - op_num_steps_buffer (part b a) \<and>
        op_num_steps_buffer p' = min (op_num_steps_buffer (part b a)) (op_steps_remaining p') \<and>
        partition_inv p' (if 0 < op_steps_remaining p' then set l else {}))"
  shows "settles reports b P C Q a b' ret"
proof -
  let ?M = "members b P a" and ?R = "Q \<inter> members b P a \<union> (if reports then {a} else {})"
  have sub: "C \<subseteq> P" "Q \<subseteq> P" using ok by (simp_all add: parts_ok_def)
  have aP: "a \<in> P" "a \<in> ?M" using a sub by auto
  note u = part_update [OF ok aP(1) f b']
  have M: "?M \<subseteq> P" by (auto simp: members_def)
  have out: "\<forall>c. c \<in> P - ?M \<longrightarrow> part b' c = part b c" using u(3) by auto
  have inn: "part b' c = p'" "part b c = part b a" if "c \<in> ?M" for c
    using that M u(3) [of c] part_members by auto
  from cases show ?thesis
  proof (elim disjE exE conjE)
    assume n: "ret = None" "partition_inv p' (C \<inter> ?M - {a})" "set (op_ready_to_write p') = ?R"
      "op_steps_remaining p' = op_steps_remaining (part b a)" "op_num_steps_buffer p' = op_num_steps_buffer (part b a)"
    have "(C - {a}) \<inter> ?M = C \<inter> ?M - {a}" "(Q \<union> ?R) \<inter> ?M = ?R" using aP(2) by auto
    with n(2,3) have "parts_ok b' P (C - {a}) (Q \<union> ?R)"
      using sub aP by (intro parts_ok_update [OF ok aP(1) f b']) auto
    with n out inn show ?thesis by (simp add: settles_def Let_def)
  next
    fix l
    assume w: "ret = Some \<lparr>wr_err = 0, wr_message = [], actor_to_update = l, num_steps_update = op_num_steps_buffer p'\<rparr>"
      "distinct l" "set l = ?R" "C \<inter> ?M = {a}" "op_ready_to_write p' = []"
      "op_steps_remaining p' = op_steps_remaining (part b a) - op_num_steps_buffer (part b a)"
      "op_num_steps_buffer p' = min (op_num_steps_buffer (part b a)) (op_steps_remaining p')"
      "partition_inv p' (if 0 < op_steps_remaining p' then set l else {})"
    let ?C = "C - {a} \<union> (if 0 < op_steps_remaining (part b' a) then ?R else {})"
    have "?C \<inter> ?M = (if 0 < op_steps_remaining p' then set l else {})"
      using w(3,4) aP(2) inn(1) [OF aP(2)] by auto
    with w(5,8) have "parts_ok b' P ?C (Q - ?M)"
      using sub aP w(4) by (intro parts_ok_update [OF ok aP(1) f b']) auto
    moreover have "op_steps_remaining (part b' c) = op_steps_remaining (part b c) - op_num_steps_buffer (part b c) \<and>
        op_num_steps_buffer (part b' c) = min (op_num_steps_buffer (part b c)) (op_steps_remaining (part b' c))" if "c \<in> ?M" for c
      unfolding inn [OF that] using w(6,7) by (rule conjI)
    ultimately show ?thesis unfolding settles_def Let_def w(1) option.case write_output_return.simps
      using out w(2-4) inn(1) [OF aP(2)] by blast
  qed
qed

lemma parts_ok_part:
  assumes "parts_ok b P C Q" and "a \<in> P"
  shows "0 \<le> findPartitionIndex (int a) b" and "vec_at (ob_partitions b) (findPartitionIndex (int a) b) = Inr (part b a)"
    and "vec_upd (ob_partitions b) (findPartitionIndex (int a) b) f =
      Inr ((ob_partitions b)[nat (findPartitionIndex (int a) b) := f (part b a)])"
    and "partition_inv (part b a) (C \<inter> members b P a)"
    and "set (op_ready_to_write (part b a)) = Q \<inter> members b P a"
  using assms by (simp_all add: parts_ok_def vec_at_def vec_upd_def part_def)

lemma write_settles:
  assumes ok: "parts_ok b P C Q" and a: "a \<in> C"
  shows "\<exists>b' ret es. buffer_writeOutput 0 [] (int a) a b = Inr (b', ret, es) \<and> settles True b P C Q a b' ret \<and>
    b' = b\<lparr>ob_partitions := ob_partitions b'\<rparr>"
proof -
  have aP: "a \<in> P" "a \<in> C \<inter> members b P a" using a ok by (auto simp: parts_ok_def)
  note p = parts_ok_part [OF ok aP(1)]
  obtain p' ret es where w: "partition_writeOutput_gru 0 [] a (part b a) = (p', ret, es)" by (metis prod_cases3)
  let ?b' = "b\<lparr>ob_partitions := (ob_partitions b)[nat (findPartitionIndex (int a) b) := p']\<rparr>"
  have "buffer_writeOutput 0 [] (int a) a b = Inr (?b', ret, es)"
    using p(1-3) w by (simp add: buffer_writeOutput_def at_partition_def Let_def)
  moreover have "settles True b P C Q a ?b' ret"
  proof (cases rule: report_cases [OF p(4) aP(2) w])
    case queued: 1
    then show ?thesis using p(5) by (intro settlesI [OF ok a, of p']) auto
  next
    case written: 2
    have d: "distinct (op_ready_to_write (part b a) @ [a])"
      using p(4) aP(2) by (auto simp: partition_inv_def)
    show ?thesis
      by (rule settlesI [OF ok a written(4,5)], simp, rule disjI2, rule exI, intro conjI, rule written(1), rule d)
         (use written p(5) in simp_all)
  qed
  ultimately show ?thesis by auto
qed

lemma failure_settles:
  assumes ok: "parts_ok b P C Q" and a: "a \<in> C"
  shows "\<exists>b' ret es. addFailedGRU 0 [] (int a) b = Inr (b', ret, es) \<and> settles False b P C Q a b' ret \<and>
    b' = b\<lparr>ob_partitions := ob_partitions b', ob_failed_grus := ob_failed_grus b @ [int a]\<rparr>"
proof -
  have aP: "a \<in> P" "a \<in> C \<inter> members b P a" using a ok by (auto simp: parts_ok_def)
  note p = parts_ok_part [OF ok aP(1)]
  obtain p' ret es where w: "partition_writeOutput 0 [] (decrementNumGRU (part b a)) = (p', ret, es)"
    by (metis prod_cases3)
  let ?b' = "b\<lparr>ob_partitions := (ob_partitions b)[nat (findPartitionIndex (int a) b) := p'],
      ob_failed_grus := ob_failed_grus b @ [int a]\<rparr>"
  have "addFailedGRU 0 [] (int a) b = Inr (?b', ret, F_AddFailedGru (int a) # es)"
    using p(1-3) w by (simp add: addFailedGRU_def at_partition_def findPartitionIndex_def Let_def)
  moreover have "settles False b P C Q a ?b' ret"
  proof (cases rule: fail_cases [OF p(4) aP(2) w])
    case waits: 1
    then show ?thesis using p(5) by (intro settlesI [OF ok a, of p']) (auto simp: decrementNumGRU_def)
  next
    case written: 2
    have d: "distinct (op_ready_to_write (part b a))" using p(4) by (auto simp: partition_inv_def)
    show ?thesis
      by (rule settlesI [OF ok a written(4,5)], simp, rule disjI2, rule exI, intro conjI, rule written(1), rule d)
         (use written p(5) in simp_all)
  qed
  ultimately show ?thesis by auto
qed

subsection \<open>New partitions\<close>

text \<open>At the start and after a restart no GRU is queued and all of \<open>P\<close> are awaited.\<close>

definition new_parts :: "output_buffer \<Rightarrow> nat set \<Rightarrow> int \<Rightarrow> bool" where
  "new_parts b P steps \<longleftrightarrow> parts_ok b P P {} \<and>
     (\<forall>a \<in> P. op_steps_remaining (part b a) = steps \<and> 0 < op_num_steps_buffer (part b a) \<and>
        op_num_steps_buffer (part b a) \<le> steps)"

lemma distinct_concat_unique:
  assumes "distinct (concat xss)" and "j < length xss" "k < length xss" and "x \<in> set (xss ! j)" "x \<in> set (xss ! k)"
  shows "j = k"
  using assms
proof (induction xss arbitrary: j k)
  case (Cons xs xss)
  have disj: "i < length xss \<Longrightarrow> x \<in> set (xss ! i) \<Longrightarrow> x \<notin> set xs" for i
    using Cons.prems(1) by (auto dest: nth_mem)
  from Cons disj show ?case by (cases j; cases k) auto
qed simp

lemma initial_parts:
  assumes cover: "concat (map partition_range (ob_partitions b)) = [1 .. int n]"
    and elem: "\<forall>p \<in> set (ob_partitions b). \<exists>a m. p = OutputPartition a m nbuf steps"
    and pos: "0 < nbuf" "0 < steps"
  shows "new_parts b {1 .. n} steps"
proof -
  let ?P = "{1 .. n}" and ?ps = "ob_partitions b"
  have found: "\<exists>j < length ?ps. findPartitionIndex (int a) b = int j \<and> in_partition (int a) (?ps ! j)" if "a \<in> ?P" for a
    using find_in_cover [OF cover, of "int a"] that by auto
  have fields: "op_steps_remaining p = steps" "op_num_steps_buffer p = min nbuf steps" "op_ready_to_write p = []"
    "op_end_gru p = op_start_gru p + op_num_gru p - 1" if p: "p \<in> set ?ps" for p
  proof -
    from elem p obtain a m where "p = OutputPartition a m nbuf steps" by blast
    then show "op_steps_remaining p = steps" "op_num_steps_buffer p = min nbuf steps" "op_ready_to_write p = []"
      "op_end_gru p = op_start_gru p + op_num_gru p - 1" by simp_all
  qed
  have mem: "members b ?P a = nat ` set (partition_range (part b a))" if a: "a \<in> ?P" for a
  proof -
    from found [OF a] obtain j where j: "j < length ?ps" "findPartitionIndex (int a) b = int j" by blast
    have "findPartitionIndex (int c) b = int j \<longleftrightarrow> int c \<in> set (partition_range (?ps ! j))" if c: "c \<in> ?P" for c
    proof -
      from found [OF c] obtain k where
        k: "k < length ?ps" "findPartitionIndex (int c) b = int k" "int c \<in> set (partition_range (?ps ! k))"
        by (auto simp: in_partition_range)
      then show ?thesis
        using distinct_concat_unique [of "map partition_range ?ps" j k "int c"] cover j(1) by auto
    qed
    then have "members b ?P a = {c \<in> ?P. int c \<in> set (partition_range (?ps ! j))}" by (auto simp: members_def j(2))
    moreover have "set (partition_range (?ps ! j)) \<subseteq> {1 .. int n}"
      using j(1) arg_cong [OF cover, of set] by (auto simp: set_conv_nth [of ?ps])
    then have "nat ` set (partition_range (?ps ! j)) = {c \<in> ?P. int c \<in> set (partition_range (?ps ! j))}"
      by (force simp: image_iff)
    ultimately show ?thesis by (simp add: part_def j(2))
  qed
  have inv: "partition_inv (part b a) (members b ?P a)" if a: "a \<in> ?P" for a
  proof -
    from found [OF a] have p: "part b a \<in> set ?ps" by (auto simp: part_def)
    note f = fields [OF p]
    have "set (partition_range (part b a)) \<subseteq> {1 .. int n}"
      using p arg_cong [OF cover, of set] by auto
    then have inj: "inj_on nat (set (partition_range (part b a)))"
      by (intro inj_onI) (metis atLeastAtMost_iff eq_nat_nat_iff subsetD zero_le_one order_trans)
    have "a \<in> members b ?P a" using a by simp
    then have ne: "set (partition_range (part b a)) \<noteq> {}" unfolding mem [OF a] by auto
    then have "int (card (members b ?P a)) = op_num_gru (part b a)"
      using f(4) unfolding mem [OF a] by (simp add: card_image [OF inj]) (auto simp: partition_range_def)
    moreover have "finite (members b ?P a)" unfolding mem [OF a] by simp
    ultimately show ?thesis using f(1-3) pos \<open>a \<in> members b ?P a\<close> by (auto simp: partition_inv_def)
  qed
  have ok: "0 \<le> findPartitionIndex (int a) b" "findPartitionIndex (int a) b < int (length ?ps)" "part b a \<in> set ?ps"
    if "a \<in> ?P" for a using found [OF that] by (auto simp: part_def)
  have "?P \<inter> members b ?P a = members b ?P a" for a by (auto simp: members_def)
  then show ?thesis using ok inv fields pos by (simp add: new_parts_def parts_ok_def)
qed

lemma reconstruct_parts:
  assumes "\<forall>a \<in> P. int a \<in> set (ob_failed_grus b)" and "0 < ob_num_buffer_steps b" and "0 < ob_num_timesteps b"
    and "reconstruct b = (b', es)"
  shows "new_parts b' P (ob_num_timesteps b)"
proof -
  let ?mk = "\<lambda>g. OutputPartition g 1 (ob_num_buffer_steps b) (ob_num_timesteps b)"
  have ps: "ob_partitions b' = map ?mk (ob_failed_grus b)" using assms(4) by (auto simp: reconstruct_def)
  have at: "\<exists>j < length (ob_partitions b'). findPartitionIndex (int a) b' = int j \<and> ob_partitions b' ! j = ?mk (int a)"
    if a: "a \<in> P" for a
  proof -
    have "\<exists>p \<in> set (ob_partitions b'). in_partition (int a) p"
      using assms(1) a by (auto simp: ps in_partition_def)
    from find_from_index [OF this, of 0] obtain j where
      j: "j < length (ob_partitions b')" "findPartitionIndex (int a) b' = int j" "in_partition (int a) (ob_partitions b' ! j)"
      by (auto simp: findPartitionIndex_def)
    then have "ob_partitions b' ! j = ?mk (ob_failed_grus b ! j)" by (simp add: ps)
    moreover from this j(3) have "ob_failed_grus b ! j = int a" by (simp add: in_partition_def)
    ultimately show ?thesis using j by auto
  qed
  then have pt: "part b' a = ?mk (int a)" if "a \<in> P" for a using that by (fastforce simp: part_def)
  have mem: "members b' P a = {a}" if a: "a \<in> P" for a
  proof -
    have "c = a" if "c \<in> members b' P a" for c
    proof -
      have "?mk (int c) = ?mk (int a)" using part_members [OF that] pt a that by (simp add: members_def)
      then show ?thesis using OutputPartition_simps(1) by (metis of_nat_eq_iff)
    qed
    with a show ?thesis by auto
  qed
  have "partition_inv (?mk (int a)) {a}" for a using assms(2,3) by (simp add: partition_inv_def)
  then show ?thesis using at pt mem assms(2,3) by (fastforce simp: new_parts_def parts_ok_def)
qed

end
