(* ===== verification/Job_Places.thy ===== *)
theory Job_Places
  imports Job_Rounds Job_Files
begin

text \<open>
  Where a GRU of a running job is: between its start and its last report exactly one
  message, in some mailbox, or its entry in the queue of its output partition carries
  control.  The invariant of a place says which, and relates the counters of the GRU to
  those of its partition.
\<close>

subsection \<open>Places\<close>

text \<open>How far the last request to write of a finished GRU has come.\<close>

datatype last_write = Asked | Queued | Written

datatype place =
    At_Start
  | At_Ask_Steps
  | At_Got_Steps
  | At_Ask_Forcing int
  | At_Got_Forcing int
  | At_Run
  | At_Ask_Write
  | At_Wait
  | At_Released
  | At_Finish last_write          \<comment> \<open>has told itself that it is done\<close>
  | At_Done last_write            \<comment> \<open>has told the job\<close>
  | At_Known last_write           \<comment> \<open>the job has handled it\<close>
  | At_Error
  | At_Error_Known
  | At_Removed                    \<comment> \<open>its partition no longer waits for it\<close>

fun counted :: "place \<Rightarrow> bool" where
  "counted At_Wait = False"
| "counted At_Removed = False"
| "counted (At_Finish w) = (w = Asked)"
| "counted (At_Done w) = (w = Asked)"
| "counted (At_Known w) = (w = Asked)"
| "counted _ = True"

fun queued :: "place \<Rightarrow> bool" where
  "queued At_Wait = True"
| "queued (At_Finish w) = (w = Queued)"
| "queued (At_Done w) = (w = Queued)"
| "queued (At_Known w) = (w = Queued)"
| "queued _ = False"

fun known :: "place \<Rightarrow> bool" where
  "known (At_Known w) = True"
| "known At_Error_Known = True"
| "known At_Removed = True"
| "known _ = False"

fun lost :: "place \<Rightarrow> bool" where
  "lost At_Error_Known = True"
| "lost At_Removed = True"
| "lost _ = False"

text \<open>What is in the mailboxes of the file access actor and of the job from a GRU.\<close>

fun fa_mail :: "nat \<Rightarrow> place \<Rightarrow> fa_msg list" where
  "fa_mail a At_Ask_Steps = [Fm_Get_Num_Steps (int a) a]"
| "fa_mail a (At_Ask_Forcing i) = [Fm_Access_Forcing i a]"
| "fa_mail a At_Ask_Write = [Fm_Write_Output (int a) a]"
| "fa_mail a (At_Finish w) = (if w = Asked then [Fm_Write_Output (int a) a] else [])"
| "fa_mail a (At_Done w) = (if w = Asked then [Fm_Write_Output (int a) a] else [])"
| "fa_mail a (At_Known w) = (if w = Asked then [Fm_Write_Output (int a) a] else [])"
| "fa_mail a At_Error_Known = [Fm_Run_Failure (int a)]"
| "fa_mail a _ = []"

fun job_mail :: "nat \<Rightarrow> place \<Rightarrow> job_msg list \<Rightarrow> bool" where
  "job_mail a (At_Done w) ms \<longleftrightarrow> ms = [Done_Hru (int a)]"
| "job_mail a At_Error ms \<longleftrightarrow> (\<exists>t e msg. ms = [Gru_Error (int a) t e msg])"
| "job_mail a _ ms \<longleftrightarrow> ms = []"

fun sender :: "fa_msg \<Rightarrow> nat option" where
  "sender (Fm_Access_Forcing i a) = Some a"
| "sender (Fm_Get_Num_Steps j a) = Some a"
| "sender (Fm_Write_Output j a) = Some a"
| "sender (Fm_Run_Failure j) = Some (nat j)"
| "sender _ = None"

fun reporter :: "job_msg \<Rightarrow> nat option" where
  "reporter (Done_Hru j) = Some (nat j)"
| "reporter (Gru_Error j t e msg) = Some (nat j)"
| "reporter _ = None"

abbreviation mail_from :: "('m \<Rightarrow> nat option) \<Rightarrow> nat \<Rightarrow> 'm list \<Rightarrow> 'm list" where
  "mail_from f a ms \<equiv> filter (\<lambda>m. f m = Some a) ms"

subsection \<open>The state of a GRU at a place\<close>

definition live :: "nat \<Rightarrow> int \<Rightarrow> gru_actor \<Rightarrow> gru_effect list \<Rightarrow> bool" where
  "live a steps s lg \<longleftrightarrow> ga_job_index s = int a \<and> ga_num_steps s = steps \<and> ga_mode s \<noteq> Gru_Stopped \<and> prints_ok s \<and>
     1 \<le> ga_timestep s \<and> ga_timestep s \<le> steps \<and> runs_done lg = [1 .. ga_timestep s - 1] \<and> sent gru_to_job lg = []"

definition starting :: "gru_actor \<Rightarrow> bool" where
  "starting s \<longleftrightarrow> ga_timestep s = 1 \<and> ga_iFile s = 1 \<and> ga_output_step s = 1"

text \<open>The next timestep is in the current forcing file or right behind it; or it is the first
  of file \<open>i\<close>.\<close>

definition in_file :: "int list \<Rightarrow> gru_actor \<Rightarrow> bool" where
  "in_file files s \<longleftrightarrow> 1 \<le> ga_iFile s \<and> ga_iFile s \<le> int (length files) \<and>
     stepsInCurrentFFile s = files ! nat (ga_iFile s - 1) \<and>
     ga_timestep s = sum_list (take (nat (ga_iFile s - 1)) files) + forcingStep s \<and>
     forcingStep s \<le> stepsInCurrentFFile s + 1"

definition at_file :: "int list \<Rightarrow> int \<Rightarrow> gru_actor \<Rightarrow> bool" where
  "at_file files i s \<longleftrightarrow> 1 \<le> i \<and> i \<le> int (length files) \<and>
     ga_timestep s = sum_list (take (nat (i - 1)) files) + 1"

text \<open>\<open>rm\<close> and \<open>nb\<close> are the steps left in the partition and up to its next write.\<close>

definition synced :: "int \<Rightarrow> int \<Rightarrow> gru_actor \<Rightarrow> bool" where
  "synced rm nb s \<longleftrightarrow> 1 \<le> ga_output_step s \<and> nb = num_steps_until_write s + ga_output_step s - 1 \<and>
     rm = ga_num_steps s - ga_timestep s + ga_output_step s"

definition last_clock :: "last_write \<Rightarrow> int \<Rightarrow> int \<Rightarrow> bool" where
  "last_clock w rm nb \<longleftrightarrow> (if w = Written then rm = 0 else rm = nb)"

fun at_place ::
  "int list \<Rightarrow> int \<Rightarrow> nat \<Rightarrow> place \<Rightarrow> int \<Rightarrow> int \<Rightarrow> gru_actor \<Rightarrow> gru_in list \<Rightarrow> gru_effect list \<Rightarrow> bool" where
  "at_place files T a At_Start rm nb s box lg \<longleftrightarrow> box = [In_Update_Hru_Async] \<and> live a T s lg \<and> starting s \<and> rm = T"
| "at_place files T a At_Ask_Steps rm nb s box lg \<longleftrightarrow> box = [] \<and> live a T s lg \<and> starting s \<and> rm = T"
| "at_place files T a At_Got_Steps rm nb s box lg \<longleftrightarrow> box = [In_Num_Output_Steps nb] \<and> live a T s lg \<and> starting s \<and> rm = T"
| "at_place files T a (At_Ask_Forcing i) rm nb s box lg \<longleftrightarrow>
     box = [] \<and> live a T s lg \<and> synced rm nb s \<and> 0 < num_steps_until_write s \<and> at_file files i s"
| "at_place files T a (At_Got_Forcing i) rm nb s box lg \<longleftrightarrow> box = [In_New_Forcing_File 0 (files ! nat (i - 1)) i] \<and>
     live a T s lg \<and> synced rm nb s \<and> 0 < num_steps_until_write s \<and> at_file files i s"
| "at_place files T a At_Run rm nb s box lg \<longleftrightarrow>
     box = [In_Run_Hru] \<and> live a T s lg \<and> synced rm nb s \<and> 0 < num_steps_until_write s \<and> in_file files s"
| "at_place files T a At_Ask_Write rm nb s box lg \<longleftrightarrow>
     box = [] \<and> live a T s lg \<and> synced rm nb s \<and> num_steps_until_write s = 0 \<and> in_file files s"
| "at_place files T a At_Wait rm nb s box lg \<longleftrightarrow>
     box = [] \<and> live a T s lg \<and> synced rm nb s \<and> num_steps_until_write s = 0 \<and> in_file files s"
| "at_place files T a At_Released rm nb s box lg \<longleftrightarrow> box = [In_Num_Steps_Before_Write nb, In_Run_Hru] \<and>
     live a T s lg \<and> in_file files s \<and> rm = T - ga_timestep s + 1"
| "at_place files T a (At_Finish w) rm nb s box lg \<longleftrightarrow> (\<exists>q. box = In_Done_Hru # q) \<and> ga_job_index s = int a \<and>
     ga_mode s \<noteq> Gru_Stopped \<and> runs_done lg = [1 .. T] \<and> sent gru_to_job lg = [] \<and> last_clock w rm nb"
| "at_place files T a (At_Done w) rm nb s box lg \<longleftrightarrow>
     ga_mode s = Gru_Stopped \<and> gru_done a T lg \<and> last_clock w rm nb"
| "at_place files T a (At_Known w) rm nb s box lg \<longleftrightarrow>
     ga_mode s = Gru_Stopped \<and> gru_done a T lg \<and> last_clock w rm nb"
| "at_place files T a At_Error rm nb s box lg \<longleftrightarrow> ga_mode s = Gru_Stopped \<and> gru_lost a lg"
| "at_place files T a At_Error_Known rm nb s box lg \<longleftrightarrow> ga_mode s = Gru_Stopped \<and> gru_lost a lg"
| "at_place files T a At_Removed rm nb s box lg \<longleftrightarrow> ga_mode s = Gru_Stopped \<and> gru_lost a lg"

subsection \<open>A GRU moves\<close>

text \<open>The bounds a partition gives its GRUs: at least one step, and no more than are left.\<close>

definition clock_ok :: "int \<Rightarrow> int \<Rightarrow> bool" where
  "clock_ok rm nb \<longleftrightarrow> 0 < nb \<and> nb \<le> rm"

lemma at_run_runnable:
  assumes "at_place files T a At_Run rm nb s box lg" and "nb \<le> rm"
  shows "runnable s" "0 < num_steps_until_write s" "num_steps_until_write s \<le> steps_left s"
  using assms unfolding at_place.simps live_def synced_def in_file_def runnable_def steps_left_def
  by (elim conjE; simp)+

text \<open>Behind the end of a file there is another one as long as the files cover the run.\<close>

lemma next_file_exists:
  assumes "in_file files s" and "forcingStep s = stepsInCurrentFFile s + 1" and "ga_timestep s \<le> T" and "T \<le> sum_list files"
  shows "at_file files (ga_iFile s + 1) s"
proof -
  let ?k = "nat (ga_iFile s - 1)"
  have k: "?k < length files" "nat (ga_iFile s) = Suc ?k" using assms(1) by (auto simp: in_file_def)
  have t: "ga_timestep s = sum_list (take (Suc ?k) files) + 1"
    using assms(1,2) k by (simp add: in_file_def take_Suc_conv_app_nth)
  have "ga_iFile s + 1 \<le> int (length files)"
  proof (rule ccontr)
    assume "\<not> ?thesis"
    then have "length files \<le> Suc ?k" using k by linarith
    then have "ga_timestep s = sum_list files + 1" using t by simp
    with assms(3,4) show False by simp
  qed
  with t k(2) assms(1) show ?thesis by (simp add: at_file_def in_file_def)
qed

text \<open>A file delivered at its first timestep.\<close>

lemma file_entered:
  assumes "at_file files i s" and "\<forall>k \<in> set files. 0 < k"
    and "s' = s\<lparr>ga_iFile := i, stepsInCurrentFFile := files ! nat (i - 1), forcingStep := 1\<rparr>"
  shows "in_file files s'"
proof -
  have "nat (i - 1) < length files" using assms(1) by (auto simp: at_file_def)
  then have "0 < files ! nat (i - 1)" using assms(2) by simp
  with assms(1,3) show ?thesis by (simp add: at_file_def in_file_def)
qed

end
