(* ===== verification/Job_Moves.thy ===== *)
theory Job_Moves
  imports Job_Places
begin

text \<open>
  The step of one GRU from place to place: what it leaves in the mailboxes, what it keeps
  of the accounts of the file access actor, and that it gets closer to its end.
\<close>

subsection \<open>Progress\<close>

text \<open>The number of forcing files that have been loaded for a GRU at a place.\<close>

fun needs :: "place \<Rightarrow> gru_actor \<Rightarrow> int" where
  "needs (At_Ask_Forcing i) s = i - 1"
| "needs (At_Got_Forcing i) s = i"
| "needs At_Run s = ga_iFile s"
| "needs At_Ask_Write s = ga_iFile s"
| "needs At_Wait s = ga_iFile s"
| "needs At_Released s = ga_iFile s"
| "needs _ s = 0"

text \<open>With \<open>F\<close> forcing files: a bound on what a GRU can still do.  A timestep and a file
  each outweigh the requests that follow them.\<close>

fun weight :: "int \<Rightarrow> place \<Rightarrow> gru_actor \<Rightarrow> int" where
  "weight F At_Start s = (F + 20) * (steps_left s + F) + F + 9"
| "weight F At_Ask_Steps s = (F + 20) * (steps_left s + F) + F + 7"
| "weight F At_Got_Steps s = (F + 20) * (steps_left s + F) + F + 7"
| "weight F (At_Ask_Forcing i) s = (F + 20) * (steps_left s + F - i + 1) + F + 4"
| "weight F (At_Got_Forcing i) s = (F + 20) * (steps_left s + F - i + 1)"
| "weight F At_Run s = (F + 20) * (steps_left s + F - ga_iFile s) + F + 6"
| "weight F At_Ask_Write s = (F + 20) * (steps_left s + F - ga_iFile s) + F + 8"
| "weight F At_Wait s = (F + 20) * (steps_left s + F - ga_iFile s) + F + 8"
| "weight F At_Released s = (F + 20) * (steps_left s + F - ga_iFile s) + F + 7"
| "weight F (At_Finish w) s = 7"
| "weight F (At_Done w) s = 6"
| "weight F At_Error s = 6"
| "weight F _ s = 0"

lemma step_outweighs:
  fixes F :: int
  assumes "0 \<le> F" and "1 \<le> k"
  shows "(F + 20) * (r - k) + k + 19 + F \<le> (F + 20) * r"
proof -
  have "F + 19 \<le> (F + 19) * k" using assms mult_left_mono [of 1 k "F + 19"] by simp
  then show ?thesis by (simp add: algebra_simps)
qed

lemma file_outweighs: "(F + 20) * (r + 1) = (F + 20) * r + F + (20::int)"
  by (simp add: algebra_simps)

lemma weight_advanced:
  fixes F :: int
  assumes "(F + 20) * (r - k) + k + d \<le> (F + 20) * r" and "w' = (F + 20) * (r - k + g) + c" and "w = (F + 20) * (r + g) + c'"
    and "c + 1 < c' + d"
  shows "w' + k + 1 < w"
  using assms(1,4) unfolding assms(2,3) by (simp add: distrib_left)

subsection \<open>A step\<close>

definition moves ::
  "int list \<Rightarrow> int \<Rightarrow> nat \<Rightarrow> place \<Rightarrow> int \<Rightarrow> int \<Rightarrow> gru_actor \<Rightarrow> gru_in list \<Rightarrow> gru_effect list \<Rightarrow>
   gru_actor \<Rightarrow> gru_effect list \<Rightarrow> place \<Rightarrow> bool" where
  "moves files T a p rm nb s q lg s' es p' \<longleftrightarrow>
     at_place files T a p' rm nb s' (q @ sent gru_to_self es) (lg @ es) \<and>
     (\<exists>ws d k. restart_msgs (int a) k ws \<and> sent (gru_to_fa a) es = ws @ d \<and> fa_mail a p' = fa_mail a p @ d \<and>
        weight (int (length files)) p' s' + int (length ws) + int (length d) < weight (int (length files)) p s) \<and>
     job_mail a p' (sent gru_to_job es) \<and> job_mail a p [] \<and>
     counted p' = counted p \<and> queued p' = queued p \<and> \<not> known p \<and> \<not> known p' \<and> needs p' s' \<le> needs p s \<and>
     (p = At_Start \<longrightarrow> p' = At_Ask_Steps) \<and> p \<noteq> At_Ask_Steps"

lemma movesI:
  assumes "at_place files T a p' rm nb s' (q @ sent gru_to_self es) (lg @ es)"
    and "restart_msgs (int a) k ws" and "sent (gru_to_fa a) es = ws @ d" and "fa_mail a p' = fa_mail a p @ d"
    and "weight (int (length files)) p' s' + k + int (length d) < weight (int (length files)) p s"
    and "job_mail a p' (sent gru_to_job es)" "job_mail a p []"
    and "counted p' = counted p" "queued p' = queued p" "\<not> known p" "\<not> known p'" "needs p' s' \<le> needs p s"
    and "p = At_Start \<longrightarrow> p' = At_Ask_Steps" "p \<noteq> At_Ask_Steps"
  shows "moves files T a p rm nb s q lg s' es p'"
proof -
  have "int (length ws) \<le> k" using assms(2) by (simp add: restart_msgs_def)
  then have "weight (int (length files)) p' s' + int (length ws) + int (length d) < weight (int (length files)) p s"
    using assms(5) by simp
  with assms show ?thesis unfolding moves_def by blast
qed

lemma start_moves:
  assumes "at_place files T a At_Start rm nb s (m # q) lg"
  shows "\<exists>s' es p'. gru_async_receive fort m s = Inr (s', es) \<and> moves files T a At_Start rm nb s q lg s' es p'"
  using assms
  by (intro exI [of _ s] exI [of _ "[Ask_Num_Output_Steps (int a)]"] exI [of _ At_Ask_Steps])
     (auto intro!: movesI [of _ _ _ _ _ _ _ _ _ _ 0 "[]" "[Fm_Get_Num_Steps (int a) a]"]
        simp: gru_async_receive_def live_def runs_done_def)

lemma got_steps_moves:
  assumes "at_place files T a At_Got_Steps rm nb s (m # q) lg" and "0 < nb" and "0 < T" "T \<le> sum_list files"
  shows "\<exists>s' es p'. gru_async_receive fort m s = Inr (s', es) \<and> moves files T a At_Got_Steps rm nb s q lg s' es p'"
proof -
  let ?s = "s\<lparr>num_steps_until_write := nb\<rparr>"
  have "files \<noteq> []" using assms(3,4) by auto
  then have "1 \<le> int (length files)" by (cases files) simp_all
  with assms show ?thesis
    by (intro exI [of _ ?s] exI [of _ "[Ask_Forcing 1]"] exI [of _ "At_Ask_Forcing 1"])
       (auto intro!: movesI [of _ _ _ _ _ _ _ _ _ _ 0 "[]" "[Fm_Access_Forcing 1 a]"]
          simp: gru_async_receive_def live_def runs_done_def starting_def synced_def at_file_def prints_ok_def steps_left_def)
qed

lemma got_forcing_moves:
  assumes "at_place files T a (At_Got_Forcing i) rm nb s (m # q) lg" and "\<forall>k \<in> set files. 0 < k"
  shows "\<exists>s' es p'. gru_async_receive fort m s = Inr (s', es) \<and> moves files T a (At_Got_Forcing i) rm nb s q lg s' es p'"
proof -
  let ?s = "s\<lparr>ga_iFile := i, stepsInCurrentFFile := files ! nat (i - 1), forcingStep := 1\<rparr>"
  have "at_file files i s" using assms(1) by simp
  note f = file_entered [OF this assms(2) refl]
  have "at_place files T a At_Run rm nb ?s [In_Run_Hru] (lg @ [F_SetTimeZoneOffset i, Self_Run_Hru])"
    using assms(1) f by (simp add: live_def runs_done_def synced_def prints_ok_def)
  then show ?thesis using assms(1) file_outweighs [of "int (length files)" "steps_left s + int (length files) - i"]
    by (intro exI [of _ ?s] exI [of _ "[F_SetTimeZoneOffset i, Self_Run_Hru]"] exI [of _ At_Run])
       (auto intro!: movesI [of _ _ _ _ _ _ _ _ _ _ 0 "[]" "[]"]
          simp: gru_async_receive_def steps_left_def algebra_simps)
qed

lemma released_moves:
  assumes "at_place files T a At_Released rm nb s (m # q) lg" and "clock_ok rm nb"
  shows "\<exists>s' es p'. gru_async_receive fort m s = Inr (s', es) \<and> moves files T a At_Released rm nb s q lg s' es p'"
proof -
  let ?s = "s\<lparr>num_steps_until_write := nb, ga_output_step := 1\<rparr>"
  have "at_place files T a At_Run rm nb ?s [In_Run_Hru] lg"
    using assms by (simp add: live_def synced_def prints_ok_def in_file_def clock_ok_def)
  then show ?thesis using assms(1)
    by (intro exI [of _ ?s] exI [of _ "[]"] exI [of _ At_Run])
       (auto intro!: movesI [of _ _ _ _ _ _ _ _ _ _ 0 "[]" "[]"] simp: gru_async_receive_def steps_left_def)
qed

lemma finish_moves:
  assumes "at_place files T a (At_Finish w) rm nb s (m # q) lg"
  shows "\<exists>s' es p'. gru_async_receive fort m s = Inr (s', es) \<and> moves files T a (At_Finish w) rm nb s q lg s' es p'"
  using assms
  by (intro exI [of _ "s\<lparr>ga_mode := Gru_Stopped\<rparr>"] exI [of _ "[Parent_Done_Hru (int a), Quit_Gru]"] exI [of _ "At_Done w"])
     (auto intro!: movesI [of _ _ _ _ _ _ _ _ _ _ 0 "[]" "[]"]
        simp: gru_async_receive_def gru_done_def runs_done_def)


text \<open>The run of a GRU, in its four endings.\<close>

lemma computed_fields:
  assumes "computed a k s s' es self ctl"
  shows "0 \<le> k" and "advanced k s s'" and "runs_done es = [ga_timestep s .. ga_timestep s + k - 1]"
    and "sent gru_to_job es = []" and "sent gru_to_self es = self"
    and "\<exists>ws. restart_msgs (ga_job_index s) k ws \<and> sent (gru_to_fa a) es = ws @ ctl"
  using assms by (simp_all add: computed_def)

lemma runs_done_append [simp]: "runs_done (xs @ ys) = runs_done xs @ runs_done ys"
  by (simp add: runs_done_def)

lemma live_advanced:
  assumes "live a T s lg" and "computed a k s s' es self ctl" and "k < steps_left s"
  shows "live a T s' (lg @ es)"
proof -
  note c = computed_fields [OF assms(2)]
  note adv = advanced_fields [OF c(2)]
  have "[1 .. ga_timestep s - 1] @ [ga_timestep s - 1 + 1 .. ga_timestep s + k - 1] = [1 .. ga_timestep s + k - 1]"
    using assms(1) c(1) by (intro upto_append) (auto simp: live_def)
  then show ?thesis using assms(1,3) c adv by (simp add: live_def steps_left_def)
qed

lemma in_file_advanced:
  assumes "in_file files s" and "advanced k s s'" and "forcingStep s + k \<le> stepsInCurrentFFile s + 1"
  shows "in_file files s'"
  using assms advanced_fields [OF assms(2)] by (simp add: in_file_def)

lemma synced_advanced:
  assumes "synced rm nb s" and "advanced k s s'" and "0 \<le> k"
  shows "synced rm nb s'"
  using assms advanced_fields [OF assms(2)] by (simp add: synced_def)

text \<open>A GRU that runs, by the way the handler ends.\<close>

lemma at_runD:
  assumes "at_place files T a At_Run rm nb s (m # q) lg"
  shows "m = In_Run_Hru" "q = []" "live a T s lg" "synced rm nb s" "in_file files s"
  using assms by simp_all

lemma at_run_bounds:
  assumes "at_place files T a At_Run rm nb s (m # q) lg"
  shows "ga_job_index s = int a" "1 \<le> steps_left s" "0 \<le> int (length files)" "ga_iFile s \<le> int (length files)" "1 \<le> ga_iFile s"
  using at_runD(3,5) [OF assms] by (simp_all add: live_def steps_left_def in_file_def)

lemma last_step_outweighs:
  assumes "in_file files s" and "1 \<le> steps_left s"
  shows "steps_left s + 19 + int (length files) \<le> (int (length files) + 20) * steps_left s"
    and "0 \<le> (int (length files) + 20) * (int (length files) - ga_iFile s)"
  using assms step_outweighs [of "int (length files)" "steps_left s" "steps_left s"]
  by (auto simp: in_file_def intro!: mult_nonneg_nonneg)

lemma run_fails:
  assumes at: "at_place files T a At_Run rm nb s (m # q) lg"
    and failed: "failed_after a k s s' es"
  shows "moves files T a At_Run rm nb s q lg s' es At_Error"
proof -
  let ?F = "int (length files)"
  note b = at_run_bounds [OF at] and l = at_runD(3) [OF at] and sy = at_runD(4) [OF at] and i = at_runD(5) [OF at]
  note m = at_runD(1,2) [OF at] and job = b(1) and left = b(2) and F = b(3-5)
  from failed obtain t e msg where f: "0 \<le> k" "k < steps_left s" "ga_mode s' = Gru_Stopped" "sent gru_to_self es = []"
    "restart_msgs (int a) k (sent (gru_to_fa a) es)" "sent gru_to_job es = [Gru_Error (int a) t e msg]"
    unfolding failed_after_def job by blast
  have "gru_lost a (lg @ es)" using l f(6) by (simp add: gru_lost_def live_def)
  moreover note last_step_outweighs [OF i left]
  ultimately show "moves files T a At_Run rm nb s q lg s' es At_Error" using f l F
    by (intro movesI [of _ _ _ _ _ _ _ _ _ _ k "sent (gru_to_fa a) es" "[]"]) (simp_all add: algebra_simps)
qed

lemma run_finishes:
  assumes at: "at_place files T a At_Run rm nb s (m # q) lg"
    and e: "num_steps_until_write s' = 0" and c': "computed a (steps_left s) s s' es [In_Done_Hru] [Fm_Write_Output (ga_job_index s) a]"
  shows "moves files T a At_Run rm nb s q lg s' es (At_Finish Asked)"
proof -
  let ?F = "int (length files)"
  note b = at_run_bounds [OF at] and l = at_runD(3) [OF at] and sy = at_runD(4) [OF at] and i = at_runD(5) [OF at]
  note m = at_runD(1,2) [OF at] and job = b(1) and left = b(2) and F = b(3-5)
  note c = computed_fields [OF c']
  note adv = advanced_fields [OF c(2)]
  from c(6) obtain ws where ws: "restart_msgs (int a) (steps_left s) ws" "sent (gru_to_fa a) es = ws @ [Fm_Write_Output (int a) a]"
    using job by auto
  have "[1 .. ga_timestep s - 1] @ [ga_timestep s - 1 + 1 .. ga_timestep s + steps_left s - 1] = [1 .. T]"
    using l by (subst upto_append) (auto simp: live_def steps_left_def)
  then have all: "runs_done (lg @ es) = [1 .. T]" "sent gru_to_job (lg @ es) = []"
    using l c(3,4) by (simp_all add: live_def)
  have clock: "last_clock Asked rm nb"
    using sy e adv l by (simp add: last_clock_def synced_def steps_left_def live_def)
  show "moves files T a At_Run rm nb s q lg s' es (At_Finish Asked)" using last_step_outweighs [OF i left] c all clock adv l F ws m(2)
    by (intro movesI [of _ _ _ _ _ _ _ _ _ _ "steps_left s" ws "[Fm_Write_Output (int a) a]"])
      (simp_all add: algebra_simps live_def)
qed

lemma run_fills:
  assumes at: "at_place files T a At_Run rm nb s (m # q) lg"
    and nb: "nb \<le> rm" and full: "num_steps_until_write s < steps_left s" "run_length s = num_steps_until_write s"
      "num_steps_until_write s' = 0"
    and c': "computed a (num_steps_until_write s) s s' es [] [Fm_Write_Output (ga_job_index s) a]"
  shows "moves files T a At_Run rm nb s q lg s' es At_Ask_Write"
proof -
  let ?F = "int (length files)"
  note b = at_run_bounds [OF at] and l = at_runD(3) [OF at] and sy = at_runD(4) [OF at] and i = at_runD(5) [OF at]
  note m = at_runD(1,2) [OF at] and job = b(1) and left = b(2) and F = b(3-5)
  let ?k = "num_steps_until_write s"
  note c = computed_fields [OF c']
  note adv = advanced_fields [OF c(2)]
  from c(6) obtain ws where ws: "restart_msgs (int a) ?k ws" "sent (gru_to_fa a) es = ws @ [Fm_Write_Output (int a) a]"
    using job by auto
  have "forcingStep s + ?k \<le> stepsInCurrentFFile s + 1" using full(2) by (simp add: run_length_def min_def split: if_splits)
  then have "at_place files T a At_Ask_Write rm nb s' [] (lg @ es)"
    using live_advanced [OF l c' full(1)] in_file_advanced [OF i c(2)] synced_advanced [OF sy c(2,1)] full(3) by simp
  moreover have "(?F + 20) * (steps_left s - ?k) + ?k + 19 + ?F \<le> (?F + 20) * steps_left s"
    using F at_run_runnable(2) [OF at nb] by (intro step_outweighs) auto
  then have "weight ?F At_Ask_Write s' + ?k + 1 < weight ?F At_Run s" using adv
    by (intro weight_advanced [of ?F "steps_left s" ?k "?F + 19" _ "?F - ga_iFile s" "?F + 8" _ "?F + 6"]) (simp_all add: steps_left_def)
  ultimately show "moves files T a At_Run rm nb s q lg s' es At_Ask_Write" using c adv F ws m(2)
    by (intro movesI [of _ _ _ _ _ _ _ _ _ _ ?k ws "[Fm_Write_Output (int a) a]"]) simp_all
qed

lemma run_dries:
  assumes at: "at_place files T a At_Run rm nb s (m # q) lg"
    and T: "T \<le> sum_list files" and dry: "run_length s = stepsInCurrentFFile s - forcingStep s + 1"
      "0 < num_steps_until_write s'" "run_length s < steps_left s"
    and c': "computed a (run_length s) s s' es [] [Fm_Access_Forcing (ga_iFile s + 1) a]"
  shows "moves files T a At_Run rm nb s q lg s' es (At_Ask_Forcing (ga_iFile s + 1))"
proof -
  let ?F = "int (length files)"
  note b = at_run_bounds [OF at] and l = at_runD(3) [OF at] and sy = at_runD(4) [OF at] and i = at_runD(5) [OF at]
  note m = at_runD(1,2) [OF at] and job = b(1) and left = b(2) and F = b(3-5)
  let ?k = "run_length s"
  note c = computed_fields [OF c']
  note adv = advanced_fields [OF c(2)]
  from c(6) obtain ws where ws: "restart_msgs (int a) ?k ws" "sent (gru_to_fa a) es = ws @ [Fm_Access_Forcing (ga_iFile s + 1) a]"
    using job by auto
  have l': "live a T s' (lg @ es)" using l c' dry(3) by (rule live_advanced)
  have i': "in_file files s'" using i c(2) by (rule in_file_advanced) (simp add: dry(1))
  have "at_file files (ga_iFile s' + 1) s'"
    using i' _ _ T by (rule next_file_exists) (use l' adv dry(1) in \<open>simp_all add: live_def\<close>)
  then have "at_place files T a (At_Ask_Forcing (ga_iFile s + 1)) rm nb s' [] (lg @ es)"
    using l' synced_advanced [OF sy c(2,1)] dry(2) adv by simp
  moreover have "(?F + 20) * (steps_left s - ?k) + ?k \<le> (?F + 20) * steps_left s"
    using step_outweighs [of ?F ?k "steps_left s"] F c(1) by (cases "?k = 0") auto
  then have "weight ?F (At_Ask_Forcing (ga_iFile s + 1)) s' + ?k + 1 < weight ?F At_Run s" using adv
    by (intro weight_advanced [of ?F "steps_left s" ?k 0 _ "?F - ga_iFile s" "?F + 4" _ "?F + 6"]) (simp_all add: steps_left_def)
  ultimately show "moves files T a At_Run rm nb s q lg s' es (At_Ask_Forcing (ga_iFile s + 1))" using c adv F ws m(2)
    by (intro movesI [of _ _ _ _ _ _ _ _ _ _ ?k ws "[Fm_Access_Forcing (ga_iFile s + 1) a]"]) simp_all
qed

lemma run_moves:
  assumes at: "at_place files T a At_Run rm nb s (m # q) lg" and nb: "nb \<le> rm" and T: "T \<le> sum_list files"
  shows "\<exists>s' es p'. gru_async_receive fort m s = Inr (s', es) \<and> moves files T a At_Run rm nb s q lg s' es p'"
proof -
  have h: "gru_async_receive fort m s = on_run_hru fort s" using at_runD(1) [OF at] by (simp add: gru_async_receive_def)
  from at_run_runnable [OF at nb] show ?thesis
  proof (cases rule: on_run_hru_sends [where fort = fort and a = a])
    case failed
    with run_fails [OF at] show ?thesis unfolding h by blast
  next
    case finished
    with run_finishes [OF at] show ?thesis unfolding h by blast
  next
    case full
    with run_fills [OF at nb] show ?thesis unfolding h by blast
  next
    case dry
    with run_dries [OF at T] show ?thesis unfolding h by blast
  qed
qed

text \<open>Every message a GRU handles moves it.\<close>

lemma gru_step_moves:
  assumes at: "at_place files T a p rm nb s (m # q) lg" and mode: "ga_mode s \<noteq> Gru_Stopped"
    and clock: "counted p \<Longrightarrow> clock_ok rm nb" and T: "0 < T" "T \<le> sum_list files" and files: "\<forall>k \<in> set files. 0 < k"
  shows "\<exists>s' es p'. gru_async_receive fort m s = Inr (s', es) \<and> moves files T a p rm nb s q lg s' es p'"
proof (cases p)
  case At_Start
  with at show ?thesis using start_moves by simp
next
  case At_Got_Steps
  with at clock T show ?thesis using got_steps_moves by (simp add: clock_ok_def)
next
  case (At_Got_Forcing i)
  with at files show ?thesis using got_forcing_moves by simp
next
  case At_Run
  with at clock T(2) show ?thesis using run_moves by (simp add: clock_ok_def)
next
  case At_Released
  with at clock show ?thesis using released_moves by simp
next
  case (At_Finish w)
  with at show ?thesis using finish_moves by simp
qed (use at mode in auto)

end
