(* ===== verification/Job_Accounts.thy ===== *)
theory Job_Accounts
  imports Job_Moves
begin

text \<open>
  The file access actor of a running job: its accounts of the places of the GRUs, and what
  every message does to them.
\<close>

subsection \<open>The actor and the round\<close>

text \<open>\<open>m\<close> forcing files are loaded, \<open>b\<close> is the output buffer.\<close>

definition fa_sound :: "nat \<Rightarrow> int list \<Rightarrow> int \<Rightarrow> nat \<Rightarrow> output_buffer \<Rightarrow> file_access \<Rightarrow> bool" where
  "fa_sound n files T m b s \<longleftrightarrow> \<not> fa_stopped s \<and> ti_inv (fa_timing s) \<and> n \<le> length (fa_hru_timesteps s) \<and>
     (\<exists>c. fa_forcing s = Some c \<and> prefix_loaded m c \<and> map nTimeSteps (ff_files c) = files) \<and>
     fa_buffer s = Some b \<and> ob_num_timesteps b = T \<and> 0 < ob_num_buffer_steps b"

fun msg_ok :: "nat \<Rightarrow> nat \<Rightarrow> fa_msg \<Rightarrow> bool" where
  "msg_ok n m (Fm_Access_Internal i) \<longleftrightarrow> 1 \<le> i \<and> i \<le> int m + 1"
| "msg_ok n m (Fm_Write_Restart j t out d) \<longleftrightarrow> 1 \<le> j \<and> j \<le> int n"
| "msg_ok n m _ \<longleftrightarrow> True"

fun msg_weight :: "int \<Rightarrow> fa_msg \<Rightarrow> int" where
  "msg_weight F (Fm_Access_Internal i) = F + 2 - i"
| "msg_weight F Fm_Finalize = 2"
| "msg_weight F _ = 1"

text \<open>The GRUs of \<open>P\<close> take part in the round; the others are as if they had finished.\<close>

definition round_ok :: "nat set \<Rightarrow> (nat \<Rightarrow> place) \<Rightarrow> output_buffer \<Rightarrow> bool" where
  "round_ok P pos b \<longleftrightarrow> parts_ok b P {a. counted (pos a)} {a. queued (pos a)} \<and>
     (\<forall>a. pos a = At_Removed \<longrightarrow> int a \<in> set (ob_failed_grus b)) \<and> (\<forall>a. a \<notin> P \<longrightarrow> pos a = At_Known Written)"

definition rm_of :: "output_buffer \<Rightarrow> nat set \<Rightarrow> nat \<Rightarrow> int" where
  "rm_of b P a = (if a \<in> P then op_steps_remaining (part b a) else 0)"

definition nb_of :: "output_buffer \<Rightarrow> nat set \<Rightarrow> nat \<Rightarrow> int" where
  "nb_of b P a = (if a \<in> P then op_num_steps_buffer (part b a) else 0)"

text \<open>What a place says about the partition and the forcing files, whatever the GRU.\<close>

fun place_clock :: "int list \<Rightarrow> nat \<Rightarrow> place \<Rightarrow> int \<Rightarrow> int \<Rightarrow> bool" where
  "place_clock files m (At_Ask_Forcing i) rm nb \<longleftrightarrow> 1 \<le> i \<and> i \<le> int m + 1 \<and> i \<le> int (length files)"
| "place_clock files m At_Ask_Write rm nb \<longleftrightarrow> nb < rm"
| "place_clock files m At_Wait rm nb \<longleftrightarrow> nb < rm"
| "place_clock files m (At_Finish w) rm nb \<longleftrightarrow> last_clock w rm nb"
| "place_clock files m (At_Done w) rm nb \<longleftrightarrow> last_clock w rm nb"
| "place_clock files m (At_Known w) rm nb \<longleftrightarrow> last_clock w rm nb"
| "place_clock files m _ rm nb \<longleftrightarrow> True"

lemma at_place_clock:
  "at_place files T a p rm nb s box lg \<Longrightarrow> needs p s \<le> int m \<Longrightarrow> place_clock files m p rm nb"
  by (cases p) (auto simp: at_file_def synced_def live_def)

lemma counted_clock:
  assumes "round_ok P pos b" and "counted (pos a)"
  shows "a \<in> P" and "clock_ok (rm_of b P a) (nb_of b P a)"
proof -
  show a: "a \<in> P" using assms by (auto simp: round_ok_def)
  have "partition_inv (part b a) ({c. counted (pos c)} \<inter> members b P a)" "a \<in> {c. counted (pos c)} \<inter> members b P a"
    using assms a by (simp_all add: round_ok_def parts_ok_def)
  then show "clock_ok (rm_of b P a) (nb_of b P a)" using a
    by (auto simp: partition_inv_def clock_ok_def rm_of_def nb_of_def split: if_splits)
qed

subsection \<open>The move of a place\<close>

text \<open>How the file access actor moves a GRU from \<open>p\<close> to \<open>p'\<close> with \<open>adds\<close> in its mailbox, the
  partition going from \<open>(rm, nb)\<close> to \<open>(rm', nb')\<close>; \<open>W\<close> is what it may spend.\<close>

definition place_moves ::
  "int list \<Rightarrow> int \<Rightarrow> nat \<Rightarrow> nat \<Rightarrow> nat \<Rightarrow> place \<Rightarrow> int \<Rightarrow> int \<Rightarrow> place \<Rightarrow> int \<Rightarrow> int \<Rightarrow> gru_in list \<Rightarrow> int \<Rightarrow> bool" where
  "place_moves files T m m' a p rm nb p' rm' nb' adds W \<longleftrightarrow>
     known p' = known p \<and> lost p' = lost p \<and> job_mail a p' = job_mail a p \<and> (lost p \<or> p = At_Known Written \<longrightarrow> adds = []) \<and>
     (\<forall>s box lg. at_place files T a p rm nb s box lg \<and> needs p s \<le> int m \<longrightarrow>
        at_place files T a p' rm' nb' s (box @ adds) lg \<and> needs p' s \<le> int m' \<and>
        weight (int (length files)) p' s + W \<le> weight (int (length files)) p s)"

lemma place_moves_refl: "m \<le> m' \<Longrightarrow> place_moves files T m m' a p rm nb p rm nb [] 0"
  by (auto simp: place_moves_def)

lemma place_moves_removed:
  "p = At_Removed \<or> p = At_Error_Known \<Longrightarrow> place_moves files T m m' a p rm nb At_Removed rm' nb' [] 0"
  by (auto simp: place_moves_def fun_eq_iff)

lemma place_moves_steps:
  "place_moves files T m m' a At_Ask_Steps rm nb At_Got_Steps rm nb [In_Num_Output_Steps nb] 0"
  by (auto simp: place_moves_def fun_eq_iff)

lemma place_moves_forcing:
  assumes "1 \<le> i" and "i \<le> int m'" and "W \<le> int (length files) + 4"
  shows "place_moves files T m m' a (At_Ask_Forcing i) rm nb (At_Got_Forcing i) rm nb
    [In_New_Forcing_File 0 (files ! nat (i - 1)) i] W"
  using assms by (auto simp: place_moves_def fun_eq_iff)

text \<open>The request to write or the failure of a GRU is taken; a write releases the GRUs queued.\<close>

fun taken :: "place \<Rightarrow> place" where
  "taken At_Ask_Write = At_Wait"
| "taken (At_Finish w) = At_Finish (if w = Asked then Queued else w)"
| "taken (At_Done w) = At_Done (if w = Asked then Queued else w)"
| "taken (At_Known w) = At_Known (if w = Asked then Queued else w)"
| "taken At_Error_Known = At_Removed"
| "taken p = p"

fun release :: "place \<Rightarrow> place" where
  "release At_Wait = At_Released"
| "release (At_Finish w) = At_Finish Written"
| "release (At_Done w) = At_Done Written"
| "release (At_Known w) = At_Known Written"
| "release p = p"

definition asks_write :: "place \<Rightarrow> bool" where
  "asks_write p \<longleftrightarrow> p \<in> {At_Ask_Write, At_Finish Asked, At_Done Asked, At_Known Asked}"

lemma asks_write_mail: "fa_mail a p = [Fm_Write_Output j c] \<Longrightarrow> asks_write p \<and> j = int a \<and> c = a"
  by (cases p) (auto simp: asks_write_def split: if_splits)

lemma taken_simps:
  "asks_write p \<Longrightarrow> \<not> counted (taken p) \<and> queued (taken p) \<and> counted p \<and> \<not> queued p \<and> fa_mail a (taken p) = []"
  "known (taken p) = known p" "lost (taken p) = lost p" "job_mail a (taken p) = job_mail a p"
  by (cases p; auto simp: asks_write_def fun_eq_iff)+

lemma release_simps:
  "known (release p) = known p" "lost (release p) = lost p" "job_mail a (release p) = job_mail a p"
  "queued p \<Longrightarrow> \<not> queued (release p)" "queued p \<Longrightarrow> counted (release p) = (p = At_Wait)"
  "queued p \<Longrightarrow> fa_mail a (release p) = []" "queued p \<Longrightarrow> \<not> lost p" "queued p \<Longrightarrow> fa_mail a p = []" "queued p \<Longrightarrow> \<not> counted p"
  "release p = At_Removed \<longleftrightarrow> p = At_Removed"
  by (cases p; auto simp: fun_eq_iff)+

lemma place_moves_taken:
  "m \<le> m' \<Longrightarrow> asks_write p \<Longrightarrow> place_moves files T m m' a p rm nb (taken p) rm nb [] 0"
  by (auto simp: place_moves_def asks_write_def fun_eq_iff last_clock_def)

lemma place_moves_release:
  assumes "m \<le> m'" and "asks_write p \<and> p' = taken p \<or> queued p \<and> p' = p"
    and "rm' = rm - nb" and "p' = At_Wait \<longleftrightarrow> 0 < rm'" and "place_clock files m p rm nb"
  shows "place_moves files T m m' a p rm nb (release p') rm' nb'
    [In_Num_Steps_Before_Write nb', In_Run_Hru] 0"
  using assms
  by (cases p) (auto simp: place_moves_def asks_write_def fun_eq_iff last_clock_def synced_def live_def split: if_splits)


subsection \<open>A request to write or a failure\<close>

definition released_msgs :: "write_output_return option \<Rightarrow> nat \<Rightarrow> gru_in list" where
  "released_msgs ret c = (case ret of None \<Rightarrow> []
     | Some r \<Rightarrow> if c \<in> set (actor_to_update r) then [In_Num_Steps_Before_Write (num_steps_update r), In_Run_Hru] else [])"

definition settling :: "bool \<Rightarrow> place \<Rightarrow> bool" where
  "settling reports p \<longleftrightarrow> (if reports then asks_write p else p = At_Error_Known)"

lemma settling_simps:
  assumes "settling reports p"
  shows "counted p" "\<not> queued p" "\<not> counted (taken p)" "queued (taken p) = reports" "fa_mail a (taken p) = []"
    "taken p = At_Removed \<longleftrightarrow> \<not> reports" "release (taken p) = At_Removed \<longleftrightarrow> \<not> reports"
  using assms by (cases p; auto simp: settling_def asks_write_def split: if_splits)+

text \<open>When the partition does not write yet.\<close>

lemma settled_waits:
  assumes round: "round_ok P pos b" and a: "settling reports (pos a)"
    and s: "settles reports b P {c. counted (pos c)} {c. queued (pos c)} a b' None"
    and failed: "set (ob_failed_grus b) \<union> (if reports then {} else {int a}) \<subseteq> set (ob_failed_grus b')"
  shows "round_ok P (pos(a := taken (pos a))) b'"
    and "place_moves files T m m c (pos c) (rm_of b P c) (nb_of b P c)
      ((pos(a := taken (pos a))) c) (rm_of b' P c) (nb_of b' P c) [] 0"
proof -
  let ?M = "members b P a" and ?C = "{c. counted (pos c)}" and ?Q = "{c. queued (pos c)}"
  note p = settling_simps [OF a]
  have aP: "a \<in> P" using round p(1) by (auto simp: round_ok_def)
  from s have st: "c \<in> P - ?M \<Longrightarrow> part b' c = part b c"
    "parts_ok b' P (?C - {a}) (?Q \<union> (?Q \<inter> ?M \<union> (if reports then {a} else {})))"
    "c \<in> ?M \<Longrightarrow> op_steps_remaining (part b' c) = op_steps_remaining (part b c) \<and>
       op_num_steps_buffer (part b' c) = op_num_steps_buffer (part b c)" for c
    unfolding settles_def Let_def by auto
  have "{c. counted ((pos(a := taken (pos a))) c)} = ?C - {a}"
    "{c. queued ((pos(a := taken (pos a))) c)} = ?Q \<union> (?Q \<inter> ?M \<union> (if reports then {a} else {}))"
    using p by auto
  then show "round_ok P (pos(a := taken (pos a))) b'"
    using st(2) round failed aP p(6) by (auto simp: round_ok_def)
  have "rm_of b' P c = rm_of b P c" "nb_of b' P c = nb_of b P c"
    using st(1,3) [of c] by (cases "c \<in> ?M"; auto simp: rm_of_def nb_of_def)+
  with a show "place_moves files T m m c (pos c) (rm_of b P c) (nb_of b P c)
      ((pos(a := taken (pos a))) c) (rm_of b' P c) (nb_of b' P c) [] 0"
    by (auto simp: place_moves_refl settling_def place_moves_taken place_moves_removed split: if_splits)
qed

text \<open>When it does: the GRU was the last one awaited.\<close>

definition after_release :: "(nat \<Rightarrow> place) \<Rightarrow> nat \<Rightarrow> nat set \<Rightarrow> nat \<Rightarrow> place" where
  "after_release pos a R c = (let p = (if c = a then taken (pos c) else pos c) in if c \<in> R then release p else p)"

lemma last_write_all: "w = Asked \<or> w = Queued \<or> w = Written"
  by (cases w) simp_all

text \<open>In a partition with a GRU still awaited nobody has written the last output.\<close>

lemma clock_places:
  assumes "place_clock files m p rm nb" and "clock_ok rm nb"
  shows "asks_write p \<Longrightarrow> taken p = At_Wait \<longleftrightarrow> nb < rm" and "queued p \<Longrightarrow> p = At_Wait \<longleftrightarrow> nb < rm"
    and "\<not> counted p \<Longrightarrow> \<not> queued p \<Longrightarrow> p = At_Removed"
  using assms last_write_all by (cases p; auto simp: asks_write_def last_clock_def clock_ok_def split: if_splits)+

lemma settles_SomeD:
  assumes round: "round_ok P pos b" and a: "settling reports (pos a)"
    and s: "settles reports b P {c. counted (pos c)} {c. queued (pos c)} a b' (Some r)"
  shows "a \<in> members b P a" and "clock_ok (rm_of b P a) (nb_of b P a)"
    and "set (actor_to_update r) = {c. queued (pos c)} \<inter> members b P a \<union> (if reports then {a} else {})"
    and "{c. counted (pos c)} \<inter> members b P a = {a}"
    and "c \<notin> members b P a \<Longrightarrow> rm_of b' P c = rm_of b P c \<and> nb_of b' P c = nb_of b P c"
    and "c \<in> members b P a \<Longrightarrow> c \<in> P \<and> rm_of b P c = rm_of b P a \<and> nb_of b P c = nb_of b P a \<and>
      rm_of b' P c = rm_of b P a - nb_of b P a \<and> nb_of b' P c = num_steps_update r"
    and "parts_ok b' P ({c. counted (pos c)} - {a} \<union> (if nb_of b P a < rm_of b P a then set (actor_to_update r) else {}))
      ({c. queued (pos c)} - members b P a)"
proof -
  let ?M = "members b P a" and ?C = "{c. counted (pos c)}" and ?Q = "{c. queued (pos c)}"
  note p = settling_simps [OF a]
  have aP: "a \<in> P" using counted_clock(1) [OF round p(1)] .
  then show aM: "a \<in> ?M" by simp
  show "clock_ok (rm_of b P a) (nb_of b P a)" using counted_clock(2) [OF round p(1)] .
  from s show "set (actor_to_update r) = ?Q \<inter> ?M \<union> (if reports then {a} else {})" and "?C \<inter> ?M = {a}"
    unfolding settles_def Let_def by auto
  from s have out: "\<And>c. c \<in> P - ?M \<Longrightarrow> part b' c = part b c"
    and nb: "num_steps_update r = op_num_steps_buffer (part b' a)"
    and inn: "\<And>c. c \<in> ?M \<Longrightarrow> op_steps_remaining (part b' c) = op_steps_remaining (part b c) - op_num_steps_buffer (part b c)"
    and inb: "\<And>c. c \<in> ?M \<Longrightarrow> op_num_steps_buffer (part b' c) =
      min (op_num_steps_buffer (part b c)) (op_steps_remaining (part b' c))"
    and ok: "parts_ok b' P (?C - {a} \<union> (if 0 < op_steps_remaining (part b' a) then set (actor_to_update r) else {})) (?Q - ?M)"
    unfolding settles_def Let_def by auto
  show "rm_of b' P c = rm_of b P c \<and> nb_of b' P c = nb_of b P c" if "c \<notin> ?M"
    using out [of c] that by (auto simp: rm_of_def nb_of_def)
  show "parts_ok b' P (?C - {a} \<union> (if nb_of b P a < rm_of b P a then set (actor_to_update r) else {})) (?Q - ?M)"
    using ok inn [OF aM] aP by (simp add: rm_of_def nb_of_def)
  show "c \<in> P \<and> rm_of b P c = rm_of b P a \<and> nb_of b P c = nb_of b P a \<and>
      rm_of b' P c = rm_of b P a - nb_of b P a \<and> nb_of b' P c = num_steps_update r" if c: "c \<in> ?M"
  proof -
    have "c \<in> P" using c by (simp add: members_def)
    moreover have "op_steps_remaining (part b' c) = op_steps_remaining (part b' a)"
      using inn [OF c] inn [OF aM] part_members [OF c] by simp
    then have "op_num_steps_buffer (part b' c) = num_steps_update r"
      using inb [OF c] inb [OF aM] part_members [OF c] nb by simp
    ultimately show ?thesis using part_members [OF c] inn [OF c] aP by (simp add: rm_of_def nb_of_def)
  qed
qed

text \<open>The GRUs released go on when the partition has steps left, and have written their last
  output otherwise.\<close>

lemma released_place:
  assumes round: "round_ok P pos b" and a: "settling reports (pos a)"
    and s: "settles reports b P {c. counted (pos c)} {c. queued (pos c)} a b' (Some r)"
    and clock: "\<forall>c \<in> P. place_clock files m (pos c) (rm_of b P c) (nb_of b P c)"
    and c: "c \<in> set (actor_to_update r)"
  shows "asks_write (pos c) \<and> c = a \<and> reports \<or> queued (pos c) \<and> c \<noteq> a"
    and "(if c = a then taken (pos c) else pos c) = At_Wait \<longleftrightarrow> nb_of b P a < rm_of b P a"
proof -
  note d = settles_SomeD [OF round a s]
  show k: "asks_write (pos c) \<and> c = a \<and> reports \<or> queued (pos c) \<and> c \<noteq> a"
    using c d(3) settling_simps(2) [OF a] a by (auto simp: settling_def split: if_splits)
  have "c \<in> members b P a" using c d(1,3) by (auto split: if_splits)
  note M = d(6) [OF this]
  then have "place_clock files m (pos c) (rm_of b P a) (nb_of b P a)" using clock by force
  from clock_places(1,2) [OF this d(2)] k show "(if c = a then taken (pos c) else pos c) = At_Wait \<longleftrightarrow> nb_of b P a < rm_of b P a"
    by auto
qed

lemma settled_round:
  assumes round: "round_ok P pos b" and a: "settling reports (pos a)"
    and s: "settles reports b P {c. counted (pos c)} {c. queued (pos c)} a b' (Some r)"
    and clock: "\<forall>c \<in> P. place_clock files m (pos c) (rm_of b P c) (nb_of b P c)"
    and failed: "set (ob_failed_grus b) \<union> (if reports then {} else {int a}) \<subseteq> set (ob_failed_grus b')"
  shows "round_ok P (after_release pos a (set (actor_to_update r))) b'"
proof -
  let ?M = "members b P a" and ?C = "{c. counted (pos c)}" and ?Q = "{c. queued (pos c)}"
  let ?R = "set (actor_to_update r)" and ?pos = "after_release pos a (set (actor_to_update r))"
  note p = settling_simps [OF a]
  note d = settles_SomeD [OF round a s]
  note rel = released_place [OF round a s clock]
  have qd: "queued (if c = a then taken (pos c) else pos c)" if "c \<in> ?R" for c using rel(1) [OF that] p(4) by auto
  have cnt: "counted (?pos c) = (nb_of b P a < rm_of b P a)" "\<not> queued (?pos c)" if "c \<in> ?R" for c
    using release_simps(4,5) [OF qd [OF that]] rel(2) [OF that] that by (simp_all add: after_release_def)
  have rest: "counted (?pos c) = (counted (pos c) \<and> c \<noteq> a)" "queued (?pos c) = (if c = a then queued (taken (pos c)) else queued (pos c))"
    if "c \<notin> ?R" for c using that p(3) by (auto simp: after_release_def)
  have R: "c \<in> ?R \<Longrightarrow> c = a \<or> \<not> counted (pos c)" for c using rel(1) release_simps(9) by blast
  have C: "{c. counted (?pos c)} = ?C - {a} \<union> (if nb_of b P a < rm_of b P a then ?R else {})"
    using cnt(1) rest(1) R by (auto split: if_splits)
  have "{c. queued (?pos c)} = ?Q - ?M"
  proof (intro set_eqI)
    fix c
    show "c \<in> {c. queued (?pos c)} \<longleftrightarrow> c \<in> ?Q - ?M"
      using cnt(2) [of c] rest(2) [of c] p(2,4) d(1,3) by (cases "c \<in> ?R") (auto split: if_splits)
  qed
  moreover have "?pos c = At_Known Written" if "c \<notin> P" for c
  proof -
    have "c \<notin> ?M" using that by (simp add: members_def)
    then have "c \<noteq> a" "c \<notin> ?R" using d(1,3) by (auto split: if_splits)
    then show ?thesis using that round by (simp add: after_release_def round_ok_def)
  qed
  moreover have "int c \<in> set (ob_failed_grus b')" if "?pos c = At_Removed" for c
    using that round failed p(6,7)
    by (auto simp: after_release_def Let_def round_ok_def release_simps(10) split: if_splits)
  ultimately show "round_ok P ?pos b'" using d(7) C by (simp add: round_ok_def)
qed

lemma settled_places:
  assumes round: "round_ok P pos b" and a: "settling reports (pos a)"
    and s: "settles reports b P {c. counted (pos c)} {c. queued (pos c)} a b' (Some r)"
    and clock: "\<forall>c \<in> P. place_clock files m (pos c) (rm_of b P c) (nb_of b P c)"
  shows "place_moves files T m m c (pos c) (rm_of b P c) (nb_of b P c)
      (after_release pos a (set (actor_to_update r)) c) (rm_of b' P c) (nb_of b' P c) (released_msgs (Some r) c) 0"
proof -
  let ?M = "members b P a" and ?R = "set (actor_to_update r)"
  note p = settling_simps [OF a]
  note d = settles_SomeD [OF round a s]
  consider (out) "c \<notin> ?M" | (released) "c \<in> ?R" | (rest) "c \<in> ?M" "c \<notin> ?R" by blast
  then show ?thesis
  proof cases
    case out
    then have "c \<notin> ?R" "c \<noteq> a" using d(1,3) by (auto split: if_splits)
    with d(5) [OF out] show ?thesis by (simp add: after_release_def released_msgs_def place_moves_refl)
  next
    case released
    then have "c \<in> ?M" using d(1,3) by (auto split: if_splits)
    note M = d(6) [OF this] and rel = released_place [OF round a s clock released]
    then have "place_clock files m (pos c) (rm_of b P c) (nb_of b P c)" using clock by blast
    with M rel released show ?thesis
      by (auto simp: after_release_def released_msgs_def Let_def intro!: place_moves_release)
  next
    case rest
    note M = d(6) [OF rest(1)]
    then have cl: "place_clock files m (pos c) (rm_of b P a) (nb_of b P a)" using clock by force
    have "taken (pos c) = At_Removed \<and> pos c = At_Error_Known" if "c = a"
      using that rest(2) d(1,3) a by (auto simp: settling_def split: if_splits)
    moreover have "pos c = At_Removed" if "c \<noteq> a"
      using clock_places(3) [OF cl d(2)] that rest d(3,4) by blast
    ultimately show ?thesis using rest(2)
      by (auto simp: after_release_def released_msgs_def Let_def intro!: place_moves_removed)
  qed
qed

lemma settled_mail:
  assumes round: "round_ok P pos b" and a: "settling reports (pos a)"
    and s: "settles reports b P {c. counted (pos c)} {c. queued (pos c)} a b' (Some r)"
    and clock: "\<forall>c \<in> P. place_clock files m (pos c) (rm_of b P c) (nb_of b P c)"
  shows "fa_mail c (after_release pos a (set (actor_to_update r)) c) = (if c = a then [] else fa_mail c (pos c))"
proof -
  note p = settling_simps [OF a] and rel = released_place(1) [OF round a s clock, of c]
  have "queued (if c = a then taken (pos c) else pos c)" if "c \<in> set (actor_to_update r)"
    using rel [OF that] p(4) by auto
  then show ?thesis using rel p(5) [of c] release_simps(6,8)
    by (auto simp: after_release_def Let_def)
qed

end
