(* ===== verification/Job_File_Steps.thy ===== *)
theory Job_File_Steps
  imports Job_Accounts
begin

text \<open>
  Every message the file access actor handles moves GRUs, keeps its accounts and never
  fails.
\<close>

subsection \<open>The move of a message\<close>

abbreviation msgs_weight :: "int list \<Rightarrow> fa_msg list \<Rightarrow> int" where
  "msgs_weight files ms \<equiv> sum_list (map (msg_weight (int (length files))) ms)"

fun spend :: "int list \<Rightarrow> fa_msg \<Rightarrow> int" where
  "spend files (Fm_Access_Forcing i a) = int (length files) + 1"
| "spend files _ = 0"

definition spends :: "int list \<Rightarrow> fa_msg \<Rightarrow> nat \<Rightarrow> int" where
  "spends files msg c = (if sender msg = Some c then spend files msg else 0)"

definition file_moves ::
  "int list \<Rightarrow> int \<Rightarrow> nat set \<Rightarrow> nat \<Rightarrow> output_buffer \<Rightarrow> (nat \<Rightarrow> place) \<Rightarrow> fa_msg \<Rightarrow> fa_effect list \<Rightarrow>
   nat \<Rightarrow> output_buffer \<Rightarrow> (nat \<Rightarrow> place) \<Rightarrow> bool" where
  "file_moves files T P m b pos msg es m' b' pos' \<longleftrightarrow> m \<le> m' \<and> round_ok P pos' b' \<and>
     (\<forall>x \<in> set (sent fa_to_self es). \<exists>i. x = Fm_Access_Internal i \<and> 1 \<le> i \<and> i \<le> int m' + 1) \<and>
     (\<forall>c. fa_mail c (pos' c) = (if sender msg = Some c then [] else fa_mail c (pos c))) \<and>
     (\<forall>now. sent (fa_to_job now) es = []) \<and>
     (\<forall>c. place_moves files T m m' c (pos c) (rm_of b P c) (nb_of b P c) (pos' c) (rm_of b' P c) (nb_of b' P c)
            (sent (fa_to_gru msg c) es) (spends files msg c)) \<and>
     msgs_weight files (sent fa_to_self es) < msg_weight (int (length files)) msg + spend files msg"

lemma sent_comp [simp]: "(\<And>x. f (g x) = []) \<Longrightarrow> sent (f \<circ> g) xs = []"
  by simp

lemma file_movesI:
  assumes "m \<le> m'" and "round_ok P pos' b'" and "sent fa_to_self es = self"
    and "\<And>x. x \<in> set self \<Longrightarrow> \<exists>i. x = Fm_Access_Internal i \<and> 1 \<le> i \<and> i \<le> int m' + 1"
    and "\<And>c. fa_mail c (pos' c) = (if sender msg = Some c then [] else fa_mail c (pos c))"
    and "\<And>now. sent (fa_to_job now) es = []" and "\<And>c. sent (fa_to_gru msg c) es = adds c"
    and "\<And>c. place_moves files T m m' c (pos c) (rm_of b P c) (nb_of b P c) (pos' c) (rm_of b' P c) (nb_of b' P c)
            (adds c) (spends files msg c)"
    and "msgs_weight files self < msg_weight (int (length files)) msg + spend files msg"
  shows "file_moves files T P m b pos msg es m' b' pos'"
  unfolding file_moves_def assms(3,6,7) using assms(1,2,4,5,8,9) by blast

lemma file_moves_neutral:
  assumes "round_ok P pos b" and "sender msg = None" "spend files msg = 0" and "sent fa_to_self es = []" "\<And>c. sent (fa_to_gru msg c) es = []"
    "\<And>now. sent (fa_to_job now) es = []" and "0 < msg_weight (int (length files)) msg"
  shows "file_moves files T P m b pos msg es m b pos"
  by (rule file_movesI [where self = "[]" and adds = "\<lambda>c. []", OF _ assms(1,4) _ _ assms(6,5)])
     (use assms(2,3,7) in \<open>simp_all add: place_moves_refl spends_def\<close>)

subsection \<open>Forcing files\<close>

lemma ff_length: "map nTimeSteps (ff_files c) = files \<Longrightarrow> length (ff_files c) = length files"
  by (metis length_map)

lemma load_sound:
  assumes "fa_sound n files T m b s" and "fa_forcing s = Some c" and "\<not> allFilesLoaded c" and "1 \<le> i" "i \<le> int m + 1"
  shows "\<exists>c' m' rs. loadForcingFile t0 t1 0 i c = Inr (0, c', rs) \<and> m \<le> m' \<and> i \<le> int m' \<and>
    map nTimeSteps (ff_files c') = files \<and> fa_sound n files T m' b (s\<lparr>fa_forcing := Some c'\<rparr>)"
proof -
  have c: "prefix_loaded m c" "map nTimeSteps (ff_files c) = files" using assms(1,2) by (auto simp: fa_sound_def)
  from load_step [OF c(1) assms(3-5), of t0 t1] obtain c' m' where
    "loadForcingFile t0 t1 0 i c = Inr (0, c', map (\<lambda>j. int j + 1) [m ..< m'])" "m \<le> m'" "prefix_loaded m' c'"
    "map nTimeSteps (ff_files c') = map nTimeSteps (ff_files c)" "i + 1 \<le> int m' + 1" by blast
  with c(2) assms(1) show ?thesis by (auto simp: fa_sound_def)
qed

lemma forcing_moves:
  assumes s: "fa_sound n files T m b s" and round: "round_ok P pos b" and p: "pos a = At_Ask_Forcing i"
    and i: "1 \<le> i" "i \<le> int m + 1" "i \<le> int (length files)"
  shows "\<exists>s' es m' pos'. fa_receive t0 t1 (Fm_Access_Forcing i a) s = Inr (s', es) \<and> fa_sound n files T m' b s' \<and>
    file_moves files T P m b pos (Fm_Access_Forcing i a) es m' b pos'"
proof -
  from s obtain c where c: "fa_forcing s = Some c" "prefix_loaded m c" "map nTimeSteps (ff_files c) = files"
    by (auto simp: fa_sound_def)
  let ?pos = "pos(a := At_Got_Forcing i)"
  have aP: "a \<in> P" using counted_clock(1) [OF round] p by simp
  have round': "round_ok P ?pos b"
  proof -
    have "{c. counted (?pos c)} = {c. counted (pos c)}" "{c. queued (?pos c)} = {c. queued (pos c)}" using p by auto
    then show ?thesis using round aP by (auto simp: round_ok_def)
  qed
  have moves: "file_moves files T P m b pos (Fm_Access_Forcing i a) es m' b ?pos"
    if "m \<le> m'" "i \<le> int m'" "sent fa_to_self es = self" "self = [] \<or> self = [Fm_Access_Internal (i + 1)]"
      "\<And>c. sent (fa_to_gru (Fm_Access_Forcing i a) c) es = (if c = a then [In_New_Forcing_File 0 (files ! nat (i - 1)) i] else [])"
      "\<And>now. sent (fa_to_job now) es = []" for es m' self
    using that(1) round' that(3) _ _ that(6,5)
    by (rule file_movesI)
       (use that(1,2,4) p i(1) in \<open>auto simp: spends_def place_moves_refl intro!: place_moves_forcing\<close>)
  show ?thesis
  proof (cases "allFilesLoaded c")
    case True
    then have "int m = int (length files)" using c ff_length [OF c(3)] by (simp add: allFilesLoaded_def prefix_loaded_def)
    moreover have "fa_receive t0 t1 (Fm_Access_Forcing i a) s = Inr (s, [New_Forcing_To a (files ! nat (i - 1)) i])"
      using True c getNumSteps_ok [OF i(1), of c] i(3) ff_length [OF c(3)]
      by (simp add: fa_receive_def on_access_forcing_def with_forcing_def)
    ultimately show ?thesis using s i(3)
      by (intro exI [of _ s] exI [of _ "[New_Forcing_To a (files ! nat (i - 1)) i]"] exI [of _ m] exI [of _ ?pos] conjI moves [where self = "[]"]) auto
  next
    case False
    from load_sound [OF s c(1) False i(1,2), of t0 t1] obtain c' m' rs where
      l: "loadForcingFile t0 t1 0 i c = Inr (0, c', rs)" "m \<le> m'" "i \<le> int m'" "map nTimeSteps (ff_files c') = files"
        "fa_sound n files T m' b (s\<lparr>fa_forcing := Some c'\<rparr>)" by blast
    let ?es = "map (\<lambda>i. Read_Forcing i (fa_start_gru s) (fa_num_gru s)) rs @
      [Internal_Forcing (i + 1), New_Forcing_To a (files ! nat (i - 1)) i]"
    have "fa_receive t0 t1 (Fm_Access_Forcing i a) s = Inr (s\<lparr>fa_forcing := Some c'\<rparr>, ?es)"
      using False c(1) l(1,4) getNumSteps_ok [OF i(1), of c'] i(3) ff_length [OF l(4)]
      by (simp add: fa_receive_def on_access_forcing_def with_forcing_def Let_def)
    then show ?thesis using l
      by (intro exI [of _ "s\<lparr>fa_forcing := Some c'\<rparr>"] exI [of _ ?es] exI [of _ m'] exI [of _ ?pos] conjI moves [where self = "[Fm_Access_Internal (i + 1)]"]) auto
  qed
qed

lemma internal_moves:
  assumes s: "fa_sound n files T m b s" and round: "round_ok P pos b" and i: "1 \<le> i" "i \<le> int m + 1"
  shows "\<exists>s' es m'. fa_receive t0 t1 (Fm_Access_Internal i) s = Inr (s', es) \<and> fa_sound n files T m' b s' \<and>
    file_moves files T P m b pos (Fm_Access_Internal i) es m' b pos"
proof -
  from s obtain c where c: "fa_forcing s = Some c" "prefix_loaded m c" "map nTimeSteps (ff_files c) = files"
    by (auto simp: fa_sound_def)
  have m: "int m \<le> int (length files)" using c(2) ff_length [OF c(3)] by (simp add: prefix_loaded_def)
  show ?thesis
  proof (cases "allFilesLoaded c")
    case True
    then have "fa_receive t0 t1 (Fm_Access_Internal i) s = Inr (s, [])"
      using c by (simp add: fa_receive_def on_access_forcing_internal_def with_forcing_def)
    moreover have "file_moves files T P m b pos (Fm_Access_Internal i) [] m b pos"
      using round m i by (intro file_moves_neutral) auto
    ultimately show ?thesis using s by blast
  next
    case False
    from load_sound [OF s c(1) False i, of t0 t1] obtain c' m' rs where
      l: "loadForcingFile t0 t1 0 i c = Inr (0, c', rs)" "m \<le> m'" "i \<le> int m'"
        "fa_sound n files T m' b (s\<lparr>fa_forcing := Some c'\<rparr>)" by blast
    let ?es = "map (\<lambda>i. Read_Forcing i (fa_start_gru s) (fa_num_gru s)) rs @ [Internal_Forcing (i + 1)]"
    have "fa_receive t0 t1 (Fm_Access_Internal i) s = Inr (s\<lparr>fa_forcing := Some c'\<rparr>, ?es)"
      using False c(1) l(1) by (simp add: fa_receive_def on_access_forcing_internal_def with_forcing_def Let_def)
    moreover have "file_moves files T P m b pos (Fm_Access_Internal i) ?es m' b pos"
      using round l(2,3) i(1)
      by (intro file_movesI [where self = "[Fm_Access_Internal (i + 1)]" and adds = "\<lambda>c. []"])
         (auto simp: place_moves_refl spends_def)
    ultimately show ?thesis using l(4) by blast
  qed
qed

subsection \<open>Output\<close>

lemma steps_moves:
  assumes s: "fa_sound n files T m b s" and round: "round_ok P pos b" and p: "pos a = At_Ask_Steps"
  shows "\<exists>s' es pos'. fa_receive t0 t1 (Fm_Get_Num_Steps (int a) a) s = Inr (s', es) \<and> fa_sound n files T m b s' \<and>
    file_moves files T P m b pos (Fm_Get_Num_Steps (int a) a) es m b pos'"
proof -
  let ?pos = "pos(a := At_Got_Steps)" and ?nb = "op_num_steps_buffer (part b a)"
  have aP: "a \<in> P" using counted_clock(1) [OF round] p by simp
  have "{c. counted (?pos c)} = {c. counted (pos c)}" "{c. queued (?pos c)} = {c. queued (pos c)}" using p by auto
  then have round': "round_ok P ?pos b" using round aP by (auto simp: round_ok_def)
  have ok: "parts_ok b P {c. counted (pos c)} {c. queued (pos c)}" using round by (simp add: round_ok_def)
  have "fa_receive t0 t1 (Fm_Get_Num_Steps (int a) a) s = Inr (s, [Reply_Int ?nb])"
    using s parts_ok_part(1,2) [OF ok aP]
    by (auto simp: fa_receive_def on_get_num_output_steps_def with_buffer_def fa_sound_def getNumStepsBuffer_def Let_def)
  moreover have "file_moves files T P m b pos (Fm_Get_Num_Steps (int a) a) [Reply_Int ?nb] m b ?pos"
    using p aP place_moves_steps [of files T m m a "rm_of b P a" ?nb]
    by (intro file_movesI [OF _ round', where self = "[]" and
          adds = "\<lambda>c. if c = a then [In_Num_Output_Steps ?nb] else []"])
       (auto simp: place_moves_refl nb_of_def spends_def)
  ultimately show ?thesis using s by blast
qed

text \<open>The replies to the GRUs released.\<close>

lemma sent_released:
  assumes "distinct l"
  shows "sent (fa_to_gru msg c) (concat (map (\<lambda>g. [Steps_Before_Write_To g k, Run_Hru_To g]) l)) =
      (if c \<in> set l then [In_Num_Steps_Before_Write k, In_Run_Hru] else [])"
  using assms by (induction l) auto

lemma sent_released_none:
  "sent fa_to_self (concat (map (\<lambda>g. [Steps_Before_Write_To g k, Run_Hru_To g]) l)) = []"
  "sent (fa_to_job now) (concat (map (\<lambda>g. [Steps_Before_Write_To g k, Run_Hru_To g]) l)) = []"
  by (induction l) simp_all

lemma after_write_sound:
  assumes s: "fa_sound n files T m b s" and b': "b' = b\<lparr>ob_partitions := ps, ob_failed_grus := fs\<rparr>"
    and ret: "\<forall>r. ret = Some r \<longrightarrow> wr_err r = 0 \<and> distinct (actor_to_update r)"
  shows "\<exists>s' es. after_write t1 (Inr (b', ret, ws)) s = Inr (s', es) \<and> fa_sound n files T m b' s' \<and>
    sent fa_to_self es = [] \<and> (\<forall>now. sent (fa_to_job now) es = []) \<and>
    (\<forall>c. sent (fa_to_gru msg c) es = released_msgs ret c)"
proof -
  have "ti_inv (fa_timing s)" using s by (simp add: fa_sound_def)
  from updateEndPoint_ok [OF this, of t1 "''write_duration''"] obtain ti where
    ti: "updateEndPoint t1 ''write_duration'' (fa_timing s) = Inr ti" "ti_inv ti" by blast
  have sound: "fa_sound n files T m b' (s\<lparr>fa_buffer := Some b', fa_timing := ti\<rparr>)"
    using s ti(2) b' by (simp add: fa_sound_def)
  show ?thesis
  proof (cases ret)
    case None
    then have "after_write t1 (Inr (b', ret, ws)) s = Inr (s\<lparr>fa_buffer := Some b', fa_timing := ti\<rparr>, map Fortran ws)"
      using ti(1) by (simp add: after_write_def)
    with sound None show ?thesis by (auto simp: released_msgs_def)
  next
    case (Some r)
    let ?es = "map Fortran ws @ concat (map (\<lambda>g. [Steps_Before_Write_To g (num_steps_update r), Run_Hru_To g]) (actor_to_update r))"
    have "after_write t1 (Inr (b', ret, ws)) s = Inr (s\<lparr>fa_buffer := Some b', fa_timing := ti\<rparr>, ?es)"
      using ti(1) Some ret by (simp add: after_write_def)
    moreover have "sent (fa_to_gru msg c) ?es = released_msgs ret c" for c
      using Some ret sent_released [of "actor_to_update r" msg c] by (simp add: released_msgs_def)
    moreover have "sent fa_to_self ?es = []" "sent (fa_to_job now) ?es = []" for now
      using sent_released_none by simp_all
    ultimately show ?thesis using sound by blast
  qed
qed

lemma settling_moves:
  assumes round: "round_ok P pos b" and a: "settling reports (pos a)"
    and s: "settles reports b P {c. counted (pos c)} {c. queued (pos c)} a b' ret"
    and clock: "\<forall>c \<in> P. place_clock files m (pos c) (rm_of b P c) (nb_of b P c)"
    and failed: "set (ob_failed_grus b) \<union> (if reports then {} else {int a}) \<subseteq> set (ob_failed_grus b')"
    and msg: "sender msg = Some a" "spend files msg = 0" "msg_weight (int (length files)) msg = 1"
    and es: "sent fa_to_self es = []" "\<And>now. sent (fa_to_job now) es = []"
      "\<And>c. sent (fa_to_gru msg c) es = released_msgs ret c"
  shows "\<exists>pos'. file_moves files T P m b pos msg es m b' pos'"
proof (cases ret)
  case None
  note w = settled_waits [OF round a s [unfolded None] failed]
  have moves: "place_moves files T m m c (pos c) (rm_of b P c) (nb_of b P c)
      ((pos(a := taken (pos a))) c) (rm_of b' P c) (nb_of b' P c) (released_msgs ret c) (spends files msg c)" for c
    unfolding None released_msgs_def spends_def msg(2) option.case if_cancel by (rule w(2))
  have "file_moves files T P m b pos msg es m b' (pos(a := taken (pos a)))"
    by (rule file_movesI [OF order_refl w(1) es(1) _ _ es(2,3)])
       (use msg settling_simps(5) [OF a] moves in auto)
  then show ?thesis by blast
next
  case (Some r)
  note w = settled_places [OF round a s [unfolded Some] clock] settled_mail [OF round a s [unfolded Some] clock]
  have "file_moves files T P m b pos msg es m b' (after_release pos a (set (actor_to_update r)))"
    by (rule file_movesI [OF order_refl settled_round [OF round a s [unfolded Some] clock failed] es(1) _ _ es(2,3)])
       (use msg w Some in \<open>auto simp: spends_def\<close>)
  then show ?thesis by blast
qed

lemma write_moves:
  assumes s: "fa_sound n files T m b s" and round: "round_ok P pos b" and p: "asks_write (pos a)"
    and clock: "\<forall>c \<in> P. place_clock files m (pos c) (rm_of b P c) (nb_of b P c)"
  shows "\<exists>s' es b' pos'. fa_receive t0 t1 (Fm_Write_Output (int a) a) s = Inr (s', es) \<and> fa_sound n files T m b' s' \<and>
    file_moves files T P m b pos (Fm_Write_Output (int a) a) es m b' pos'"
proof -
  have a: "settling True (pos a)" using p by (simp add: settling_def)
  have ok: "parts_ok b P {c. counted (pos c)} {c. queued (pos c)}" using round by (simp add: round_ok_def)
  have "a \<in> {c. counted (pos c)}" using settling_simps(1) [OF a] by simp
  from write_settles [OF ok this] obtain b' ret ws where
    w: "buffer_writeOutput 0 [] (int a) a b = Inr (b', ret, ws)" "settles True b P {c. counted (pos c)} {c. queued (pos c)} a b' ret"
      "b' = b\<lparr>ob_partitions := ob_partitions b'\<rparr>" by blast
  have "ti_inv (fa_timing s)" "fa_buffer s = Some b" using s by (simp_all add: fa_sound_def)
  from updateStartPoint_ok [OF this(1), of t0 "''write_duration''"] this(2) obtain ti where
    ti: "updateStartPoint t0 ''write_duration'' (fa_timing s) = Inr ti" "ti_inv ti" by blast
  let ?s = "s\<lparr>fa_timing := ti\<rparr>"
  have s1: "fa_sound n files T m b ?s" using s ti(2) by (simp add: fa_sound_def)
  have b': "b' = b\<lparr>ob_partitions := ob_partitions b', ob_failed_grus := ob_failed_grus b\<rparr>"
    by (subst w(3)) simp
  have ret: "\<forall>r. ret = Some r \<longrightarrow> wr_err r = 0 \<and> distinct (actor_to_update r)" using w(2) by (auto simp: settles_def Let_def)
  from after_write_sound [OF s1 b' ret, of t1 ws "Fm_Write_Output (int a) a"] obtain s' es where
    r: "after_write t1 (Inr (b', ret, ws)) ?s = Inr (s', es)" "fa_sound n files T m b' s'" "sent fa_to_self es = []"
      "\<And>now. sent (fa_to_job now) es = []" "\<And>c. sent (fa_to_gru (Fm_Write_Output (int a) a) c) es = released_msgs ret c" by blast
  have "fa_receive t0 t1 (Fm_Write_Output (int a) a) s = Inr (s', es)"
    using ti(1) w(1) r(1) \<open>fa_buffer s = Some b\<close>
    by (simp add: fa_receive_def on_write_output_def with_buffer_def Let_def)
  moreover have "set (ob_failed_grus b) \<union> (if True then {} else {int a}) \<subseteq> set (ob_failed_grus b')"
    using arg_cong [OF b', of ob_failed_grus] by simp
  from settling_moves [OF round a w(2) clock this _ _ _ r(3-5)]
  have "\<exists>pos'. file_moves files T P m b pos (Fm_Write_Output (int a) a) es m b' pos'" by simp
  ultimately show ?thesis using r(2) by blast
qed

lemma failure_moves:
  assumes s: "fa_sound n files T m b s" and round: "round_ok P pos b" and p: "pos a = At_Error_Known"
    and clock: "\<forall>c \<in> P. place_clock files m (pos c) (rm_of b P c) (nb_of b P c)"
  shows "\<exists>s' es b' pos'. fa_receive t0 t1 (Fm_Run_Failure (int a)) s = Inr (s', es) \<and> fa_sound n files T m b' s' \<and>
    file_moves files T P m b pos (Fm_Run_Failure (int a)) es m b' pos'"
proof -
  have a: "settling False (pos a)" using p by (simp add: settling_def)
  have ok: "parts_ok b P {c. counted (pos c)} {c. queued (pos c)}" using round by (simp add: round_ok_def)
  have "a \<in> {c. counted (pos c)}" using settling_simps(1) [OF a] by simp
  from failure_settles [OF ok this] obtain b' ret ws where
    w: "addFailedGRU 0 [] (int a) b = Inr (b', ret, ws)" "settles False b P {c. counted (pos c)} {c. queued (pos c)} a b' ret"
      and b': "b' = b\<lparr>ob_partitions := ob_partitions b', ob_failed_grus := ob_failed_grus b @ [int a]\<rparr>" by blast
  have "ti_inv (fa_timing s)" "fa_buffer s = Some b" using s by (simp_all add: fa_sound_def)
  from updateStartPoint_ok [OF this(1), of t0 "''write_duration''"] this(2) obtain ti where
    ti: "updateStartPoint t0 ''write_duration'' (fa_timing s) = Inr ti" "ti_inv ti" by blast
  let ?s = "s\<lparr>fa_timing := ti\<rparr>"
  have s1: "fa_sound n files T m b ?s" using s ti(2) by (simp add: fa_sound_def)
  have ret: "\<forall>r. ret = Some r \<longrightarrow> wr_err r = 0 \<and> distinct (actor_to_update r)" using w(2) by (auto simp: settles_def Let_def)
  from after_write_sound [OF s1 b' ret, of t1 ws "Fm_Run_Failure (int a)"] obtain s' es where
    r: "after_write t1 (Inr (b', ret, ws)) ?s = Inr (s', es)" "fa_sound n files T m b' s'" "sent fa_to_self es = []"
      "\<And>now. sent (fa_to_job now) es = []" "\<And>c. sent (fa_to_gru (Fm_Run_Failure (int a)) c) es = released_msgs ret c" by blast
  have "fa_receive t0 t1 (Fm_Run_Failure (int a)) s = Inr (s', es)"
    using ti(1) w(1) r(1) \<open>fa_buffer s = Some b\<close>
    by (simp add: fa_receive_def on_run_failure_def with_buffer_def Let_def)
  moreover have "set (ob_failed_grus b) \<union> (if False then {} else {int a}) \<subseteq> set (ob_failed_grus b')"
    using arg_cong [OF b', of ob_failed_grus] by simp
  from settling_moves [OF round a w(2) clock this _ _ _ r(3-5)]
  have "\<exists>pos'. file_moves files T P m b pos (Fm_Run_Failure (int a)) es m b' pos'" by simp
  ultimately show ?thesis using r(2) by blast
qed

lemma restart_file_moves:
  assumes s: "fa_sound n files T m b s" and round: "round_ok P pos b" and j: "1 \<le> j" "j \<le> int n"
  shows "\<exists>s' es. fa_receive t0 t1 (Fm_Write_Restart j t out d) s = Inr (s', es) \<and> fa_sound n files T m b s' \<and>
    file_moves files T P m b pos (Fm_Write_Restart j t out d) es m b pos"
proof -
  have l: "nat (j - 1) < length (fa_hru_timesteps s)" "fa_buffer s = Some b" using s j by (auto simp: fa_sound_def)
  let ?ts = "(fa_hru_timesteps s)[nat (j - 1) := t]"
  have u: "vec_upd (fa_hru_timesteps s) (j - 1) (\<lambda>_. t) = Inr ?ts" using l j by (simp add: vec_upd_def)
  let ?r = "buffer_writeRestart (fa_start_gru s) (fa_num_hru s) (out - 1) (dt_y d) (dt_m d) (dt_d d) (dt_h d)"
  let ?s' = "if min_list ?ts > completed_checkpoints s
      then s\<lparr>fa_hru_timesteps := ?ts, completed_checkpoints := min_list ?ts\<rparr> else s\<lparr>fa_hru_timesteps := ?ts\<rparr>"
  let ?es = "if min_list ?ts > completed_checkpoints s then map Fortran ?r else []"
  have "fa_receive t0 t1 (Fm_Write_Restart j t out d) s = Inr (?s', ?es)"
    using u l(2) by (simp add: fa_receive_def on_write_restart_def with_buffer_def Let_def)
  moreover have "fa_sound n files T m b ?s'" using s by (simp add: fa_sound_def)
  moreover have "file_moves files T P m b pos (Fm_Write_Restart j t out d) ?es m b pos"
    using round by (intro file_moves_neutral) auto
  ultimately show ?thesis by blast
qed

subsection \<open>All messages\<close>

lemma file_takes:
  assumes s: "fa_sound n files T m b s" and round: "round_ok P pos b"
    and clock: "\<forall>c \<in> P. place_clock files m (pos c) (rm_of b P c) (nb_of b P c)"
    and msg: "msg_ok n m msg" "msg \<noteq> Fm_Restart_Failures" "msg \<noteq> Fm_Finalize"
    and mail: "\<And>c. mail_from sender c (msg # q) = fa_mail c (pos c)"
  shows "\<exists>s' es m' b' pos'. fa_receive t0 t1 msg s = Inr (s', es) \<and> fa_sound n files T m' b' s' \<and>
    file_moves files T P m b pos msg es m' b' pos'"
proof (cases msg)
  case (Fm_Access_Forcing i a)
  then have p: "pos a = At_Ask_Forcing i" using mail [of a] by (cases "pos a") (auto split: if_splits)
  moreover from this have "a \<in> P" using counted_clock(1) [OF round] by simp
  ultimately have "1 \<le> i" "i \<le> int m + 1" "i \<le> int (length files)" using clock by fastforce+
  from forcing_moves [OF s round p this] show ?thesis unfolding Fm_Access_Forcing by blast
next
  case (Fm_Access_Internal i)
  with internal_moves [OF s round] msg(1) show ?thesis by fastforce
next
  case (Fm_Get_Num_Steps j a)
  then have "pos a = At_Ask_Steps" "j = int a" using mail [of a] by (cases "pos a"; auto split: if_splits)+
  with steps_moves [OF s round this(1)] Fm_Get_Num_Steps show ?thesis by blast
next
  case (Fm_Write_Output j a)
  then have "fa_mail a (pos a) = Fm_Write_Output j a # mail_from sender a q" using mail [of a] by simp
  then have "fa_mail a (pos a) = [Fm_Write_Output j a]" by (cases "pos a") (auto split: if_splits)
  from asks_write_mail [OF this] write_moves [OF s round _ clock] Fm_Write_Output show ?thesis by blast
next
  case (Fm_Write_Restart j t out d)
  with restart_file_moves [OF s round] msg(1) show ?thesis by fastforce
next
  case (Fm_Run_Failure j)
  then have "fa_mail (nat j) (pos (nat j)) = Fm_Run_Failure j # mail_from sender (nat j) q" using mail [of "nat j"] by simp
  then have "pos (nat j) = At_Error_Known" "j = int (nat j)" by (cases "pos (nat j)"; auto split: if_splits)+
  with failure_moves [OF s round this(1) clock] Fm_Run_Failure show ?thesis by metis
qed (use msg in auto)

text \<open>The rest of a mailbox once its first message has been taken.\<close>

lemma file_moves_mail:
  assumes "file_moves files T P m b pos msg es m' b' pos'" and "\<And>c. mail_from sender c (msg # q) = fa_mail c (pos c)"
  shows "mail_from sender c q = fa_mail c (pos' c)" and "mail_from sender c (sent fa_to_self es) = []"
proof -
  show "mail_from sender c (sent fa_to_self es) = []"
    using assms(1) unfolding file_moves_def filter_empty_conv by fastforce
  show "mail_from sender c q = fa_mail c (pos' c)"
  proof (cases "sender msg = Some c")
    case True
    then have "fa_mail c (pos c) = msg # mail_from sender c q" using assms(2) [of c] by simp
    then have "mail_from sender c q = []" by (cases "pos c") (auto split: if_splits)
    then show ?thesis using assms(1) True by (simp add: file_moves_def)
  next
    case False
    then show ?thesis using assms(1) assms(2) [of c] by (simp add: file_moves_def)
  qed
qed

subsection \<open>A new round\<close>

lemma reconstruct_moves:
  assumes s: "fa_sound n files T m b s" and P: "\<forall>a \<in> P. int a \<in> set (ob_failed_grus b)" and T: "0 < T"
  shows "\<exists>s' es b'. fa_receive t0 t1 Fm_Restart_Failures s = Inr (s', es) \<and> fa_sound n files T m b' s' \<and>
    sent fa_to_self es = [] \<and> (\<forall>now. sent (fa_to_job now) es = []) \<and> (\<forall>msg c. sent (fa_to_gru msg c) es = []) \<and>
    new_parts b' P T \<and> ob_failed_grus b' = ob_failed_grus b"
proof -
  obtain b' ws where r: "reconstruct b = (b', ws)" by fastforce
  then have f: "ob_failed_grus b' = ob_failed_grus b" "ob_num_timesteps b' = ob_num_timesteps b"
    "ob_num_buffer_steps b' = ob_num_buffer_steps b" by (auto simp: reconstruct_def)
  have b: "fa_buffer s = Some b" "ob_num_timesteps b = T" "0 < ob_num_buffer_steps b" using s by (simp_all add: fa_sound_def)
  have "fa_receive t0 t1 Fm_Restart_Failures s = Inr (s\<lparr>fa_buffer := Some b'\<rparr>, map Fortran ws)"
    using b r by (simp add: fa_receive_def on_restart_failures_fa_def with_buffer_def)
  moreover have "fa_sound n files T m b' (s\<lparr>fa_buffer := Some b'\<rparr>)" using s b f by (simp add: fa_sound_def)
  moreover have "new_parts b' P T" using reconstruct_parts [OF P b(3) _ r] b(2) T by simp
  ultimately show ?thesis using f(1)
    by (intro exI [of _ "s\<lparr>fa_buffer := Some b'\<rparr>"] exI [of _ "map Fortran ws"] exI [of _ b']) auto
qed

text \<open>All of \<open>P\<close> are counted and none is queued.\<close>

lemma new_round:
  assumes "new_parts b P T" and "\<And>a. a \<in> P \<Longrightarrow> pos a \<in> {At_Start, At_Ask_Steps}" and "\<And>a. a \<notin> P \<Longrightarrow> pos a = At_Known Written"
  shows "round_ok P pos b" and "a \<in> P \<Longrightarrow> rm_of b P a = T"
proof -
  have c: "{c. counted (pos c)} = P"
  proof (intro set_eqI)
    show "c \<in> {c. counted (pos c)} \<longleftrightarrow> c \<in> P" for c using assms(2,3) [of c] by (cases "c \<in> P") auto
  qed
  have q: "\<not> queued (pos c) \<and> pos c \<noteq> At_Removed" for c using assms(2,3) [of c] by (cases "c \<in> P") auto
  then have "{c. queued (pos c)} = {}" by simp
  with assms c q show "round_ok P pos b" by (simp add: round_ok_def new_parts_def)
  show "rm_of b P a = T" if "a \<in> P" using assms(1) that by (simp add: rm_of_def new_parts_def)
qed

end
