(* ===== verification/Job_Invariant.thy ===== *)
theory Job_Invariant
  imports Job_File_Steps
begin

text \<open>
  The mailbox of the file access actor against the places of the GRUs.  After a restart
  the mailbox still holds what belongs to the old round, up to the request to
  reconstruct the buffer; the GRUs that start again are behind it.
\<close>

subsection \<open>The mailbox\<close>

definition msgs_ok :: "nat \<Rightarrow> nat \<Rightarrow> fa_msg list \<Rightarrow> bool" where
  "msgs_ok n m ms \<longleftrightarrow> (\<forall>x \<in> set ms. msg_ok n m x \<and> x \<noteq> Fm_Restart_Failures)"

definition files_normal ::
  "nat \<Rightarrow> int list \<Rightarrow> int \<Rightarrow> nat \<Rightarrow> (nat \<Rightarrow> place) \<Rightarrow> (nat \<Rightarrow> int) \<Rightarrow> (nat \<Rightarrow> int) \<Rightarrow> fa_msg list \<Rightarrow> file_access \<Rightarrow> bool" where
  "files_normal n files T m pos rm nb box s \<longleftrightarrow> (\<exists>P b. P \<subseteq> {1 .. n} \<and> fa_sound n files T m b s \<and> round_ok P pos b \<and>
     rm = rm_of b P \<and> nb = nb_of b P \<and> msgs_ok n m box \<and> (\<forall>a. mail_from sender a box = fa_mail a (pos a)))"

text \<open>\<open>pos0\<close> are the places in the old round, which is over for the job.\<close>

definition files_pending ::
  "nat \<Rightarrow> int list \<Rightarrow> int \<Rightarrow> nat \<Rightarrow> (nat \<Rightarrow> place) \<Rightarrow> (nat \<Rightarrow> int) \<Rightarrow> (nat \<Rightarrow> int) \<Rightarrow> fa_msg list \<Rightarrow> file_access \<Rightarrow> bool" where
  "files_pending n files T m pos rm nb box s \<longleftrightarrow> (\<exists>P b pos0 old new. P \<subseteq> {1 .. n} \<and> fa_sound n files T m b s \<and>
     round_ok P pos0 b \<and> (\<forall>a. known (pos0 a)) \<and> (\<exists>a. lost (pos0 a)) \<and>
     box = old @ Fm_Restart_Failures # new \<and> msgs_ok n m old \<and> msgs_ok n m new \<and> Fm_Finalize \<notin> set (old @ new) \<and>
     (\<forall>a. mail_from sender a old = fa_mail a (pos0 a)) \<and>
     (\<forall>a. mail_from sender a new = (if lost (pos0 a) then fa_mail a (pos a) else [])) \<and>
     (\<forall>a. if lost (pos0 a) then pos a \<in> {At_Start, At_Ask_Steps} \<and> rm a = T \<and> nb a = 1
          else pos a = pos0 a \<and> rm a = rm_of b P a \<and> nb a = nb_of b P a))"

lemma files_pendingI:
  assumes "P \<subseteq> {1 .. n}" and "fa_sound n files T m b s" and "round_ok P pos0 b" and "\<And>a. known (pos0 a)" and "\<exists>a. lost (pos0 a)"
    and "box = old @ Fm_Restart_Failures # new" and "msgs_ok n m old" "msgs_ok n m new" "Fm_Finalize \<notin> set (old @ new)"
    and "\<And>a. mail_from sender a old = fa_mail a (pos0 a)"
    and "\<And>a. mail_from sender a new = (if lost (pos0 a) then fa_mail a (pos a) else [])"
    and "\<And>a. if lost (pos0 a) then pos a \<in> {At_Start, At_Ask_Steps} \<and> rm a = T \<and> nb a = 1
          else pos a = pos0 a \<and> rm a = rm_of b P a \<and> nb a = nb_of b P a"
  shows "files_pending n files T m pos rm nb box s"
  unfolding files_pending_def using assms by blast

definition files_ok ::
  "nat \<Rightarrow> int list \<Rightarrow> int \<Rightarrow> nat \<Rightarrow> (nat \<Rightarrow> place) \<Rightarrow> (nat \<Rightarrow> int) \<Rightarrow> (nat \<Rightarrow> int) \<Rightarrow> fa_msg list \<Rightarrow> file_access \<Rightarrow> bool" where
  "files_ok n files T m pos rm nb box s \<longleftrightarrow>
     files_normal n files T m pos rm nb box s \<or> files_pending n files T m pos rm nb box s"

lemma msgs_ok_simps [simp]:
  "msgs_ok n m []" "msgs_ok n m (x # ms) \<longleftrightarrow> msg_ok n m x \<and> x \<noteq> Fm_Restart_Failures \<and> msgs_ok n m ms"
  "msgs_ok n m (xs @ ys) \<longleftrightarrow> msgs_ok n m xs \<and> msgs_ok n m ys"
  by (auto simp: msgs_ok_def)

lemma msgs_ok_mono: "msgs_ok n m ms \<Longrightarrow> m \<le> m' \<Longrightarrow> msgs_ok n m' ms"
  unfolding msgs_ok_def
proof (intro ballI)
  fix x
  assume "\<forall>x \<in> set ms. msg_ok n m x \<and> x \<noteq> Fm_Restart_Failures" "m \<le> m'" "x \<in> set ms"
  then show "msg_ok n m' x \<and> x \<noteq> Fm_Restart_Failures" by (cases x) force+
qed

lemma fa_mail_from: "x \<in> set (fa_mail a p) \<Longrightarrow> sender x = Some a \<and> msg_ok n m x \<and> x \<noteq> Fm_Restart_Failures \<and> x \<noteq> Fm_Finalize"
  by (cases p) (auto split: if_splits)

lemma fa_mail_mail: "mail_from sender c (fa_mail a p) = (if c = a then fa_mail a p else [])"
  by (cases p) auto

lemma not_lost_known: "\<not> known p \<Longrightarrow> \<not> lost p"
  by (cases p) simp_all

lemma files_clock:
  assumes "files_ok n files T m pos rm nb box s" and "counted (pos a)" and "0 < T"
  shows "clock_ok (rm a) (nb a)"
  using assms(1) unfolding files_ok_def
proof
  assume "files_normal n files T m pos rm nb box s"
  with counted_clock(2) assms(2) show ?thesis by (auto simp: files_normal_def)
next
  assume "files_pending n files T m pos rm nb box s"
  then obtain P b pos0 where r: "round_ok P pos0 b" and
    p: "if lost (pos0 a) then rm a = T \<and> nb a = 1 else pos a = pos0 a \<and> rm a = rm_of b P a \<and> nb a = nb_of b P a"
    unfolding files_pending_def by metis
  show ?thesis
  proof (cases "lost (pos0 a)")
    case True
    with p assms(3) show ?thesis by (simp add: clock_ok_def)
  next
    case False
    with p counted_clock(2) [OF r, of a] assms(2) show ?thesis by simp
  qed
qed

text \<open>A GRU or the job moves \<open>a\<close>.\<close>

lemma files_follow:
  assumes f: "files_ok n files T m pos rm nb box s" and a: "\<not> known (pos a)"
    and p': "counted p' = counted (pos a)" "queued p' = queued (pos a)" "p' \<noteq> At_Removed"
      "pos a = At_Start \<longrightarrow> p' = At_Ask_Steps" "pos a \<noteq> At_Ask_Steps"
    and ws: "restart_msgs (int a) k ws" "a \<in> {1 .. n}" and d: "fa_mail a p' = fa_mail a (pos a) @ d"
  shows "files_ok n files T m (pos(a := p')) rm nb (box @ ws @ d) s"
proof -
  have wd: "msgs_ok n m (ws @ d)" "Fm_Finalize \<notin> set (ws @ d)"
  proof -
    have "msgs_ok n m ws" "Fm_Finalize \<notin> set ws" using ws by (auto simp: msgs_ok_def restart_msgs_def)
    moreover have "set d \<subseteq> set (fa_mail a p')" by (simp add: d)
    then have "msgs_ok n m d" "Fm_Finalize \<notin> set d" using fa_mail_from [of _ a p'] unfolding msgs_ok_def by blast+
    ultimately show "msgs_ok n m (ws @ d)" "Fm_Finalize \<notin> set (ws @ d)" by simp_all
  qed
  have mail: "mail_from sender c (ws @ d) = (if c = a then d else [])" for c
  proof -
    have "mail_from sender c ws = []" using ws(1) by (auto simp: restart_msgs_def filter_empty_conv)
    moreover have "sender x = Some a" if "x \<in> set d" for x
    proof -
      have "x \<in> set (fa_mail a p')" using that d by simp
      then show ?thesis using fa_mail_from by blast
    qed
    then have "mail_from sender c d = (if c = a then d else [])" by (auto simp: filter_id_conv filter_empty_conv)
    ultimately show ?thesis by simp
  qed
  from f show ?thesis unfolding files_ok_def
  proof
    assume "files_normal n files T m pos rm nb box s"
    then obtain P b where P: "P \<subseteq> {1 .. n}" "fa_sound n files T m b s" "round_ok P pos b" "rm = rm_of b P" "nb = nb_of b P"
      "msgs_ok n m box" "\<forall>a. mail_from sender a box = fa_mail a (pos a)" unfolding files_normal_def by blast
    have "a \<in> P" using P(3) a by (auto simp: round_ok_def)
    moreover have "{c. counted ((pos(a := p')) c)} = {c. counted (pos c)}" "{c. queued ((pos(a := p')) c)} = {c. queued (pos c)}"
      using p' by auto
    ultimately have "round_ok P (pos(a := p')) b" using P(3) p'(3) by (simp add: round_ok_def)
    moreover have "mail_from sender c (box @ ws @ d) = fa_mail c ((pos(a := p')) c)" for c
      using P(7) mail [of c] d by (simp del: filter_append add: filter_append [of _ box])
    ultimately have "files_normal n files T m (pos(a := p')) rm nb (box @ ws @ d) s"
      using P wd(1) unfolding files_normal_def by (intro exI [of _ P] exI [of _ b]) simp
    then show "files_normal n files T m (pos(a := p')) rm nb (box @ ws @ d) s \<or>
      files_pending n files T m (pos(a := p')) rm nb (box @ ws @ d) s" ..
  next
    assume "files_pending n files T m pos rm nb box s"
    then obtain P b pos0 old new where P: "P \<subseteq> {1 .. n}" "fa_sound n files T m b s" "round_ok P pos0 b" "\<forall>a. known (pos0 a)"
      "\<exists>a. lost (pos0 a)" "box = old @ Fm_Restart_Failures # new" "msgs_ok n m old" "msgs_ok n m new"
      "Fm_Finalize \<notin> set (old @ new)" "\<forall>a. mail_from sender a old = fa_mail a (pos0 a)"
      and new: "\<forall>a. mail_from sender a new = (if lost (pos0 a) then fa_mail a (pos a) else [])"
      and sel: "\<forall>a. if lost (pos0 a) then pos a \<in> {At_Start, At_Ask_Steps} \<and> rm a = T \<and> nb a = 1
          else pos a = pos0 a \<and> rm a = rm_of b P a \<and> nb a = nb_of b P a" unfolding files_pending_def by blast
    have l: "lost (pos0 a)" using sel P(4) a by metis
    then have "p' = At_Ask_Steps" using spec [OF sel, of a] p'(4,5) by auto
    with l have sel': "if lost (pos0 c) then (pos(a := p')) c \<in> {At_Start, At_Ask_Steps} \<and> rm c = T \<and> nb c = 1
          else (pos(a := p')) c = pos0 c \<and> rm c = rm_of b P c \<and> nb c = nb_of b P c" for c
      using spec [OF sel, of c] by (cases "c = a") auto
    have "mail_from sender c (new @ ws @ d) = (if lost (pos0 c) then fa_mail c ((pos(a := p')) c) else [])" for c
      using new mail [of c] d l by (simp del: filter_append add: filter_append [of _ new])
    from files_pendingI [OF P(1-3) _ P(5) _ P(7) _ _ _ this sel'] P wd
    have "files_pending n files T m (pos(a := p')) rm nb (box @ ws @ d) s" by (simp add: fun_upd_def)
    then show "files_normal n files T m (pos(a := p')) rm nb (box @ ws @ d) s \<or>
      files_pending n files T m (pos(a := p')) rm nb (box @ ws @ d) s" ..
  qed
qed

subsection \<open>The file access actor handles a message\<close>

definition stepped ::
  "nat \<Rightarrow> int list \<Rightarrow> int \<Rightarrow> fa_msg \<Rightarrow> fa_effect list \<Rightarrow> nat \<Rightarrow> (nat \<Rightarrow> place) \<Rightarrow> (nat \<Rightarrow> int) \<Rightarrow> (nat \<Rightarrow> int) \<Rightarrow>
   nat \<Rightarrow> (nat \<Rightarrow> place) \<Rightarrow> (nat \<Rightarrow> int) \<Rightarrow> (nat \<Rightarrow> int) \<Rightarrow> bool" where
  "stepped n files T msg es m pos rm nb m' pos' rm' nb' \<longleftrightarrow>
     (\<forall>c. place_moves files T m m' c (pos c) (rm c) (nb c) (pos' c) (rm' c) (nb' c)
            (sent (fa_to_gru msg c) es) (spends files msg c)) \<and>
     (\<forall>now. sent (fa_to_job now) es = []) \<and> Fm_Finalize \<notin> set (sent fa_to_self es) \<and>
     msgs_weight files (sent fa_to_self es) < msg_weight (int (length files)) msg + spend files msg \<and>
     (\<forall>c. sender msg = Some c \<longrightarrow> c \<in> {1 .. n})"

text \<open>A message from a GRU is from one of the round.\<close>

lemma sender_in_round:
  assumes "round_ok P pos b" and "\<And>c. mail_from sender c (msg # q) = fa_mail c (pos c)" and "sender msg = Some c"
  shows "c \<in> P" and "msg \<in> set (fa_mail c (pos c))"
proof -
  have "fa_mail c (pos c) = msg # mail_from sender c q" using assms(2) [of c] assms(3) by simp
  then show m: "msg \<in> set (fa_mail c (pos c))" by simp
  show "c \<in> P"
  proof (rule ccontr)
    assume "c \<notin> P"
    then have "pos c = At_Known Written" using assms(1) by (simp add: round_ok_def)
    with m show False by simp
  qed
qed

lemma self_msgs_ok:
  assumes "file_moves files T P m b pos msg es m' b' pos'"
  shows "msgs_ok n m' (sent fa_to_self es)" and "Fm_Finalize \<notin> set (sent fa_to_self es)"
  using assms unfolding file_moves_def msgs_ok_def by fastforce+

lemma normal_step:
  assumes f: "files_normal n files T m pos rm nb (msg # q) s" and msg: "msg \<noteq> Fm_Finalize"
    and clock: "\<forall>a \<in> {1 .. n}. place_clock files m (pos a) (rm a) (nb a)"
  shows "\<exists>s' es m' pos' rm' nb'. fa_receive t0 t1 msg s = Inr (s', es) \<and>
    files_normal n files T m' pos' rm' nb' (q @ sent fa_to_self es) s' \<and>
    stepped n files T msg es m pos rm nb m' pos' rm' nb'"
proof -
  from f obtain P b where P: "P \<subseteq> {1 .. n}" "fa_sound n files T m b s" "round_ok P pos b" "rm = rm_of b P" "nb = nb_of b P"
      "msgs_ok n m (msg # q)" "\<And>a. mail_from sender a (msg # q) = fa_mail a (pos a)" unfolding files_normal_def by blast
  have "\<forall>c \<in> P. place_clock files m (pos c) (rm_of b P c) (nb_of b P c)" using clock P(1,4,5) by auto
  moreover have "msg_ok n m msg" "msg \<noteq> Fm_Restart_Failures" using P(6) by simp_all
  ultimately obtain s' es m' b' pos' where
    r: "fa_receive t0 t1 msg s = Inr (s', es)" "fa_sound n files T m' b' s'" "file_moves files T P m b pos msg es m' b' pos'"
    using file_takes [OF P(2,3) _ _ _ msg P(7)] by blast
  have "m \<le> m'" "round_ok P pos' b'" using r(3) by (simp_all add: file_moves_def)
  then have "files_normal n files T m' pos' (rm_of b' P) (nb_of b' P) (q @ sent fa_to_self es) s'"
    unfolding files_normal_def
    using P(1,6) r(2) self_msgs_ok(1) [OF r(3)] file_moves_mail [OF r(3) P(7)] msgs_ok_mono [of n m q m']
    by (intro exI [of _ P] exI [of _ b']) simp
  moreover have "stepped n files T msg es m pos rm nb m' pos' (rm_of b' P) (nb_of b' P)"
    using r(3) P(1) self_msgs_ok(2) [OF r(3)] sender_in_round(1) [OF P(3,7)]
    unfolding stepped_def file_moves_def P(4,5) by blast
  ultimately show ?thesis using r(1) by blast
qed

lemma known_spends: "x \<in> set (fa_mail c p) \<Longrightarrow> known p \<Longrightarrow> spend files x = 0"
  by (cases p) (auto split: if_splits)

lemma place_moves_again:
  "p = At_Start \<or> p = At_Ask_Steps \<Longrightarrow> place_moves files T m m' a p T nb p T nb' [] 0"
  by (auto simp: place_moves_def)

lemma place_moves_over:
  "known p \<Longrightarrow> \<not> lost p \<Longrightarrow> fa_mail a p = [] \<Longrightarrow> place_moves files T m m' a p rm nb (At_Known Written) 0 nb' [] 0"
  by (cases p) (auto simp: place_moves_def last_clock_def fun_eq_iff)

text \<open>The file access actor rebuilds its partitions for the failed GRUs.\<close>

lemma pending_restarts:
  assumes P: "P \<subseteq> {1 .. n}" "fa_sound n files T m b s" "round_ok P pos0 b" "\<And>a. known (pos0 a)"
    and T: "0 < T"
    and sel: "\<And>a. if lost (pos0 a) then pos a \<in> {At_Start, At_Ask_Steps} \<and> rm a = T \<and> nb a = 1
      else pos a = pos0 a \<and> rm a = rm_of b P a \<and> nb a = nb_of b P a"
    and mail: "\<And>a. fa_mail a (pos0 a) = []"
    and new: "\<And>a. mail_from sender a new = (if lost (pos0 a) then fa_mail a (pos a) else [])"
    and ok: "msgs_ok n m new"
  shows "\<exists>s' es m' pos' rm' nb'. fa_receive t0 t1 Fm_Restart_Failures s = Inr (s', es) \<and>
    files_ok n files T m' pos' rm' nb' (new @ sent fa_to_self es) s' \<and>
    stepped n files T Fm_Restart_Failures es m pos rm nb m' pos' rm' nb'"
proof -
  let ?P = "{a. lost (pos0 a)}" and ?pos = "\<lambda>a. if lost (pos0 a) then pos a else At_Known Written"
  have sub: "?P \<subseteq> {1 .. n}"
  proof
    fix a
    assume "a \<in> ?P"
    then have "a \<in> P" using P(3) by (auto simp: round_ok_def)
    then show "a \<in> {1 .. n}" using P(1) by blast
  qed
  have "\<forall>a \<in> ?P. int a \<in> set (ob_failed_grus b)"
  proof
    fix a
    assume "a \<in> ?P"
    then have "pos0 a = At_Removed" using mail [of a] by (cases "pos0 a") simp_all
    then show "int a \<in> set (ob_failed_grus b)" using P(3) by (simp add: round_ok_def)
  qed
  from reconstruct_moves [OF P(2) this T, of t0 t1] obtain s' es b' where
    r: "fa_receive t0 t1 Fm_Restart_Failures s = Inr (s', es)" "fa_sound n files T m b' s'" "sent fa_to_self es = []"
      "\<And>now. sent (fa_to_job now) es = []" "\<And>msg c. sent (fa_to_gru msg c) es = []" "new_parts b' ?P T" by blast
  have at: "?pos a \<in> {At_Start, At_Ask_Steps}" if "a \<in> ?P" for a using sel [of a] that by simp
  have out: "?pos a = At_Known Written" if "a \<notin> ?P" for a using that by simp
  note nr = new_round [where pos = ?pos, OF r(6) at out]
  have "mail_from sender a new = fa_mail a (?pos a)" for a using new [of a] by simp
  then have "files_normal n files T m ?pos (rm_of b' ?P) (nb_of b' ?P) new s'"
    unfolding files_normal_def using sub r(2) nr(1) ok by (intro exI [of _ ?P] exI [of _ b']) simp
  moreover have "place_moves files T m m c (pos c) (rm c) (nb c) (?pos c) (rm_of b' ?P c) (nb_of b' ?P c) [] 0" for c
  proof (cases "lost (pos0 c)")
    case True
    with sel [of c] nr(2) [of c] show ?thesis by (auto intro!: place_moves_again)
  next
    case False
    with sel [of c] mail [of c] P(4) [of c] show ?thesis by (auto simp: rm_of_def intro!: place_moves_over)
  qed
  then have "stepped n files T Fm_Restart_Failures es m pos rm nb m ?pos (rm_of b' ?P) (nb_of b' ?P)"
    unfolding stepped_def r(3-5) by (simp add: spends_def)
  ultimately show ?thesis using r(1) unfolding files_ok_def by (metis append_Nil2 r(3))
qed

text \<open>It handles what was sent before that.\<close>

lemma pending_waits:
  assumes P: "P \<subseteq> {1 .. n}" "fa_sound n files T m b s" "round_ok P pos0 b" "\<And>a. known (pos0 a)"
    and T: "0 < T"
    and sel: "\<And>a. if lost (pos0 a) then pos a \<in> {At_Start, At_Ask_Steps} \<and> rm a = T \<and> nb a = 1
      else pos a = pos0 a \<and> rm a = rm_of b P a \<and> nb a = nb_of b P a"
    and lst: "\<exists>a. lost (pos0 a)" and ok: "msgs_ok n m (msg # old')" "msgs_ok n m new"
    and fin: "Fm_Finalize \<notin> set (msg # old' @ new)" and mail': "\<And>a. mail_from sender a (msg # old') = fa_mail a (pos0 a)"
    and new: "\<And>a. mail_from sender a new = (if lost (pos0 a) then fa_mail a (pos a) else [])"
    and clock: "\<forall>a \<in> {1 .. n}. place_clock files m (pos a) (rm a) (nb a)"
  shows "\<exists>s' es m' pos' rm' nb'. fa_receive t0 t1 msg s = Inr (s', es) \<and>
    files_ok n files T m' pos' rm' nb' ((old' @ Fm_Restart_Failures # new) @ sent fa_to_self es) s' \<and>
    stepped n files T msg es m pos rm nb m' pos' rm' nb'"
proof -
  have clk: "\<forall>c \<in> P. place_clock files m (pos0 c) (rm_of b P c) (nb_of b P c)"
  proof
    fix c
    assume "c \<in> P"
    then show "place_clock files m (pos0 c) (rm_of b P c) (nb_of b P c)"
      using clock P(1) sel [of c] by (cases "pos0 c") force+
  qed
  have "msg_ok n m msg" "msg \<noteq> Fm_Restart_Failures" "msg \<noteq> Fm_Finalize" using ok(1) fin by auto
  from file_takes [OF P(2,3) clk this mail', of t0 t1] obtain s' es m' b' pos0' where
    r: "fa_receive t0 t1 msg s = Inr (s', es)" "fa_sound n files T m' b' s'" "file_moves files T P m b pos0 msg es m' b' pos0'"
    by blast
  let ?pos = "\<lambda>a. if lost (pos0 a) then pos a else pos0' a"
  let ?rm = "\<lambda>a. if lost (pos0 a) then T else rm_of b' P a" and ?nb = "\<lambda>a. if lost (pos0 a) then 1 else nb_of b' P a"
  have mv: "place_moves files T m m' c (pos0 c) (rm_of b P c) (nb_of b P c) (pos0' c) (rm_of b' P c) (nb_of b' P c)
    (sent (fa_to_gru msg c) es) (spends files msg c)" for c using r(3) by (simp add: file_moves_def)
  then have kl: "known (pos0' c) = known (pos0 c)" "lost (pos0' c) = lost (pos0 c)" for c by (simp_all add: place_moves_def)
  have m': "m \<le> m'" "round_ok P pos0' b'" using r(3) by (simp_all add: file_moves_def)
  have "files_pending n files T m' ?pos ?rm ?nb ((old' @ Fm_Restart_Failures # new) @ sent fa_to_self es) s'"
  proof (rule files_pendingI [of P n files T m' b' s' pos0' _ old' "new @ sent fa_to_self es"])
    show "(old' @ Fm_Restart_Failures # new) @ sent fa_to_self es = old' @ Fm_Restart_Failures # new @ sent fa_to_self es" by simp
    show "msgs_ok n m' old'" using ok(1) m'(1) msgs_ok_mono by auto
    show "msgs_ok n m' (new @ sent fa_to_self es)" using ok(2) m'(1) msgs_ok_mono self_msgs_ok(1) [OF r(3)] by auto
    show "Fm_Finalize \<notin> set (old' @ (new @ sent fa_to_self es))" using fin self_msgs_ok(2) [OF r(3)] by simp
    show "mail_from sender a old' = fa_mail a (pos0' a)" for a using file_moves_mail(1) [OF r(3) mail'] .
    show "mail_from sender a (new @ sent fa_to_self es) = (if lost (pos0' a) then fa_mail a (?pos a) else [])" for a
      using new [of a] file_moves_mail(2) [OF r(3) mail'] kl by simp
    show "\<exists>a. lost (pos0' a)" "known (pos0' a)" for a using P(4) lst kl by simp_all
    show "if lost (pos0' a) then ?pos a \<in> {At_Start, At_Ask_Steps} \<and> ?rm a = T \<and> ?nb a = 1
        else ?pos a = pos0' a \<and> ?rm a = rm_of b' P a \<and> ?nb a = nb_of b' P a" for a
      using sel [of a] kl by (cases "lost (pos0 a)") auto
  qed (use P(1) r(2) m'(2) in simp_all)
  moreover have "place_moves files T m m' c (pos c) (rm c) (nb c) (?pos c) (?rm c) (?nb c)
      (sent (fa_to_gru msg c) es) (spends files msg c)" for c
  proof (cases "lost (pos0 c)")
    case True
    have "spends files msg c = 0"
      using sender_in_round(2) [OF P(3) mail'] known_spends P(4) by (auto simp: spends_def)
    moreover have "sent (fa_to_gru msg c) es = []" using mv [of c] True by (simp add: place_moves_def)
    ultimately show ?thesis using True sel [of c] by (simp only: if_True place_moves_refl [OF m'(1)])
  next
    case False
    with sel [of c] mv [of c] show ?thesis by simp
  qed
  then have "stepped n files T msg es m pos rm nb m' ?pos ?rm ?nb"
    using r(3) self_msgs_ok(2) [OF r(3)] sender_in_round(1) [OF P(3) mail'] P(1)
    unfolding stepped_def file_moves_def by blast
  ultimately show ?thesis using r(1) unfolding files_ok_def by blast
qed

lemma pending_step:
  assumes f: "files_pending n files T m pos rm nb (msg # q) s" and T: "0 < T"
    and clock: "\<forall>a \<in> {1 .. n}. place_clock files m (pos a) (rm a) (nb a)"
  shows "\<exists>s' es m' pos' rm' nb'. fa_receive t0 t1 msg s = Inr (s', es) \<and>
    files_ok n files T m' pos' rm' nb' (q @ sent fa_to_self es) s' \<and>
    stepped n files T msg es m pos rm nb m' pos' rm' nb'"
proof -
  from f obtain P b pos0 old new where P: "P \<subseteq> {1 .. n}" "fa_sound n files T m b s" "round_ok P pos0 b" "\<And>a. known (pos0 a)"
      "\<exists>a. lost (pos0 a)" "msg # q = old @ Fm_Restart_Failures # new" "msgs_ok n m old" "msgs_ok n m new"
      "Fm_Finalize \<notin> set (old @ new)" and mail: "\<And>a. mail_from sender a old = fa_mail a (pos0 a)"
      and new: "\<And>a. mail_from sender a new = (if lost (pos0 a) then fa_mail a (pos a) else [])"
      and sel: "\<And>a. if lost (pos0 a) then pos a \<in> {At_Start, At_Ask_Steps} \<and> rm a = T \<and> nb a = 1
          else pos a = pos0 a \<and> rm a = rm_of b P a \<and> nb a = nb_of b P a" unfolding files_pending_def by blast
  show ?thesis
  proof (cases old)
    case Nil
    then have msg: "msg = Fm_Restart_Failures" "q = new" using P(6) by simp_all
    have "fa_mail a (pos0 a) = []" for a using mail [of a] Nil by simp
    from pending_restarts [OF P(1-4) T sel this new P(8)] show ?thesis unfolding msg by blast
  next
    case (Cons x old')
    then have msg: "old = msg # old'" "q = old' @ Fm_Restart_Failures # new" using P(6) by simp_all
    show ?thesis unfolding msg(2)
      by (rule pending_waits [OF P(1-4) T sel P(5) P(7) [unfolded msg(1)] P(8) _ mail [unfolded msg(1)] new clock])
        (use P(9) msg(1) in simp)
  qed
qed

text \<open>Whatever the mode, with the GRUs at their places.\<close>

lemma files_step:
  assumes f: "files_ok n files T m pos rm nb (msg # q) s" and msg: "msg \<noteq> Fm_Finalize" and T: "0 < T"
    and clock: "\<forall>a \<in> {1 .. n}. place_clock files m (pos a) (rm a) (nb a)"
  shows "\<exists>s' es m' pos' rm' nb'. fa_receive t0 t1 msg s = Inr (s', es) \<and>
    files_ok n files T m' pos' rm' nb' (q @ sent fa_to_self es) s' \<and>
    stepped n files T msg es m pos rm nb m' pos' rm' nb'"
  using f [unfolded files_ok_def]
proof
  assume "files_normal n files T m pos rm nb (msg # q) s"
  from normal_step [OF this msg clock, of t0 t1] show ?thesis unfolding files_ok_def by blast
next
  assume "files_pending n files T m pos rm nb (msg # q) s"
  from pending_step [OF this T clock, of t0 t1] show ?thesis by (simp only: files_ok_def)
qed

text \<open>Once the job knows of all GRUs no restart is pending.\<close>

lemma files_ok_known:
  assumes "files_ok n files T m pos rm nb box s" and "\<And>a. known (pos a)"
  shows "files_normal n files T m pos rm nb box s"
  using assms(1) unfolding files_ok_def
proof
  assume "files_pending n files T m pos rm nb box s"
  then obtain pos0 :: "nat \<Rightarrow> place" and a P b where l: "lost (pos0 a)"
    and sel: "\<forall>a. if lost (pos0 a) then pos a \<in> {At_Start, At_Ask_Steps} \<and> rm a = T \<and> nb a = 1
          else pos a = pos0 a \<and> rm a = rm_of b P a \<and> nb a = nb_of b P a" unfolding files_pending_def by blast
  from spec [OF sel, of a] l have "\<not> known (pos a)" by auto
  with assms(2) show ?thesis by blast
qed

text \<open>The job asks for a restart.\<close>

lemma files_restart:
  assumes f: "files_normal n files T m pos rm nb box s" and k: "\<And>a. known (pos a)" and l: "\<exists>a. lost (pos a)"
    and fin: "Fm_Finalize \<notin> set box"
  shows "files_ok n files T m (\<lambda>a. if lost (pos a) then At_Start else pos a) (\<lambda>a. if lost (pos a) then T else rm a)
    (\<lambda>a. if lost (pos a) then 1 else nb a) (box @ [Fm_Restart_Failures]) s"
proof -
  from f obtain P b where P: "P \<subseteq> {1 .. n}" "fa_sound n files T m b s" "round_ok P pos b" "rm = rm_of b P" "nb = nb_of b P"
      "msgs_ok n m box" "\<And>a. mail_from sender a box = fa_mail a (pos a)" unfolding files_normal_def by blast
  have "files_pending n files T m (\<lambda>a. if lost (pos a) then At_Start else pos a) (\<lambda>a. if lost (pos a) then T else rm a)
      (\<lambda>a. if lost (pos a) then 1 else nb a) (box @ [Fm_Restart_Failures]) s"
    by (rule files_pendingI [OF P(1-3) k l refl P(6), where new = "[]"]) (use P fin in auto)
  then show ?thesis by (simp add: files_ok_def)
qed

lemma files_end:
  assumes "files_normal n files T m pos rm nb box s"
  shows "files_normal n files T m pos rm nb (box @ [Fm_Finalize]) s" and "\<not> fa_stopped s" and "ti_inv (fa_timing s)"
    and "\<exists>c. fa_forcing s = Some c \<and> prefix_loaded m c"
proof -
  from assms obtain P b where P: "P \<subseteq> {1 .. n}" "fa_sound n files T m b s" "round_ok P pos b" "rm = rm_of b P" "nb = nb_of b P"
      "msgs_ok n m box" "\<forall>a. mail_from sender a box = fa_mail a (pos a)" unfolding files_normal_def by blast
  then show "files_normal n files T m pos rm nb (box @ [Fm_Finalize]) s"
    unfolding files_normal_def by (intro exI [of _ P] exI [of _ b]) simp
  show "\<not> fa_stopped s" "ti_inv (fa_timing s)" "\<exists>c. fa_forcing s = Some c \<and> prefix_loaded m c"
    using P(2) by (auto simp: fa_sound_def)
qed

text \<open>A partition in which a GRU waits has another one to wait for.\<close>

lemma queued_waits:
  assumes "files_normal n files T m pos rm nb box s" and "queued (pos a)"
  shows "\<exists>c \<in> {1 .. n}. counted (pos c)"
proof -
  from assms(1) obtain P b where P: "P \<subseteq> {1 .. n}" "round_ok P pos b" unfolding files_normal_def by blast
  have a: "a \<in> P" using P(2) assms(2) by (auto simp: round_ok_def)
  have ok: "parts_ok b P {c. counted (pos c)} {c. queued (pos c)}" using P(2) by (simp add: round_ok_def)
  have "a \<in> set (op_ready_to_write (part b a))" using parts_ok_part(5) [OF ok a] assms(2) a by simp
  then have "op_ready_to_write (part b a) \<noteq> []" by auto
  then have "{c. counted (pos c)} \<inter> members b P a \<noteq> {}"
    using parts_ok_part(4) [OF ok a] by (auto simp: partition_inv_def split: if_splits)
  then show ?thesis using P(1) by (auto simp: members_def)
qed

end
