(* ===== verification/Job_Decisions.thy ===== *)
theory Job_Decisions
  imports Job_Places
begin

text \<open>
  The job actor of a running job: what it knows of the places of the GRUs, and every
  message it handles.
\<close>

subsection \<open>The state of the job\<close>

text \<open>\<open>q\<close> are the messages the job has sent to itself, \<open>r\<close> counts the restarts, \<open>R\<close> is the
  number of attempts in the settings.\<close>

definition job_frame :: "int \<Rightarrow> job_actor \<Rightarrow> bool" where
  "job_frame T s \<longleftrightarrow> ja_mode s = Async_Mode \<and> ti_inv (ja_timing s) \<and> num_steps s = T \<and>
     \<not> data_assimilation_mode (ja_job_settings s) \<and>
     (print_output (ja_hru_settings s) \<longrightarrow> output_frequency (ja_hru_settings s) \<noteq> 0)"

definition struc_ok :: "nat \<Rightarrow> int \<Rightarrow> nat \<Rightarrow> (nat \<Rightarrow> place) \<Rightarrow> job_msg list \<Rightarrow> gru_struc \<Rightarrow> bool" where
  "struc_ok n R r pos q g \<longleftrightarrow> gs_ok g \<and> gs_num_gru g = int n \<and> initial_retry_attempts g = R \<and> phase r q g \<and>
     outstanding g = int ` {a. \<not> known (pos a)} \<and> set (failed_jobs g) = int ` {a. lost (pos a)}"

definition jobs_ok :: "nat \<Rightarrow> int \<Rightarrow> int \<Rightarrow> nat \<Rightarrow> (nat \<Rightarrow> place) \<Rightarrow> job_msg list \<Rightarrow> job_actor \<Rightarrow> bool" where
  "jobs_ok n T R r pos q s \<longleftrightarrow> int n < INT_MAX \<and> job_frame T s \<and>
     (\<exists>g. ja_gru_struc s = Some g \<and> struc_ok n R r pos q g)"

lemma jobs_ok_cong:
  "jobs_ok n T R r pos q s \<Longrightarrow> (\<And>a. known (pos' a) = known (pos a)) \<Longrightarrow> (\<And>a. lost (pos' a) = lost (pos a)) \<Longrightarrow>
   jobs_ok n T R r pos' q s"
  by (simp add: jobs_ok_def struc_ok_def)

lemma struc_ok_failed:
  assumes "struc_ok n R r pos q g"
  shows "gs_num_gru_failed g = int (card {a. lost (pos a)})"
proof -
  have "gs_ok g" using assms by (simp add: struc_ok_def)
  note card_failed_jobs [OF this] failed_le_num(1) [OF this]
  moreover have "card (set (failed_jobs g)) = card {a. lost (pos a)}"
    using assms by (simp add: struc_ok_def card_image inj_on_def)
  ultimately show ?thesis by simp
qed

lemma jobs_ok_members:
  assumes "jobs_ok n T R r pos q s"
  shows "\<not> known (pos a) \<Longrightarrow> a \<in> {1 .. n}" and "lost (pos a) \<Longrightarrow> a \<in> {1 .. n}"
    and "int r \<le> int n * max 1 R"
proof -
  from assms obtain g where g: "gs_ok g" "gs_num_gru g = int n" "initial_retry_attempts g = R" "phase r q g"
    "outstanding g = int ` {a. \<not> known (pos a)}" "set (failed_jobs g) = int ` {a. lost (pos a)}"
    by (auto simp: jobs_ok_def struc_ok_def)
  show "a \<in> {1 .. n}" if "\<not> known (pos a)"
  proof -
    have "int a \<in> outstanding g" using g(5) that by blast
    then show ?thesis using g(2) by (auto simp: outstanding_def)
  qed
  show "a \<in> {1 .. n}" if "lost (pos a)"
  proof -
    have "int a \<in> set (failed_jobs g)" using g(6) that by blast
    then show ?thesis using g(2) by (auto simp: failed_jobs_def)
  qed
  have "int r \<le> gs_num_gru g * budget_unit g"
    using g(4) running_phase_bound [OF g(1)] restart_phase_bound unfolding phase_def final_phase_def by blast
  then show "int r \<le> int n * max 1 R" using g(2,3) by (simp add: budget_unit_def)
qed

subsection \<open>Reports\<close>

lemma sent_to_self: "sent job_to_self es = to_self es"
  by (induction es) (auto simp: to_self_def split: job_effect.splits)

lemma failed_jobs_reported:
  assumes "gs_ok g" and "i < nat (gs_num_gru g)" and "\<not> is_finished (gru_info g ! i)"
  shows "set (failed_jobs (reported i ok g)) = (if ok then set (failed_jobs g) else insert (int i + 1) (set (failed_jobs g)))"
proof -
  have "i < length (gru_info g)" "\<not> is_failed (gru_info g ! i)"
    using assms by (auto simp: gs_ok_def is_finished_def is_failed_def)
  then show ?thesis using assms(2)
    by (auto simp: failed_jobs_def reported_def nth_list_update is_failed_def setSuccess_def setFailed_def)
qed

lemma retry_or_finalize_frame:
  "failed_jobs (fst (retry_or_finalize g)) = failed_jobs g"
  "outstanding (fst (retry_or_finalize g)) = outstanding g"
  "initial_retry_attempts (fst (retry_or_finalize g)) = initial_retry_attempts g"
  "sent job_to_fa (snd (retry_or_finalize g)) = []" "sent (job_to_gru b) (snd (retry_or_finalize g)) = []"
  "sent (spawned_gru u1 u2 b) (snd (retry_or_finalize g)) = []" "sent job_to_parent (snd (retry_or_finalize g)) = []"
  by (auto simp: retry_or_finalize_def shouldRetry_def failed_jobs_def outstanding_def split: prod.splits bool.splits)

text \<open>The report of an outstanding GRU.\<close>

lemma struc_report:
  assumes g: "struc_ok n R r pos q g" and n: "int n < INT_MAX" and a: "\<not> known (pos a)"
    and p': "known p'" "lost p' \<longleftrightarrow> \<not> ok"
  obtains i where "int a = int i + 1" "i < nat (gs_num_gru g)" "q = []"
    "struc_ok n R r (pos(a := p')) (to_self (snd (retry_or_finalize (reported i ok g))))
       (fst (retry_or_finalize (reported i ok g)))" "gs_ok (reported i ok g)"
proof -
  let ?h = "\<lambda>i. fst (retry_or_finalize (reported i ok g))"
  have "int a \<in> outstanding g" using g a by (simp add: struc_ok_def)
  then obtain i where i: "int a = int i + 1" "i < nat (gs_num_gru g)" "\<not> is_finished (gru_info g ! i)"
    by (auto simp: outstanding_def)
  have gg: "gs_ok g" "gs_num_gru g < INT_MAX" "phase r q g" using g n by (simp_all add: struc_ok_def)
  note ph = phase_report [OF gg(1) i(2,3) gg(2,3), of ok]
  note rep = reported_gs_ok [OF gg(1) i(2,3), of ok]
  have "\<not> lost (pos a)" using a by (cases "pos a") simp_all
  moreover have "outstanding (?h i) = int ` {c. \<not> known ((pos(a := p')) c)}"
  proof -
    have "{c. \<not> known ((pos(a := p')) c)} = {c. \<not> known (pos c)} - {a}" using p' by auto
    then show ?thesis using g rep(2) i(1) by (simp add: retry_or_finalize_frame struc_ok_def image_set_diff)
  qed
  moreover have "set (failed_jobs (?h i)) = int ` {c. lost ((pos(a := p')) c)}"
  proof -
    have "{c. lost ((pos(a := p')) c)} = (if ok then {c. lost (pos c)} else insert a {c. lost (pos c)})"
      using p' \<open>\<not> lost (pos a)\<close> by auto
    then show ?thesis using g failed_jobs_reported [OF gg(1) i(2,3), of ok] i(1)
      by (simp add: retry_or_finalize_frame struc_ok_def)
  qed
  moreover have "initial_retry_attempts (?h i) = R" "gs_num_gru (?h i) = int n"
    using ph g by (auto simp: same_frame_def struc_ok_def)
  ultimately have "struc_ok n R r (pos(a := p')) (to_self (snd (retry_or_finalize (reported i ok g)))) (?h i)"
    using ph by (simp add: struc_ok_def)
  with that i ph rep(1) show ?thesis by blast
qed

text \<open>As long as it decides nothing, some GRU is still out.\<close>

lemma undecided:
  assumes "struc_ok n R r pos q (fst (retry_or_finalize g))" and "gs_ok g" and "to_self (snd (retry_or_finalize g)) = []"
  shows "\<exists>c. \<not> known (pos c)"
proof -
  have "outstanding g \<noteq> {}"
    using assms(2) by (rule retry_or_finalize_cases) (use assms(3) in auto)
  then show ?thesis using assms(1) by (auto simp: retry_or_finalize_frame struc_ok_def)
qed

lemma job_success:
  assumes s: "jobs_ok n T R r pos q s" and a: "\<not> known (pos a)" and p': "known p'" "\<not> lost p'"
  shows "q = [] \<and> (\<exists>s' es. async_receive nat (Done_Hru (int a)) s = Inr (s', es) \<and>
    jobs_ok n T R r (pos(a := p')) (sent job_to_self es) s' \<and> sent job_to_fa es = [] \<and> sent job_to_parent es = [] \<and>
    (\<forall>b. sent (job_to_gru b) es = []) \<and> (\<forall>u1 u2 b. sent (spawned_gru u1 u2 b) es = []) \<and>
    (sent job_to_self es = [] \<longrightarrow> (\<exists>c. \<not> known ((pos(a := p')) c))))"
proof -
  from s obtain g where g: "ja_gru_struc s = Some g" "struc_ok n R r pos q g" and n: "int n < INT_MAX" and fr: "job_frame T s"
    by (auto simp: jobs_ok_def)
  have lost': "lost p' \<longleftrightarrow> \<not> True" using p'(2) by simp
  from struc_report [OF g(2) n a p'(1) lost'] obtain i where
    i: "int a = int i + 1" "i < nat (gs_num_gru g)" "q = []"
      "struc_ok n R r (pos(a := p')) (to_self (snd (retry_or_finalize (reported i True g))))
         (fst (retry_or_finalize (reported i True g)))" "gs_ok (reported i True g)" .
  obtain g2 es where e: "retry_or_finalize (reported i True g) = (g2, es)" by fastforce
  have "gs_ok g" using g(2) by (simp add: struc_ok_def)
  then have u: "updGRU (int a) setSuccess (incrementNumGruDone g) =
      Inr (incrementNumGruDone g\<lparr>gru_info := (gru_info g)[i := setSuccess (gru_info g ! i)]\<rparr>)"
    using i by (simp add: updGRU_def gs_ok_def incrementNumGruDone_def)
  have "async_receive nat (Done_Hru (int a)) s = Inr (s\<lparr>ja_gru_struc := Some g2\<rparr>, es)"
    using g(1) u e by (simp add: async_receive_def handleFinishedGRU_def with_gru_struc_def incrementNumGruDone_def reported_def)
  moreover have "jobs_ok n T R r (pos(a := p')) (sent job_to_self es) (s\<lparr>ja_gru_struc := Some g2\<rparr>)"
    using i(4) e n fr by (simp add: jobs_ok_def sent_to_self job_frame_def)
  moreover have "sent job_to_self es = [] \<Longrightarrow> \<exists>c. \<not> known ((pos(a := p')) c)"
    using undecided [OF i(4,5)] by (simp only: e snd_conv sent_to_self)
  moreover note retry_or_finalize_frame(4-7) [where g = "reported i True g", unfolded e snd_conv]
  ultimately show ?thesis using i(3) by blast
qed

lemma job_failure:
  assumes s: "jobs_ok n T R r pos q s" and a: "\<not> known (pos a)" and p': "known p'" "lost p'"
  shows "q = [] \<and> (\<exists>s' es. async_receive nat (Gru_Error (int a) t e msg) s = Inr (s', es) \<and>
    jobs_ok n T R r (pos(a := p')) (sent job_to_self es) s' \<and> sent job_to_fa es = [Fm_Run_Failure (int a)] \<and>
    sent job_to_parent es = [] \<and>
    (\<forall>b. sent (job_to_gru b) es = []) \<and> (\<forall>u1 u2 b. sent (spawned_gru u1 u2 b) es = []) \<and>
    (sent job_to_self es = [] \<longrightarrow> (\<exists>c. \<not> known ((pos(a := p')) c))))"
proof -
  from s obtain g where g: "ja_gru_struc s = Some g" "struc_ok n R r pos q g" and n: "int n < INT_MAX" and fr: "job_frame T s"
    by (auto simp: jobs_ok_def)
  have lost': "lost p' \<longleftrightarrow> \<not> False" using p'(2) by simp
  from struc_report [OF g(2) n a p'(1) lost'] obtain i where
    i: "int a = int i + 1" "i < nat (gs_num_gru g)" "q = []"
      "struc_ok n R r (pos(a := p')) (to_self (snd (retry_or_finalize (reported i False g))))
         (fst (retry_or_finalize (reported i False g)))" "gs_ok (reported i False g)" .
  obtain g2 es where r: "retry_or_finalize (reported i False g) = (g2, es)" by fastforce
  have "gs_ok g" using g(2) by (simp add: struc_ok_def)
  then have u: "updGRU (int a) setFailed g = Inr (g\<lparr>gru_info := (gru_info g)[i := setFailed (gru_info g ! i)]\<rparr>)"
    using i by (simp add: updGRU_def gs_ok_def)
  let ?s = "s\<lparr>ja_gru_struc := Some g2, last_error_type := record_error msg (int a) (last_error_type s)\<rparr>"
  let ?es = "To_File (Fa_Run_Failure (int a)) # es"
  have "async_receive nat (Gru_Error (int a) t e msg) s = Inr (?s, ?es)"
    using g(1) u r i(1) by (simp add: async_receive_def handleGRUError_def with_gru_struc_def incrementNumGruFailed_def reported_def)
  moreover have "jobs_ok n T R r (pos(a := p')) (sent job_to_self ?es) ?s"
    using i(4) r n fr by (simp add: jobs_ok_def sent_to_self job_frame_def)
  moreover have "sent job_to_fa ?es = [Fm_Run_Failure (int a)]" "sent job_to_parent ?es = []"
    "sent (job_to_gru b) ?es = []" "sent (spawned_gru u1 u2 b) ?es = []" for b u1 u2
    using retry_or_finalize_frame(4-7) [where g = "reported i False g", unfolded r snd_conv] by simp_all
  moreover have "sent job_to_self ?es = [] \<Longrightarrow> \<exists>c. \<not> known ((pos(a := p')) c)"
    using undecided [OF i(4,5)] by (simp add: r sent_to_self)
  ultimately show ?thesis using i(3) by blast
qed

subsection \<open>Starting GRUs\<close>

text \<open>What the job sends to start the GRUs \<open>js\<close>, and the actors it starts.\<close>

definition launch :: "job_actor \<Rightarrow> int \<Rightarrow> int list \<Rightarrow> job_effect list" where
  "launch s c js = concat (map (\<lambda>j. [spawn_gru s (j + c) j, To_Gru (nat j) Update_Hru_Async]) js)"

definition launched :: "job_actor \<Rightarrow> int \<Rightarrow> int \<Rightarrow> int \<Rightarrow> actor_id \<Rightarrow> gru_actor" where
  "launched s c u1 u2 b = fst (gru_make_behavior 0 0 0 (GruActor (int b + c) (int b) (num_steps s) (ja_hru_settings s)
     (data_assimilation_mode (ja_job_settings s)) (num_timesteps_in_output_buffer (ja_fa_settings s))
     (ja_restart s) (ja_tol s) u1 u2))"

lemma launch_simps [simp]:
  "launch s c [] = []"
  "launch s c (j # js) = spawn_gru s (j + c) j # To_Gru (nat j) Update_Hru_Async # launch s c js"
  by (simp_all add: launch_def)

lemma sent_launch [simp]:
  "sent job_to_fa (launch s c js) = []" "sent job_to_self (launch s c js) = []" "sent job_to_parent (launch s c js) = []"
  by (induction js) (simp_all add: spawn_gru_def)

lemma launch_box:
  assumes "distinct js" and "\<forall>j \<in> set js. 0 < j"
  shows "sent (job_to_gru b) (launch s c js) = (if int b \<in> set js then [In_Update_Hru_Async] else [])"
    and "sent (spawned_gru u1 u2 b) (launch s c js) = (if int b \<in> set js then [launched s c u1 u2 b] else [])"
  using assms by (induction js) (auto simp: spawn_gru_def launched_def)

lemma launched_at_start:
  assumes "job_frame T s" and "0 < T"
  shows "at_place files T b At_Start T nb (launched s c u1 u2 b) [In_Update_Hru_Async] []"
  using assms
  by (simp add: launched_def gru_make_behavior_def GruActor_def job_frame_def live_def starting_def prints_ok_def runs_done_def Let_def)

lemma relaunch_launch: "relaunch nat s start js = launch s (start - 1) js"
  by (simp add: relaunch_def launch_def algebra_simps)

lemma spawn_loop_launches:
  "\<not> data_assimilation_mode (ja_job_settings s) \<Longrightarrow>
   snd (spawn_loop nat s i g) = launch s (gs_start_gru g - 1) (spawned_ids (snd (spawn_loop nat s i g)))"
proof (induction "nat :: int \<Rightarrow> nat" s i g rule: spawn_loop.induct)
  case (1 s i g)
  show ?case
  proof (cases "i < gs_num_gru g")
    case False
    then show ?thesis by (subst (1 2) spawn_loop.simps) simp
  next
    case True
    let ?g = "addGRU (new_gru nat s (gs_start_gru g + i) (i + 1)) g"
    define es where "es = snd (spawn_loop nat s (i + 1) ?g)"
    have "gs_start_gru ?g = gs_start_gru g" by (simp add: addGRU_def)
    with 1(1) [OF True refl refl 1(2)] have IH: "es = launch s (gs_start_gru g - 1) (spawned_ids es)"
      by (simp only: es_def)
    have e: "snd (spawn_loop nat s i g) = spawn_gru s (gs_start_gru g + i) (i + 1) # To_Gru (nat (i + 1)) Update_Hru_Async # es"
      using True 1(2) unfolding es_def by (subst spawn_loop.simps) (simp add: Let_def split: prod.splits)
    show ?thesis unfolding e by (simp add: IH [symmetric] algebra_simps)
  qed
qed

subsection \<open>Restart and end\<close>

lemma failed_jobs_props: "distinct (failed_jobs g)" "\<forall>j \<in> set (failed_jobs g). 0 < j"
  by (auto simp: failed_jobs_def distinct_map inj_on_def)

definition restarted :: "(nat \<Rightarrow> place) \<Rightarrow> nat \<Rightarrow> place" where
  "restarted pos a = (if lost (pos a) then At_Start else pos a)"

lemma job_restarts:
  assumes s: "jobs_ok n T R r pos (Restart_Failures # q) s"
  shows "q = []" and "known (pos a)" and "\<exists>a. lost (pos a)"
    and "\<exists>s' js c. async_receive nat Restart_Failures s = Inr (s', To_File Fa_Restart_Failures # launch s' c js) \<and>
       jobs_ok n T R (Suc r) (restarted pos) [] s' \<and> distinct js \<and> (\<forall>j \<in> set js. 0 < j) \<and> set js = int ` {a. lost (pos a)}"
proof -
  from s obtain g where g: "ja_gru_struc s = Some g" "struc_ok n R r pos (Restart_Failures # q) g"
    and n: "int n < INT_MAX" and fr: "job_frame T s" by (auto simp: jobs_ok_def)
  have ok: "gs_ok g" "phase r (Restart_Failures # q) g" "gs_num_gru g = int n" "initial_retry_attempts g = R"
    "outstanding g = int ` {a. \<not> known (pos a)}" "set (failed_jobs g) = int ` {a. lost (pos a)}"
    using g(2) by (simp_all add: struc_ok_def)
  have ph: "q = []" "restart_phase r g" using ok(2) by (auto simp: phase_def)
  then show "q = []" by simp
  show "known (pos a)" using ok(5) ph(2) by (auto simp: restart_phase_def)
  have "0 < card {a. lost (pos a)}" using struc_ok_failed [OF g(2)] ph(2) by (simp add: restart_phase_def)
  then show "\<exists>a. lost (pos a)" by (auto simp: card_gt_0_iff)
  from restart_step [OF g(1) ok(1), of nat] obtain s' es g' where
    r: "async_receive nat Restart_Failures s = Inr (s', es)" "ja_gru_struc s' = Some g'" "gs_ok g'" "spawned_ids es = failed_jobs g"
      "gs_num_gru_failed g' = 0" "outstanding g' = outstanding g \<union> set (failed_jobs g)" "same_frame g g'"
      "prev_num_gru_failed g' = gs_num_gru_failed g" "num_retry_attempts_left g' = num_retry_attempts_left g - 1" by blast
  from phase_restart [OF ok(1,2) r(7,5,6,8,9)] have ph': "phase (Suc r) [] g'" by simp
  have "card (set (failed_jobs g')) = 0" using card_failed_jobs [OF r(3)] r(5) by simp
  then have f': "set (failed_jobs g') = {}" by simp
  let ?s1 = "s\<lparr>ja_tol := tighten (last_error_type s) (ja_tol s)\<rparr>"
  from r(1) g(1) obtain g1 es1 where
    l: "restart_loop nat ?s1 (snapshotFailedCount g) = Inr (g1, es1)" and es: "es = To_File Fa_Restart_Failures # es1"
    and s': "s' = ?s1\<lparr>last_error_type := [], ja_gru_struc := Some (decrementRetryAttempts g1)\<rparr>"
    by (auto simp: async_receive_def on_restart_failures_def with_gru_struc_def Let_def res_bind_Inr_iff split: prod.splits)
  have "es1 = launch ?s1 (gs_start_gru (snapshotFailedCount g) - 1) (failed_jobs g)"
    using restart_loop_relaunch [OF l] r(4) es by (simp add: relaunch_launch)
  moreover have "launch ?s1 c js = launch s' c js" for c js by (simp add: launch_def s' spawn_gru_def)
  ultimately have es': "es = To_File Fa_Restart_Failures # launch s' (gs_start_gru (snapshotFailedCount g) - 1) (failed_jobs g)"
    using es by simp
  have "{a. lost (restarted pos a)} = {}" "{a. \<not> known (restarted pos a)} = {a. \<not> known (pos a)} \<union> {a. lost (pos a)}"
    by (auto simp: restarted_def)
  then have "struc_ok n R (Suc r) (restarted pos) [] g'"
    using r(3,6,7) ph' f' ok by (simp add: struc_ok_def same_frame_def image_Un)
  then have "jobs_ok n T R (Suc r) (restarted pos) [] s'"
    using n fr r(2) s' by (simp add: jobs_ok_def job_frame_def)
  then show "\<exists>s' js c. async_receive nat Restart_Failures s = Inr (s', To_File Fa_Restart_Failures # launch s' c js) \<and>
       jobs_ok n T R (Suc r) (restarted pos) [] s' \<and> distinct js \<and> (\<forall>j \<in> set js. 0 < j) \<and> set js = int ` {a. lost (pos a)}"
    using r(1) es' failed_jobs_props [of g] ok(6) by blast
qed

lemma job_finalizes:
  assumes s: "jobs_ok n T R r pos (Finalize # q) s"
  shows "q = []" and "known (pos a)" and "async_receive nat Finalize s = Inr (s, [To_File Fa_Finalize])"
    and "jobs_ok n T R r pos [] s"
  using assms by (auto simp: jobs_ok_def struc_ok_def phase_def final_phase_def async_receive_def finalizeJob_def)

lemma job_own_cases:
  assumes "jobs_ok n T R r pos q s"
  shows "q = [] \<or> q = [Restart_Failures] \<or> q = [Finalize]"
  using assms by (auto simp: jobs_ok_def struc_ok_def phase_def)

lemma getDuration_ok: "ti_inv t \<Longrightarrow> \<exists>d. getDuration k t = Inr d"
proof (cases "getIndex k t")
  case (Some i)
  assume t: "ti_inv t"
  from getIndex_Some [OF t Some] t Some show ?thesis by (auto simp: getDuration_def ti_inv_def vec_at_def)
qed (simp add: getDuration_def)

text \<open>The reply of the file access actor to \<^verbatim>\<open>finalize\<close> ends the job.\<close>

lemma job_stops:
  assumes s: "jobs_ok n T R r pos q s"
  shows "\<exists>s' d. async_receive nat (Finalize_Reply now rd wr) s =
      Inr (s', [To_Parent_Done (int (card {a. lost (pos a)})) d rd wr, Quit_Job]) \<and> ja_mode s' = Job_Stopped"
proof -
  from s obtain g where g: "ja_gru_struc s = Some g" "struc_ok n R r pos q g" "ti_inv (ja_timing s)"
    by (auto simp: jobs_ok_def job_frame_def)
  from updateEndPoint_ok [OF g(3), of now "''total_duration''"] obtain t where
    t: "updateEndPoint now ''total_duration'' (ja_timing s) = Inr t" "ti_inv t" by blast
  from getDuration_ok [OF t(2), of "''total_duration''"] obtain d where "getDuration ''total_duration'' t = Inr d" by blast
  with t(1) g(1) struc_ok_failed [OF g(2)] show ?thesis
    by (auto simp: async_receive_def on_finalize_reply_def with_gru_struc_def)
qed

text \<open>The first message of the job starts all GRUs.\<close>

lemma job_starts:
  assumes "job_ready n files T x" and "int n < INT_MAX"
  shows "\<exists>s' js c R. async_receive nat (File_Access_Actor_Ready T) (js_job x) = Inr (s', launch s' c js) \<and>
    jobs_ok n T R 0 (\<lambda>a. if a \<in> {1 .. n} then At_Start else At_Known Written) [] s' \<and> distinct js \<and>
    (\<forall>j \<in> set js. 0 < j) \<and> set js = int ` {1 .. n} \<and>
    (\<exists>g. ja_gru_struc (js_job x) = Some g \<and> R = initial_retry_attempts g)"
proof -
  let ?s = "job_actor.num_steps_update (\<lambda>_. T) (js_job x)"
  from assms(1) obtain g where g: "ja_gru_struc (js_job x) = Some g" "fresh_struc g" "gs_num_gru g = int n"
    by (auto simp: job_ready_def)
  then have "ja_gru_struc ?s = Some g" by simp
  from spawnGruActors_ok [OF this g(2), of nat] g(3) obtain g' es where
    r: "spawnGruActors nat ?s = Inr (?s\<lparr>ja_gru_struc := Some g'\<rparr>, es)" "gs_ok g'"
      "spawned_ids es = map (\<lambda>i. int i + 1) [0 ..< n]" "outstanding g' = (\<lambda>i. int i + 1) ` {0 ..< n}" "same_frame g g'"
      "gs_num_gru_failed g' = 0" "prev_num_gru_failed g' = INT_MAX" by auto
  let ?s' = "?s\<lparr>ja_gru_struc := Some g'\<rparr>" and ?js = "map (\<lambda>i. int i + 1) [0 ..< n]"
  let ?pos = "\<lambda>a. if a \<in> {1 .. n} then At_Start else At_Known Written"
  have fr: "job_frame T ?s'" using assms(1) by (simp add: job_ready_def job_frame_def)
  obtain g1 where sl: "spawn_loop nat ?s 0 g = (g1, es)"
    using r(1) g(1) by (auto simp: spawnGruActors_def with_gru_struc_def split: prod.splits)
  have "es = launch ?s (gs_start_gru g - 1) ?js"
    using spawn_loop_launches [of ?s 0 g] fr sl r(3) by (simp add: job_frame_def)
  then have es: "es = launch ?s' (gs_start_gru g - 1) ?js" by (simp add: launch_def spawn_gru_def)
  have img: "(\<lambda>i. int i + 1) ` {0 ..< n} = int ` {1 .. n}"
  proof -
    have "(\<lambda>i. int i + 1) = (\<lambda>i. int (Suc i))" by (simp add: fun_eq_iff)
    then have "(\<lambda>i. int i + 1) ` {0 ..< n} = int ` Suc ` {0 ..< n}" by (simp only: image_image)
    also have "Suc ` {0 ..< n} = {1 .. n}"
      by (simp only: image_Suc_atLeastLessThan atLeastLessThanSuc_atLeastAtMost One_nat_def)
    finally show ?thesis .
  qed
  have "card (set (failed_jobs g')) = 0" using card_failed_jobs [OF r(2)] r(6) by simp
  then have "set (failed_jobs g') = {}" by simp
  moreover have "{a. lost (?pos a)} = {}" "{a. \<not> known (?pos a)} = {1 .. n}" by auto
  ultimately have "struc_ok n (initial_retry_attempts g') 0 ?pos [] g'"
    using r(2,4,5) g(3) started_phase [OF r(2,6,7)] img by (simp add: struc_ok_def same_frame_def)
  then have "jobs_ok n T (initial_retry_attempts g') 0 ?pos [] ?s'" using assms(2) fr by (simp add: jobs_ok_def)
  moreover have "async_receive nat (File_Access_Actor_Ready T) (js_job x) = Inr (?s', launch ?s' (gs_start_gru g - 1) ?js)"
    using r(1) es by (simp add: async_receive_def)
  moreover have "distinct ?js" "\<forall>j \<in> set ?js. 0 < j" "set ?js = int ` {1 .. n}"
    using img by (auto simp: distinct_map inj_on_def)
  moreover have "initial_retry_attempts g' = initial_retry_attempts g" using r(5) by (simp add: same_frame_def)
  ultimately show ?thesis using g(1) by blast
qed

end
