(* ===== verification/Job_Fleet.thy ===== *)
theory Job_Fleet
  imports Job_Invariant Job_Decisions
begin

text \<open>
  The invariant of a running job and its bound: every step of a GRU, of the file access
  actor and of the job keeps the one and lowers the other.
\<close>

subsection \<open>Invariant\<close>

definition fleet ::
  "nat \<Rightarrow> int list \<Rightarrow> int \<Rightarrow> nat \<Rightarrow> (nat \<Rightarrow> place) \<Rightarrow> (nat \<Rightarrow> int) \<Rightarrow> (nat \<Rightarrow> int) \<Rightarrow> job_sys \<Rightarrow> bool" where
  "fleet n files T m pos rm nb x \<longleftrightarrow>
     (\<forall>a \<in> {1 .. n}. at_place files T a (pos a) (rm a) (nb a) (js_gru x a) (js_gru_box x a) (js_log x a) \<and>
        needs (pos a) (js_gru x a) \<le> int m) \<and>
     (\<forall>a. a \<notin> {1 .. n} \<longrightarrow> js_gru_box x a = [])"

text \<open>What the job has sent to itself, and what it has from the GRUs.\<close>

abbreviation own :: "job_msg list \<Rightarrow> job_msg list" where
  "own ms \<equiv> filter (\<lambda>m. reporter m = None) ms"

definition reports_ok :: "(nat \<Rightarrow> place) \<Rightarrow> job_msg list \<Rightarrow> bool" where
  "reports_ok pos ms \<longleftrightarrow> (\<forall>a. job_mail a (pos a) (mail_from reporter a ms))"

definition core ::
  "nat \<Rightarrow> int list \<Rightarrow> int \<Rightarrow> int \<Rightarrow> nat \<Rightarrow> (nat \<Rightarrow> place) \<Rightarrow> nat \<Rightarrow> (nat \<Rightarrow> int) \<Rightarrow> (nat \<Rightarrow> int) \<Rightarrow> job_sys \<Rightarrow> bool" where
  "core n files T R r pos m rm nb x \<longleftrightarrow> fleet n files T m pos rm nb x \<and>
     files_ok n files T m pos rm nb (js_fa_box x) (js_fa x) \<and>
     jobs_ok n T R r pos (own (js_job_box x)) (js_job x) \<and> reports_ok pos (js_job_box x) \<and> js_reported x = []"

definition work :: "nat \<Rightarrow> int list \<Rightarrow> (nat \<Rightarrow> place) \<Rightarrow> job_sys \<Rightarrow> int" where
  "work n files pos x = (\<Sum>a \<in> {1 .. n}. weight (int (length files)) (pos a) (js_gru x a)) +
     msgs_weight files (js_fa_box x) + (if Finalize \<in> set (js_job_box x) then 3 else 0)"

definition advances ::
  "nat \<Rightarrow> int list \<Rightarrow> int \<Rightarrow> int \<Rightarrow> nat \<Rightarrow> (nat \<Rightarrow> place) \<Rightarrow> job_sys \<Rightarrow> (nat \<Rightarrow> place) \<Rightarrow> job_sys \<Rightarrow> bool" where
  "advances n files T R r pos x pos' y \<longleftrightarrow> (\<exists>m rm nb. core n files T R r pos' m rm nb y) \<and>
     work n files pos' y < work n files pos x \<and>
     (Fm_Finalize \<in> set (js_fa_box y) \<longleftrightarrow> Fm_Finalize \<in> set (js_fa_box x)) \<and> own (js_job_box y) = own (js_job_box x)"

lemma fleetD:
  assumes "fleet n files T m pos rm nb x" and "a \<in> {1 .. n}"
  shows "at_place files T a (pos a) (rm a) (nb a) (js_gru x a) (js_gru_box x a) (js_log x a)"
    and "needs (pos a) (js_gru x a) \<le> int m"
  using assms by (simp_all only: fleet_def)

lemma fleet_clock:
  assumes "fleet n files T m pos rm nb x"
  shows "\<forall>a \<in> {1 .. n}. place_clock files m (pos a) (rm a) (nb a)"
  using at_place_clock [OF fleetD [OF assms]] by blast

lemma files_outside:
  assumes "files_ok n files T m pos rm nb box s" and "a \<notin> {1 .. n}"
  shows "pos a = At_Known Written"
  using assms(1) unfolding files_ok_def
proof
  assume "files_normal n files T m pos rm nb box s"
  then obtain P b where "P \<subseteq> {1 .. n}" "round_ok P pos b" unfolding files_normal_def by blast
  with assms(2) show ?thesis by (auto simp: round_ok_def)
next
  assume "files_pending n files T m pos rm nb box s"
  then obtain P b pos0 where P: "P \<subseteq> {1 .. n}" "round_ok P pos0 b" and
    sel: "\<forall>a. if lost (pos0 a) then pos a \<in> {At_Start, At_Ask_Steps} \<and> rm a = T \<and> nb a = 1
          else pos a = pos0 a \<and> rm a = rm_of b P a \<and> nb a = nb_of b P a" unfolding files_pending_def by blast
  have "pos0 a = At_Known Written" using P assms(2) by (auto simp: round_ok_def)
  with spec [OF sel, of a] show ?thesis by simp
qed

lemma weight_nonneg:
  assumes "at_place files T a p rm nb s box lg"
  shows "0 \<le> weight (int (length files)) p s"
proof -
  have l: "live a T s lg \<Longrightarrow> 1 \<le> steps_left s" by (simp add: live_def steps_left_def)
  have f: "in_file files s \<Longrightarrow> ga_iFile s \<le> int (length files)" "at_file files i s \<Longrightarrow> i \<le> int (length files)" for i
    by (simp_all add: in_file_def at_file_def)
  from assms l f show ?thesis by (cases p) (fastforce intro!: add_nonneg_nonneg mult_nonneg_nonneg)+
qed

lemma msg_weight_pos: "msg_ok n m x \<Longrightarrow> int m \<le> F \<Longrightarrow> 1 \<le> msg_weight F x"
  by (cases x) auto

lemma msgs_weight_nonneg: "\<forall>x \<in> set ms. 1 \<le> msg_weight (int (length files)) x \<Longrightarrow> 0 \<le> msgs_weight files ms"
  by (induction ms) auto

lemma files_weight:
  assumes "files_ok n files T m pos rm nb box s"
  shows "0 \<le> msgs_weight files box"
proof -
  have F: "int m \<le> int (length files)" if "fa_sound n files T m b s" for b
    using that ff_length by (auto simp: fa_sound_def prefix_loaded_def)
  have ok: "\<forall>x \<in> set ms. 1 \<le> msg_weight (int (length files)) x" if "fa_sound n files T m b s" "msgs_ok n m ms" for b ms
    using msg_weight_pos [OF _ F [OF that(1)]] that(2) by (auto simp: msgs_ok_def)
  from assms [unfolded files_ok_def] show ?thesis
  proof
    assume "files_normal n files T m pos rm nb box s"
    with ok show ?thesis by (auto simp: files_normal_def intro!: msgs_weight_nonneg)
  next
    assume "files_pending n files T m pos rm nb box s"
    then obtain b old new where "fa_sound n files T m b s" "msgs_ok n m old" "msgs_ok n m new"
      "box = old @ Fm_Restart_Failures # new" unfolding files_pending_def by blast
    with msgs_weight_nonneg [OF ok [of b old]] msgs_weight_nonneg [OF ok [of b new]] show ?thesis by simp
  qed
qed

lemma work_nonneg:
  assumes "core n files T R r pos m rm nb x"
  shows "0 \<le> work n files pos x"
proof -
  have "0 \<le> (\<Sum>a \<in> {1 .. n}. weight (int (length files)) (pos a) (js_gru x a))"
  proof (intro sum_nonneg)
    have "fleet n files T m pos rm nb x" using assms by (simp add: core_def)
    from weight_nonneg [OF fleetD(1) [OF this]]
    show "0 \<le> weight (int (length files)) (pos a) (js_gru x a)" if "a \<in> {1 .. n}" for a using that .
  qed
  moreover have "0 \<le> msgs_weight files (js_fa_box x)" using assms files_weight by (auto simp: core_def)
  ultimately show ?thesis by (simp add: work_def)
qed

lemma sum_changed:
  fixes f f' :: "nat \<Rightarrow> int"
  assumes "a \<in> {1 .. n}" and "\<And>c. c \<in> {1 .. n} \<Longrightarrow> c \<noteq> a \<Longrightarrow> f' c = f c"
  shows "(\<Sum>c \<in> {1 .. n}. f' c) = (\<Sum>c \<in> {1 .. n}. f c) - f a + f' a"
proof -
  have "(\<Sum>c \<in> {1 .. n} - {a}. f' c) = (\<Sum>c \<in> {1 .. n} - {a}. f c)" using assms(2) by (intro sum.cong) auto
  then show ?thesis using sum.remove [OF _ assms(1), of f] sum.remove [OF _ assms(1), of f'] by simp
qed

subsection \<open>A GRU\<close>

lemma job_mail_from: "job_mail a p ms \<Longrightarrow> x \<in> set ms \<Longrightarrow> reporter x = Some a"
  by (cases p) auto

lemma job_mail_none: "job_mail a p [] \<Longrightarrow> job_mail a p ms \<Longrightarrow> ms = []"
  by (cases p) auto

lemma reports_follow:
  assumes r: "reports_ok pos ms" and p: "job_mail a (pos a) []" and p': "job_mail a p' ws"
  shows "reports_ok (pos(a := p')) (ms @ ws)" and "own (ms @ ws) = own ms"
proof -
  have none: "mail_from reporter a ms = []" using r p job_mail_none by (auto simp: reports_ok_def)
  have ws: "mail_from reporter c ws = (if c = a then ws else [])" for c
    using job_mail_from [OF p'] by (auto simp: filter_id_conv filter_empty_conv)
  show "reports_ok (pos(a := p')) (ms @ ws)" using r p' none ws by (auto simp: reports_ok_def)
  show "own (ms @ ws) = own ms" using job_mail_from [OF p'] by (auto simp: filter_empty_conv)
qed

lemma core_gru:
  assumes c: "core n files T R r pos m rm nb x" and cfg: "job_config n files T"
    and box: "js_gru_box x a = msg # q" and mode: "ga_mode (js_gru x a) \<noteq> Gru_Stopped"
  shows "\<not> known (pos a)" and "\<exists>s es p'. gru_async_receive fort msg (js_gru x a) = Inr (s, es) \<and> \<not> known p' \<and>
    advances n files T R r pos x (pos(a := p')) (gru_handled a q s es x)"
proof -
  let ?F = "int (length files)"
  have fl: "fleet n files T m pos rm nb x" and fi: "files_ok n files T m pos rm nb (js_fa_box x) (js_fa x)"
    and jo: "jobs_ok n T R r pos (own (js_job_box x)) (js_job x)" and re: "reports_ok pos (js_job_box x)"
    and rp: "js_reported x = []" using c by (simp_all add: core_def)
  have T: "0 < T" "T \<le> sum_list files" "\<forall>k \<in> set files. 0 < k" using cfg by (simp_all add: job_config_def)
  have a: "a \<in> {1 .. n}" using fl box by (force simp: fleet_def)
  have at: "at_place files T a (pos a) (rm a) (nb a) (js_gru x a) (msg # q) (js_log x a)"
    and nd: "needs (pos a) (js_gru x a) \<le> int m" using fleetD [OF fl a] box by simp_all
  from gru_step_moves [OF at mode files_clock [OF fi _ T(1)] T(1,2,3), of fort] obtain s es p' where
    h: "gru_async_receive fort msg (js_gru x a) = Inr (s, es)"
    and mv: "moves files T a (pos a) (rm a) (nb a) (js_gru x a) q (js_log x a) s es p'" by blast
  from mv obtain ws d k where w: "restart_msgs (int a) k ws" "sent (gru_to_fa a) es = ws @ d" "fa_mail a p' = fa_mail a (pos a) @ d"
    "weight ?F p' s + int (length ws) + int (length d) < weight ?F (pos a) (js_gru x a)" unfolding moves_def by blast
  from mv have at': "at_place files T a p' (rm a) (nb a) s (q @ sent gru_to_self es) (js_log x a @ es)"
    and jm: "job_mail a p' (sent gru_to_job es)" "job_mail a (pos a) []"
    and pl: "counted p' = counted (pos a)" "queued p' = queued (pos a)" "\<not> known (pos a)" "\<not> known p'"
      "needs p' s \<le> needs (pos a) (js_gru x a)" "pos a = At_Start \<longrightarrow> p' = At_Ask_Steps" "pos a \<noteq> At_Ask_Steps"
    unfolding moves_def by blast+
  show "\<not> known (pos a)" by (rule pl(3))
  let ?x = "gru_handled a q s es x"
  have "p' \<noteq> At_Removed" using pl(4) by auto
  from files_follow [OF fi pl(3) pl(1,2) this pl(6,7) w(1) a w(3)]
  have fi': "files_ok n files T m (pos(a := p')) rm nb (js_fa_box ?x) (js_fa ?x)" by (simp add: gru_handled_def w(2))
  have fl': "fleet n files T m (pos(a := p')) rm nb ?x"
    using fl at' order_trans [OF pl(5) nd] a by (auto simp: fleet_def gru_handled_def)
  have "known ((pos(a := p')) c) = known (pos c)" "lost ((pos(a := p')) c) = lost (pos c)" for c
    using pl(3,4) not_lost_known by auto
  then have jo': "jobs_ok n T R r (pos(a := p')) (own (js_job_box ?x)) (js_job ?x)"
    using jobs_ok_cong [OF jo] reports_follow(2) [OF re jm(2,1)] by (simp add: gru_handled_def)
  have re': "reports_ok (pos(a := p')) (js_job_box ?x)"
    using reports_follow(1) [OF re jm(2,1)] by (simp add: gru_handled_def)
  have core': "core n files T R r (pos(a := p')) m rm nb ?x"
    unfolding core_def using fl' fi' jo' re' rp by (simp add: gru_handled_def)
  have fin: "Finalize \<notin> set (sent gru_to_job es)" using job_mail_from [OF jm(1), of Finalize] by auto
  have d1: "x \<in> set d \<Longrightarrow> msg_weight ?F x = 1 \<and> x \<noteq> Fm_Finalize" for x
  proof -
    assume "x \<in> set d"
    then have "x \<in> set (fa_mail a p')" by (simp add: w(3))
    then show ?thesis by (cases p') (auto split: if_splits)
  qed
  have ws1: "x \<in> set ws \<Longrightarrow> msg_weight ?F x = 1 \<and> x \<noteq> Fm_Finalize" for x using w(1) by (auto simp: restart_msgs_def)
  have one: "(\<And>x. x \<in> set l \<Longrightarrow> msg_weight ?F x = 1 \<and> x \<noteq> Fm_Finalize) \<Longrightarrow> msgs_weight files l = int (length l)" for l
    by (induction l) auto
  have "msgs_weight files (js_fa_box ?x) = msgs_weight files (js_fa_box x) + int (length ws) + int (length d)"
    using one [OF d1] one [OF ws1] by (simp add: gru_handled_def w(2))
  moreover have "(\<Sum>c \<in> {1 .. n}. weight ?F ((pos(a := p')) c) (js_gru ?x c)) =
      (\<Sum>c \<in> {1 .. n}. weight ?F (pos c) (js_gru x c)) - weight ?F (pos a) (js_gru x a) + weight ?F p' s"
    using sum_changed [OF a, of "\<lambda>c. weight ?F ((pos(a := p')) c) (js_gru ?x c)" "\<lambda>c. weight ?F (pos c) (js_gru x c)"]
    by (simp add: gru_handled_def)
  moreover have "Finalize \<in> set (js_job_box ?x) \<longleftrightarrow> Finalize \<in> set (js_job_box x)" using fin by (simp add: gru_handled_def)
  ultimately have "work n files (pos(a := p')) ?x < work n files pos x" using w(4) by (simp add: work_def)
  moreover have "Fm_Finalize \<notin> set (ws @ d)" using d1 ws1 by auto
  then have "Fm_Finalize \<in> set (js_fa_box ?x) \<longleftrightarrow> Fm_Finalize \<in> set (js_fa_box x)"
    by (simp add: gru_handled_def w(2) del: set_concat)
  moreover have "own (js_job_box ?x) = own (js_job_box x)" using reports_follow(2) [OF re jm(2,1)] by (simp add: gru_handled_def)
  ultimately have "advances n files T R r pos x (pos(a := p')) ?x"
    using core' unfolding advances_def by blast
  with h pl(4) show "\<exists>s es p'. gru_async_receive fort msg (js_gru x a) = Inr (s, es) \<and> \<not> known p' \<and>
      advances n files T R r pos x (pos(a := p')) (gru_handled a q s es x)" by blast
qed

subsection \<open>The file access actor\<close>

lemma place_movesD:
  assumes "place_moves files T m m' a p rm nb p' rm' nb' adds W"
  shows "known p' = known p" "lost p' = lost p" "job_mail a p' = job_mail a p" "p = At_Known Written \<Longrightarrow> adds = []"
    and "at_place files T a p rm nb s box lg \<Longrightarrow> needs p s \<le> int m \<Longrightarrow>
      at_place files T a p' rm' nb' s (box @ adds) lg \<and> needs p' s \<le> int m' \<and>
      weight (int (length files)) p' s + W \<le> weight (int (length files)) p s"
  using assms unfolding place_moves_def by blast+

lemma spends_sum:
  assumes "\<And>c. sender msg = Some c \<Longrightarrow> c \<in> {1 .. n}"
  shows "(\<Sum>c \<in> {1 .. n}. spends files msg c) = spend files msg"
proof (cases "sender msg")
  case None
  then have "spend files msg = 0" by (cases msg) simp_all
  with None show ?thesis by (simp add: spends_def)
next
  case (Some c)
  then have c: "c \<in> {1 .. n}" by (rule assms)
  have "(\<Sum>c' \<in> {1 .. n}. spends files msg c') = (\<Sum>c' \<in> {1 .. n}. 0) - 0 + spends files msg c"
    using Some by (intro sum_changed [OF c]) (simp add: spends_def)
  with Some show ?thesis by (simp add: spends_def)
qed

lemma core_files:
  assumes c: "core n files T R r pos m rm nb x" and T: "0 < T"
    and box: "js_fa_box x = msg # q" and msg: "msg \<noteq> Fm_Finalize"
  shows "\<exists>s es pos'. fa_receive t0 t1 msg (js_fa x) = Inr (s, es) \<and> (\<forall>a. known (pos' a) = known (pos a)) \<and>
    js_job_box (file_handled now msg q s es x) = js_job_box x \<and>
    advances n files T R r pos x pos' (file_handled now msg q s es x)"
proof -
  let ?F = "int (length files)"
  have fl: "fleet n files T m pos rm nb x" and fi: "files_ok n files T m pos rm nb (msg # q) (js_fa x)"
    and jo: "jobs_ok n T R r pos (own (js_job_box x)) (js_job x)" and re: "reports_ok pos (js_job_box x)"
    and rp: "js_reported x = []" using c box by (simp_all add: core_def)
  from files_step [OF fi msg T fleet_clock [OF fl], of t0 t1] obtain s es m' pos' rm' nb' where
    h: "fa_receive t0 t1 msg (js_fa x) = Inr (s, es)" and fi': "files_ok n files T m' pos' rm' nb' (q @ sent fa_to_self es) s"
    and st: "stepped n files T msg es m pos rm nb m' pos' rm' nb'" by blast
  let ?x = "file_handled now msg q s es x"
  from st have mv: "\<And>c. place_moves files T m m' c (pos c) (rm c) (nb c) (pos' c) (rm' c) (nb' c)
      (sent (fa_to_gru msg c) es) (spends files msg c)"
    and job: "sent (fa_to_job now) es = []" and fin: "Fm_Finalize \<notin> set (sent fa_to_self es)"
    and self: "msgs_weight files (sent fa_to_self es) < msg_weight ?F msg + spend files msg"
    and snd: "\<And>c. sender msg = Some c \<Longrightarrow> c \<in> {1 .. n}" unfolding stepped_def by blast+
  note pm = place_movesD [OF mv]
  have "sent (fa_to_gru msg a) es = []" if "a \<notin> {1 .. n}" for a using pm(4) files_outside [OF fi that] .
  then have "fleet n files T m' pos' rm' nb' ?x"
    using fl pm(5) [OF fleetD [OF fl]] unfolding fleet_def by (simp add: file_handled_def)
  moreover have jb: "js_job_box ?x = js_job_box x" using job by (simp add: file_handled_def)
  moreover have "jobs_ok n T R r pos' (own (js_job_box x)) (js_job ?x)"
    using jobs_ok_cong [OF jo] pm(1,2) by (simp add: file_handled_def)
  moreover have "reports_ok pos' (js_job_box x)" using re pm(3) by (simp add: reports_ok_def)
  ultimately have core': "core n files T R r pos' m' rm' nb' ?x"
    using fi' rp unfolding core_def jb by (simp add: file_handled_def)
  have "(\<Sum>a \<in> {1 .. n}. weight ?F (pos' a) (js_gru x a) + spends files msg a) \<le>
      (\<Sum>a \<in> {1 .. n}. weight ?F (pos a) (js_gru x a))"
    using pm(5) [OF fleetD [OF fl]] by (intro sum_mono) blast
  then have "(\<Sum>a \<in> {1 .. n}. weight ?F (pos' a) (js_gru x a)) + spend files msg \<le>
      (\<Sum>a \<in> {1 .. n}. weight ?F (pos a) (js_gru x a))"
    using spends_sum [OF snd] by (simp add: sum.distrib)
  then have "work n files pos' ?x < work n files pos x"
    using self box unfolding work_def jb by (simp add: file_handled_def)
  moreover have "Fm_Finalize \<in> set (js_fa_box ?x) \<longleftrightarrow> Fm_Finalize \<in> set (js_fa_box x)"
    using fin msg box by (auto simp: file_handled_def)
  ultimately have "advances n files T R r pos x pos' ?x" using core' unfolding advances_def jb by blast
  then show ?thesis using h pm(1) jb by blast
qed

subsection \<open>The stages of a job\<close>

definition settled :: "nat \<Rightarrow> int \<Rightarrow> (nat \<Rightarrow> place) \<Rightarrow> job_sys \<Rightarrow> bool" where
  "settled n T pos x \<longleftrightarrow>
     (\<forall>a \<in> {1 .. n}. ga_mode (js_gru x a) = Gru_Stopped \<and>
        (if lost (pos a) then gru_lost a (js_log x a) else gru_done a T (js_log x a))) \<and>
     (\<forall>a. a \<notin> {1 .. n} \<longrightarrow> js_gru_box x a = [] \<and> \<not> lost (pos a))"

definition running :: "nat \<Rightarrow> int list \<Rightarrow> int \<Rightarrow> int \<Rightarrow> nat \<Rightarrow> (nat \<Rightarrow> place) \<Rightarrow> job_sys \<Rightarrow> bool" where
  "running n files T R r pos x \<longleftrightarrow> (\<exists>m rm nb. core n files T R r pos m rm nb x) \<and> Fm_Finalize \<notin> set (js_fa_box x) \<and>
     (own (js_job_box x) = [] \<longrightarrow> (\<exists>a. \<not> known (pos a)))"

definition finishing :: "nat \<Rightarrow> int list \<Rightarrow> int \<Rightarrow> int \<Rightarrow> nat \<Rightarrow> (nat \<Rightarrow> place) \<Rightarrow> job_sys \<Rightarrow> bool" where
  "finishing n files T R r pos x \<longleftrightarrow> (\<exists>m rm nb. core n files T R r pos m rm nb x) \<and> Fm_Finalize \<in> set (js_fa_box x) \<and>
     js_job_box x = [] \<and> (\<forall>a. known (pos a))"

definition answered :: "nat \<Rightarrow> int \<Rightarrow> int \<Rightarrow> nat \<Rightarrow> (nat \<Rightarrow> place) \<Rightarrow> job_sys \<Rightarrow> bool" where
  "answered n T R r pos x \<longleftrightarrow> settled n T pos x \<and> fa_stopped (js_fa x) \<and> (\<exists>now rd wr. js_job_box x = [Finalize_Reply now rd wr]) \<and>
     jobs_ok n T R r pos [] (js_job x) \<and> js_reported x = []"

definition over :: "nat \<Rightarrow> int \<Rightarrow> job_sys \<Rightarrow> bool" where
  "over n T x \<longleftrightarrow> job_completed n T x \<and> (\<forall>a. a \<notin> {1 .. n} \<longrightarrow> js_gru_box x a = [])"

text \<open>\<open>r\<close> restarts have been made, \<open>k\<close> bounds the steps before the next one.\<close>

inductive stage :: "nat \<Rightarrow> int list \<Rightarrow> int \<Rightarrow> int \<Rightarrow> nat \<Rightarrow> nat \<Rightarrow> job_sys \<Rightarrow> bool" for n files T R where
  run: "running n files T R r pos x \<Longrightarrow> stage n files T R r (nat (work n files pos x + 2)) x"
| finish: "finishing n files T R r pos x \<Longrightarrow> stage n files T R r (nat (work n files pos x + 2)) x"
| answer: "answered n T R r pos x \<Longrightarrow> stage n files T R r 1 x"
| ended: "over n T x \<Longrightarrow> stage n files T R r 0 x"

lemma core_settled:
  assumes "core n files T R r pos m rm nb x" and "\<And>a. known (pos a)"
  shows "settled n T pos x"
proof -
  have fl: "fleet n files T m pos rm nb x" and fi: "files_ok n files T m pos rm nb (js_fa_box x) (js_fa x)"
    using assms(1) by (simp_all add: core_def)
  have "ga_mode (js_gru x a) = Gru_Stopped \<and> (if lost (pos a) then gru_lost a (js_log x a) else gru_done a T (js_log x a))"
    if "a \<in> {1 .. n}" for a
    using fleetD(1) [OF fl that] assms(2) [of a] by (cases "pos a") simp_all
  moreover have "js_gru_box x a = [] \<and> \<not> lost (pos a)" if "a \<notin> {1 .. n}" for a
    using fl files_outside [OF fi that] that by (simp add: fleet_def)
  ultimately show ?thesis unfolding settled_def by blast
qed

lemma settled_lost:
  assumes "settled n T pos x"
  shows "{a \<in> {1 .. n}. gru_lost a (js_log x a)} = {a. lost (pos a)}"
proof -
  have "gru_lost a (js_log x a) \<longleftrightarrow> lost (pos a)" if "a \<in> {1 .. n}" for a
    using assms that unfolding settled_def by (force simp: gru_lost_def gru_done_def split: if_splits)
  moreover have "a \<in> {1 .. n}" if "lost (pos a)" for a using assms that unfolding settled_def by blast
  ultimately show ?thesis by blast
qed

subsection \<open>The job\<close>

lemma job_handled_quiet:
  assumes "\<And>b. sent (job_to_gru b) es = []" and "\<And>u1 u2 b. sent (spawned_gru u1 u2 b) es = []" and "sent job_to_parent es = []"
  shows "job_handled u1 u2 q s es x = x\<lparr>js_job := s, js_job_box := q @ sent job_to_self es,
    js_fa_box := js_fa_box x @ sent job_to_fa es\<rparr>"
  unfolding job_handled_def assms by (cases x) simp

text \<open>The job takes the report of \<open>a\<close>, which goes from place \<open>pos a\<close> to \<open>p'\<close>; \<open>d\<close> is what it tells
  the file access actor.\<close>

lemma core_takes:
  assumes c: "core n files T R r pos m rm nb x" and fin: "Fm_Finalize \<notin> set (js_fa_box x)"
    and box: "js_job_box x = msg # q" and rep: "reporter msg = Some a" and jm: "mail_from reporter a q = []" "job_mail a p' []"
    and p: "\<not> known (pos a)" "counted p' = counted (pos a)" "queued p' = queued (pos a)" "p' \<noteq> At_Removed"
      "pos a \<noteq> At_Start" "pos a \<noteq> At_Ask_Steps"
    and d: "fa_mail a p' = fa_mail a (pos a) @ d" "d = [] \<or> d = [Fm_Run_Failure (int a)]"
    and w: "\<And>s. weight (int (length files)) (pos a) s = 6 \<and> weight (int (length files)) p' s = 0 \<and> needs p' s = 0"
    and at: "\<And>bx. at_place files T a (pos a) (rm a) (nb a) (js_gru x a) bx (js_log x a) \<Longrightarrow>
      at_place files T a p' (rm a) (nb a) (js_gru x a) bx (js_log x a)"
    and own: "own q = []" and jo: "jobs_ok n T R r (pos(a := p')) (sent job_to_self es) s" and h: "sent job_to_fa es = d"
      "\<And>b. sent (job_to_gru b) es = []" "\<And>u1 u2 b. sent (spawned_gru u1 u2 b) es = []" "sent job_to_parent es = []"
      "sent job_to_self es = [] \<longrightarrow> (\<exists>c. \<not> known ((pos(a := p')) c))"
  shows "running n files T R r (pos(a := p')) (job_handled u1 u2 q s es x) \<and>
    work n files (pos(a := p')) (job_handled u1 u2 q s es x) < work n files pos x"
proof -
  let ?F = "int (length files)"
  have fl: "fleet n files T m pos rm nb x" and fi: "files_ok n files T m pos rm nb (js_fa_box x) (js_fa x)"
    and jo0: "jobs_ok n T R r pos (own (js_job_box x)) (js_job x)" and re: "reports_ok pos (msg # q)"
    and rp: "js_reported x = []" using c box by (simp_all add: core_def)
  have a: "a \<in> {1 .. n}" using jobs_ok_members(1) [OF jo0 p(1)] .
  note y = job_handled_quiet [OF h(2,3,4), of u1 u2 q s x, unfolded h(1)]
  let ?y = "x\<lparr>js_job := s, js_job_box := q @ sent job_to_self es, js_fa_box := js_fa_box x @ d\<rparr>"
  have self: "sent job_to_self es = [] \<or> sent job_to_self es = [Restart_Failures] \<or> sent job_to_self es = [Finalize]"
    using job_own_cases [OF jo] .
  then have ms: "mail_from reporter c (sent job_to_self es) = []" "own (q @ sent job_to_self es) = sent job_to_self es" for c
    using own by auto
  have "restart_msgs (int a) 0 []" by simp
  from files_follow [OF fi p(1-4) _ p(6) this a d(1)] p(5)
  have fi': "files_ok n files T m (pos(a := p')) rm nb (js_fa_box x @ d) (js_fa x)" by simp
  have fl': "fleet n files T m (pos(a := p')) rm nb ?y"
    using fl at w by (auto simp: fleet_def)
  have "job_mail c (pos c) (mail_from reporter c q)" if "c \<noteq> a" for c
    using spec [OF re [unfolded reports_ok_def], of c] rep that by simp
  then have re': "reports_ok (pos(a := p')) (q @ sent job_to_self es)"
    using jm ms(1) by (auto simp: reports_ok_def)
  have "core n files T R r (pos(a := p')) m rm nb ?y"
    unfolding core_def using fl' fi' re' jo ms(2) rp by simp
  then have "running n files T R r (pos(a := p')) ?y"
    using d(2) fin h(5) ms(2) unfolding running_def by auto
  moreover have "(\<Sum>c \<in> {1 .. n}. weight ?F ((pos(a := p')) c) (js_gru x c)) =
      (\<Sum>c \<in> {1 .. n}. weight ?F (pos c) (js_gru x c)) - 6"
    using sum_changed [OF a, of "\<lambda>c. weight ?F ((pos(a := p')) c) (js_gru x c)" "\<lambda>c. weight ?F (pos c) (js_gru x c)"] w by simp
  moreover have "Finalize \<notin> set q" using own by (auto simp: filter_empty_conv)
  ultimately show ?thesis unfolding y using d(2) box by (auto simp: work_def)
qed

lemma reports_first:
  assumes "reports_ok pos (msg # q)" and "reporter msg = Some a"
  shows "job_mail a (pos a) (msg # mail_from reporter a q)"
  using spec [OF assms(1) [unfolded reports_ok_def], of a] assms(2) by simp

lemma core_report:
  assumes c: "core n files T R r pos m rm nb x" and fin: "Fm_Finalize \<notin> set (js_fa_box x)"
    and box: "js_job_box x = msg # q" and a: "reporter msg = Some a"
  shows "\<exists>s es pos'. async_receive nat msg (js_job x) = Inr (s, es) \<and>
    running n files T R r pos' (job_handled u1 u2 q s es x) \<and>
    work n files pos' (job_handled u1 u2 q s es x) < work n files pos x"
proof -
  have jo: "jobs_ok n T R r pos (own q) (js_job x)" and re: "reports_ok pos (msg # q)"
    using c box a by (simp_all add: core_def)
  note jm = reports_first [OF re a]
  show ?thesis
  proof (cases msg)
    case (Done_Hru j)
    then obtain w where p: "pos a = At_Done w" "j = int a" "mail_from reporter a q = []" using jm by (cases "pos a") auto
    have k: "\<not> known (pos a)" "known (At_Known w)" "\<not> lost (At_Known w)" using p(1) by simp_all
    from job_success [OF jo k] obtain s es where own: "own q = []" and
      h: "async_receive nat (Done_Hru (int a)) (js_job x) = Inr (s, es)" "jobs_ok n T R r (pos(a := At_Known w)) (sent job_to_self es) s"
        "sent job_to_fa es = []" "sent job_to_parent es = []" "\<And>b. sent (job_to_gru b) es = []"
        "\<And>u1 u2 b. sent (spawned_gru u1 u2 b) es = []" "sent job_to_self es = [] \<longrightarrow> (\<exists>c. \<not> known ((pos(a := At_Known w)) c))"
      by blast
    have "running n files T R r (pos(a := At_Known w)) (job_handled u1 u2 q s es x) \<and>
        work n files (pos(a := At_Known w)) (job_handled u1 u2 q s es x) < work n files pos x"
      by (rule core_takes [OF c fin box a p(3) _ k(1) _ _ _ _ _ _ _ _ _ own h(2,3,5,6,4,7)]) (use p(1) in simp_all)
    with h(1) p(2) Done_Hru show ?thesis by blast
  next
    case (Gru_Error j t e err)
    then have p: "pos a = At_Error" "j = int a" "mail_from reporter a q = []" using jm by (cases "pos a"; auto)+
    have k: "\<not> known (pos a)" "known At_Error_Known" "lost At_Error_Known" using p(1) by simp_all
    from job_failure [OF jo k, of t e err] obtain s es where own: "own q = []" and
      h: "async_receive nat (Gru_Error (int a) t e err) (js_job x) = Inr (s, es)"
        "jobs_ok n T R r (pos(a := At_Error_Known)) (sent job_to_self es) s"
        "sent job_to_fa es = [Fm_Run_Failure (int a)]" "sent job_to_parent es = []" "\<And>b. sent (job_to_gru b) es = []"
        "\<And>u1 u2 b. sent (spawned_gru u1 u2 b) es = []" "sent job_to_self es = [] \<longrightarrow> (\<exists>c. \<not> known ((pos(a := At_Error_Known)) c))"
      by blast
    have "running n files T R r (pos(a := At_Error_Known)) (job_handled u1 u2 q s es x) \<and>
        work n files (pos(a := At_Error_Known)) (job_handled u1 u2 q s es x) < work n files pos x"
      by (rule core_takes [OF c fin box a p(3) _ k(1) _ _ _ _ _ _ _ _ _ own h(2,3,5,6,4,7)]) (use p(1) in simp_all)
    with h(1) p(2) Gru_Error show ?thesis by blast
  qed (use a in auto)
qed

lemma known_mail: "job_mail a p ms \<Longrightarrow> known p \<Longrightarrow> ms = []"
  by (cases p) auto

lemma no_reports:
  assumes "reports_ok pos ms" and "\<And>a. known (pos a)" and "own ms = []"
  shows "ms = []"
proof (cases ms)
  case (Cons x xs)
  then obtain a where "reporter x = Some a" using assms(3) by (cases "reporter x") auto
  then have "mail_from reporter a ms \<noteq> []" using Cons by simp
  moreover have "job_mail a (pos a) (mail_from reporter a ms)" using assms(1) by (simp add: reports_ok_def)
  ultimately show ?thesis using known_mail assms(2) by blast
qed simp

lemma core_restart:
  assumes c: "core n files T R r pos m rm nb x" and fin: "Fm_Finalize \<notin> set (js_fa_box x)" and T: "0 < T"
    and box: "js_job_box x = Restart_Failures # q"
  shows "\<exists>s es. async_receive nat Restart_Failures (js_job x) = Inr (s, es) \<and>
    running n files T R (Suc r) (restarted pos) (job_handled u1 u2 q s es x)"
proof -
  have fl: "fleet n files T m pos rm nb x" and fi: "files_ok n files T m pos rm nb (js_fa_box x) (js_fa x)"
    and jo: "jobs_ok n T R r pos (Restart_Failures # own q) (js_job x)" and re: "reports_ok pos q"
    and rp: "js_reported x = []" using c box by (simp_all add: core_def reports_ok_def)
  note j = job_restarts [OF jo]
  have q: "q = []" using no_reports [OF re j(2,1)] .
  from j(4) obtain s js k where h: "async_receive nat Restart_Failures (js_job x) = Inr (s, To_File Fa_Restart_Failures # launch s k js)"
    "jobs_ok n T R (Suc r) (restarted pos) [] s" "distinct js" "\<forall>j \<in> set js. 0 < j" "set js = int ` {a. lost (pos a)}" by blast
  let ?es = "To_File Fa_Restart_Failures # launch s k js" and ?y = "job_handled u1 u2 q s (To_File Fa_Restart_Failures # launch s k js) x"
  have fr: "job_frame T s" using h(2) by (simp add: jobs_ok_def)
  have js: "int b \<in> set js \<longleftrightarrow> lost (pos b)" for b unfolding h(5) by (simp add: inj_image_mem_iff)
  have sp: "sent (spawned_gru v1 v2 b) ?es = (if lost (pos b) then [launched s k v1 v2 b] else [])"
    "sent (job_to_gru b) ?es = (if lost (pos b) then [In_Update_Hru_Async] else [])" for v1 v2 b
    using launch_box [OF h(3,4), where s = s and c = k and b = b] js by simp_all
  have y: "js_gru ?y = (\<lambda>b. if lost (pos b) then launched s k (u1 b) (u2 b) b else js_gru x b)"
    "js_gru_box ?y = (\<lambda>b. if lost (pos b) then [In_Update_Hru_Async] else js_gru_box x b)"
    "js_log ?y = (\<lambda>b. if lost (pos b) then [] else js_log x b)"
    unfolding job_handled_def sp by (simp_all add: fun_eq_iff)
  have y': "js_fa_box ?y = js_fa_box x @ [Fm_Restart_Failures]" "js_job_box ?y = []" "js_fa ?y = js_fa x" "js_job ?y = s"
    "js_reported ?y = []" using q rp by (simp_all add: job_handled_def)
  let ?rm = "\<lambda>a. if lost (pos a) then T else rm a" and ?nb = "\<lambda>a. if lost (pos a) then 1 else nb a"
  have "files_ok n files T m (restarted pos) ?rm ?nb (js_fa_box x @ [Fm_Restart_Failures]) (js_fa x)"
    using files_restart [OF files_ok_known [OF fi j(2)] j(2,3) fin] by (simp add: restarted_def [abs_def])
  moreover have "fleet n files T m (restarted pos) ?rm ?nb ?y"
    unfolding fleet_def y
  proof (intro conjI ballI allI impI)
    fix a
    assume a: "a \<in> {1 .. n}"
    show "at_place files T a (restarted pos a) (?rm a) (?nb a) (if lost (pos a) then launched s k (u1 a) (u2 a) a else js_gru x a)
        (if lost (pos a) then [In_Update_Hru_Async] else js_gru_box x a) (if lost (pos a) then [] else js_log x a)"
      using fleetD(1) [OF fl a] launched_at_start [OF fr T, of files a] by (simp add: restarted_def)
    show "needs (restarted pos a) (if lost (pos a) then launched s k (u1 a) (u2 a) a else js_gru x a) \<le> int m"
      using fleetD(2) [OF fl a] by (simp add: restarted_def)
  next
    show "(if lost (pos a) then [In_Update_Hru_Async] else js_gru_box x a) = []" if "a \<notin> {1 .. n}" for a
      using fl files_outside [OF fi that] that by (simp add: fleet_def)
  qed
  moreover have "job_mail a (restarted pos a) []" for a
  proof (cases "lost (pos a)")
    case False
    have "job_mail a (pos a) []" using re q by (simp add: reports_ok_def)
    with False show ?thesis by (simp add: restarted_def)
  qed (simp add: restarted_def)
  ultimately have "core n files T R (Suc r) (restarted pos) m ?rm ?nb ?y"
    using h(2) unfolding core_def y' by (simp add: reports_ok_def)
  moreover obtain a where "lost (pos a)" using j(3) by blast
  then have "\<not> known (restarted pos a)" by (simp add: restarted_def)
  ultimately have "running n files T R (Suc r) (restarted pos) ?y"
    using fin unfolding running_def y' by auto
  with h(1) show ?thesis by blast
qed

lemma core_finalize:
  assumes c: "core n files T R r pos m rm nb x" and box: "js_job_box x = Finalize # q"
  shows "async_receive nat Finalize (js_job x) = Inr (js_job x, [To_File Fa_Finalize])"
    and "finishing n files T R r pos (job_handled u1 u2 q (js_job x) [To_File Fa_Finalize] x)"
    and "work n files pos (job_handled u1 u2 q (js_job x) [To_File Fa_Finalize] x) < work n files pos x"
proof -
  have fl: "fleet n files T m pos rm nb x" and fi: "files_ok n files T m pos rm nb (js_fa_box x) (js_fa x)"
    and jo: "jobs_ok n T R r pos (Finalize # own q) (js_job x)" and re: "reports_ok pos q"
    and rp: "js_reported x = []" using c box by (simp_all add: core_def reports_ok_def)
  note j = job_finalizes [OF jo]
  have q: "q = []" using no_reports [OF re j(2,1)] .
  show "async_receive nat Finalize (js_job x) = Inr (js_job x, [To_File Fa_Finalize])" by (rule j(3))
  let ?es = "[To_File Fa_Finalize]"
  have none: "\<And>b. sent (job_to_gru b) ?es = []" "\<And>u1 u2 b. sent (spawned_gru u1 u2 b) ?es = []" "sent job_to_parent ?es = []"
    by simp_all
  note y = job_handled_quiet [OF none, of u1 u2 q "js_job x" x]
  have "files_ok n files T m pos rm nb (js_fa_box x @ [Fm_Finalize]) (js_fa x)"
    using files_end(1) [OF files_ok_known [OF fi j(2)]] by (simp add: files_ok_def)
  then have "core n files T R r pos m rm nb (job_handled u1 u2 q (js_job x) ?es x)"
    using fl j(4) re rp q unfolding core_def y by (simp add: fleet_def)
  then show "finishing n files T R r pos (job_handled u1 u2 q (js_job x) ?es x)"
    using j(2) q unfolding finishing_def y by auto
  show "work n files pos (job_handled u1 u2 q (js_job x) ?es x) < work n files pos x"
    unfolding y using box q by (simp add: work_def)
qed

subsection \<open>The end of a job\<close>

lemma finishing_ends:
  assumes f: "finishing n files T R r pos x" and box: "js_fa_box x = Fm_Finalize # q"
  shows "\<exists>s es. fa_receive t0 t1 Fm_Finalize (js_fa x) = Inr (s, es) \<and>
    answered n T R r pos (file_handled now Fm_Finalize q s es x)"
proof -
  from f obtain m rm nb where c: "core n files T R r pos m rm nb x" and k: "\<And>a. known (pos a)" and jb: "js_job_box x = []"
    unfolding finishing_def by blast
  have fi: "files_ok n files T m pos rm nb (js_fa_box x) (js_fa x)" and jo: "jobs_ok n T R r pos [] (js_job x)"
    and rp: "js_reported x = []" using c jb by (simp_all add: core_def)
  note e = files_end [OF files_ok_known [OF fi k]]
  from e(4) obtain fc where fc: "fa_forcing (js_fa x) = Some fc" "prefix_loaded m fc" by blast
  then have "ti_inv (ff_timing fc)" by (simp add: prefix_loaded_def)
  from getDuration_ok [OF this, of "''read_duration''"] getDuration_ok [OF e(3), of "''write_duration''"] obtain rd wr where
    d: "getDuration ''read_duration'' (ff_timing fc) = Inr rd" "getDuration ''write_duration'' (fa_timing (js_fa x)) = Inr wr" by blast
  let ?s = "(js_fa x)\<lparr>fa_buffer := None, fa_stopped := True\<rparr>" and ?es = "[Quit_File_Access, Reply_Durations (value_or rd (- 1)) (value_or wr (- 1))]"
  have "fa_receive t0 t1 Fm_Finalize (js_fa x) = Inr (?s, ?es)"
    using fc(1) d by (simp add: fa_receive_def on_finalize_fa_def with_forcing_def getReadDuration_def)
  moreover have "file_handled now Fm_Finalize q ?s ?es x = x\<lparr>js_fa := ?s, js_fa_box := q,
      js_job_box := [Finalize_Reply now (value_or rd (- 1)) (value_or wr (- 1))]\<rparr>"
    using jb by (cases x) (simp add: file_handled_def)
  then have "answered n T R r pos (file_handled now Fm_Finalize q ?s ?es x)"
    using core_settled [OF c k] jo rp by (simp add: answered_def settled_def)
  ultimately show ?thesis by blast
qed

lemma finishing_continues:
  assumes f: "finishing n files T R r pos x" and T: "0 < T" and box: "js_fa_box x = msg # q" and msg: "msg \<noteq> Fm_Finalize"
  shows "\<exists>s es pos'. fa_receive t0 t1 msg (js_fa x) = Inr (s, es) \<and> finishing n files T R r pos' (file_handled now msg q s es x) \<and>
    work n files pos' (file_handled now msg q s es x) < work n files pos x"
proof -
  from f obtain m rm nb where c: "core n files T R r pos m rm nb x" and "\<forall>a. known (pos a)" "js_job_box x = []"
    "Fm_Finalize \<in> set (js_fa_box x)" unfolding finishing_def by blast
  with core_files [OF c T box msg, of t0 t1 now] show ?thesis unfolding finishing_def advances_def by metis
qed

lemma running_continues:
  assumes f: "running n files T R r pos x" and T: "0 < T" and box: "js_fa_box x = msg # q"
  shows "\<exists>s es pos'. fa_receive t0 t1 msg (js_fa x) = Inr (s, es) \<and> running n files T R r pos' (file_handled now msg q s es x) \<and>
    work n files pos' (file_handled now msg q s es x) < work n files pos x"
proof -
  from f obtain m rm nb where c: "core n files T R r pos m rm nb x" and k: "own (js_job_box x) = [] \<longrightarrow> (\<exists>a. \<not> known (pos a))"
    "Fm_Finalize \<notin> set (js_fa_box x)" unfolding running_def by blast
  then have "msg \<noteq> Fm_Finalize" using box by auto
  from core_files [OF c T box this, of t0 t1 now] k show ?thesis unfolding running_def advances_def by metis
qed

lemma answered_ends:
  assumes f: "answered n T R r pos x" and box: "js_job_box x = msg # q"
  shows "msg \<noteq> Restart_Failures"
    and "\<exists>s es. async_receive nat msg (js_job x) = Inr (s, es) \<and> over n T (job_handled u1 u2 q s es x)"
proof -
  show "msg \<noteq> Restart_Failures" using f box by (auto simp: answered_def)
  from f box obtain now rd wr where m: "msg = Finalize_Reply now rd wr" "q = []" by (auto simp: answered_def)
  have st: "settled n T pos x" "fa_stopped (js_fa x)" "js_reported x = []" using f by (simp_all add: answered_def)
  have "jobs_ok n T R r pos [] (js_job x)" using f by (simp add: answered_def)
  from job_stops [OF this, of now rd wr] obtain s d where
    h: "async_receive nat msg (js_job x) = Inr (s, [To_Parent_Done (int (card {a. lost (pos a)})) d rd wr, Quit_Job])"
      "ja_mode s = Job_Stopped" unfolding m by blast
  let ?es = "[To_Parent_Done (int (card {a. lost (pos a)})) d rd wr, Quit_Job]"
  have y: "js_gru (job_handled u1 u2 q s ?es x) = js_gru x" "js_gru_box (job_handled u1 u2 q s ?es x) = js_gru_box x"
    "js_log (job_handled u1 u2 q s ?es x) = js_log x" "js_fa (job_handled u1 u2 q s ?es x) = js_fa x"
    "js_job (job_handled u1 u2 q s ?es x) = s" "js_reported (job_handled u1 u2 q s ?es x) = [int (card {a. lost (pos a)})]"
    using st(3) by (simp_all add: job_handled_def)
  have "\<forall>a \<in> {1 .. n}. ga_mode (js_gru x a) = Gru_Stopped \<and> (gru_done a T (js_log x a) \<or> gru_lost a (js_log x a))"
    using st(1) unfolding settled_def by metis
  moreover have "\<forall>a. a \<notin> {1 .. n} \<longrightarrow> js_gru_box x a = []" using st(1) unfolding settled_def by blast
  ultimately have "over n T (job_handled u1 u2 q s ?es x)"
    unfolding over_def job_completed_def y settled_lost [OF st(1)] using h(2) st(2) by blast
  with h(1) show "\<exists>s es. async_receive nat msg (js_job x) = Inr (s, es) \<and> over n T (job_handled u1 u2 q s es x)"
    by blast
qed

subsection \<open>Stages\<close>

lemma stage_work: "core n files T R r pos m rm nb x \<Longrightarrow> w < work n files pos x \<Longrightarrow> nat (w + 2) < nat (work n files pos x + 2)"
  using work_nonneg [of n files T R r pos m rm nb x] by simp

lemma running_core: "running n files T R r pos x \<Longrightarrow> \<exists>m rm nb. core n files T R r pos m rm nb x"
  and finishing_core: "finishing n files T R r pos x \<Longrightarrow> \<exists>m rm nb. core n files T R r pos m rm nb x"
  unfolding running_def finishing_def by blast+

lemma running_bound: "running n files T R r pos x \<Longrightarrow> int r \<le> int n * max 1 R"
  using jobs_ok_members(3) unfolding running_def core_def by blast

lemma stage_gru:
  assumes s: "stage n files T R r k x" and cfg: "job_config n files T"
    and box: "js_gru_box x a = msg # q" and mode: "ga_mode (js_gru x a) \<noteq> Gru_Stopped"
  shows "\<exists>s es k'. gru_async_receive fort msg (js_gru x a) = Inr (s, es) \<and> k' < k \<and> stage n files T R r k' (gru_handled a q s es x)"
  using s
proof cases
  case (run pos)
  then obtain m rm nb where c: "core n files T R r pos m rm nb x" and f: "Fm_Finalize \<notin> set (js_fa_box x)"
    unfolding running_def by blast
  from core_gru(2) [OF c cfg box mode, of fort] obtain s es p' where
    g: "gru_async_receive fort msg (js_gru x a) = Inr (s, es)" "\<not> known p'" and
    adv: "advances n files T R r pos x (pos(a := p')) (gru_handled a q s es x)" by blast
  have "\<exists>c. \<not> known ((pos(a := p')) c)" using g(2) by (intro exI [of _ a]) simp
  then have "running n files T R r (pos(a := p')) (gru_handled a q s es x)"
    using adv f unfolding running_def advances_def by blast
  from stage.run [OF this] g(1) stage_work [OF c] adv run(1) show ?thesis unfolding advances_def by blast
next
  case (finish pos)
  then obtain m rm nb where c: "core n files T R r pos m rm nb x" and k: "known (pos a)" unfolding finishing_def by blast
  from core_gru(1) [OF c cfg box mode] k show ?thesis by blast
next
  case (answer pos)
  then have "settled n T pos x" by (simp add: answered_def)
  with box mode show ?thesis unfolding settled_def by (cases "a \<in> {1 .. n}") auto
next
  case ended
  with box mode show ?thesis unfolding over_def job_completed_def by (cases "a \<in> {1 .. n}") auto
qed

lemma stage_files:
  assumes s: "stage n files T R r k x" and T: "0 < T" and box: "js_fa_box x = msg # q" and mode: "\<not> fa_stopped (js_fa x)"
  shows "\<exists>s es k'. fa_receive t0 t1 msg (js_fa x) = Inr (s, es) \<and> k' < k \<and> stage n files T R r k' (file_handled now msg q s es x)"
  using s
proof cases
  case (run pos)
  from running_core [OF run(2)] obtain m rm nb where c: "core n files T R r pos m rm nb x" by blast
  from running_continues [OF run(2) T box, of t0 t1 now] stage_work [OF c] show ?thesis
    unfolding run(1) by (blast intro: stage.run)
next
  case (finish pos)
  from finishing_core [OF finish(2)] obtain m rm nb where c: "core n files T R r pos m rm nb x" by blast
  show ?thesis
  proof (cases "msg = Fm_Finalize")
    case True
    have "1 < k" using work_nonneg [OF c] finish(1) by simp
    with finishing_ends [OF finish(2) box [unfolded True], of t0 t1 now] True show ?thesis by (blast intro: stage.answer)
  next
    case False
    from finishing_continues [OF finish(2) T box False, of t0 t1 now] stage_work [OF c] show ?thesis
      unfolding finish(1) by (blast intro: stage.finish)
  qed
next
  case (answer pos)
  with mode show ?thesis by (simp add: answered_def)
next
  case ended
  with mode show ?thesis by (simp add: over_def job_completed_def)
qed

lemma stage_job:
  assumes s: "stage n files T R r k x" and T: "0 < T" and box: "js_job_box x = msg # q" and mode: "ja_mode (js_job x) \<noteq> Job_Stopped"
  shows "\<exists>s es r' k'. async_receive nat msg (js_job x) = Inr (s, es) \<and> (r' = r \<and> k' < k \<or> r' = Suc r \<and> int r' \<le> int n * max 1 R) \<and>
    (msg = Restart_Failures \<longrightarrow> r' = Suc r) \<and> stage n files T R r' k' (job_handled u1 u2 q s es x)"
  using s
proof cases
  case (run pos)
  then obtain m rm nb where c: "core n files T R r pos m rm nb x" and f: "Fm_Finalize \<notin> set (js_fa_box x)"
    unfolding running_def by blast
  show ?thesis
  proof (cases "reporter msg")
    case (Some a)
    have "msg \<noteq> Restart_Failures" using Some by auto
    with core_report [OF c f box Some, of u1 u2] stage_work [OF c] show ?thesis
      unfolding run(1) by (blast intro: stage.run)
  next
    case None
    then have "jobs_ok n T R r pos (msg # own q) (js_job x)" using c box by (simp add: core_def)
    from job_own_cases [OF this] consider "msg = Restart_Failures" | "msg = Finalize" by auto
    then show ?thesis
    proof cases
      case 1
      from core_restart [OF c f T box [unfolded 1], of u1 u2] obtain s es where
        e: "async_receive nat Restart_Failures (js_job x) = Inr (s, es)"
          "running n files T R (Suc r) (restarted pos) (job_handled u1 u2 q s es x)" by blast
      from e(1) stage.run [OF e(2)] running_bound [OF e(2)] show ?thesis unfolding 1 by blast
    next
      case 2
      note e = core_finalize [OF c box [unfolded 2]]
      have "Finalize \<noteq> Restart_Failures" by simp
      with e(1) stage_work [OF c e(3)] stage.finish [OF e(2)] show ?thesis unfolding 2 run(1) by blast
    qed
  qed
next
  case (finish pos)
  with box show ?thesis by (simp add: finishing_def)
next
  case (answer pos)
  from answered_ends(1) [OF answer(2) box] answered_ends(2) [OF answer(2) box, of u1 u2] show ?thesis unfolding answer(1) by (blast intro: stage.ended)
next
  case ended
  with mode show ?thesis by (simp add: over_def job_completed_def)
qed

end
