(* ===== verification/Runs.thy ===== *)
theory Runs
  imports Prelude
begin

text \<open>
  Runs of a closed system under an invariant with a rank.  A system meets the contract
  when every step keeps the invariant and lowers the rank, and every state of the
  invariant is free of errors and either final or has a step.  Then every run is finite and
  ends in a final state.
\<close>

locale ranked_runs =
  fixes step :: "'s \<Rightarrow> 's \<Rightarrow> bool" and ranked :: "'m \<Rightarrow> 's \<Rightarrow> bool" and lower :: "('m \<times> 'm) set"
    and final :: "'s \<Rightarrow> bool" and bad :: "'s \<Rightarrow> bool"
  assumes lower_wf: "wf lower"
    and step_lowers: "ranked m x \<Longrightarrow> step x y \<Longrightarrow> \<exists>m'. ranked m' y \<and> (m', m) \<in> lower"
    and final_or_step: "ranked m x \<Longrightarrow> final x \<or> (\<exists>y. step x y)"
    and never_bad: "ranked m x \<Longrightarrow> \<not> bad x"
begin

lemma reachable_ranked: "step\<^sup>*\<^sup>* x y \<Longrightarrow> ranked m x \<Longrightarrow> \<exists>m'. ranked m' y"
  by (induction rule: rtranclp_induct) (use step_lowers in blast)+

lemma reachable_good:
  assumes "ranked m x" and "step\<^sup>*\<^sup>* x y"
  shows "\<not> bad y \<and> (final y \<or> (\<exists>z. step y z))"
  using reachable_ranked [OF assms(2,1)] never_bad final_or_step by blast

lemma no_infinite_run: "ranked m x \<Longrightarrow> \<not> (f 0 = x \<and> (\<forall>i. step (f i) (f (Suc i))))"
  using lower_wf
proof (induction m arbitrary: x f rule: wf_induct_rule)
  case (less m)
  show ?case
  proof
    assume f: "f 0 = x \<and> (\<forall>i. step (f i) (f (Suc i)))"
    then have "step x (f (Suc 0))" by metis
    with step_lowers [OF less.prems] obtain m' where "ranked m' (f (Suc 0))" "(m', m) \<in> lower" by blast
    from less.IH [OF this(2,1), of "\<lambda>i. f (Suc i)"] f show False by simp
  qed
qed

lemma reaches_final: "ranked m x \<Longrightarrow> \<exists>y. step\<^sup>*\<^sup>* x y \<and> final y"
  using lower_wf
proof (induction m arbitrary: x rule: wf_induct_rule)
  case (less m)
  from final_or_step [OF less.prems] show ?case
  proof
    assume "\<exists>y. step x y"
    with step_lowers [OF less.prems] obtain y m' where y: "step x y" "ranked m' y" "(m', m) \<in> lower" by blast
    from less.IH [OF y(3,2)] y(1) show ?thesis by (meson converse_rtranclp_into_rtranclp)
  qed blast
qed

end

end
