(* ===== verification/Job_Completes.thy ===== *)
theory Job_Completes
  imports Job_Fleet Runs
begin

text \<open>
  A job in asynchronous mode from its initialisation to its report: no handler fails, it
  never blocks, it ends, and then every GRU has run or failed for good.
\<close>

subsection \<open>Initialisation\<close>

text \<open>The handlers of the initialisation in their order: the job actor reads the dimensions and
  spawns the file access actor, which answers with the number of timesteps; on that answer
  the job sends itself its first message.  \<open>grus\<close> stands for the actors not yet started.\<close>

definition job_initial ::
  "job_env \<Rightarrow> fa_env \<Rightarrow> int \<Rightarrow> batch \<Rightarrow> JobActorSettings \<Rightarrow> FileAccessActorSettings \<Rightarrow> HRUActorSettings \<Rightarrow> string \<Rightarrow>
   (actor_id \<Rightarrow> gru_actor) \<Rightarrow> job_sys option" where
  "job_initial env fenv now b js fs hs restart grus =
     (case job_make_behavior env (JobActor b js fs hs restart) of
        Inr (s, [Spawn_File_Access info fs', To_File (Init_File_Access_Actor file_gru nhru)]) \<Rightarrow>
          (case on_init_file_access fenv file_gru nhru (fa_make_behavior (FileAccessActor info fs')) of
             Inr (fa, es) \<Rightarrow>
               (case last es of
                  Reply_Int k \<Rightarrow>
                    (case on_file_access_initialized now k s of
                       Inr (s', es') \<Rightarrow> Some \<lparr>js_job = s', js_fa = fa, js_gru = grus, js_job_box = sent job_to_self es',
                         js_fa_box = [], js_gru_box = (\<lambda>a. []), js_log = (\<lambda>a. []), js_reported = []\<rparr>
                     | _ \<Rightarrow> None)
                | _ \<Rightarrow> None)
           | _ \<Rightarrow> None)
      | _ \<Rightarrow> None)"

text \<open>What the theorems assume of the settings and the input files: the job has a GRU, every
  GRU has a HRU, and the forcing files cover the simulation.\<close>

definition job_setup :: "job_env \<Rightarrow> fa_env \<Rightarrow> batch \<Rightarrow> FileAccessActorSettings \<Rightarrow> HRUActorSettings \<Rightarrow> bool" where
  "job_setup env fenv b fs hs \<longleftrightarrow> 0 < num_hru b \<and> num_hru b < INT_MAX \<and> num_hru b \<le> je_num_hru env \<and>
     0 < num_partitions_in_output_buffer fs \<and> 0 < num_timesteps_in_output_buffer fs \<and>
     (print_output hs \<longrightarrow> output_frequency hs \<noteq> 0) \<and>
     0 < fe_num_steps fenv \<and> fe_num_steps fenv \<le> sum_list (map nTimeSteps (fe_infos fenv)) \<and>
     (\<forall>f \<in> set (fe_infos fenv). 0 < nTimeSteps f)"

abbreviation setup_files :: "fa_env \<Rightarrow> int list" where
  "setup_files fenv \<equiv> map nTimeSteps (fe_infos fenv)"

lemma job_setup_config: "job_setup env fenv b fs hs \<Longrightarrow> job_config (nat (num_hru b)) (setup_files fenv) (fe_num_steps fenv)"
  by (auto simp: job_setup_def job_config_def)

lemma start_timers_ok: "start_timers now = Inr t \<Longrightarrow> ti_inv t"
proof -
  have "ti_inv (addTimePoint ''total_duration'' TimingInfo)" by (simp add: TimingInfo_inv addTimePoint_inv)
  from updateStartPoint_ok [OF this, of now "''total_duration''"] obtain t1 where
    t1: "updateStartPoint now ''total_duration'' (addTimePoint ''total_duration'' TimingInfo) = Inr t1" "ti_inv t1" by blast
  have "ti_inv (addTimePoint ''init_duration'' t1)" using t1(2) by (rule addTimePoint_inv)
  from updateStartPoint_ok [OF this, of now "''init_duration''"] t1(1)
  show "start_timers now = Inr t \<Longrightarrow> ti_inv t" by (auto simp: start_timers_def)
qed

text \<open>The state of the job actor while the file access actor initialises itself.\<close>

lemma job_make_behavior_spawns:
  assumes "job_make_behavior env (JobActor b js fs hs restart) =
    Inr (s, [Spawn_File_Access info fs', To_File (Init_File_Access_Actor file_gru nhru)])"
  shows "ti_inv (ja_timing s)" and "nhru = je_num_hru env" and "num_gru_local info = num_hru b"
    and "fs' = (if data_assimilation_mode js then fs\<lparr>num_partitions_in_output_buffer := 1, num_timesteps_in_output_buffer := 2\<rparr> else fs)"
    and "ja_job_settings s = js" and "ja_hru_settings s = hs"
    and "\<exists>g. ja_gru_struc s = Some g \<and> gs_num_gru g = num_hru b \<and> (0 \<le> num_hru b \<longrightarrow> fresh_struc g)"
    and "\<exists>g. ja_gru_struc s = Some g \<and> initial_retry_attempts g = max_run_attempts js" and "ja_tol s = je_tol env"
proof -
  let ?g0 = "GruStruc (start_hru b) (num_hru b) (max_run_attempts js)"
  let ?g = "getNumHrusPerGru (je_hru_counts env) (snd (readDimension (je_file_gru env) (je_file_hru env) (je_num_hru env) (je_dim_error env) ?g0))"
  from assms obtain t where t: "start_timers (je_now env) = Inr t" and
    s: "ja_timing s = t" "ja_gru_struc s = Some ?g" "nhru = gs_num_hru ?g" "num_gru_local info = num_hru b" "ja_job_settings s = js"
      "ja_hru_settings s = hs" "ja_tol s = je_tol env"
      "fs' = (if data_assimilation_mode js then fs\<lparr>num_partitions_in_output_buffer := 1, num_timesteps_in_output_buffer := 2\<rparr> else fs)"
    unfolding job_make_behavior_def Let_def
    by (auto simp: res_bind_Inr_iff job_fail_def readDimension_def getInitTolerance_def JobActor_def split: if_splits)
  show "ti_inv (ja_timing s)" using start_timers_ok [OF t] s(1) by simp
  show "nhru = je_num_hru env" using s(3) by (simp add: getNumHrusPerGru_def readDimension_def)
  show "\<exists>g. ja_gru_struc s = Some g \<and> gs_num_gru g = num_hru b \<and> (0 \<le> num_hru b \<longrightarrow> fresh_struc g)"
    using s(2) fresh_struc_init by (simp add: getNumHrusPerGru_def readDimension_def GruStruc_def fresh_struc_def)
  show "\<exists>g. ja_gru_struc s = Some g \<and> initial_retry_attempts g = max_run_attempts js"
    using s(2) by (simp add: getNumHrusPerGru_def readDimension_def GruStruc_def)
  show "ja_tol s = je_tol env" by (rule s)
  show "num_gru_local info = num_hru b" "ja_job_settings s = js" "ja_hru_settings s = hs"
    "fs' = (if data_assimilation_mode js then fs\<lparr>num_partitions_in_output_buffer := 1, num_timesteps_in_output_buffer := 2\<rparr> else fs)"
    by (rule s)+
qed

lemma file_access_initialises:
  assumes h: "on_init_file_access fenv file_gru nhru (fa_make_behavior (FileAccessActor info fs)) = Inr (fa, es)"
    and k: "last es = Reply_Int k" "k \<noteq> - 1" and n: "num_gru_local info \<le> nhru"
    and pos: "0 < num_gru_local info" "0 < num_partitions_in_output_buffer fs" "0 < num_timesteps_in_output_buffer fs"
  shows "k = fe_num_steps fenv" and "files_ready (nat (num_gru_local info)) (setup_files fenv) (fe_num_steps fenv) fa"
proof -
  let ?s0 = "fa_make_behavior (FileAccessActor info fs)"
  have f0: "fa_hru_timesteps ?s0 = []" "fa_settings ?s0 = fs" "fa_num_gru_info ?s0 = info" "\<not> fa_stopped ?s0"
    "fa_timing ?s0 = addTimePoint ''write_duration'' TimingInfo"
    by (simp_all add: fa_make_behavior_def FileAccessActor_def Let_def)
  have ti: "ti_inv (fa_timing ?s0)" by (simp add: f0 TimingInfo_inv addTimePoint_inv)
  from initForcingFiles_prefix [of "fe_t0 fenv" "fe_t1 fenv" "fe_infos fenv"] obtain c where
    c: "initForcingFiles (fe_t0 fenv) (fe_t1 fenv) (fe_infos fenv) forcingFileContainer = Inr (0, c)" "prefix_loaded 0 c"
      "map nTimeSteps (ff_files c) = setup_files fenv" by blast
  from OutputBuffer_parts [OF pos(1,2), of nhru "fe_num_steps fenv"] obtain b0 where
    b0: "OutputBuffer fs info nhru (fe_num_steps fenv) = Inr b0" "ob_failed_grus b0 = []" "ob_num_timesteps b0 = fe_num_steps fenv" by blast
  from updateEndPoint_ok [OF ti, of "fe_t1 fenv" "''init_duration''"] obtain t where
    t: "updateEndPoint (fe_t1 fenv) ''init_duration'' (fa_timing ?s0) = Inr t" "ti_inv t" by blast
  have "ob_fa_settings b0 = fs" using b0(1) by (auto simp: OutputBuffer_def Let_def res_bind_Inr_iff)
  then obtain chunk es1 where ch: "setChunkSize b0 = Inr (chunk, es1)" using pos(2) by (auto simp: setChunkSize_def Let_def)
  obtain derr b1 es2 where d: "defOutput (fe_def_err fenv) (fe_address fenv) b0 = (derr, b1, es2)" by (metis prod_cases3)
  obtain aerr b2 es3 where al: "allocateOutputBuffer (fe_alloc_err fenv) (fe_num_steps fenv) b1 = (aerr, b2, es3)" by (metis prod_cases3)
  let ?ts = "replicate (nat nhru) 0"
  let ?s2 = "?s0\<lparr>fa_num_hru := nhru, fa_hru_timesteps := ?ts, fa_num_steps := fe_num_steps fenv, fa_forcing := Some c\<rparr>"
  have r: "vec_resize nhru 0 (fa_hru_timesteps ?s0) = Inr ?ts" using n pos(1) by (simp add: f0 vec_resize_def)
  have e: "on_init_file_access fenv file_gru nhru ?s0 =
      (if derr \<noteq> 0 then Inr (?s2\<lparr>fa_buffer := Some b1, fa_stopped := True\<rparr>, map Fortran (es1 @ es2) @ [Quit_File_Access, Reply_Int (- 1)])
       else Inr (?s2\<lparr>fa_buffer := Some b2, fa_timing := t\<rparr>, map Fortran (es1 @ es2 @ es3) @ [Reply_Int (fe_num_steps fenv)]))"
    unfolding on_init_file_access_def Let_def using r c(1) b0(1) ch d al t(1) by (simp add: f0 res_bind_def)
  have ok: "derr = 0" using h k unfolding e by (auto split: if_splits)
  show "k = fe_num_steps fenv" using h k(1) unfolding e by (auto simp: ok)
  have fa: "fa = ?s2\<lparr>fa_buffer := Some b2, fa_timing := t\<rparr>" using h unfolding e by (simp add: ok)
  have "ob_partitions b2 = ob_partitions b0 \<and> ob_failed_grus b2 = [] \<and> ob_num_buffer_steps b2 = ob_num_buffer_steps b0 \<and>
      ob_num_timesteps b2 = fe_num_steps fenv"
    using d al b0(2,3) by (auto simp: defOutput_def allocateOutputBuffer_def Let_def split: prod.splits if_splits)
  then show "files_ready (nat (num_gru_local info)) (setup_files fenv) (fe_num_steps fenv) fa"
    unfolding files_ready_def fa using f0(4) t(2) c(2,3) n pos b0(1)
    by (auto simp: nat_mono)
qed

lemma job_initial_retry:
  assumes "job_initial env fenv now b js fs hs restart grus = Some x"
  shows "\<exists>g. ja_gru_struc (js_job x) = Some g \<and> initial_retry_attempts g = max_run_attempts js \<and>
    ja_tol (js_job x) = je_tol env"
proof -
  from assms obtain s info fs' file_gru nhru k s' es' where
    j: "job_make_behavior env (JobActor b js fs hs restart) =
      Inr (s, [Spawn_File_Access info fs', To_File (Init_File_Access_Actor file_gru nhru)])"
    and i: "on_file_access_initialized now k s = Inr (s', es')" and x: "js_job x = s'"
    unfolding job_initial_def by (auto split: sum.splits prod.splits list.splits job_effect.splits file_msg.splits fa_effect.splits)
  have "ja_gru_struc s' = ja_gru_struc s \<and> ja_tol s' = ja_tol s"
    using i by (auto simp: on_file_access_initialized_def res_bind_Inr_iff split: if_splits)
  with job_make_behavior_spawns(8,9) [OF j] x show ?thesis by simp
qed

text \<open>When the asynchronous mode is reached the job is ready.\<close>

lemma job_initial_ready:
  assumes cfg: "job_setup env fenv b fs hs" and ini: "job_initial env fenv now b js fs hs restart grus = Some x"
    and mode: "ja_mode (js_job x) = Async_Mode"
  shows "job_ready (nat (num_hru b)) (setup_files fenv) (fe_num_steps fenv) x"
proof -
  from ini obtain s info fs' file_gru nhru fa es k s' es' where
    j: "job_make_behavior env (JobActor b js fs hs restart) =
      Inr (s, [Spawn_File_Access info fs', To_File (Init_File_Access_Actor file_gru nhru)])"
    and f: "on_init_file_access fenv file_gru nhru (fa_make_behavior (FileAccessActor info fs')) = Inr (fa, es)" "last es = Reply_Int k"
    and i: "on_file_access_initialized now k s = Inr (s', es')"
    and x: "x = \<lparr>js_job = s', js_fa = fa, js_gru = grus, js_job_box = sent job_to_self es',
      js_fa_box = [], js_gru_box = (\<lambda>a. []), js_log = (\<lambda>a. []), js_reported = []\<rparr>"
    unfolding job_initial_def by (auto split: sum.splits prod.splits list.splits job_effect.splits file_msg.splits fa_effect.splits)
  note js = job_make_behavior_spawns [OF j]
  have k: "\<not> k < 0" and da: "\<not> data_assimilation_mode js" and tm: "ti_inv (ja_timing s')" and fr: "ja_gru_struc s' = ja_gru_struc s"
    "ja_hru_settings s' = hs" "ja_job_settings s' = js" "es' = [To_Self (File_Access_Actor_Ready k)]"
    using i mode js(1,5,6) updateEndPoint_ok [OF js(1), of now "''init_duration''"]
    by (auto simp: on_file_access_initialized_def x res_bind_Inr_iff split: if_splits)
  have n: "num_gru_local info \<le> nhru" "0 < num_gru_local info" "fs' = fs"
    using cfg js(2,3,4) da by (simp_all add: job_setup_def)
  have p: "0 < num_partitions_in_output_buffer fs'" "0 < num_timesteps_in_output_buffer fs'"
    using cfg n(3) by (simp_all add: job_setup_def)
  have "k \<noteq> - 1" using k by simp
  note fi = file_access_initialises [OF f this n(1,2) p]
  have "gs_num_gru g = int (nat (num_hru b)) \<and> fresh_struc g" if "ja_gru_struc s = Some g" for g
    using js(7) cfg that by (auto simp: job_setup_def)
  then show ?thesis
    using fi js(3,7) fr tm da cfg mode by (auto simp: job_ready_def x job_setup_def)
qed

subsection \<open>Start\<close>

lemma ready_round:
  assumes f: "files_ready n files T s" and n: "0 < n" and T: "0 < T"
  shows "\<exists>b. fa_sound n files T 0 b s \<and> new_parts b {1 .. n} T"
proof -
  from f obtain fs info nhru b b' where o: "OutputBuffer fs info nhru T = Inr b" "num_gru_local info = int n"
    "0 < num_partitions_in_output_buffer fs" "0 < num_timesteps_in_output_buffer fs" and
    b': "fa_buffer s = Some b'" "ob_partitions b' = ob_partitions b" "ob_num_buffer_steps b' = ob_num_buffer_steps b"
      "ob_num_timesteps b' = T" unfolding files_ready_def by blast
  from OutputBuffer_parts [of info fs nhru T] o n have
    p: "concat (map partition_range (ob_partitions b)) = [1 .. int n]" "ob_num_buffer_steps b = num_timesteps_in_output_buffer fs"
      "\<forall>p \<in> set (ob_partitions b). \<exists>a m. p = OutputPartition a m (num_timesteps_in_output_buffer fs) T"
    by (auto simp: Let_def)
  have "new_parts b' {1 .. n} T"
    by (rule initial_parts [of b' n "num_timesteps_in_output_buffer fs" T]) (use p o(4) T b'(2) in simp_all)
  moreover have "fa_sound n files T 0 b' s" using f b' p(2) o(4) by (auto simp: files_ready_def fa_sound_def)
  ultimately show ?thesis by blast
qed

lemma ready_starts:
  assumes rd: "job_ready n files T x" and cfg: "job_config n files T"
  shows "\<exists>s es R g. async_receive nat (File_Access_Actor_Ready T) (js_job x) = Inr (s, es) \<and>
    ja_gru_struc (js_job x) = Some g \<and> R = initial_retry_attempts g \<and>
    (\<forall>u1 u2. running n files T R 0 (\<lambda>a. if a \<in> {1 .. n} then At_Start else At_Known Written) (job_handled u1 u2 [] s es x))"
proof -
  let ?pos = "\<lambda>a. if a \<in> {1 .. n} then At_Start else At_Known Written"
  have n: "0 < n" "int n < INT_MAX" "0 < T" using cfg by (simp_all add: job_config_def)
  have "files_ready n files T (js_fa x)" using rd by (simp add: job_ready_def)
  from ready_round [OF this n(1,3)] obtain b where b: "fa_sound n files T 0 b (js_fa x)" "new_parts b {1 .. n} T" by blast
  have at: "?pos a \<in> {At_Start, At_Ask_Steps}" if "a \<in> {1 .. n}" for a using that by simp
  have out: "?pos a = At_Known Written" if "a \<notin> {1 .. n}" for a using that by simp
  note nr = new_round [where pos = ?pos, OF b(2) at out]
  from job_starts [OF rd n(2)] obtain s js c R g where
    h: "async_receive nat (File_Access_Actor_Ready T) (js_job x) = Inr (s, launch s c js)"
      "jobs_ok n T R 0 ?pos [] s" "distinct js" "\<forall>j \<in> set js. 0 < j" "set js = int ` {1 .. n}"
      "ja_gru_struc (js_job x) = Some g" "R = initial_retry_attempts g" by blast
  have fr: "job_frame T s" using h(2) by (simp add: jobs_ok_def)
  have js: "int a \<in> set js \<longleftrightarrow> a \<in> {1 .. n}" for a unfolding h(5) by (simp add: inj_image_mem_iff)
  have sp: "sent (spawned_gru v1 v2 a) (launch s c js) = (if a \<in> {1 .. n} then [launched s c v1 v2 a] else [])"
    "sent (job_to_gru a) (launch s c js) = (if a \<in> {1 .. n} then [In_Update_Hru_Async] else [])" for v1 v2 a
    using launch_box [OF h(3,4), where s = s and c = c and b = a] js [of a] by (simp_all only:)
  have x: "js_fa_box x = []" "js_gru_box x a = []" "js_reported x = []" for a using rd by (simp_all add: job_ready_def)
  have "running n files T R 0 ?pos (job_handled u1 u2 [] s (launch s c js) x)" for u1 u2
  proof -
    let ?y = "job_handled u1 u2 [] s (launch s c js) x"
    have y: "js_gru ?y = (\<lambda>a. if a \<in> {1 .. n} then launched s c (u1 a) (u2 a) a else js_gru x a)"
      "js_gru_box ?y = (\<lambda>a. if a \<in> {1 .. n} then [In_Update_Hru_Async] else [])"
      "js_log ?y = (\<lambda>a. if a \<in> {1 .. n} then [] else js_log x a)"
      unfolding job_handled_def sp by (simp_all add: fun_eq_iff x(2))
    have y': "js_fa_box ?y = []" "js_job_box ?y = []" "js_fa ?y = js_fa x" "js_job ?y = s" "js_reported ?y = []"
      by (simp_all add: job_handled_def x)
    have "fleet n files T 0 ?pos (rm_of b {1 .. n}) (nb_of b {1 .. n}) ?y"
      unfolding fleet_def y using launched_at_start [OF fr n(3), of files] nr(2) by simp
    moreover have "fa_mail a (?pos a) = []" for a by simp
    then have "files_normal n files T 0 ?pos (rm_of b {1 .. n}) (nb_of b {1 .. n}) [] (js_fa x)"
      unfolding files_normal_def using b(1) nr(1) by (intro exI [of _ "{1 .. n}"] exI [of _ b]) simp
    moreover have "reports_ok ?pos []" by (simp add: reports_ok_def)
    ultimately have "core n files T R 0 ?pos 0 (rm_of b {1 .. n}) (nb_of b {1 .. n}) ?y"
      unfolding core_def y' using h(2) by (simp add: files_ok_def)
    moreover have "\<exists>a. \<not> known (?pos a)" using n(1) by (intro exI [of _ 1]) simp
    ultimately show ?thesis unfolding running_def y' by auto
  qed
  with h(1,6,7) show ?thesis by blast
qed

subsection \<open>Steps\<close>

text \<open>The number of BE steps at most doubles with a restart, and nothing else changes it.\<close>

lemma async_receive_be_steps:
  assumes "async_receive ref m s = Inr (s', es)"
  shows "be_steps (ja_tol s') \<le> (if m = Restart_Failures then max 1 (be_steps (ja_tol s)) * 2 else be_steps (ja_tol s))"
proof (cases "m = Restart_Failures")
  case True
  with assms have "ja_tol s' = tighten (last_error_type s) (ja_tol s)"
    by (auto simp: async_receive_def on_restart_failures_def with_gru_struc_def res_bind_Inr_iff Let_def
        split: option.splits)
  with True tighten_be_steps_le show ?thesis by simp
next
  case False
  with assms have "ja_tol s' = ja_tol s"
    by (auto simp: async_receive_def spawnGruActors_def handleFinishedGRU_def finalizeJob_def on_finalize_reply_def
        handleFileAccessError_def handleGRUError_def with_gru_struc_def res_bind_Inr_iff Let_def
        case_prod_beta split: option.splits job_msg.splits if_splits)
  with False show ?thesis by simp
qed

definition be_bound :: "int \<Rightarrow> nat \<Rightarrow> job_sys \<Rightarrow> bool" where
  "be_bound be0 r x \<longleftrightarrow> be_steps (ja_tol (js_job x)) \<le> max 1 be0 * 2 ^ r"

lemma max_pow_pos: "1 \<le> max 1 (b :: int) * 2 ^ r"
proof -
  have "1 * 1 \<le> max 1 b * 2 ^ r" by (rule mult_mono) simp_all
  then show ?thesis by simp
qed

lemma be_bound_step:
  assumes "be_bound be0 r x" and "async_receive ref m (js_job x) = Inr (s, es)" and "js_job y = s"
    and "m = Restart_Failures \<longrightarrow> r' = Suc r" and "r \<le> r'"
  shows "be_bound be0 r' y"
proof (cases "m = Restart_Failures")
  case True
  have "max 1 (be_steps (ja_tol (js_job x))) \<le> max 1 be0 * 2 ^ r"
    using assms(1) max_pow_pos [of be0 r] by (simp add: be_bound_def)
  then have "max 1 (be_steps (ja_tol (js_job x))) * 2 \<le> max 1 be0 * 2 ^ r'" using True assms(4) by simp
  with async_receive_be_steps [OF assms(2)] True assms(3) show ?thesis by (simp add: be_bound_def)
next
  case False
  have "max 1 be0 * 2 ^ r \<le> max 1 be0 * 2 ^ r'"
    using assms(5) by (intro mult_left_mono power_increasing) simp_all
  then show ?thesis using async_receive_be_steps [OF assms(2)] False assms(1,3) by (simp add: be_bound_def)
qed

text \<open>Every handler of a reachable state succeeds and the step it makes lowers the bound.\<close>

lemma stage_step:
  assumes s: "stage n files T R r k x" and cfg: "job_config n files T" and be: "be_bound be0 r x"
    and step: "job_step x y"
  shows "\<exists>r' k'. stage n files T R r' k' y \<and> (r' = r \<and> k' < k \<or> r' = Suc r \<and> int r' \<le> int n * max 1 R) \<and> be_bound be0 r' y"
  using step
proof (cases rule: job_step.cases)
  case (at_gru a m q fort s' es)
  have "js_job y = js_job x" by (simp add: at_gru(1) gru_handled_def)
  with be have "be_bound be0 r y" by (simp add: be_bound_def)
  with stage_gru [OF s cfg at_gru(2,3), of fort] at_gru(1,4) show ?thesis by auto
next
  case (at_fa m q t0 t1 s' es now)
  have "js_job y = js_job x" by (simp add: at_fa(1) file_handled_def)
  with be have b: "be_bound be0 r y" by (simp add: be_bound_def)
  have "0 < T" using cfg by (simp add: job_config_def)
  from stage_files [OF s this at_fa(2,3), of t0 t1 now] at_fa(1,4) b show ?thesis by auto
next
  case (at_job m q s' es u1 u2)
  have "0 < T" using cfg by (simp add: job_config_def)
  from stage_job [OF s this at_job(2,3), of u1 u2] at_job(1,4) obtain r' k' where
    r: "r' = r \<and> k' < k \<or> r' = Suc r \<and> int r' \<le> int n * max 1 R" "m = Restart_Failures \<longrightarrow> r' = Suc r" "stage n files T R r' k' y"
    by auto
  have "js_job y = s'" by (simp add: at_job(1) job_handled_def)
  moreover have "r \<le> r'" using r(1) by auto
  ultimately have "be_bound be0 r' y" using be_bound_step [OF be at_job(4)] r(2) by blast
  with r show ?thesis by blast
qed

text \<open>The largest number of BE steps a job can come to is an \<^verbatim>\<open>int\<close>.\<close>

definition be_fits :: "nat \<Rightarrow> int \<Rightarrow> int \<Rightarrow> bool" where
  "be_fits n R be0 \<longleftrightarrow> max 1 be0 * 2 ^ nat (int n * max 1 R) \<le> INT_MAX"

lemma stage_no_overflow:
  assumes s: "stage n files T R r k x" and cfg: "job_config n files T" and be: "be_bound be0 r x"
    and fits: "be_fits n R be0"
  shows "\<not> be_overflow x"
proof
  assume o: "be_overflow x"
  then obtain q where q: "js_job_box x = Restart_Failures # q" "ja_mode (js_job x) \<noteq> Job_Stopped"
    by (auto simp: be_overflow_def)
  have "0 < T" using cfg by (simp add: job_config_def)
  from stage_job [OF s this q] have r: "int (Suc r) \<le> int n * max 1 R" by fastforce
  have "max 1 (be_steps (ja_tol (js_job x))) \<le> max 1 be0 * 2 ^ r"
    using be max_pow_pos [of be0 r] by (simp add: be_bound_def)
  then have "max 1 (be_steps (ja_tol (js_job x))) * 2 \<le> max 1 be0 * 2 ^ Suc r" by simp
  also have "\<dots> \<le> max 1 be0 * 2 ^ nat (int n * max 1 R)"
    using nat_mono [OF r] by (intro mult_left_mono power_increasing) (simp_all del: power_Suc)
  finally show False using fits o by (simp add: be_fits_def be_overflow_def doubling_overflows_def)
qed

lemma stage_no_error:
  assumes s: "stage n files T R r k x" and cfg: "job_config n files T"
  shows "\<not> job_error x"
proof -
  have T: "0 < T" using cfg by (simp add: job_config_def)
  show ?thesis
    using stage_gru [OF s cfg] stage_files [OF s T] stage_job [OF s T] unfolding job_error_def
    by (metis sum.distinct(1))
qed

subsection \<open>Progress\<close>

lemma stage_can:
  assumes s: "stage n files T R r k x" and cfg: "job_config n files T"
  shows "js_gru_box x a \<noteq> [] \<Longrightarrow> ga_mode (js_gru x a) \<noteq> Gru_Stopped \<Longrightarrow> \<exists>y. job_step x y"
    and "js_fa_box x \<noteq> [] \<Longrightarrow> \<not> fa_stopped (js_fa x) \<Longrightarrow> \<exists>y. job_step x y"
    and "js_job_box x \<noteq> [] \<Longrightarrow> ja_mode (js_job x) \<noteq> Job_Stopped \<Longrightarrow> \<exists>y. job_step x y"
proof -
  have T: "0 < T" using cfg by (simp add: job_config_def)
  show "\<exists>y. job_step x y" if b: "js_gru_box x a \<noteq> []" and m: "ga_mode (js_gru x a) \<noteq> Gru_Stopped"
  proof -
    from b obtain q0 q where q: "js_gru_box x a = q0 # q" by (cases "js_gru_box x a") auto
    from stage_gru [OF s cfg q m] at_gru [OF q m] show ?thesis by blast
  qed
  show "\<exists>y. job_step x y" if b: "js_fa_box x \<noteq> []" and m: "\<not> fa_stopped (js_fa x)"
  proof -
    from b obtain q0 q where q: "js_fa_box x = q0 # q" by (cases "js_fa_box x") auto
    from stage_files [OF s T q m] at_fa [OF q m] show ?thesis by blast
  qed
  show "\<exists>y. job_step x y" if b: "js_job_box x \<noteq> []" and m: "ja_mode (js_job x) \<noteq> Job_Stopped"
  proof -
    from b obtain q0 q where q: "js_job_box x = q0 # q" by (cases "js_job_box x") auto
    from stage_job [OF s T q m] at_job [OF q m] show ?thesis by blast
  qed
qed

text \<open>While a GRU is out, somebody has a message.\<close>

lemma running_mail:
  assumes "running n files T R r pos x"
  shows "js_fa_box x \<noteq> [] \<or> js_job_box x \<noteq> [] \<or> (\<exists>a. js_gru_box x a \<noteq> [] \<and> ga_mode (js_gru x a) \<noteq> Gru_Stopped)"
proof (rule ccontr)
  assume "\<not> ?thesis"
  then have empty: "js_fa_box x = []" "js_job_box x = []" and idle: "\<And>a. js_gru_box x a \<noteq> [] \<Longrightarrow> ga_mode (js_gru x a) = Gru_Stopped"
    by auto
  from assms obtain m rm nb a where c: "core n files T R r pos m rm nb x" and a: "\<not> known (pos a)"
    unfolding running_def using empty(2) by auto
  have fl: "fleet n files T m pos rm nb x" and fi: "files_ok n files T m pos rm nb [] (js_fa x)"
    and jo: "jobs_ok n T R r pos [] (js_job x)" and re: "reports_ok pos []" using c empty by (simp_all add: core_def)
  have fn: "files_normal n files T m pos rm nb [] (js_fa x)" using fi by (auto simp: files_ok_def files_pending_def)
  have mail: "fa_mail c (pos c) = []" "job_mail c (pos c) []" for c
    using fn re by (auto simp: files_normal_def reports_ok_def)
  have at: "\<not> counted (pos c) \<and> (known (pos c) \<or> queued (pos c))" if "c \<in> {1 .. n}" for c
    using fleetD(1) [OF fl that] mail [of c] idle [of c] by (cases "pos c") (auto simp: live_def split: if_splits)
  then have "\<not> queued (pos c)" for c using queued_waits [OF fn] by blast
  with at [OF jobs_ok_members(1) [OF jo a]] a show False by blast
qed

lemma stage_progress:
  assumes s: "stage n files T R r k x" and cfg: "job_config n files T"
  shows "job_completed n T x \<or> (\<exists>y. job_step x y)"
  using s
proof cases
  case (run pos)
  from running_core [OF run(2)] obtain m rm nb where c: "core n files T R r pos m rm nb x" by blast
  have "ja_mode (js_job x) \<noteq> Job_Stopped" using c by (simp add: core_def jobs_ok_def job_frame_def)
  moreover have "\<not> fa_stopped (js_fa x)"
    using c by (auto simp: core_def files_ok_def files_normal_def files_pending_def fa_sound_def)
  ultimately show ?thesis using running_mail [OF run(2)] stage_can [OF s cfg] by blast
next
  case (finish pos)
  from finishing_core [OF finish(2)] obtain m rm nb where c: "core n files T R r pos m rm nb x" by blast
  then have "\<not> fa_stopped (js_fa x)"
    by (auto simp: core_def files_ok_def files_normal_def files_pending_def fa_sound_def)
  moreover have "js_fa_box x \<noteq> []" using finish(2) by (auto simp: finishing_def)
  ultimately show ?thesis using stage_can(2) [OF s cfg] by blast
next
  case (answer pos)
  then have "js_job_box x \<noteq> []" "ja_mode (js_job x) \<noteq> Job_Stopped" by (auto simp: answered_def jobs_ok_def job_frame_def)
  then show ?thesis using stage_can(3) [OF s cfg] by blast
next
  case ended
  then show ?thesis by (simp add: over_def)
qed

subsection \<open>Runs\<close>

text \<open>The rank of a stage: the restarts left and the weight.\<close>

definition stage_rank :: "nat \<Rightarrow> int \<Rightarrow> nat \<times> nat \<Rightarrow> nat \<times> nat" where
  "stage_rank n R = (\<lambda>(r, k). (nat (int n * max 1 R) - r, k))"

definition ranked_stage :: "nat \<Rightarrow> int list \<Rightarrow> int \<Rightarrow> int \<Rightarrow> int \<Rightarrow> nat \<times> nat \<Rightarrow> job_sys \<Rightarrow> bool" where
  "ranked_stage n files T R be0 = (\<lambda>(r, k) x. job_config n files T \<and> int r \<le> int n * max 1 R \<and>
     stage n files T R r k x \<and> be_bound be0 r x)"

lemma ranked_stage_step:
  assumes "ranked_stage n files T R be0 m x" and "job_step x y"
  shows "\<exists>m'. ranked_stage n files T R be0 m' y \<and> (m', m) \<in> inv_image (less_than <*lex*> less_than) (stage_rank n R)"
proof -
  obtain r k where m: "m = (r, k)" by (cases m)
  have s: "job_config n files T" "int r \<le> int n * max 1 R" "stage n files T R r k x" "be_bound be0 r x"
    using assms(1) by (simp_all add: ranked_stage_def m)
  from stage_step [OF s(3,1,4) assms(2)] obtain r' k' where
    "stage n files T R r' k' y" "r' = r \<and> k' < k \<or> r' = Suc r \<and> int r' \<le> int n * max 1 R" "be_bound be0 r' y" by blast
  with s(1,2) show ?thesis by (intro exI [of _ "(r', k')"]) (auto simp: ranked_stage_def stage_rank_def m)
qed

text \<open>A handler fails, or the number of BE steps overflows where it should fit.\<close>

definition job_wrong :: "nat \<Rightarrow> int \<Rightarrow> int \<Rightarrow> job_sys \<Rightarrow> bool" where
  "job_wrong n R be0 x \<longleftrightarrow> job_error x \<or> be_fits n R be0 \<and> be_overflow x"

interpretation job_runs: ranked_runs job_step "ranked_stage n files T R be0"
    "inv_image (less_than <*lex*> less_than) (stage_rank n R)" "job_completed n T" "job_wrong n R be0"
  for n files T R be0
proof (unfold_locales, goal_cases)
  case 1
  show ?case by (intro wf_inv_image wf_lex_prod wf_less_than)
next
  case 2
  then show ?case by (rule ranked_stage_step)
next
  case 3
  then show ?case unfolding ranked_stage_def by (auto dest: stage_progress)
next
  case 4
  then show ?case unfolding ranked_stage_def job_wrong_def by (auto dest: stage_no_error stage_no_overflow)
qed

lemma ready_first_step:
  assumes rd: "job_ready n files T x" and cfg: "job_config n files T"
    and g: "ja_gru_struc (js_job x) = Some g"
  defines "R \<equiv> initial_retry_attempts g" and "be0 \<equiv> be_steps (ja_tol (js_job x))"
  shows "\<not> job_wrong n R be0 x" and "\<exists>y. job_step x y"
    and "job_step x y \<Longrightarrow> \<exists>m. ranked_stage n files T R be0 m y"
proof -
  have x: "js_fa_box x = []" "\<And>a. js_gru_box x a = []" "js_job_box x = [File_Access_Actor_Ready T]" "ja_mode (js_job x) = Async_Mode"
    using rd by (simp_all add: job_ready_def)
  from ready_starts [OF rd cfg] g obtain s es where
    h: "async_receive nat (File_Access_Actor_Ready T) (js_job x) = Inr (s, es)"
      "\<And>u1 u2. running n files T R 0 (\<lambda>a. if a \<in> {1 .. n} then At_Start else At_Known Written) (job_handled u1 u2 [] s es x)"
    unfolding R_def by auto
  have m: "ja_mode (js_job x) \<noteq> Job_Stopped" using x(4) by simp
  show "\<not> job_wrong n R be0 x" using x h(1) by (auto simp: job_wrong_def job_error_def be_overflow_def)
  show "\<exists>y. job_step x y" using at_job [OF x(3) m h(1)] by blast
  have "be_steps (ja_tol s) \<le> be0" using async_receive_be_steps [OF h(1)] by (simp add: be0_def)
  then have be: "be_bound be0 0 (job_handled u1 u2 [] s es x)" for u1 u2
    by (simp add: be_bound_def job_handled_def)
  show "\<exists>m. ranked_stage n files T R be0 m y" if "job_step x y"
    using that
  proof (cases rule: job_step.cases)
    case (at_job q0 q s' es' u1 u2)
    then have y: "y = job_handled u1 u2 [] s es x" using x(3) h(1) by simp
    then obtain k where "stage n files T R 0 k y" using stage.run [OF h(2) [of u1 u2]] by blast
    then show ?thesis using cfg be y by (intro exI [of _ "(0, k)"]) (simp add: ranked_stage_def)
  qed (use x in simp_all)
qed

subsection \<open>Properties\<close>

text \<open>
  C3. A job in asynchronous mode never goes wrong.  From its initialisation on, in every
  state that the job actor, the file access actor and the GRU actors reach under any
  interleaving of their mailboxes, whatever Fortran returns to the GRUs when they read
  the forcing, compute a timestep or write the output (the initialisation of a GRU, the
  time zone and the files give no error): no handler throws, indexes outside a container, dereferences a null pointer or
  divides by zero, and either the job has ended or some actor has a message to handle.  The
  number of BE steps, which a restart after unknown errors doubles, does not overflow either as
  long as its initial value, doubled once for every restart the settings allow, is an \<^verbatim>\<open>int\<close>.
\<close>

theorem async_job_never_goes_wrong:
  assumes "job_setup env fenv b fs hs" and "job_initial env fenv now b js fs hs restart grus = Some x0"
    and "ja_mode (js_job x0) = Async_Mode" and "job_step\<^sup>*\<^sup>* x0 x"
  shows "\<not> job_error x \<and> (job_completed (nat (num_hru b)) (fe_num_steps fenv) x \<or> (\<exists>y. job_step x y)) \<and>
    (max 1 (be_steps (je_tol env)) * 2 ^ nat (num_hru b * max 1 (max_run_attempts js)) \<le> INT_MAX \<longrightarrow> \<not> be_overflow x)"
proof -
  note cfg = job_setup_config [OF assms(1)]
  from job_initial_retry [OF assms(2)] obtain g where g: "ja_gru_struc (js_job x0) = Some g"
    "initial_retry_attempts g = max_run_attempts js" "ja_tol (js_job x0) = je_tol env" by blast
  note f = ready_first_step [OF job_initial_ready [OF assms(1-3)] cfg g(1), unfolded g(2,3)]
  have "0 \<le> num_hru b" using assms(1) by (simp add: job_setup_def)
  then have fits: "be_fits (nat (num_hru b)) (max_run_attempts js) (be_steps (je_tol env)) \<longleftrightarrow>
      max 1 (be_steps (je_tol env)) * 2 ^ nat (num_hru b * max 1 (max_run_attempts js)) \<le> INT_MAX"
    by (simp add: be_fits_def)
  have "\<not> job_wrong (nat (num_hru b)) (max_run_attempts js) (be_steps (je_tol env)) x \<and>
      (job_completed (nat (num_hru b)) (fe_num_steps fenv) x \<or> (\<exists>y. job_step x y))"
    using assms(4)
  proof (cases rule: converse_rtranclpE)
    case (step y)
    from f(3) [OF step(1)] job_runs.reachable_good [OF _ step(2)] show ?thesis by blast
  qed (use f(1,2) in blast)
  then show ?thesis by (simp add: job_wrong_def fits)
qed

text \<open>
  C1. A job in asynchronous mode ends.  From its initialisation on no run goes on for
  ever, whatever the interleaving and the errors Fortran returns to the GRUs when they read
  the forcing, compute a timestep or write the output (the initialisation of a GRU, the
  time zone and the files give no error); and where a run ends all
  actors have stopped, every GRU has either computed all timesteps in order and
  reported its success once, or has reported an error in its last attempt, and the
  parent has been told once, with the number of the latter.  (Where the doubled
  number of BE steps leaves \<^verbatim>\<open>int\<close> the model goes on with the wrapped value, which decides nothing in
  the three actors.)
\<close>

theorem async_job_ends:
  assumes "job_setup env fenv b fs hs" and "job_initial env fenv now b js fs hs restart grus = Some x0"
    and "ja_mode (js_job x0) = Async_Mode"
  shows "(\<nexists>f. f 0 = x0 \<and> (\<forall>i. job_step (f i) (f (Suc i)))) \<and>
    (\<forall>x. job_step\<^sup>*\<^sup>* x0 x \<and> (\<nexists>y. job_step x y) \<longrightarrow> job_completed (nat (num_hru b)) (fe_num_steps fenv) x)"
proof -
  note cfg = job_setup_config [OF assms(1)]
  from job_initial_retry [OF assms(2)] obtain g where "ja_gru_struc (js_job x0) = Some g" by blast
  note f = ready_first_step(2,3) [OF job_initial_ready [OF assms(1-3)] cfg this]
  have "\<not> (g 0 = x0 \<and> (\<forall>i. job_step (g i) (g (Suc i))))" for g
  proof
    assume g: "g 0 = x0 \<and> (\<forall>i. job_step (g i) (g (Suc i)))"
    then have "job_step x0 (g (Suc 0))" by metis
    from f(2) [OF this] job_runs.no_infinite_run [where f = "\<lambda>i. g (Suc i)"] g show False by blast
  qed
  moreover have "job_completed (nat (num_hru b)) (fe_num_steps fenv) x" if "job_step\<^sup>*\<^sup>* x0 x" "\<nexists>y. job_step x y" for x
    using that(1)
  proof (cases rule: converse_rtranclpE)
    case (step y)
    from f(2) [OF step(1)] job_runs.reachable_good [OF _ step(2)] that(2) show ?thesis by blast
  qed (use f(1) that(2) in blast)
  ultimately show ?thesis by blast
qed

text \<open>A job of one GRU and three timesteps.\<close>

definition demo_job_env :: job_env where
  "demo_job_env = \<lparr>je_now = 0, je_dim_error = 0, je_file_gru = 9, je_file_hru = 9, je_num_hru = 1, je_icond_error = 0,
     je_hru_counts = [1], je_alloc_error = 0, je_param_error = 0, je_restart_error = 0, je_tol = ToleranceSettings_default\<rparr>"

definition demo_fa_env :: fa_env where
  "demo_fa_env = \<lparr>fe_num_steps = 3, fe_t0 = 0, fe_t1 = 1, fe_infos = [fileInfo\<lparr>nTimeSteps := 2\<rparr>, fileInfo\<lparr>nTimeSteps := 2\<rparr>],
     fe_address = [], fe_def_err = 0, fe_alloc_err = 0\<rparr>"

abbreviation demo_initial :: "job_sys option" where
  "demo_initial \<equiv> job_initial demo_job_env demo_fa_env 2 (Batch 0 5 1) JobActorSettings_default FileAccessActorSettings_default
     HRUActorSettings_default ''never'' (\<lambda>a. demo_gru)"

lemma demo_setup: "job_setup demo_job_env demo_fa_env (Batch 0 5 1) FileAccessActorSettings_default HRUActorSettings_default"
  by code_simp

lemma demo_initial_mode: "map_option (\<lambda>x. ja_mode (js_job x)) demo_initial = Some Async_Mode"
  by code_simp

lemma demo_ready: "\<exists>x0. demo_initial = Some x0 \<and> ja_mode (js_job x0) = Async_Mode"
  using demo_initial_mode by (cases demo_initial) auto

lemma async_job_never_goes_wrong_witness:
  "\<exists>x0. demo_initial = Some x0 \<and> \<not> job_error x0 \<and> (job_completed 1 3 x0 \<or> (\<exists>y. job_step x0 y))"
proof -
  obtain x0 where x0: "demo_initial = Some x0" "ja_mode (js_job x0) = Async_Mode" using demo_ready by blast
  have "nat (num_hru (Batch 0 5 1)) = 1" "fe_num_steps demo_fa_env = 3" by (simp_all add: Batch_def demo_fa_env_def)
  with async_job_never_goes_wrong [OF demo_setup x0 rtranclp.rtrancl_refl] x0 show ?thesis by auto
qed

lemma async_job_ends_witness:
  "\<exists>x0. demo_initial = Some x0 \<and> (\<nexists>f. f 0 = x0 \<and> (\<forall>i. job_step (f i) (f (Suc i))))"
proof -
  obtain x0 where x0: "demo_initial = Some x0" "ja_mode (js_job x0) = Async_Mode" using demo_ready by blast
  with async_job_ends [OF demo_setup x0] show ?thesis by blast
qed

end
