(* ===== verification/Job_DA.thy ===== *)
theory Job_DA
  imports Job_Actor
begin

text \<open>
  The data assimilation mode of the job actor: all GRUs advance one timestep at
  a time behind a barrier, the output of a timestep is written while the next
  one is computed, and the slots of the output buffer are used in turn.  A run
  interleaves the replies of the GRUs and of the file access actor with the
  messages the job sends itself.
\<close>

subsection \<open>Runs\<close>

text \<open>The job together with what is in flight: its own messages, the requested
  forcing files, the GRUs still computing the current timestep, and the slots
  whose output is being written, oldest first.\<close>

record da_sys =
  da_job :: job_actor
  own_msgs :: "job_msg list"
  forcing_reqs :: "int list"
  computing :: nat
  writing :: "int list"

definition own_of :: "job_effect \<Rightarrow> job_msg list" where
  "own_of e = (case e of To_Self m \<Rightarrow> [m] | _ \<Rightarrow> [])"

definition forcing_of :: "job_effect \<Rightarrow> int list" where
  "forcing_of e = (case e of To_File (Fa_Access_Forcing i) \<Rightarrow> [i] | _ \<Rightarrow> [])"

definition write_of :: "job_effect \<Rightarrow> int list" where
  "write_of e = (case e of To_File (Fa_Write_Output i) \<Rightarrow> [i] | _ \<Rightarrow> [])"

definition is_update :: "job_effect \<Rightarrow> bool" where
  "is_update e = (case e of To_Gru a (Update_Hru_Step t f k) \<Rightarrow> True | _ \<Rightarrow> False)"

definition deliver :: "job_effect list \<Rightarrow> da_sys \<Rightarrow> da_sys" where
  "deliver es x =
     x\<lparr>own_msgs := own_msgs x @ concat (map own_of es),
       forcing_reqs := forcing_reqs x @ concat (map forcing_of es),
       computing := computing x + length (filter is_update es),
       writing := writing x @ concat (map write_of es)\<rparr>"

definition da_handle ::
  "int \<Rightarrow> (int \<Rightarrow> actor_id) \<Rightarrow> job_msg \<Rightarrow> da_sys \<Rightarrow> da_sys res" where
  "da_handle threads ref m x =
     res_bind (da_receive threads ref m (da_job x)) (\<lambda>(s, es). Inr (deliver es (x\<lparr>da_job := s\<rparr>)))"

text \<open>The events of a run with the outcome of the handler they trigger.\<close>

inductive da_event :: "int \<Rightarrow> (int \<Rightarrow> actor_id) \<Rightarrow> da_sys \<Rightarrow> da_sys res \<Rightarrow> bool" for threads ref where
  own: "own_msgs x = m # q \<Longrightarrow> da_event threads ref x (da_handle threads ref m (x\<lparr>own_msgs := q\<rparr>))"
| forcing: "forcing_reqs x = i # q \<Longrightarrow>
    da_event threads ref x (da_handle threads ref (New_Forcing_File n i) (x\<lparr>forcing_reqs := q\<rparr>))"
| computed: "computing x = Suc k \<Longrightarrow>
    da_event threads ref x (da_handle threads ref Done_Update (x\<lparr>computing := k\<rparr>))"
| written: "writing x = i # q \<Longrightarrow>
    da_event threads ref x (da_handle threads ref (Output_Written 0) (x\<lparr>writing := q\<rparr>))"

inductive da_reach :: "int \<Rightarrow> (int \<Rightarrow> actor_id) \<Rightarrow> da_sys \<Rightarrow> da_sys \<Rightarrow> bool" for threads ref x0 where
  init: "da_reach threads ref x0 x0"
| step: "da_reach threads ref x0 x \<Longrightarrow> da_event threads ref x (Inr y) \<Longrightarrow> da_reach threads ref x0 y"

inductive_cases da_eventE: "da_event threads ref x r"

lemma da_effect_simps [simp]:
  "own_of (To_Self m) = [m]" "own_of (To_File fm) = []" "own_of (To_Gru a gm) = []"
  "forcing_of (To_File (Fa_Access_Forcing i)) = [i]" "forcing_of (To_File (Fa_Write_Output i)) = []"
  "forcing_of (To_File Fa_Finalize) = []"
  "forcing_of (To_Self m) = []" "forcing_of (To_Gru a gm) = []"
  "write_of (To_File (Fa_Write_Output i)) = [i]" "write_of (To_File (Fa_Access_Forcing i)) = []"
  "write_of (To_File Fa_Finalize) = []"
  "write_of (To_Self m) = []" "write_of (To_Gru a gm) = []"
  "is_update (To_Gru a (Update_Hru_Step t f i))" "\<not> is_update (To_Gru a User_Shutdown)"
  "\<not> is_update (To_Gru a (Update_TimeZoneOffset i))" "\<not> is_update (To_File fm)" "\<not> is_update (To_Self m)"
  by (simp_all add: own_of_def forcing_of_def write_of_def is_update_def)

lemma to_all_grus_effects [simp]:
  "concat (map own_of (to_all_grus g gm)) = []" "concat (map forcing_of (to_all_grus g gm)) = []"
  "concat (map write_of (to_all_grus g gm)) = []"
  by (simp_all add: to_all_grus_def)

lemma to_all_grus_updates [simp]:
  "filter is_update (to_all_grus g (Update_Hru_Step t f i)) = to_all_grus g (Update_Hru_Step t f i)"
  "filter is_update (to_all_grus g User_Shutdown) = []"
  "filter is_update (to_all_grus g (Update_TimeZoneOffset j)) = []"
  by (simp_all add: to_all_grus_def filter_id_conv filter_empty_conv)

lemma length_to_all_grus [simp]: "length (to_all_grus g gm) = length (gru_info g)"
  by (simp add: to_all_grus_def)

subsection \<open>Invariant\<close>

text \<open>The slots in use: the last \<open>w\<close> slots before the current one, in cyclic order.\<close>

definition ring :: "int \<Rightarrow> int \<Rightarrow> nat \<Rightarrow> int list" where
  "ring n out w = map (\<lambda>j. (out - int w + int j) mod n + 1) [0 ..< w]"

lemma ring_push:
  assumes "0 < n" "0 \<le> out" "out < n"
  shows "ring n ((out + 1) mod n) (Suc w) = ring n out w @ [out + 1]"
proof -
  have "((out + 1) mod n - int (Suc w) + int j) mod n = (out - int w + int j) mod n" for j
    by (metis (no_types, opaque_lifting) mod_diff_left_eq mod_add_left_eq add_diff_cancel_right
        of_nat_Suc add.commute)
  moreover have "(out - int w + int w) mod n = out" using assms by simp
  ultimately show ?thesis unfolding ring_def by simp
qed

lemma ring_pop: "ring n out (Suc w) = ((out - int (Suc w)) mod n + 1) # ring n out w"
proof -
  have "[0 ..< Suc w] = 0 # map Suc [0 ..< w]" by (simp add: map_Suc_upt upt_conv_Cons del: upt_Suc)
  then show ?thesis by (simp add: ring_def o_def algebra_simps)
qed

lemma mod_eq_window:
  fixes a b n :: int
  assumes "a mod n = b mod n" "\<bar>a - b\<bar> < n"
  shows "a = b"
proof (rule ccontr)
  assume "a \<noteq> b"
  then have "a - b \<noteq> 0" by simp
  moreover have "n dvd a - b" using assms(1) by (simp only: mod_eq_dvd_iff)
  ultimately have "\<bar>n\<bar> \<le> \<bar>a - b\<bar>" by (rule dvd_imp_le_int)
  with assms(2) show False by simp
qed

lemma ring_distinct:
  assumes "int w \<le> n"
  shows "distinct (ring n out w)"
proof -
  have "inj_on (\<lambda>j. (out - int w + int j) mod n + 1) (set [0 ..< w])"
  proof (rule inj_onI)
    fix i j assume ij: "i \<in> set [0 ..< w]" "j \<in> set [0 ..< w]"
      and "(out - int w + int i) mod n + 1 = (out - int w + int j) mod n + 1"
    then have eq: "(out - int w + int i) mod n = (out - int w + int j) mod n" by (simp only: add_right_cancel)
    have "\<bar>(out - int w + int i) - (out - int w + int j)\<bar> < n" using ij assms by auto
    from mod_eq_window [OF eq this] show "i = j" by simp
  qed
  then show ?thesis by (simp add: ring_def distinct_map)
qed

lemma ring_range: "0 < n \<Longrightarrow> set (ring n out w) \<subseteq> {1 .. n}"
  by (auto simp: ring_def add1_zle_eq)

lemma ring_free:
  assumes "int w < n" "0 \<le> out" "out < n"
  shows "out + 1 \<notin> set (ring n out w)"
proof
  assume "out + 1 \<in> set (ring n out w)"
  then obtain j where j: "j < w" "(out - int w + int j) mod n = out" by (auto simp: ring_def)
  then have "(out - int w + int j) mod n = out mod n" using assms by simp
  from mod_eq_window [OF this] j(1) assms(1) show False by auto
qed

lemma length_ring [simp]: "length (ring n out w) = w"
  by (simp add: ring_def)

text \<open>Where the control of the job is.\<close>

datatype da_token = Own_Update | Waiting_Forcing | Computing | Paused | Finishing

fun at_token :: "da_token \<Rightarrow> gru_struc \<Rightarrow> da_sys \<Rightarrow> bool" where
  "at_token Own_Update g x \<longleftrightarrow> own_msgs x = [Update_Hru] \<and> forcing_reqs x = [] \<and> computing x = 0 \<and>
     num_gru_done_timestep (da_job x) = 0 \<and> \<not> da_paused (da_job x)"
| "at_token Waiting_Forcing g x \<longleftrightarrow> own_msgs x = [] \<and> (\<exists>i. forcing_reqs x = [i]) \<and> computing x = 0 \<and>
     num_gru_done_timestep (da_job x) = 0 \<and> \<not> da_paused (da_job x)"
| "at_token Computing g x \<longleftrightarrow> own_msgs x = [] \<and> forcing_reqs x = [] \<and> 0 < computing x \<and>
     num_gru_done_timestep (da_job x) + int (computing x) = int (length (gru_info g)) \<and>
     \<not> da_paused (da_job x)"
| "at_token Paused g x \<longleftrightarrow> own_msgs x = [] \<and> forcing_reqs x = [] \<and> computing x = 0 \<and>
     num_gru_done_timestep (da_job x) = 0 \<and> da_paused (da_job x)"
| "at_token Finishing g x \<longleftrightarrow> (own_msgs x = [] \<or> own_msgs x = [Finalize]) \<and> forcing_reqs x = [] \<and>
     computing x = 0 \<and> num_steps (da_job x) < timestep (da_job x) \<and> \<not> da_paused (da_job x)"

definition da_frame :: "int \<Rightarrow> gru_struc \<Rightarrow> job_actor \<Rightarrow> bool" where
  "da_frame n g s \<longleftrightarrow> ja_gru_struc s = Some g \<and> gru_info g \<noteq> [] \<and>
     num_timesteps_in_output_buffer (ja_fa_settings s) = n \<and>
     (print_output (ja_hru_settings s) \<longrightarrow> output_frequency (ja_hru_settings s) \<noteq> 0)"

definition da_ring :: "int \<Rightarrow> da_sys \<Rightarrow> bool" where
  "da_ring n x \<longleftrightarrow> 0 \<le> output_step (da_job x) \<and> output_step (da_job x) < n \<and>
     writing x = ring n (output_step (da_job x)) (length (writing x)) \<and>
     num_write_msgs (da_job x) = int (length (writing x)) \<and> int (length (writing x)) \<le> n"

definition da_inv :: "int \<Rightarrow> gru_struc \<Rightarrow> da_token \<Rightarrow> da_sys \<Rightarrow> bool" where
  "da_inv n g tok x \<longleftrightarrow> da_frame n g (da_job x) \<and> da_ring n x \<and> at_token tok g x \<and>
     (tok = Paused \<longrightarrow> int (length (writing x)) = n) \<and>
     (tok \<in> {Own_Update, Waiting_Forcing, Computing} \<longrightarrow> int (length (writing x)) < n)"

lemma processTimestep_ok:
  assumes "ja_gru_struc s = Some g" and "own_msgs x = []" "forcing_reqs x = []" "computing x = 0"
    and "num_gru_done_timestep s = 0" "\<not> da_paused s" and "da_job x = s"
  obtains es tok where "processTimestep s = Inr es" "at_token tok g (deliver es x)"
    "tok \<in> {Own_Update, Waiting_Forcing, Finishing}" "writing (deliver es x) = writing x"
    "da_job (deliver es x) = s"
proof (cases "num_steps s < timestep s")
  case True
  show ?thesis
    by (rule that [of "to_all_grus g User_Shutdown @ [To_Self Finalize]" Finishing])
       (use True assms in \<open>simp_all add: processTimestep_def with_gru_struc_def deliver_def\<close>)
next
  case False
  show ?thesis
  proof (cases "steps_in_ffile s < forcing_step s")
    case True
    show ?thesis
      by (rule that [of "[To_File (Fa_Access_Forcing (iFile s + 1))]" Waiting_Forcing])
         (use True False assms in \<open>simp_all add: processTimestep_def deliver_def\<close>)
  next
    case nf: False
    show ?thesis
      by (rule that [of "[To_Self Update_Hru]" Own_Update])
         (use nf False assms in \<open>simp_all add: processTimestep_def deliver_def\<close>)
  qed
qed

lemma da_ring_pop:
  assumes "da_ring n x" "writing x = i # q"
  shows "q = ring n (output_step (da_job x)) (length q)" "int (length q) < n"
    "num_write_msgs (da_job x) - 1 = int (length q)"
  using assms ring_pop [of n "output_step (da_job x)" "length q"] by (auto simp: da_ring_def)

lemma own_event:
  assumes "da_inv n g tok x" and "own_msgs x = m # q"
  shows "\<exists>y tok'. da_handle threads ref m (x\<lparr>own_msgs := q\<rparr>) = Inr y \<and> da_inv n g tok' y"
proof -
  from assms consider "tok = Own_Update" "m = Update_Hru" "q = []" | "tok = Finishing" "m = Finalize" "q = []"
    by (cases tok) (auto simp: da_inv_def)
  then show ?thesis
  proof cases
    case 1
    let ?x = "x\<lparr>own_msgs := [], computing := length (gru_info g)\<rparr>"
    have "da_handle threads ref m (x\<lparr>own_msgs := q\<rparr>) = Inr ?x"
      using assms 1 by (simp add: da_handle_def da_receive_def da_update_hru_def with_gru_struc_def
          da_inv_def da_frame_def deliver_def)
    moreover have "da_inv n g Computing ?x" using assms 1 by (simp add: da_inv_def da_ring_def da_frame_def)
    ultimately show ?thesis by blast
  next
    case 2
    let ?x = "x\<lparr>own_msgs := []\<rparr>"
    have "da_handle threads ref m (x\<lparr>own_msgs := q\<rparr>) = Inr ?x"
      using 2 by (simp add: da_handle_def da_receive_def finalizeJob_def deliver_def)
    moreover have "da_inv n g Finishing ?x" using assms 2 by (simp add: da_inv_def da_ring_def)
    ultimately show ?thesis by blast
  qed
qed

lemma forcing_event:
  assumes "da_inv n g tok x" and "forcing_reqs x = i # q"
  shows "\<exists>y tok'. da_handle threads ref (New_Forcing_File k i) (x\<lparr>forcing_reqs := q\<rparr>) = Inr y \<and> da_inv n g tok' y"
proof -
  from assms have tok: "tok = Waiting_Forcing" "q = []" by (cases tok; auto simp: da_inv_def)+
  let ?x = "x\<lparr>da_job := (da_job x)\<lparr>iFile := i, steps_in_ffile := k, forcing_step := 1\<rparr>,
    own_msgs := [Update_Hru], forcing_reqs := []\<rparr>"
  have "da_handle threads ref (New_Forcing_File k i) (x\<lparr>forcing_reqs := q\<rparr>) = Inr ?x"
    using assms tok by (simp add: da_handle_def da_receive_def da_new_forcing_file_def with_gru_struc_def
        da_inv_def da_frame_def deliver_def)
  moreover have "da_inv n g Own_Update ?x" using assms tok by (simp add: da_inv_def da_ring_def da_frame_def)
  ultimately show ?thesis by blast
qed

lemma written_event:
  assumes "da_inv n g tok x" and "writing x = i # q"
  shows "\<exists>y tok'. da_handle threads ref (Output_Written 0) (x\<lparr>writing := q\<rparr>) = Inr y \<and> da_inv n g tok' y"
proof -
  let ?s = "(da_job x)\<lparr>num_write_msgs := num_write_msgs (da_job x) - 1\<rparr>"
  have ring: "da_ring n x" and fr: "da_frame n g (da_job x)" and at: "at_token tok g x"
    using assms(1) by (simp_all add: da_inv_def)
  note pop = da_ring_pop [OF ring assms(2)]
  show ?thesis
  proof (cases "da_paused (da_job x)")
    case False
    let ?x = "x\<lparr>da_job := ?s, writing := q\<rparr>"
    have "da_handle threads ref (Output_Written 0) (x\<lparr>writing := q\<rparr>) = Inr ?x"
      using False by (simp add: da_handle_def da_receive_def da_write_output_def deliver_def)
    moreover have "at_token tok g ?x" "tok \<noteq> Paused" using at False by (cases tok; auto)+
    moreover have "da_ring n ?x" using ring pop by (simp add: da_ring_def)
    ultimately show ?thesis using fr pop(2) by (auto simp: da_inv_def da_frame_def)
  next
    case True
    let ?s2 = "?s\<lparr>da_paused := False\<rparr>"
    let ?x = "x\<lparr>writing := q, da_job := ?s2\<rparr>"
    from True at have tok: "tok = Paused" by (cases tok) auto
    obtain es tok' where r: "processTimestep ?s2 = Inr es" "at_token tok' g (deliver es ?x)"
        "tok' \<in> {Own_Update, Waiting_Forcing, Finishing}" "writing (deliver es ?x) = writing ?x"
        "da_job (deliver es ?x) = ?s2"
      by (rule processTimestep_ok [of ?s2 g ?x]) (use fr at tok in \<open>simp_all add: da_frame_def\<close>)
    have "da_handle threads ref (Output_Written 0) (x\<lparr>writing := q\<rparr>) = Inr (deliver es ?x)"
      using True r(1) by (simp add: da_handle_def da_receive_def da_write_output_def)
    moreover have "da_inv n g tok' (deliver es ?x)"
      using r ring pop fr unfolding da_inv_def da_ring_def da_frame_def by auto
    ultimately show ?thesis by blast
  qed
qed

text \<open>The last reply of a timestep.\<close>

definition next_step :: "int \<Rightarrow> job_actor \<Rightarrow> job_actor" where
  "next_step n s = s\<lparr>num_write_msgs := num_write_msgs s + 1, timestep := timestep s + 1,
     forcing_step := forcing_step s + 1, output_step := (output_step s + 1) mod n,
     num_gru_done_timestep := 0\<rparr>"

lemma next_step_simps [simp]:
  "num_write_msgs (next_step n s) = num_write_msgs s + 1" "timestep (next_step n s) = timestep s + 1"
  "output_step (next_step n s) = (output_step s + 1) mod n" "num_gru_done_timestep (next_step n s) = 0"
  "da_paused (next_step n s) = da_paused s" "ja_gru_struc (next_step n s) = ja_gru_struc s"
  "num_steps (next_step n s) = num_steps s" "da_frame n g (next_step n s) = da_frame n g s"
  by (simp_all add: next_step_def da_frame_def)

lemma done_update_last:
  assumes "da_frame n g s" and "num_gru_done_timestep s + 1 = int (length (gru_info g))"
    and "0 \<le> output_step s" "0 < n"
  shows "da_done_update s =
    (if n \<le> num_write_msgs s + 1
     then Inr ((next_step n s)\<lparr>da_paused := True\<rparr>, [To_File (Fa_Write_Output (output_step s + 1))])
     else res_bind (processTimestep (next_step n s))
            (\<lambda>es. Inr (next_step n s, To_File (Fa_Write_Output (output_step s + 1)) # es)))"
proof -
  have "\<exists>v. (if print_output (ja_hru_settings s)
        then cpp_mod (timestep s) (output_frequency (ja_hru_settings s)) else Inr 0) = Inr v"
    using assms(1) by (auto simp: da_frame_def cpp_mod_def)
  moreover have "cpp_mod (output_step s + 1) n = Inr ((output_step s + 1) mod n)"
    using assms by (intro cpp_mod_pos) auto
  ultimately show ?thesis using assms(1,2)
    by (auto simp: da_done_update_def with_gru_struc_def da_frame_def Let_def next_step_def)
qed

lemma deliver_write:
  "deliver (To_File (Fa_Write_Output i) # es) x = deliver es (x\<lparr>writing := writing x @ [i]\<rparr>)"
  by (simp add: deliver_def)

lemma computed_event:
  assumes inv: "da_inv n g tok x" and "computing x = Suc k"
  shows "\<exists>y tok'. da_handle threads ref Done_Update (x\<lparr>computing := k\<rparr>) = Inr y \<and> da_inv n g tok' y"
proof -
  let ?s = "da_job x" and ?out = "output_step (da_job x)"
  from assms have tok: "tok = Computing" by (cases tok) (auto simp: da_inv_def)
  have ring: "da_ring n x" and fr: "da_frame n g ?s" and at: "at_token Computing g x"
    and w: "int (length (writing x)) < n" using inv tok by (simp_all add: da_inv_def)
  have cnt: "num_gru_done_timestep ?s + 1 + int k = int (length (gru_info g))" using at assms(2) by simp
  show ?thesis
  proof (cases "k = 0")
    case False
    let ?x = "x\<lparr>computing := k, da_job := ?s\<lparr>num_gru_done_timestep := num_gru_done_timestep ?s + 1\<rparr>\<rparr>"
    have "da_handle threads ref Done_Update (x\<lparr>computing := k\<rparr>) = Inr ?x"
      using False cnt fr by (simp add: da_handle_def da_receive_def da_done_update_def with_gru_struc_def
          da_frame_def deliver_def Let_def)
    moreover have "da_inv n g Computing ?x"
      using False cnt fr ring w at by (simp add: da_inv_def da_frame_def da_ring_def)
    ultimately show ?thesis by blast
  next
    case True
    have out: "0 \<le> ?out" "?out < n" "0 < n" using ring by (auto simp: da_ring_def)
    note last = done_update_last [OF fr _ out(1,3)]
    let ?s1 = "next_step n ?s"
    let ?x1 = "x\<lparr>computing := 0, da_job := ?s1, writing := writing x @ [?out + 1]\<rparr>"
    have "writing ?x1 = ring n (output_step ?s1) (length (writing ?x1))"
      using ring_push [OF out(3,1,2), of "length (writing x)"] ring by (simp add: da_ring_def)
    then have r1: "da_ring n ?x1" unfolding da_ring_def
      using ring w out(3) by (simp add: da_ring_def)
    have nw: "num_write_msgs ?s = int (length (writing x))" using ring by (simp add: da_ring_def)
    show ?thesis
    proof (cases "num_write_msgs ?s + 1 < n")
      case lt: True
      obtain es tok' where r: "processTimestep ?s1 = Inr es" "at_token tok' g (deliver es ?x1)"
          "tok' \<in> {Own_Update, Waiting_Forcing, Finishing}" "writing (deliver es ?x1) = writing ?x1"
          "da_job (deliver es ?x1) = ?s1"
        by (rule processTimestep_ok [of ?s1 g ?x1]) (use at fr in \<open>simp_all add: da_frame_def\<close>)
      have "da_handle threads ref Done_Update (x\<lparr>computing := k\<rparr>) = Inr (deliver es ?x1)"
        using True lt last cnt r(1) by (simp add: da_handle_def da_receive_def deliver_write)
      moreover have "da_inv n g tok' (deliver es ?x1)"
        using r r1 fr lt nw unfolding da_inv_def da_ring_def by auto
      ultimately show ?thesis by blast
    next
      case ge: False
      let ?x2 = "x\<lparr>computing := 0, da_job := ?s1\<lparr>da_paused := True\<rparr>, writing := writing x @ [?out + 1]\<rparr>"
      have "deliver [] ?x2 = ?x2" by (simp add: deliver_def)
      then have "da_handle threads ref Done_Update (x\<lparr>computing := k\<rparr>) = Inr ?x2"
        using True ge last cnt by (simp add: da_handle_def da_receive_def deliver_write)
      moreover have "da_inv n g Paused ?x2"
        using r1 fr ge nw w at unfolding da_inv_def da_ring_def da_frame_def by (auto simp: next_step_def)
      ultimately show ?thesis by blast
    qed
  qed
qed

lemma da_event_ok:
  assumes "da_event threads ref x r" and "da_inv n g tok x"
  shows "\<exists>y tok'. r = Inr y \<and> da_inv n g tok' y"
  using assms(1)
proof cases
  case own
  with own_event [OF assms(2) own(2)] show ?thesis by blast
next
  case forcing
  with forcing_event [OF assms(2) forcing(2)] show ?thesis by blast
next
  case computed
  with computed_event [OF assms(2) computed(2)] show ?thesis by blast
next
  case written
  with written_event [OF assms(2) written(2)] show ?thesis by blast
qed

lemma da_reach_inv:
  assumes "da_reach threads ref x0 x" and "da_inv n g tok0 x0"
  shows "\<exists>tok. da_inv n g tok x"
  using assms(1)
proof induction
  case init
  then show ?case using assms(2) by blast
next
  case (step x y)
  then show ?case using da_event_ok by blast
qed

lemma da_progress:
  assumes "da_inv n g tok x"
  shows "(\<exists>r. da_event threads ref x r) \<or>
    (own_msgs x = [] \<and> forcing_reqs x = [] \<and> computing x = 0 \<and> writing x = [] \<and>
     num_steps (da_job x) < timestep (da_job x))"
proof (cases "own_msgs x = [] \<and> forcing_reqs x = [] \<and> computing x = 0 \<and> writing x = []")
  case True
  with assms have "tok = Finishing"
    by (cases tok) (auto simp: da_inv_def da_ring_def)
  with True assms show ?thesis by (simp add: da_inv_def)
next
  case False
  then consider m q where "own_msgs x = m # q" | i q where "forcing_reqs x = i # q"
    | k where "computing x = Suc k" | i q where "writing x = i # q"
    by (metis list.exhaust not0_implies_Suc)
  then show ?thesis by cases (blast intro: da_event.intros)+
qed


subsection \<open>Spawning\<close>

text \<open>The job indices an effect starts, with the NetCDF index of the first.\<close>

definition covered :: "job_effect \<Rightarrow> int list" where
  "covered e = (case e of
       Spawn_Gru nc job n hs da k r t \<Rightarrow> [job]
     | Spawn_Gru_Batch nc job m n hs k r t \<Rightarrow> [job .. job + m - 1]
     | _ \<Rightarrow> [])"

definition spawn_offset :: "job_effect \<Rightarrow> int option" where
  "spawn_offset e = (case e of
       Spawn_Gru nc job n hs da k r t \<Rightarrow> Some (nc - job)
     | Spawn_Gru_Batch nc job m n hs k r t \<Rightarrow> Some (nc - job)
     | _ \<Rightarrow> None)"

definition spawns :: "job_effect list \<Rightarrow> nat" where
  "spawns es = length (filter (\<lambda>e. spawn_offset e \<noteq> None) es)"

definition quiet :: "job_effect \<Rightarrow> bool" where
  "quiet e \<longleftrightarrow> own_of e = [] \<and> forcing_of e = [] \<and> write_of e = [] \<and> \<not> is_update e"

definition spawn_result :: "int \<Rightarrow> gru_struc \<Rightarrow> int list \<Rightarrow> gru_struc \<times> job_effect list \<Rightarrow> bool" where
  "spawn_result off g js r \<longleftrightarrow> concat (map covered (snd r)) = js \<and>
     (\<forall>e \<in> set (snd r). spawn_offset e \<in> {None, Some off} \<and> quiet e) \<and>
     length (gru_info (fst r)) = length (gru_info g) + spawns (snd r)"

lemma spawn_effect_simps [simp]:
  "covered (spawn_gru s nc job) = [job]" "spawn_offset (spawn_gru s nc job) = Some (nc - job)"
  "quiet (spawn_gru s nc job)" "covered (To_Gru a gm) = []" "spawn_offset (To_Gru a gm) = None"
  "quiet (To_Gru a Update_Hru_Async)"
  "covered (Spawn_Gru_Batch nc job m n hs k r t) = [job .. job + m - 1]"
  "spawn_offset (Spawn_Gru_Batch nc job m n hs k r t) = Some (nc - job)"
  "quiet (Spawn_Gru_Batch nc job m n hs k r t)"
  by (simp_all add: covered_def spawn_offset_def spawn_gru_def quiet_def own_of_def forcing_of_def
      write_of_def is_update_def)

lemma batch_loop_result:
  "0 \<le> remaining \<Longrightarrow> 1 < bsize \<Longrightarrow>
   spawn_result (netcdf - job) g [job .. job + remaining - 1] (batch_loop ref s bsize remaining netcdf job g)"
proof (induction ref s bsize remaining netcdf job g rule: batch_loop.induct)
  case (1 ref s bsize remaining netcdf job g)
  show ?case
  proof (cases "0 < remaining")
    case True
    define n where "n = min bsize remaining"
    define g1 where "g1 = addGRU (new_gru ref s netcdf job) g"
    obtain g' es where r: "batch_loop ref s bsize (remaining - n) (netcdf + n) (job + n) g1 = (g', es)"
      by fastforce
    have n: "0 < n" "n \<le> remaining" using True 1(3) by (auto simp: n_def)
    have IH: "spawn_result (netcdf - job) g1 [job + n .. job + remaining - 1] (g', es)"
      using 1(1) [OF _ refl] True 1(2,3) n r by (simp add: n_def [symmetric] g1_def)
    have b: "batch_loop ref s bsize remaining netcdf job g =
        (g', Spawn_Gru_Batch netcdf job n (num_steps s) (ja_hru_settings s)
           (num_timesteps_in_output_buffer (ja_fa_settings s)) (ja_restart s) (ja_tol s) # es)"
      using True 1(3) r by (subst batch_loop.simps) (simp add: n_def [symmetric] g1_def Let_def)
    have split: "[job .. job + remaining - 1] = [job .. job + n - 1] @ [job + n .. job + remaining - 1]"
      using n upto_split1 [of job "job + n" "job + remaining - 1"]
        upto_split2 [of job "job + n - 1" "job + remaining - 1"] by simp
    have "length (gru_info g1) = Suc (length (gru_info g))" by (simp add: g1_def addGRU_def)
    with IH show ?thesis unfolding b split by (simp add: spawn_result_def spawns_def)
  next
    case False
    then show ?thesis using 1 by (subst batch_loop.simps) (simp add: spawn_result_def spawns_def)
  qed
qed

lemma spawn_loop_result:
  "0 \<le> i \<Longrightarrow> i \<le> gs_num_gru g \<Longrightarrow>
   spawn_result (gs_start_gru g - 1) g [i + 1 .. gs_num_gru g] (spawn_loop ref s i g)"
proof (induction ref s i g rule: spawn_loop.induct)
  case (1 ref s i g)
  show ?case
  proof (cases "i < gs_num_gru g")
    case True
    define g1 where "g1 = addGRU (new_gru ref s (gs_start_gru g + i) (i + 1)) g"
    have g1: "gs_num_gru g1 = gs_num_gru g" "gs_start_gru g1 = gs_start_gru g"
      "length (gru_info g1) = Suc (length (gru_info g))" by (simp_all add: g1_def addGRU_def)
    obtain g' es where r: "spawn_loop ref s (i + 1) g1 = (g', es)" by fastforce
    have IH: "spawn_result (gs_start_gru g - 1) g1 [i + 1 + 1 .. gs_num_gru g] (g', es)"
      using 1(1) [OF True refl refl] True 1(2) r g1 by (simp add: g1_def [symmetric])
    have "[i + 1 .. gs_num_gru g] = (i + 1) # [i + 1 + 1 .. gs_num_gru g]"
      using True by (subst upto.simps) simp
    with True r IH g1(3) show ?thesis
      by (subst spawn_loop.simps) (auto simp: Let_def g1_def [symmetric] spawn_result_def spawns_def)
  next
    case False
    then show ?thesis using 1 by (subst spawn_loop.simps) (simp add: spawn_result_def spawns_def)
  qed
qed

lemma spawnGruBatches_result:
  assumes "ja_gru_struc s = Some g" and "0 \<le> gs_num_gru g" and "gs_start_gru g = start_hru (ja_batch s)"
    and "0 \<le> batch_size (ja_job_settings s) \<or> threads \<noteq> 0"
  shows "\<exists>g' es. spawnGruBatches threads ref s = Inr (s\<lparr>ja_gru_struc := Some g'\<rparr>, es) \<and>
    spawn_result (start_hru (ja_batch s) - 1) g [1 .. gs_num_gru g] (g', es)"
proof -
  define bsize where "bsize = (if batch_size (ja_job_settings s) < 0
      then \<lceil>real_of_int (gs_num_gru g) / real_of_int threads\<rceil> else batch_size (ja_job_settings s))"
  have nz: "\<not> (batch_size (ja_job_settings s) < 0 \<and> threads = 0)" using assms(4) by auto
  show ?thesis
  proof (cases "bsize \<le> 1")
    case True
    obtain g' es where r: "spawn_loop ref s 0 g = (g', es)" by fastforce
    have "spawn_result (start_hru (ja_batch s) - 1) g [1 .. gs_num_gru g] (decrementRetryAttempts g', es)"
      using spawn_loop_result [of 0 g ref s] assms(2,3) r
      by (simp add: spawn_result_def decrementRetryAttempts_def)
    moreover have "spawnGruBatches threads ref s =
        Inr (s\<lparr>ja_gru_struc := Some (decrementRetryAttempts g')\<rparr>, es)"
      using assms(1) True nz r
      by (simp add: spawnGruBatches_def spawnGruActors_def with_gru_struc_def bsize_def [symmetric] Let_def)
    ultimately show ?thesis by blast
  next
    case False
    obtain g' es where r: "batch_loop ref s bsize (gs_num_gru g) (start_hru (ja_batch s)) 1 g = (g', es)"
      by fastforce
    have "spawn_result (start_hru (ja_batch s) - 1) g [1 .. gs_num_gru g] (g', es)"
      using batch_loop_result [of "gs_num_gru g" bsize "start_hru (ja_batch s)" 1 g ref s] assms(2) r False
      by simp
    moreover have "spawnGruBatches threads ref s = Inr (s\<lparr>ja_gru_struc := Some g'\<rparr>, es)"
      using assms(1) False nz r
      by (simp add: spawnGruBatches_def with_gru_struc_def bsize_def [symmetric] Let_def)
    ultimately show ?thesis by blast
  qed
qed

subsection \<open>Properties\<close>

text \<open>
  C32. Spawning in batches covers every GRU.  Whatever the batch size and the
  number of hardware threads, the actors that are spawned, single GRUs or
  batches, run each job index from 1 to the number of GRUs exactly once and in
  order, the NetCDF index follows the job index from the start of the batch,
  and the container has one entry per spawned actor.  Only a negative batch
  size with an unknown number of threads fails.
\<close>

theorem spawnGruBatches_covers:
  assumes "ja_gru_struc s = Some g" and "0 \<le> gs_num_gru g" and "gs_start_gru g = start_hru (ja_batch s)"
  shows "if batch_size (ja_job_settings s) < 0 \<and> threads = 0
    then spawnGruBatches threads ref s = Inl Division_By_Zero
    else \<exists>g' es. spawnGruBatches threads ref s = Inr (s\<lparr>ja_gru_struc := Some g'\<rparr>, es) \<and>
      concat (map covered es) = [1 .. gs_num_gru g] \<and>
      (\<forall>e \<in> set es. spawn_offset e \<in> {None, Some (start_hru (ja_batch s) - 1)}) \<and>
      length (gru_info g') = length (gru_info g) + spawns es"
proof (cases "batch_size (ja_job_settings s) < 0 \<and> threads = 0")
  case True
  with assms(1) show ?thesis by (simp add: spawnGruBatches_def with_gru_struc_def)
next
  case False
  then have "0 \<le> batch_size (ja_job_settings s) \<or> threads \<noteq> 0" by auto
  from spawnGruBatches_result [OF assms this, of ref] False show ?thesis
    by (auto simp: spawn_result_def)
qed

definition demo_da :: job_actor where
  "demo_da = (JobActor (Batch 0 5 7) (JobActorSettings_default\<lparr>batch_size := 3, data_assimilation_mode := True\<rparr>)
     (FileAccessActorSettings_default\<lparr>num_timesteps_in_output_buffer := 2\<rparr>)
     (HRUActorSettings_default\<lparr>output_frequency := 4\<rparr>) ''never'')\<lparr>ja_gru_struc := Some (GruStruc 5 7 1),
       ja_mode := DA_Mode\<rparr>"

lemma demo_da_simps:
  "ja_gru_struc demo_da = Some (GruStruc 5 7 1)" "start_hru (ja_batch demo_da) = 5"
  "batch_size (ja_job_settings demo_da) = 3" "gs_num_gru (GruStruc 5 7 1) = 7"
  "gs_start_gru (GruStruc 5 7 1) = 5" "gru_info (GruStruc 5 7 1) = []"
  "output_step demo_da = 1" "num_write_msgs demo_da = 0" "num_gru_done_timestep demo_da = 0"
  "\<not> da_paused demo_da" "num_timesteps_in_output_buffer (ja_fa_settings demo_da) = 2"
  "output_frequency (ja_hru_settings demo_da) = 4"
  by (simp_all add: demo_da_def JobActor_def GruStruc_def Batch_def JobActorSettings_default_def
      FileAccessActorSettings_default_def HRUActorSettings_default_def)

lemma spawnGruBatches_covers_witness:
  "\<exists>g' es. spawnGruBatches 8 nat demo_da = Inr (demo_da\<lparr>ja_gru_struc := Some g'\<rparr>, es) \<and>
     concat (map covered es) = [1, 2, 3, 4, 5, 6, 7]"
proof -
  have "[1 .. 7] = [1, 2, 3, 4, 5, 6, 7 :: int]" by (simp add: upto.simps)
  with spawnGruBatches_covers [of demo_da "GruStruc 5 7 1" 8 nat] show ?thesis
    by (auto simp: demo_da_simps)
qed

text \<open>
  C7. The double buffering of the data assimilation mode.  Started on a buffer
  of at least two slots, whatever the order in which GRUs and writes finish:
  no handler fails; the outstanding writes are at most as many as the buffer
  has slots, all to distinct slots of the buffer; while GRUs compute a
  timestep, the slot they fill is not being written; the control of the job is
  in one place (at most one of its own messages, forcing requests and
  computations is pending); and unless all timesteps are done and written,
  something is still in flight, so the job does not block.
\<close>

theorem da_mode_double_buffering:
  assumes "ja_gru_struc s0 = Some g0" and "0 < gs_num_gru g0" and "gs_start_gru g0 = start_hru (ja_batch s0)"
    and "gru_info g0 = []" and "0 \<le> batch_size (ja_job_settings s0) \<or> threads \<noteq> 0"
    and "num_timesteps_in_output_buffer (ja_fa_settings s0) = n" "2 \<le> n"
    and "output_frequency (ja_hru_settings s0) \<noteq> 0"
    and "output_step s0 = 1" "num_write_msgs s0 = 0" "num_gru_done_timestep s0 = 0" "\<not> da_paused s0"
    and "da_handle threads ref (File_Access_Actor_Ready steps)
           \<lparr>da_job = s0, own_msgs = [], forcing_reqs = [], computing = 0, writing = []\<rparr> = Inr x0"
    and "da_reach threads ref x0 x"
  shows "(\<forall>r. da_event threads ref x r \<longrightarrow> (\<exists>y. r = Inr y)) \<and>
    num_write_msgs (da_job x) = int (length (writing x)) \<and> int (length (writing x)) \<le> n \<and>
    distinct (writing x) \<and> set (writing x) \<subseteq> {1 .. n} \<and>
    (0 < computing x \<longrightarrow> output_step (da_job x) + 1 \<in> {1 .. n} - set (writing x)) \<and>
    length (own_msgs x) + length (forcing_reqs x) + (if computing x = 0 then 0 else 1) \<le> 1 \<and>
    ((\<exists>r. da_event threads ref x r) \<or> num_steps (da_job x) < timestep (da_job x))"
proof -
  let ?s = "s0\<lparr>num_steps := steps\<rparr>"
  have "0 \<le> gs_num_gru g0" using assms(2) by simp
  with spawnGruBatches_result [of ?s g0 threads ref] assms(1,3,5) obtain g es where
    sp: "spawnGruBatches threads ref ?s = Inr (?s\<lparr>ja_gru_struc := Some g\<rparr>, es)"
    and res: "spawn_result (start_hru (ja_batch s0) - 1) g0 [1 .. gs_num_gru g0] (g, es)" by auto
  have "covered e = []" if "spawn_offset e = None" for e
    using that by (cases e) (simp_all add: spawn_offset_def covered_def)
  then have "concat (map covered es) = []" if "spawns es = 0"
    using that by (simp add: spawns_def filter_empty_conv)
  moreover have "concat (map covered es) \<noteq> []" using res assms(2) unfolding spawn_result_def by simp
  ultimately have "spawns es \<noteq> 0" by blast
  then have g: "gru_info g \<noteq> []" using res unfolding spawn_result_def by auto
  have "concat (map own_of es) = []" "concat (map forcing_of es) = []" "concat (map write_of es) = []"
    "filter is_update es = []"
    using res by (auto simp: spawn_result_def quiet_def filter_empty_conv)
  then have x0: "x0 = \<lparr>da_job = ?s\<lparr>ja_gru_struc := Some g\<rparr>, own_msgs = [], forcing_reqs = [iFile s0],
      computing = 0, writing = []\<rparr>"
    using assms(13) sp
    by (simp add: da_handle_def da_receive_def da_file_access_ready_def deliver_def del: concat_eq_Nil_conv)
  have "da_inv n g Waiting_Forcing x0"
    using assms(6-12) g by (simp add: x0 da_inv_def da_frame_def da_ring_def ring_def)
  from da_reach_inv [OF assms(14) this] obtain tok where inv: "da_inv n g tok x" by blast
  have ring: "da_ring n x" using inv by (simp add: da_inv_def)
  then have w: "writing x = ring n (output_step (da_job x)) (length (writing x))"
    "int (length (writing x)) \<le> n" "0 < n" "0 \<le> output_step (da_job x)" "output_step (da_job x) < n"
    "num_write_msgs (da_job x) = int (length (writing x))" by (auto simp: da_ring_def)
  have "distinct (writing x)" using ring_distinct [OF w(2)] w(1) by metis
  moreover have "set (writing x) \<subseteq> {1 .. n}" using ring_range [OF w(3)] w(1) by metis
  moreover have "output_step (da_job x) + 1 \<in> {1 .. n} - set (writing x)" if "0 < computing x"
  proof -
    from that inv have "tok = Computing" by (cases tok) (auto simp: da_inv_def)
    with inv have "int (length (writing x)) < n" by (simp add: da_inv_def)
    from ring_free [OF this w(4,5)] w(1,4,5) show ?thesis by auto
  qed
  moreover have "length (own_msgs x) + length (forcing_reqs x) + (if computing x = 0 then 0 else 1) \<le> 1"
    using inv by (cases tok) (auto simp: da_inv_def)
  moreover have "\<exists>y. r = Inr y" if "da_event threads ref x r" for r
    using da_event_ok [OF that inv] by blast
  moreover have "(\<exists>r. da_event threads ref x r) \<or> num_steps (da_job x) < timestep (da_job x)"
    using da_progress [OF inv] by blast
  ultimately show ?thesis using w(2,6) by blast
qed

lemma da_mode_double_buffering_witness:
  "\<exists>x0. da_handle 8 nat (File_Access_Actor_Ready 10)
      \<lparr>da_job = demo_da, own_msgs = [], forcing_reqs = [], computing = 0, writing = []\<rparr> = Inr x0 \<and>
    (\<forall>x. da_reach 8 nat x0 x \<longrightarrow> distinct (writing x))"
proof -
  let ?x = "\<lparr>da_job = demo_da, own_msgs = [], forcing_reqs = [], computing = 0, writing = []\<rparr>"
  from spawnGruBatches_result [of "demo_da\<lparr>num_steps := 10\<rparr>" "GruStruc 5 7 1" 8 nat]
  obtain x0 where x0: "da_handle 8 nat (File_Access_Actor_Ready 10) ?x = Inr x0"
    by (auto simp: demo_da_simps da_handle_def da_receive_def da_file_access_ready_def)
  have "distinct (writing x)" if "da_reach 8 nat x0 x" for x
    using da_mode_double_buffering [of demo_da "GruStruc 5 7 1" 8 2 nat 10 x0 x] x0 that
    by (simp add: demo_da_simps)
  with x0 show ?thesis by blast
qed

end
