(* ===== verification/Output_Container.thy ===== *)
theory Output_Container
  imports Clients
begin

text \<open>
  The output container (\<^verbatim>\<open>output_container.hpp\<close>, \<^verbatim>\<open>output_container.cpp\<close>): the
  older bookkeeping of which GRUs are ready to write, found by arithmetic on
  the GRU index instead of a search.
\<close>

subsection \<open>Output_Partition\<close>

record out_partition =
  start_local_gru_index :: int
  end_local_gru_index :: int
  num_local_grus :: int
  num_active_grus :: int
  num_timesteps_simulation :: int
  num_stored_timesteps :: int
  ptn_write_params :: bool
  ready_to_write_list :: "actor_id list"
  failed_gru_index_list :: "int list"

definition Output_Partition :: "int \<Rightarrow> int \<Rightarrow> int \<Rightarrow> int \<Rightarrow> out_partition" where
  "Output_Partition start n sim stored =
     \<lparr>start_local_gru_index = start, end_local_gru_index = start + n - 1, num_local_grus = n,
      num_active_grus = n, num_timesteps_simulation = sim, num_stored_timesteps = stored,
      ptn_write_params = True, ready_to_write_list = [], failed_gru_index_list = []\<rparr>"

definition setGRUReadyToWrite :: "actor_id \<Rightarrow> out_partition \<Rightarrow> out_partition" where
  "setGRUReadyToWrite a p = p\<lparr>ready_to_write_list := ready_to_write_list p @ [a]\<rparr>"

definition ptn_isReadyToWrite :: "out_partition \<Rightarrow> bool" where
  "ptn_isReadyToWrite p \<longleftrightarrow>
     int (length (ready_to_write_list p)) = num_active_grus p \<and> length (ready_to_write_list p) > 0"

definition updateTimeSteps :: "out_partition \<Rightarrow> out_partition" where
  "updateTimeSteps p =
     (let sim = num_timesteps_simulation p - num_stored_timesteps p
      in p\<lparr>num_timesteps_simulation := sim,
           num_stored_timesteps := (if sim < num_stored_timesteps p then sim else num_stored_timesteps p)\<rparr>)"

definition resetReadyToWriteList :: "out_partition \<Rightarrow> out_partition" where
  "resetReadyToWriteList p = p\<lparr>ready_to_write_list := []\<rparr>"

definition addFailedGRUIndex :: "int \<Rightarrow> out_partition \<Rightarrow> out_partition" where
  "addFailedGRUIndex i p =
     (let p1 = (if i = end_local_gru_index p then p\<lparr>end_local_gru_index := end_local_gru_index p - 1\<rparr>
                else if i = start_local_gru_index p
                then p\<lparr>start_local_gru_index := start_local_gru_index p + 1\<rparr> else p)
      in p1\<lparr>num_active_grus := num_active_grus p1 - 1,
            failed_gru_index_list := failed_gru_index_list p1 @ [i]\<rparr>)"

definition ptn_isWriteParams :: "out_partition \<Rightarrow> bool \<times> out_partition" where
  "ptn_isWriteParams p =
     (if ptn_write_params p then (True, p\<lparr>ptn_write_params := False\<rparr>) else (ptn_write_params p, p))"

subsection \<open>Output_Container\<close>

record output_container =
  oc_num_partitions :: int
  oc_num_grus_per_partition :: int
  oc_num_grus :: int
  oc_num_timesteps_simulation :: int
  oc_num_stored_timesteps :: int
  rerunning_failed_hrus :: bool
  output_partitions :: "out_partition list"
  oc_failed_gru_index_list :: "int list"

text \<open>The loop over all but the last partition, then the last one with what is left.\<close>

fun block_partitions :: "nat \<Rightarrow> int \<Rightarrow> int \<Rightarrow> int \<Rightarrow> int \<Rightarrow> int \<Rightarrow> out_partition list" where
  "block_partitions 0 start per n sim stored = [Output_Partition start (n - start + 1) sim stored]"
| "block_partitions (Suc k) start per n sim stored =
     Output_Partition start per sim stored # block_partitions k (start + per) per n sim stored"

text \<open>The loop runs to the argument \<^verbatim>\<open>num_partitions\<close>, not to the clipped member;
  rounding an integer quotient changes nothing.\<close>

definition Output_Container :: "int \<Rightarrow> int \<Rightarrow> int \<Rightarrow> int \<Rightarrow> output_container res" where
  "Output_Container k n stored sim =
     (let k' = (if k > n then n else k)
      in res_bind (cpp_div n k') (\<lambda>per.
           Inr \<lparr>oc_num_partitions = k', oc_num_grus_per_partition = per, oc_num_grus = n,
                oc_num_timesteps_simulation = sim, oc_num_stored_timesteps = stored,
                rerunning_failed_hrus = False,
                output_partitions = block_partitions (nat (k - 1)) 1 per n sim stored,
                oc_failed_gru_index_list = []\<rparr>))"

fun index_from :: "int \<Rightarrow> int \<Rightarrow> int list \<Rightarrow> int option" where
  "index_from k x [] = None"
| "index_from k x (y # ys) = (if y = x then Some k else index_from (k + 1) x ys)"

definition findPartition :: "int \<Rightarrow> output_container \<Rightarrow> int res" where
  "findPartition i c =
     (if \<not> rerunning_failed_hrus c
      then res_bind (cpp_div (i - 1) (oc_num_grus_per_partition c)) (\<lambda>k.
             Inr (if k > oc_num_partitions c - 1 then oc_num_partitions c - 1 else k))
      else (case index_from 0 i (oc_failed_gru_index_list c) of
              Some k \<Rightarrow> Inr k
            | None \<Rightarrow> Inl (Thrown ''GRU index not found in failed GRU index list'')))"

definition getOutputPartition :: "int \<Rightarrow> output_container \<Rightarrow> out_partition res" where
  "getOutputPartition i c = res_bind (findPartition i c) (\<lambda>k. vec_at (output_partitions c) k)"

text \<open>The partitions read are the first \<^verbatim>\<open>num_partitions\<close>.\<close>

definition oc_reconstruct :: "output_container \<Rightarrow> output_container res" where
  "oc_reconstruct c =
     (if oc_num_partitions c > int (length (output_partitions c)) then Inl Out_Of_Range
      else (let fs = sort (oc_failed_gru_index_list c @
                       concat (map failed_gru_index_list (take (nat (oc_num_partitions c)) (output_partitions c))))
            in Inr (c\<lparr>oc_failed_gru_index_list := fs, oc_num_partitions := int (length fs),
                      oc_num_grus := int (length fs), oc_num_grus_per_partition := 1,
                      output_partitions := map (\<lambda>g. Output_Partition g 1 (oc_num_timesteps_simulation c)
                                                     (oc_num_stored_timesteps c)) fs,
                      rerunning_failed_hrus := True\<rparr>)))"

subsection \<open>Lemmas\<close>

lemma Output_Partition_simps [simp]:
  "start_local_gru_index (Output_Partition a n c t) = a"
  "end_local_gru_index (Output_Partition a n c t) = a + n - 1"
  "num_local_grus (Output_Partition a n c t) = n"
  by (simp_all add: Output_Partition_def)

lemma block_partitions_nth:
  "length (block_partitions k start per n sim stored) = Suc k \<and>
   (\<forall>j \<le> k. block_partitions k start per n sim stored ! j =
      Output_Partition (start + int j * per)
        (if j < k then per else n - (start + int k * per) + 1) sim stored)"
proof (induction k arbitrary: start)
  case (Suc k)
  show ?case
  proof (intro conjI allI impI)
    fix j assume "j \<le> Suc k"
    then show "block_partitions (Suc k) start per n sim stored ! j = Output_Partition (start + int j * per)
        (if j < Suc k then per else n - (start + int (Suc k) * per) + 1) sim stored"
      using Suc [of "start + per"] by (cases j) (auto simp: algebra_simps)
  qed (use Suc [of "start + per"] in simp)
qed simp

lemma index_from_Some:
  "x \<in> set xs \<Longrightarrow> \<exists>j < length xs. index_from k x xs = Some (k + int j) \<and> xs ! j = x"
proof (induction xs arbitrary: k)
  case (Cons y ys)
  show ?case
  proof (cases "y = x")
    case False
    with Cons obtain j where "j < length ys" "index_from (k + 1) x ys = Some (k + 1 + int j)" "ys ! j = x"
      by (metis set_ConsD)
    with False show ?thesis by (intro exI [of _ "Suc j"]) simp
  qed (auto intro: exI [of _ 0])
qed simp

lemma index_from_None: "x \<notin> set xs \<Longrightarrow> index_from k x xs = None"
  by (induction xs arbitrary: k) auto

lemma block_index:
  fixes i per :: int
  assumes "1 \<le> i" "0 < per"
  shows "0 \<le> (i - 1) div per" "1 + (i - 1) div per * per \<le> i" "i \<le> (1 + (i - 1) div per * per) + per - 1"
proof -
  show "0 \<le> (i - 1) div per" using assms by (simp add: pos_imp_zdiv_nonneg_iff)
  have "(i - 1) div per * per + (i - 1) mod per = i - 1" by simp
  then show "1 + (i - 1) div per * per \<le> i" "i \<le> (1 + (i - 1) div per * per) + per - 1"
    using pos_mod_sign [OF assms(2), of "i - 1"] pos_mod_bound [OF assms(2), of "i - 1"] by linarith+
qed

subsection \<open>Properties\<close>

text \<open>
  C22. The arithmetic of the output container agrees with a search: for every
  GRU from 1 to \<open>n\<close> the computed partition exists and its range holds the GRU.
  The container always has as many partitions as were asked for; with more
  partitions than GRUs the surplus ones start behind the last GRU and the
  count of the last one is not positive.
\<close>

theorem Output_Container_lookup:
  assumes "1 \<le> k" and "1 \<le> n"
  shows "\<exists>c. Output_Container k n stored sim = Inr c \<and> length (output_partitions c) = nat k \<and>
    (\<forall>i. 1 \<le> i \<and> i \<le> n \<longrightarrow> (\<exists>p. getOutputPartition i c = Inr p \<and>
       start_local_gru_index p \<le> i \<and> i \<le> end_local_gru_index p)) \<and>
    (n < k \<longrightarrow> (\<forall>j. nat n \<le> j \<and> j < nat k \<longrightarrow> n < start_local_gru_index (output_partitions c ! j)) \<and>
       num_local_grus (last (output_partitions c)) \<le> 0)"
proof -
  define k' where "k' = (if k > n then n else k)"
  define per where "per = n div k'"
  let ?ps = "block_partitions (nat (k - 1)) 1 per n sim stored"
  have k': "1 \<le> k'" "k' \<le> n" "k' \<le> k" using assms by (auto simp: k'_def)
  have per: "0 < per" using k' by (simp add: per_def pos_imp_zdiv_pos_iff)
  obtain c where c: "Output_Container k n stored sim = Inr c" "output_partitions c = ?ps"
    "oc_num_partitions c = k'" "oc_num_grus_per_partition c = per" "\<not> rerunning_failed_hrus c"
    using assms k' by (simp add: Output_Container_def Let_def k'_def [symmetric] cpp_div_pos per_def)
  note nth = block_partitions_nth [of "nat (k - 1)" 1 per n sim stored]
  have len: "length ?ps = nat k" using nth assms by simp
  have look: "\<exists>p. getOutputPartition i c = Inr p \<and> start_local_gru_index p \<le> i \<and> i \<le> end_local_gru_index p"
    if i: "1 \<le> i" "i \<le> n" for i
  proof -
    let ?q = "(i - 1) div per"
    note b = block_index [OF i(1) per]
    define j where "j = (if ?q > k' - 1 then k' - 1 else ?q)"
    have j: "0 \<le> j" "j \<le> k' - 1" "j \<le> ?q" using b(1) k' by (auto simp: j_def)
    have f: "findPartition i c = Inr j"
      using c i per by (simp add: findPartition_def cpp_div_pos j_def)
    have jk: "nat j \<le> nat (k - 1)" "nat j < nat k" using j k' by auto
    have p: "?ps ! nat j = Output_Partition (1 + j * per)
        (if nat j < nat (k - 1) then per else n - (1 + (k - 1) * per) + 1) sim stored"
      using nth jk(1) j(1) assms by simp
    have low: "1 + j * per \<le> i" using b(2) mult_right_mono [OF j(3), of per] per by linarith
    have hi: "i \<le> end_local_gru_index (?ps ! nat j)"
    proof (cases "nat j < nat (k - 1)")
      case True
      have "j = ?q"
      proof (rule ccontr)
        assume "j \<noteq> ?q"
        then have "j = k' - 1" "k' \<le> ?q" by (auto simp: j_def split: if_splits)
        with True k' have "k' = n" by (auto simp: k'_def split: if_splits)
        with \<open>k' \<le> ?q\<close> have "n \<le> ?q" by simp
        moreover have "?q \<le> i - 1" using mult_left_mono [of 1 per ?q] b(1,2) per by simp
        ultimately show False using i(2) by simp
      qed
      with True b(3) p show ?thesis by simp
    next
      case False
      then have "j = k - 1" using j k' assms by auto
      with False p i(2) show ?thesis by simp
    qed
    have "getOutputPartition i c = Inr (?ps ! nat j)"
      using f c(2) jk(2) len j(1) by (simp add: getOutputPartition_def vec_at_def)
    with low hi p show ?thesis by auto
  qed
  have surplus: "n < start_local_gru_index (?ps ! j)" if "n < k" "nat n \<le> j" "j < nat k" for j
  proof -
    have "per = 1" using that(1) assms by (simp add: per_def k'_def)
    with nth that show ?thesis by auto
  qed
  have "last ?ps = ?ps ! nat (k - 1)" using len assms by (subst last_conv_nth) (auto simp: nat_diff_distrib)
  then have "num_local_grus (last ?ps) \<le> 0" if "n < k"
    using nth that assms by (simp add: per_def k'_def)
  with c(1,2) len look surplus show ?thesis by auto
qed

lemma Output_Container_lookup_witness:
  "\<exists>c p. Output_Container 3 8 4 10 = Inr c \<and> getOutputPartition 8 c = Inr p \<and>
     start_local_gru_index p \<le> 8 \<and> 8 \<le> end_local_gru_index p"
  using Output_Container_lookup [of 3 8 4 10] by auto

text \<open>
  C35. After \<^verbatim>\<open>reconstruct\<close> the container serves exactly the GRUs that have
  failed, in this run or before an earlier reconstruction: each of them has a
  partition of its own with all timesteps ahead of it, and any other index
  raises the runtime error.
\<close>

theorem oc_reconstruct_serves_failed:
  assumes "oc_num_partitions c \<le> int (length (output_partitions c))"
  shows "\<exists>c'. oc_reconstruct c = Inr c' \<and> rerunning_failed_hrus c' \<and> sorted (oc_failed_gru_index_list c') \<and>
    (\<forall>i. getOutputPartition i c' =
       (if i \<in> set (oc_failed_gru_index_list c) \<union>
            (\<Union>p \<in> set (take (nat (oc_num_partitions c)) (output_partitions c)). set (failed_gru_index_list p))
        then Inr (Output_Partition i 1 (oc_num_timesteps_simulation c) (oc_num_stored_timesteps c))
        else Inl (Thrown ''GRU index not found in failed GRU index list'')))"
proof -
  define fs where "fs = sort (oc_failed_gru_index_list c @
    concat (map failed_gru_index_list (take (nat (oc_num_partitions c)) (output_partitions c))))"
  let ?mk = "\<lambda>g. Output_Partition g 1 (oc_num_timesteps_simulation c) (oc_num_stored_timesteps c)"
  have set: "set fs = set (oc_failed_gru_index_list c) \<union>
      (\<Union>p \<in> set (take (nat (oc_num_partitions c)) (output_partitions c)). set (failed_gru_index_list p))"
    by (simp add: fs_def)
  obtain c' where c': "oc_reconstruct c = Inr c'" "oc_failed_gru_index_list c' = fs"
    "output_partitions c' = map ?mk fs" "rerunning_failed_hrus c'"
    using assms by (simp add: oc_reconstruct_def Let_def fs_def [symmetric])
  have "getOutputPartition i c' = (if i \<in> set fs then Inr (?mk i)
      else Inl (Thrown ''GRU index not found in failed GRU index list''))" for i
  proof (cases "i \<in> set fs")
    case True
    from index_from_Some [OF this, of 0] obtain j where
      "j < length fs" "index_from 0 i fs = Some (int j)" "fs ! j = i" by auto
    with c' True show ?thesis by (simp add: getOutputPartition_def findPartition_def)
  next
    case False
    with c' show ?thesis by (simp add: getOutputPartition_def findPartition_def index_from_None)
  qed
  moreover have "sorted fs" by (simp add: fs_def)
  ultimately show ?thesis using c' set by auto
qed

lemma oc_reconstruct_serves_failed_witness:
  "\<exists>c c'. Output_Container 3 8 4 10 = Inr c \<and>
     oc_reconstruct (c\<lparr>output_partitions := map (addFailedGRUIndex 5) (output_partitions c)\<rparr>) = Inr c' \<and>
     getOutputPartition 5 c' = Inr (Output_Partition 5 1 10 4)"
proof -
  obtain c where c: "Output_Container 3 8 4 10 = Inr c" "oc_num_partitions c = 3"
    "length (output_partitions c) = 3" "oc_num_timesteps_simulation c = 10" "oc_num_stored_timesteps c = 4"
    "take 3 (output_partitions c) \<noteq> []"
    by (simp add: Output_Container_def cpp_div_def numeral_2_eq_2)
  let ?c = "c\<lparr>output_partitions := map (addFailedGRUIndex 5) (output_partitions c)\<rparr>"
  have "5 \<in> set (failed_gru_index_list (addFailedGRUIndex 5 p))" for p
    by (simp add: addFailedGRUIndex_def Let_def)
  then have "5 \<in> (\<Union>p \<in> set (take (nat (oc_num_partitions ?c)) (output_partitions ?c)). set (failed_gru_index_list p))"
    using c by (cases "output_partitions c") (auto simp: take_map)
  with oc_reconstruct_serves_failed [of ?c] c show ?thesis by auto
qed

end
