(* ===== verification/Gru_Simulation.thy ===== *)
theory Gru_Simulation
  imports Gru_Actor Output_Buffer
begin

text \<open>
  The closed loop of one GRU actor with the file access side: the number of
  steps before a write comes from its output partition, the forcing files are
  delivered on request, and after a write the GRU is told to run again.  The
  loop is run with fuel; the property shows that enough fuel reaches the end.
\<close>

subsection \<open>The closed loop\<close>

record gru_sys =
  gy_gru :: gru_actor
  gy_part :: output_partition
  gy_inbox :: "gru_in list"
  gy_log :: "gru_effect list"

text \<open>The answer to one effect of the GRU actor with handle \<open>a\<close>; \<open>files\<close> lists the
  steps of the forcing files.\<close>

definition respond ::
  "int list \<Rightarrow> actor_id \<Rightarrow> gru_effect \<Rightarrow> output_partition \<Rightarrow> output_partition \<times> gru_in list" where
  "respond files a e p =
     (case e of
        Ask_Num_Output_Steps j \<Rightarrow> (p, [In_Num_Output_Steps (op_num_steps_buffer p)])
      | Ask_Forcing i \<Rightarrow>
          (p, if 1 \<le> i \<and> i \<le> int (length files) then [In_New_Forcing_File 0 (files ! nat (i - 1)) i] else [])
      | Ask_Write_Output j \<Rightarrow>
          (case partition_writeOutput_gru 0 [] a p of (p', ret, es) \<Rightarrow>
             (p', (case ret of None \<Rightarrow> []
                   | Some r \<Rightarrow> concat (map (\<lambda>b. if b = a then [In_Num_Steps_Before_Write (num_steps_update r),
                                                              In_Run_Hru] else []) (actor_to_update r)))))
      | Self_Run_Hru \<Rightarrow> (p, [In_Run_Hru])
      | Self_Done_Hru \<Rightarrow> (p, [In_Done_Hru])
      | _ \<Rightarrow> (p, []))"

fun respond_all ::
  "int list \<Rightarrow> actor_id \<Rightarrow> gru_effect list \<Rightarrow> output_partition \<Rightarrow> output_partition \<times> gru_in list" where
  "respond_all files a [] p = (p, [])"
| "respond_all files a (e # es) p =
     (case respond files a e p of (p1, ms) \<Rightarrow>
       (case respond_all files a es p1 of (p2, ms') \<Rightarrow> (p2, ms @ ms')))"

definition sys_step :: "int list \<Rightarrow> actor_id \<Rightarrow> (int \<Rightarrow> gru_step) \<Rightarrow> gru_sys \<Rightarrow> gru_sys option" where
  "sys_step files a fort x =
     (case gy_inbox x of
        [] \<Rightarrow> None
      | m # q \<Rightarrow>
          (case gru_async_receive fort m (gy_gru x) of
             Inl err \<Rightarrow> None
           | Inr (s, es) \<Rightarrow>
               (case respond_all files a es (gy_part x) of (p, ms) \<Rightarrow>
                  Some \<lparr>gy_gru = s, gy_part = p, gy_inbox = q @ ms, gy_log = gy_log x @ es\<rparr>)))"

fun sys_run :: "int list \<Rightarrow> actor_id \<Rightarrow> (int \<Rightarrow> gru_step) \<Rightarrow> nat \<Rightarrow> gru_sys \<Rightarrow> gru_sys option" where
  "sys_run files a fort 0 x = Some x"
| "sys_run files a fort (Suc n) x =
     (if ga_mode (gy_gru x) = Gru_Stopped then Some x
      else (case sys_step files a fort x of None \<Rightarrow> None | Some y \<Rightarrow> sys_run files a fort n y))"

subsection \<open>Lemmas\<close>

lemma sys_run_stopped: "ga_mode (gy_gru x) = Gru_Stopped \<Longrightarrow> sys_run files a fort n x = Some x"
  by (cases n) simp_all

lemma sys_run_add:
  "sys_run files a fort n x = Some y \<Longrightarrow> sys_run files a fort m y = Some z \<Longrightarrow>
   sys_run files a fort (n + m) x = Some z"
proof (induction n arbitrary: x)
  case (Suc n)
  then show ?case by (auto simp: sys_run_stopped split: if_splits option.splits)
qed simp

lemma respond_quiet: "\<not> is_control e \<Longrightarrow> respond files a e p = (p, [])"
  by (cases e) (simp_all add: respond_def)

lemma respond_all_control: "respond_all files a es p = respond_all files a (filter is_control es) p"
  by (induction es arbitrary: p) (auto simp: respond_quiet split: prod.splits)

text \<open>The partition of a single GRU writes at every request.\<close>

lemma single_write:
  assumes "op_ready_to_write p = []" and "op_num_gru p = 1"
  obtains p' where "respond files a (Ask_Write_Output j) p =
      (p', [In_Num_Steps_Before_Write (op_num_steps_buffer p'), In_Run_Hru])"
    "op_ready_to_write p' = []" "op_num_gru p' = 1"
    "op_steps_remaining p' = op_steps_remaining p - op_num_steps_buffer p"
    "op_num_steps_buffer p' = min (op_num_steps_buffer p) (op_steps_remaining p - op_num_steps_buffer p)"
proof -
  let ?p = "p\<lparr>op_ready_to_write := [a]\<rparr>"
  obtain p' ret es where w: "write_partition 0 [] ?p = (p', ret, es)" by (metis prod_cases3)
  have "isReadyToWrite ?p" using assms(2) by (simp add: isReadyToWrite_def)
  then have "partition_writeOutput_gru 0 [] a p = (p', ret, es @ [F_SetFailedGruMissing (op_start_gru p) (op_end_gru p)])"
    using w assms(1) by (simp add: partition_writeOutput_gru_def Let_def)
  with write_partition_fields [OF w] assms(2) show ?thesis
    by (intro that [of p']) (simp_all add: respond_def)
qed

text \<open>The states in which the GRU is about to run.\<close>

definition at_run :: "int list \<Rightarrow> gru_sys \<Rightarrow> bool" where
  "at_run files x \<longleftrightarrow> (let s = gy_gru x; p = gy_part x in
     gy_inbox x = [In_Run_Hru] \<and> ga_mode s \<noteq> Gru_Stopped \<and> runnable s \<and> 0 < num_steps_until_write s \<and>
     op_ready_to_write p = [] \<and> op_num_gru p = 1 \<and>
     op_num_steps_buffer p = num_steps_until_write s + ga_output_step s - 1 \<and>
     op_steps_remaining p = ga_num_steps s - ga_timestep s + ga_output_step s \<and>
     op_num_steps_buffer p \<le> op_steps_remaining p \<and> 1 \<le> ga_output_step s \<and>
     1 \<le> ga_iFile s \<and> ga_iFile s \<le> int (length files) \<and>
     stepsInCurrentFFile s = files ! nat (ga_iFile s - 1) \<and>
     ga_timestep s = sum_list (take (nat (ga_iFile s - 1)) files) + forcingStep s \<and>
     runs_done (gy_log x) = [1 .. ga_timestep s - 1] \<and> 1 \<le> ga_timestep s)"

definition run_measure :: "gru_sys \<Rightarrow> nat" where
  "run_measure x = nat (2 * steps_left (gy_gru x) +
     (if stepsInCurrentFFile (gy_gru x) < forcingStep (gy_gru x) then 1 else 0))"

definition finished :: "int \<Rightarrow> gru_sys \<Rightarrow> bool" where
  "finished t x \<longleftrightarrow> ga_mode (gy_gru x) = Gru_Stopped \<and> runs_done (gy_log x) = [1 .. t] \<and>
     Parent_Done_Hru (ga_job_index (gy_gru x)) \<in> set (gy_log x) \<and> op_steps_remaining (gy_part x) = 0"

text \<open>One \<^verbatim>\<open>run_hru\<close> in the loop.\<close>

lemma run_step:
  assumes "at_run files x" and "\<forall>t. good_step (fort t)"
  obtains s es where "advanced (run_length (gy_gru x)) (gy_gru x) s"
    "runs_done (gy_log x @ es) = [1 .. ga_timestep s - 1]"
    "sys_step files a fort x =
       (case respond_all files a (run_control (gy_gru x) @
          (if run_length (gy_gru x) = num_steps_until_write (gy_gru x)
           then [Ask_Write_Output (ga_job_index (gy_gru x))] else [])) (gy_part x) of (p, ms) \<Rightarrow>
        Some \<lparr>gy_gru = s, gy_part = p, gy_inbox = ms, gy_log = gy_log x @ es\<rparr>)"
proof -
  let ?s = "gy_gru x"
  have run: "runnable ?s" and ib: "gy_inbox x = [In_Run_Hru]" and lg: "runs_done (gy_log x) = [1 .. ga_timestep ?s - 1]"
    and t1: "1 \<le> ga_timestep ?s"
    using assms(1) by (simp_all add: at_run_def Let_def)
  from run_loop_computes [OF run assms(2)] have k: "0 \<le> run_length ?s"
    using run by (auto simp: runnable_def run_length_def)
  from run_loop_computes [OF run assms(2)] obtain s es0 where
    r: "run_loop fort ?s = Inr (s, es0, False)" "advanced (run_length ?s) ?s s"
      "runs_done es0 = map (\<lambda>j. ga_timestep ?s + j) [0 .. run_length ?s - 1]"
      "filter is_control es0 = run_control ?s" unfolding run_computed_def by blast
  define w where "w = (if run_length ?s = num_steps_until_write ?s then [Ask_Write_Output (ga_job_index ?s)] else [])"
  have adv: "num_steps_until_write s = num_steps_until_write ?s - run_length ?s" "ga_job_index s = ga_job_index ?s"
    "ga_timestep s = ga_timestep ?s + run_length ?s" using advanced_fields [OF r(2)] by simp_all
  have "run_length ?s \<le> num_steps_until_write ?s" by (simp add: run_length_def)
  then have h: "on_run_hru fort ?s = Inr (s, es0 @ w)" using r(1) adv by (auto simp: on_run_hru_def w_def)
  have "runs_done w = []" by (simp add: w_def runs_done_def)
  moreover have "map (\<lambda>j. ga_timestep ?s + j) [0 .. run_length ?s - 1] = [ga_timestep ?s .. ga_timestep s - 1]"
    unfolding adv(3) using upto_shift_by [of "ga_timestep ?s" 0 "run_length ?s - 1"] by (simp add: algebra_simps)
  moreover have "[1 .. ga_timestep ?s - 1] @ [ga_timestep ?s - 1 + 1 .. ga_timestep s - 1] = [1 .. ga_timestep s - 1]"
    using t1 k adv(3) by (intro upto_append) auto
  ultimately have "runs_done (gy_log x @ es0 @ w) = [1 .. ga_timestep s - 1]" using lg r(3) by simp
  moreover have "filter is_control (es0 @ w) = run_control ?s @ w" using r(4) by (simp add: w_def)
  then have "respond_all files a (es0 @ w) (gy_part x) = respond_all files a (run_control ?s @ w) (gy_part x)"
    by (subst respond_all_control) simp
  ultimately show ?thesis using r(2) h ib
    by (intro that [of s "es0 @ w"]) (simp_all add: sys_step_def gru_async_receive_def w_def [symmetric])
qed

lemma at_run_until_le: "at_run files x \<Longrightarrow> num_steps_until_write (gy_gru x) \<le> steps_left (gy_gru x)"
  unfolding at_run_def Let_def steps_left_def by (elim conjE) linarith

lemma run_length_le: "run_length s \<le> num_steps_until_write s" "run_length s \<le> steps_left s"
    "run_length s \<le> stepsInCurrentFFile s - forcingStep s + 1"
  by (simp_all add: run_length_def)

lemma sys_run_one:
  "ga_mode (gy_gru x) \<noteq> Gru_Stopped \<Longrightarrow> sys_step files a fort x = Some y \<Longrightarrow> sys_run files a fort 1 x = Some y"
  by simp

lemma progress_finish:
  assumes x: "at_run files x" and good: "\<forall>t. good_step (fort t)"
    and k: "run_length (gy_gru x) = steps_left (gy_gru x)"
  shows "\<exists>n y. sys_run files a fort n x = Some y \<and> finished (ga_num_steps (gy_gru x)) y"
proof -
  let ?s = "gy_gru x"
  note i = x [unfolded at_run_def Let_def]
  have u: "num_steps_until_write ?s = steps_left ?s"
    using at_run_until_le [OF x] run_length_le(1) [of ?s] k by simp
  obtain s es where r: "advanced (run_length ?s) ?s s" "runs_done (gy_log x @ es) = [1 .. ga_timestep s - 1]"
    "sys_step files a fort x = (case respond_all files a (run_control ?s @ (if run_length ?s = num_steps_until_write ?s
       then [Ask_Write_Output (ga_job_index ?s)] else [])) (gy_part x) of (p, ms) \<Rightarrow>
       Some \<lparr>gy_gru = s, gy_part = p, gy_inbox = ms, gy_log = gy_log x @ es\<rparr>)"
    by (rule run_step [OF x good])
  obtain p' where p': "respond files a (Ask_Write_Output (ga_job_index ?s)) (gy_part x) =
      (p', [In_Num_Steps_Before_Write (op_num_steps_buffer p'), In_Run_Hru])"
    "op_steps_remaining p' = op_steps_remaining (gy_part x) - op_num_steps_buffer (gy_part x)"
    using i by (metis single_write)
  have rem: "op_steps_remaining p' = 0" unfolding p'(2) using i u unfolding steps_left_def by (elim conjE) linarith
  let ?y = "\<lparr>gy_gru = s, gy_part = p', gy_inbox = [In_Done_Hru, In_Num_Steps_Before_Write (op_num_steps_buffer p'),
      In_Run_Hru], gy_log = gy_log x @ es\<rparr>"
  have "respond files a Self_Done_Hru p = (p, [In_Done_Hru])" for p by (simp add: respond_def)
  then have y: "sys_step files a fort x = Some ?y" using r(3) k u p'(1) by (simp add: run_control_def)
  let ?z = "\<lparr>gy_gru = s\<lparr>ga_mode := Gru_Stopped\<rparr>, gy_part = p', gy_inbox = [In_Num_Steps_Before_Write
      (op_num_steps_buffer p'), In_Run_Hru], gy_log = (gy_log x @ es) @ [Parent_Done_Hru (ga_job_index s), Quit_Gru]\<rparr>"
  have z: "sys_step files a fort ?y = Some ?z"
    by (simp add: sys_step_def gru_async_receive_def respond_def)
  have "ga_mode (gy_gru x) \<noteq> Gru_Stopped" "ga_mode (gy_gru ?y) \<noteq> Gru_Stopped"
    using i advanced_fields(9) [OF r(1)] by auto
  then have "sys_run files a fort (1 + 1) x = Some ?z"
    using y z by (intro sys_run_add [OF sys_run_one sys_run_one]) simp_all
  moreover have "ga_timestep s - 1 = ga_num_steps ?s"
    using advanced_fields(2) [OF r(1)] k by (simp add: steps_left_def)
  then have "finished (ga_num_steps ?s) ?z"
    using r(2) rem by (simp add: finished_def) (simp add: runs_done_def)
  ultimately show ?thesis by blast
qed

lemma progress_write:
  assumes x: "at_run files x" and good: "\<forall>t. good_step (fort t)"
    and k: "run_length (gy_gru x) = num_steps_until_write (gy_gru x)" "run_length (gy_gru x) \<noteq> steps_left (gy_gru x)"
  shows "\<exists>n y. sys_run files a fort n x = Some y \<and> at_run files y \<and> run_measure y < run_measure x \<and>
    ga_num_steps (gy_gru y) = ga_num_steps (gy_gru x)"
proof -
  let ?s = "gy_gru x" and ?k = "run_length (gy_gru x)"
  note i = x [unfolded at_run_def Let_def]
  obtain s es where r: "advanced ?k ?s s" "runs_done (gy_log x @ es) = [1 .. ga_timestep s - 1]"
    "sys_step files a fort x = (case respond_all files a (run_control ?s @ (if ?k = num_steps_until_write ?s
       then [Ask_Write_Output (ga_job_index ?s)] else [])) (gy_part x) of (p, ms) \<Rightarrow>
       Some \<lparr>gy_gru = s, gy_part = p, gy_inbox = ms, gy_log = gy_log x @ es\<rparr>)"
    by (rule run_step [OF x good])
  note adv = advanced_fields [OF r(1)]
  obtain p' where p': "respond files a (Ask_Write_Output (ga_job_index ?s)) (gy_part x) =
      (p', [In_Num_Steps_Before_Write (op_num_steps_buffer p'), In_Run_Hru])"
    "op_ready_to_write p' = []" "op_num_gru p' = 1"
    "op_steps_remaining p' = op_steps_remaining (gy_part x) - op_num_steps_buffer (gy_part x)"
    "op_num_steps_buffer p' = min (op_num_steps_buffer (gy_part x))
       (op_steps_remaining (gy_part x) - op_num_steps_buffer (gy_part x))"
    using i by (metis single_write)
  let ?y = "\<lparr>gy_gru = s, gy_part = p', gy_inbox = [In_Num_Steps_Before_Write (op_num_steps_buffer p'), In_Run_Hru],
      gy_log = gy_log x @ es\<rparr>"
  have y: "sys_step files a fort x = Some ?y" using r(3) k p'(1) by (simp add: run_control_def)
  let ?s2 = "s\<lparr>num_steps_until_write := op_num_steps_buffer p', ga_output_step := 1\<rparr>"
  let ?z = "\<lparr>gy_gru = ?s2, gy_part = p', gy_inbox = [In_Run_Hru], gy_log = gy_log x @ es\<rparr>"
  have z: "sys_step files a fort ?y = Some ?z" by (simp add: sys_step_def gru_async_receive_def)
  have m: "ga_mode (gy_gru x) \<noteq> Gru_Stopped" "ga_mode (gy_gru ?y) \<noteq> Gru_Stopped" using i adv(9) by auto
  then have run: "sys_run files a fort (1 + 1) x = Some ?z"
    using y z by (intro sys_run_add [OF sys_run_one sys_run_one]) simp_all
  have lt: "?k < steps_left ?s" "0 < ?k" using run_length_le(2) [of ?s] k i by auto
  have rem: "op_steps_remaining p' = steps_left ?s - ?k"
    unfolding p'(4) using i k(1) unfolding steps_left_def by (elim conjE) linarith
  have buf: "0 < op_num_steps_buffer p'" "op_num_steps_buffer p' \<le> op_steps_remaining p'"
    using p'(4,5) rem lt i by auto
  have "runnable ?s2" using i adv lt buf run_length_le(3) [of ?s]
    by (simp add: runnable_def steps_left_def prints_ok_def)
  then have "at_run files ?z"
    unfolding at_run_def Let_def using i adv m(2) p'(2,3) buf rem r(2) lt
    by (simp add: steps_left_def)
  moreover have "run_measure ?z < run_measure x"
    using adv lt by (auto simp: run_measure_def steps_left_def)
  ultimately show ?thesis using run adv(7) by (intro exI [of _ "1 + 1"] exI [of _ ?z]) simp
qed

lemma progress_forcing:
  assumes x: "at_run files x" and good: "\<forall>t. good_step (fort t)"
    and files: "\<forall>f \<in> set files. 0 < f" "ga_num_steps (gy_gru x) \<le> sum_list files"
    and k: "run_length (gy_gru x) \<noteq> num_steps_until_write (gy_gru x)" "run_length (gy_gru x) \<noteq> steps_left (gy_gru x)"
  shows "\<exists>n y. sys_run files a fort n x = Some y \<and> at_run files y \<and> run_measure y < run_measure x \<and>
    ga_num_steps (gy_gru y) = ga_num_steps (gy_gru x)"
proof -
  let ?s = "gy_gru x" and ?k = "run_length (gy_gru x)" and ?i = "ga_iFile (gy_gru x)"
  note i = x [unfolded at_run_def Let_def]
  obtain s es where r: "advanced ?k ?s s" "runs_done (gy_log x @ es) = [1 .. ga_timestep s - 1]"
    "sys_step files a fort x = (case respond_all files a (run_control ?s @ (if ?k = num_steps_until_write ?s
       then [Ask_Write_Output (ga_job_index ?s)] else [])) (gy_part x) of (p, ms) \<Rightarrow>
       Some \<lparr>gy_gru = s, gy_part = p, gy_inbox = ms, gy_log = gy_log x @ es\<rparr>)"
    by (rule run_step [OF x good])
  note adv = advanced_fields [OF r(1)]
  have kf: "?k = stepsInCurrentFFile ?s - forcingStep ?s + 1" using k by (auto simp: run_length_def min_def split: if_splits)
  have lt: "?k < steps_left ?s" "?k < num_steps_until_write ?s" "0 \<le> ?k"
    using run_length_le [of ?s] k kf i by (auto simp: runnable_def)
  define j where "j = nat (?i - 1)"
  have j: "j < length files" "?i = int j + 1" using i by (auto simp: j_def)
  have sum: "sum_list (take (Suc j) files) = sum_list (take j files) + files ! j"
    using j(1) by (simp add: take_Suc_conv_app_nth)
  have ts: "ga_timestep s - 1 = sum_list (take (Suc j) files)"
    unfolding sum adv(2) using i kf by (simp add: j_def [symmetric])
  have "Suc j < length files"
  proof (rule ccontr)
    assume "\<not> Suc j < length files"
    with j(1) have "take (Suc j) files = files" by simp
    with ts files(2) lt(1) adv(2) show False by (simp add: steps_left_def)
  qed
  then have j2: "?i + 1 \<le> int (length files)" "nat (?i + 1 - 1) = Suc j" using j by auto
  let ?m = "In_New_Forcing_File 0 (files ! Suc j) (?i + 1)"
  let ?y = "\<lparr>gy_gru = s, gy_part = gy_part x, gy_inbox = [?m], gy_log = gy_log x @ es\<rparr>"
  have "respond files a (Ask_Forcing (?i + 1)) (gy_part x) = (gy_part x, [?m])"
    using j2 i by (simp add: respond_def)
  then have y: "sys_step files a fort x = Some ?y" using r(3) k by (simp add: run_control_def)
  let ?s2 = "s\<lparr>ga_iFile := ?i + 1, stepsInCurrentFFile := files ! Suc j, forcingStep := 1\<rparr>"
  let ?z = "\<lparr>gy_gru = ?s2, gy_part = gy_part x, gy_inbox = [In_Run_Hru],
      gy_log = (gy_log x @ es) @ [F_SetTimeZoneOffset (?i + 1), Self_Run_Hru]\<rparr>"
  have z: "sys_step files a fort ?y = Some ?z"
    by (simp add: sys_step_def gru_async_receive_def Let_def respond_def)
  have m: "ga_mode (gy_gru x) \<noteq> Gru_Stopped" "ga_mode (gy_gru ?y) \<noteq> Gru_Stopped" using i adv(9) by auto
  then have run: "sys_run files a fort (1 + 1) x = Some ?z"
    using y z by (intro sys_run_add [OF sys_run_one sys_run_one]) simp_all
  have pos: "0 < files ! Suc j" using files(1) \<open>Suc j < length files\<close> by simp
  have "runnable ?s2" using i adv lt pos by (simp add: runnable_def steps_left_def prints_ok_def)
  moreover have "runs_done [F_SetTimeZoneOffset (?i + 1), Self_Run_Hru] = []" by (simp add: runs_done_def)
  moreover have "ga_timestep s = sum_list (take (Suc j) files) + 1" using ts by simp
  ultimately have "at_run files ?z"
    unfolding at_run_def Let_def using i adv m(2) r(2) lt j2 j(2) by (simp add: nat_add_distrib)
  moreover have "run_measure ?z < run_measure x"
    using adv lt pos kf i by (auto simp: run_measure_def steps_left_def)
  ultimately show ?thesis using run adv(7) by (intro exI [of _ "1 + 1"] exI [of _ ?z]) simp
qed

lemma at_run_finishes:
  assumes "\<forall>t. good_step (fort t)" and "\<forall>f \<in> set files. 0 < f"
  shows "at_run files x \<Longrightarrow> ga_num_steps (gy_gru x) = t \<Longrightarrow> t \<le> sum_list files \<Longrightarrow>
    \<exists>n y. sys_run files a fort n x = Some y \<and> finished t y"
proof (induction "run_measure x" arbitrary: x rule: less_induct)
  case less
  show ?case
  proof (cases "run_length (gy_gru x) = steps_left (gy_gru x)")
    case True
    from progress_finish [OF less.prems(1) assms(1) True] less.prems(2) show ?thesis by simp
  next
    case False
    then obtain n y where y: "sys_run files a fort n x = Some y" "at_run files y" "run_measure y < run_measure x"
      "ga_num_steps (gy_gru y) = ga_num_steps (gy_gru x)"
      using progress_write [OF less.prems(1) assms(1) _ False, of a]
        progress_forcing [OF less.prems(1) assms _ _ False, of a] less.prems(2,3) by blast
    with less.hyps [OF y(3,2)] less.prems obtain n' z where
      "sys_run files a fort n' y = Some z" "finished t z" by auto
    with sys_run_add [OF y(1)] show ?thesis by blast
  qed
qed

subsection \<open>Properties\<close>

definition fresh_gru_sys :: "gru_actor \<Rightarrow> int \<Rightarrow> int \<Rightarrow> gru_sys" where
  "fresh_gru_sys s start nbuf = \<lparr>gy_gru = fst (gru_make_behavior 0 0 0 s),
     gy_part = OutputPartition start 1 nbuf (ga_num_steps s), gy_inbox = [In_Update_Hru_Async], gy_log = []\<rparr>"

lemma fresh_at_run:
  assumes "s = GruActor netcdf job t hs False nout restart tol u1 u2" and "1 \<le> t" "1 \<le> nbuf"
    and "files \<noteq> []" "0 < hd files" and "print_output hs \<longrightarrow> output_frequency hs \<noteq> 0"
  shows "\<exists>y. sys_run files a fort 3 (fresh_gru_sys s start nbuf) = Some y \<and> at_run files y \<and>
    ga_num_steps (gy_gru y) = t"
proof -
  let ?p = "OutputPartition start 1 nbuf t"
  have f0: "files ! 0 = hd files" "1 \<le> int (length files)" using assms(4) by (cases files; simp)+
  let ?s = "fst (gru_make_behavior 0 0 0 s)\<lparr>num_steps_until_write := min nbuf t, ga_iFile := 1,
    stepsInCurrentFFile := hd files, forcingStep := 1\<rparr>"
  let ?y = "\<lparr>gy_gru = ?s, gy_part = ?p, gy_inbox = [In_Run_Hru], gy_log = [Ask_Num_Output_Steps job,
    Ask_Forcing 1, F_SetTimeZoneOffset 1, Self_Run_Hru]\<rparr>"
  have "sys_run files a fort 3 (fresh_gru_sys s start nbuf) = Some ?y"
    using assms(1) f0 by (simp add: eval_nat_numeral fresh_gru_sys_def sys_step_def gru_async_receive_def
        respond_def gru_make_behavior_def GruActor_def Let_def)
  moreover have "at_run files ?y"
    using assms f0 by (simp add: at_run_def Let_def gru_make_behavior_def GruActor_def runnable_def
        prints_ok_def steps_left_def runs_done_def)
  moreover have "ga_num_steps ?s = t" using assms(1) by (simp add: gru_make_behavior_def GruActor_def)
  ultimately show ?thesis by auto
qed

text \<open>
  C9. A GRU simulation completes.  A GRU whose Fortran calls succeed, alone in its
  output partition, with forcing files that cover the simulation: the loop of
  actor, output partition and forcing files runs to the end; every timestep
  has been computed exactly once and in order, all of them have been written,
  and the GRU has reported to the job and stopped.  Buffer size, lengths of
  the forcing files and the uninitialised members are arbitrary.
\<close>

theorem gru_simulation_completes:
  assumes "\<forall>t. good_step (fort t)" and "\<forall>f \<in> set files. 0 < f" and "t \<le> sum_list files"
    and "1 \<le> t" and "1 \<le> nbuf" and "print_output hs \<longrightarrow> output_frequency hs \<noteq> 0"
  shows "\<exists>n x. sys_run files a fort n
      (fresh_gru_sys (GruActor netcdf job t hs False nout restart tol u1 u2) start nbuf) = Some x \<and>
    ga_mode (gy_gru x) = Gru_Stopped \<and> runs_done (gy_log x) = [1 .. t] \<and>
    Parent_Done_Hru (ga_job_index (gy_gru x)) \<in> set (gy_log x) \<and> op_steps_remaining (gy_part x) = 0"
proof -
  let ?s = "GruActor netcdf job t hs False nout restart tol u1 u2"
  have "files \<noteq> []" using assms(3,4) by auto
  moreover then have "0 < hd files" using assms(2) by simp
  ultimately obtain y where y: "sys_run files a fort 3 (fresh_gru_sys ?s start nbuf) = Some y" "at_run files y"
    "ga_num_steps (gy_gru y) = t"
    using fresh_at_run [OF refl assms(4,5) _ _ assms(6)] by blast
  from at_run_finishes [OF assms(1,2) y(2,3) assms(3)] obtain n z where
    "sys_run files a fort n y = Some z" "finished t z" by blast
  with sys_run_add [OF y(1)] show ?thesis unfolding finished_def by blast
qed

lemma gru_simulation_completes_witness:
  "\<exists>n x. sys_run [3, 4, 24] 9 demo_step n (fresh_gru_sys
      (GruActor 5 1 10 HRUActorSettings_default False 4 ''d'' ToleranceSettings_default 0 0) 1 4) = Some x \<and>
    runs_done (gy_log x) = [1 .. 10]"
proof -
  have "\<forall>t. good_step (demo_step t)" by (simp add: good_step_def demo_step_def)
  from gru_simulation_completes [OF this, of "[3, 4, 24]" 10 4 HRUActorSettings_default 9 5 1 4 "''d''"
      ToleranceSettings_default 0 0 1] show ?thesis
    by (auto simp: HRUActorSettings_default_def)
qed

end
