(* ===== verification/DA_Client.thy ===== *)
theory DA_Client
  imports Job_Actor
begin

text \<open>
  The node actor of the distributed data assimilation mode
  (\<^verbatim>\<open>da_client_actor.hpp\<close>, \<^verbatim>\<open>da_client_actor.cpp\<close>) and the messages it exchanges
  with the data assimilation server.  Every node runs the GRUs of its own range
  one timestep at a time; the server tells it when.  What the file manager, the
  Fortran routines and the operating system answer is an argument; messages are
  effects.
\<close>

subsection \<open>Messages\<close>

text \<open>What a node or the server itself sends to the server.\<close>

datatype da_server_msg =
    Sv_Connect string
  | Sv_File_Access_Ready int
  | Sv_New_Forcing_File int int        \<comment> \<open>number of steps, file\<close>
  | Sv_Update_Hru
  | Sv_Done_Update

text \<open>What the server sends to a node.\<close>

datatype da_client_msg =
    Cl_Node_Gru_Info node_gru_info
  | Cl_Access_Forcing int
  | Cl_Update_Hru int int int          \<comment> \<open>timestep, forcing step, output step\<close>
  | Cl_Finalize

text \<open>What a node's own file access actor and GRU actors send back.\<close>

datatype da_local_msg =
    Lc_File_Access_Initialized int     \<comment> \<open>number of time steps, negative on error\<close>
  | Lc_New_Forcing_File int int
  | Lc_Done_Update
  | Lc_Written int                     \<comment> \<open>error code\<close>

datatype da_client_effect =
    To_DA_Server actor_id da_server_msg
  | Monitor_DA_Server actor_id
  | Spawn_Node_File num_gru_info FileAccessActorSettings
  | Spawn_Node_Batch int int int int HRUActorSettings int string ToleranceSettings
  | To_Node_File file_msg
  | To_Node_Gru actor_id gru_msg
  | Exit_Node_File
  | Quit_DA_Client
  | Exit_Process bool                  \<comment> \<open>\<^verbatim>\<open>exit\<close>, with success or failure\<close>

subsection \<open>State\<close>

datatype da_mode = DA_Serving | DA_Quit | DA_Exited

record da_client =
  dc_host :: string
  dc_settings :: settings
  dc_tol :: ToleranceSettings
  dc_restart :: string
  dc_server :: "actor_id option"
  dc_info :: node_gru_info
  dc_gru_struc :: "gru_struc option"
  dc_num_steps :: int
  dc_forcing_step :: int
  dc_num_steps_ffile :: int
  dc_timestep :: int
  dc_num_gru_done :: int
  dc_mode :: da_mode

definition NodeGruInfo_default :: node_gru_info where
  "NodeGruInfo_default = \<lparr>node_start_gru = - 1, start_gru_sim = - 1, node_num_gru = - 1, num_gru_sim = - 1,
     node_file_gru = - 1\<rparr>"

type_synonym da_client_outcome = "(da_client \<times> da_client_effect list) res"

definition DAClientActor :: "string \<Rightarrow> settings \<Rightarrow> actor_id option \<Rightarrow> string \<Rightarrow> da_client" where
  "DAClientActor host st server restart =
     \<lparr>dc_host = host, dc_settings = st, dc_tol = ToleranceSettings_default, dc_restart = restart,
      dc_server = server, dc_info = NodeGruInfo_default, dc_gru_struc = None, dc_num_steps = 0,
      dc_forcing_step = 1, dc_num_steps_ffile = 0, dc_timestep = 1, dc_num_gru_done = 0,
      dc_mode = DA_Serving\<rparr>"

definition set_node_gru_info :: "node_gru_info \<Rightarrow> da_client \<Rightarrow> da_client" where
  "set_node_gru_info info s = s\<lparr>dc_info := info\<rparr>"

text \<open>A message to a null handle is dropped.\<close>

definition tell_server :: "da_client \<Rightarrow> da_server_msg \<Rightarrow> da_client_effect list" where
  "tell_server s m = (case dc_server s of None \<Rightarrow> [] | Some a \<Rightarrow> [To_DA_Server a m])"

definition da_client_quit :: "da_client \<Rightarrow> da_client_outcome" where
  "da_client_quit s = Inr (s\<lparr>dc_mode := DA_Quit\<rparr>, [Quit_DA_Client])"

text \<open>\<open>remote\<close> is the result of looking up the server at the given host; without a
  behaviour the actor ends.\<close>

definition da_client_make_behavior :: "actor_id option \<Rightarrow> string \<Rightarrow> da_client \<Rightarrow> da_client \<times> da_client_effect list" where
  "da_client_make_behavior remote hname s =
     (if dc_host s \<noteq> []
      then (case remote of
              None \<Rightarrow> (s\<lparr>dc_mode := DA_Quit\<rparr>, [])
            | Some a \<Rightarrow>
                (let s1 = s\<lparr>dc_server := Some a\<rparr>
                 in (s1, Monitor_DA_Server a # tell_server s1 (Sv_Connect hname))))
      else (s, tell_server s (Sv_Connect hname)))"

definition da_server_down :: "da_client \<Rightarrow> da_client \<times> da_client_effect list" where
  "da_server_down s = (s\<lparr>dc_mode := DA_Exited\<rparr>, [Exit_Process False])"

subsection \<open>Initialisation of the node\<close>

record da_env =
  dv_fm_error :: string
  dv_global_error :: int
  dv_dim_error :: int
  dv_file_gru :: int
  dv_file_hru :: int
  dv_num_hru :: int
  dv_icond_error :: int
  dv_alloc_error :: int
  dv_param_error :: int
  dv_restart_error :: int

definition on_node_gru_info :: "da_env \<Rightarrow> node_gru_info \<Rightarrow> da_client \<Rightarrow> da_client_outcome" where
  "on_node_gru_info env info s0 =
     (let s = s0\<lparr>dc_info := info\<rparr> in
      if dv_fm_error env \<noteq> [] then da_client_quit s
      else if dv_global_error env \<noteq> 0 then da_client_quit s
      else (case readDimension (dv_file_gru env) (dv_file_hru env) (dv_num_hru env) (dv_dim_error env)
                   (GruStruc (node_start_gru info) (node_num_gru info)
                      (max_run_attempts (job_actor_settings (dc_settings s)))) of
              (err, g) \<Rightarrow>
                (let s1 = s\<lparr>dc_gru_struc := Some g\<rparr> in
                 if err \<noteq> 0 then da_client_quit s1
                 else if dv_icond_error env \<noteq> 0 then da_client_quit s1
                 else if dv_alloc_error env \<noteq> 0 then da_client_quit s1
                 else if dv_param_error env \<noteq> 0 then da_client_quit s1
                 else if dv_restart_error env \<noteq> 0 then da_client_quit s1
                 else Inr (s1,
                   [Spawn_Node_File
                      \<lparr>start_gru_local = node_start_gru info, start_gru_global = node_start_gru info,
                       num_gru_local = node_num_gru info, num_gru_global = node_num_gru info,
                       ngi_file_gru = gs_file_gru g, use_global_for_data_structures = False\<rparr>
                      (fa_actor_settings (dc_settings s)),
                    To_Node_File (Init_File_Access_Actor (gs_file_gru g) (gs_num_hru g))]))))"

definition with_node_grus :: "da_client \<Rightarrow> (gru_struc \<Rightarrow> 'a res) \<Rightarrow> 'a res" where
  "with_node_grus s f = (case dc_gru_struc s of None \<Rightarrow> Inl Null_Pointer | Some g \<Rightarrow> f g)"

definition node_gru :: "(int \<Rightarrow> actor_id) \<Rightarrow> da_client \<Rightarrow> int \<Rightarrow> int \<Rightarrow> gru" where
  "node_gru ref s start_global start_local =
     GRU start_global start_local (ref start_local) 1 (dc_tol s) True
       (max_run_attempts (job_actor_settings (dc_settings s)))"

text \<open>The \<^verbatim>\<open>while\<close> loop of \<^verbatim>\<open>DAClientActor::spawnGruBatches\<close>; the batch size is at
  least 1 there.\<close>

function node_batch_loop ::
  "(int \<Rightarrow> actor_id) \<Rightarrow> da_client \<Rightarrow> int \<Rightarrow> int \<Rightarrow> int \<Rightarrow> int \<Rightarrow> gru_struc \<Rightarrow>
   gru_struc \<times> da_client_effect list" where
  "node_batch_loop ref s bsize remaining glob loc g =
     (if 0 < remaining \<and> 0 < bsize
      then (let n = min bsize remaining
            in (case node_batch_loop ref s bsize (remaining - n) (glob + n) (loc + n)
                       (addGRU (node_gru ref s glob loc) g) of
                  (g', es) \<Rightarrow>
                    (g', Spawn_Node_Batch glob loc n (dc_num_steps s) (hru_actor_settings (dc_settings s))
                           (num_timesteps_in_output_buffer (fa_actor_settings (dc_settings s)))
                           (dc_restart s) (dc_tol s) # es)))
      else (g, []))"
  by pat_completeness auto
termination
  by (relation "measure (\<lambda>(ref, s, bsize, r, glob, loc, g). nat r)") auto

declare node_batch_loop.simps [simp del]

text \<open>\<open>threads\<close> is \<^verbatim>\<open>std::thread::hardware_concurrency()\<close>.  The range is the one the
  server sent (\<^verbatim>\<open>node_gru_info_\<close>).\<close>

definition da_spawnGruBatches :: "int \<Rightarrow> (int \<Rightarrow> actor_id) \<Rightarrow> da_client \<Rightarrow> da_client_outcome" where
  "da_spawnGruBatches threads ref s =
     with_node_grus s (\<lambda>g.
     let b = batch_size (job_actor_settings (dc_settings s)) in
     if b < 0 \<and> threads = 0 then Inl Division_By_Zero
     else (let bsize = (if b < 0 then \<lceil>real_of_int (gs_num_gru g) / real_of_int threads\<rceil> else b);
               bsize' = (if bsize \<le> 1 then 1 else bsize)
           in (case node_batch_loop ref s bsize' (node_num_gru (dc_info s)) (node_start_gru (dc_info s)) 1 g of
                 (g', es) \<Rightarrow> Inr (s\<lparr>dc_gru_struc := Some g'\<rparr>, es))))"

definition da_file_access_initialized ::
  "int \<Rightarrow> (int \<Rightarrow> actor_id) \<Rightarrow> int \<Rightarrow> da_client \<Rightarrow> da_client_outcome" where
  "da_file_access_initialized threads ref n s =
     (if n < 0 then da_client_quit s
      else res_bind (da_spawnGruBatches threads ref (s\<lparr>dc_num_steps := n\<rparr>)) (\<lambda>(s1, es).
             Inr (s1, es @ tell_server s1 (Sv_File_Access_Ready n))))"

subsection \<open>Time steps\<close>

definition to_node_grus :: "gru_struc \<Rightarrow> gru_msg \<Rightarrow> da_client_effect list" where
  "to_node_grus g m = map (\<lambda>x. To_Node_Gru (actor_ref x) m) (gru_info g)"

definition on_access_forcing_file :: "int \<Rightarrow> da_client \<Rightarrow> da_client_outcome" where
  "on_access_forcing_file i s = Inr (s, [To_Node_File (Fa_Access_Forcing i)])"

definition on_node_forcing_file :: "int \<Rightarrow> int \<Rightarrow> da_client \<Rightarrow> da_client_outcome" where
  "on_node_forcing_file n next_file s =
     (let s1 = s\<lparr>dc_num_steps_ffile := n\<rparr>
      in with_node_grus s1 (\<lambda>g.
           Inr (s1, to_node_grus g (Update_TimeZoneOffset next_file) @
                    tell_server s1 (Sv_New_Forcing_File n next_file))))"

definition on_node_update :: "int \<Rightarrow> int \<Rightarrow> int \<Rightarrow> da_client \<Rightarrow> da_client_outcome" where
  "on_node_update t f k s0 =
     (let s = s0\<lparr>dc_timestep := t, dc_forcing_step := f\<rparr>
      in if f > dc_num_steps_ffile s then da_client_quit s
         else with_node_grus s (\<lambda>g. Inr (s, to_node_grus g (Update_Hru_Step t f k))))"

definition on_node_done_update :: "da_client \<Rightarrow> da_client_outcome" where
  "on_node_done_update s0 =
     with_node_grus s0 (\<lambda>g.
       let s = s0\<lparr>dc_num_gru_done := dc_num_gru_done s0 + 1\<rparr>
       in if dc_num_gru_done s \<ge> int (length (gru_info g))
          then res_bind (if print_output (hru_actor_settings (dc_settings s))
                         then cpp_mod (dc_timestep s) (output_frequency (hru_actor_settings (dc_settings s)))
                         else Inr 0)
                 (\<lambda>_. Inr (s\<lparr>dc_num_gru_done := 0\<rparr>, [To_Node_File (Fa_Write_Output 1)]))
          else Inr (s, []))"

definition on_node_written :: "int \<Rightarrow> da_client \<Rightarrow> da_client_outcome" where
  "on_node_written err s =
     (if err \<noteq> 0
      then with_node_grus s (\<lambda>g.
             Inr (s\<lparr>dc_mode := DA_Quit\<rparr>, to_node_grus g Gru_Exit @ [Exit_Node_File, Quit_DA_Client]))
      else Inr (s, tell_server s Sv_Done_Update))"

definition on_node_finalize :: "da_client \<Rightarrow> da_client_outcome" where
  "on_node_finalize s = Inr (s\<lparr>dc_mode := DA_Exited\<rparr>, [Exit_Process True])"

fun da_client_receive :: "da_env \<Rightarrow> da_client_msg \<Rightarrow> da_client \<Rightarrow> da_client_outcome" where
  "da_client_receive env (Cl_Node_Gru_Info info) s = on_node_gru_info env info s"
| "da_client_receive env (Cl_Access_Forcing i) s = on_access_forcing_file i s"
| "da_client_receive env (Cl_Update_Hru t f k) s = on_node_update t f k s"
| "da_client_receive env Cl_Finalize s = on_node_finalize s"

fun da_local_receive :: "int \<Rightarrow> (int \<Rightarrow> actor_id) \<Rightarrow> da_local_msg \<Rightarrow> da_client \<Rightarrow> da_client_outcome" where
  "da_local_receive threads ref (Lc_File_Access_Initialized n) s = da_file_access_initialized threads ref n s"
| "da_local_receive threads ref (Lc_New_Forcing_File n i) s = on_node_forcing_file n i s"
| "da_local_receive threads ref Lc_Done_Update s = on_node_done_update s"
| "da_local_receive threads ref (Lc_Written err) s = on_node_written err s"

end
