(* ===== verification/DA_Server.thy ===== *)
theory DA_Server
  imports DA_Client "HOL-Library.Multiset" "HOL-Library.Sublist"
begin

text \<open>
  The server of the distributed data assimilation mode
  (\<^verbatim>\<open>da_server_actor.hpp\<close>, \<^verbatim>\<open>da_server_actor.cpp\<close>): it gives every node that
  connects a range of GRUs and drives all nodes through the simulation in
  lockstep, one forcing file and one timestep at a time.  The contract the server
  needs from a node is a locale; the node actor is shown to meet it.
\<close>

subsection \<open>State\<close>

datatype da_server_effect =
    Monitor_Client actor_id
  | Spawn_Local_Client settings
  | To_Client actor_id da_client_msg
  | To_Own da_server_msg
  | Quit_DA_Server
  | Exit_DA_Process

record da_server =
  sv_start_gru :: int
  sv_num_gru :: int
  sv_settings :: settings
  sv_file_gru :: int
  sv_gru_struc :: "gru_struc option"
  connected_clients :: "actor_id list"
  num_clients_ready :: int
  sv_iFile :: int
  num_steps_ffile :: int
  num_timesteps :: int
  sv_timestep :: int
  sv_forcing_step :: int
  sv_output_step :: int
  sv_done :: bool
  clients_exited :: int
  sv_mode :: da_mode

type_synonym da_server_outcome = "(da_server \<times> da_server_effect list) res"

definition DAServerActor :: "int \<Rightarrow> int \<Rightarrow> settings \<Rightarrow> da_server" where
  "DAServerActor start num st =
     \<lparr>sv_start_gru = start, sv_num_gru = num, sv_settings = st, sv_file_gru = 0, sv_gru_struc = None,
      connected_clients = [], num_clients_ready = 0, sv_iFile = 1, num_steps_ffile = 0,
      num_timesteps = 0, sv_timestep = 1, sv_forcing_step = 1, sv_output_step = 1, sv_done = False,
      clients_exited = 0, sv_mode = DA_Serving\<rparr>"

definition nodes :: "da_server \<Rightarrow> int" where
  "nodes s = num_nodes (distributed_settings (sv_settings s))"

text \<open>\<open>published\<close> is the result of publishing the actor, \<open>file_gru\<close> what the file
  manager reads from the attribute file.\<close>

definition da_server_make_behavior :: "bool \<Rightarrow> int \<Rightarrow> da_server \<Rightarrow> da_server_outcome" where
  "da_server_make_behavior published file_gru s =
     (if \<not> published then Inr (s\<lparr>sv_mode := DA_Quit\<rparr>, [])
      else let s1 = s\<lparr>sv_file_gru := file_gru\<rparr> in
           if file_gru < 0 then Inr (s1\<lparr>sv_mode := DA_Quit\<rparr>, [Quit_DA_Server])
           else if file_gru < sv_num_gru s + sv_start_gru s - 1
           then Inr (s1\<lparr>sv_mode := DA_Quit\<rparr>, [Quit_DA_Server])
           else res_bind (setNodeGruInfo (nodes s)
                            (GruStruc (sv_start_gru s) (sv_num_gru s)
                               (max_run_attempts (job_actor_settings (sv_settings s))))) (\<lambda>g.
                  Inr (s1\<lparr>sv_gru_struc := Some g\<rparr>, [Spawn_Local_Client (sv_settings s)])))"

subsection \<open>Handlers\<close>

definition to_clients :: "da_server \<Rightarrow> da_client_msg \<Rightarrow> da_server_effect list" where
  "to_clients s m = map (\<lambda>a. To_Client a m) (connected_clients s)"

definition on_da_connect :: "actor_id \<Rightarrow> da_server \<Rightarrow> da_server_outcome" where
  "on_da_connect a s =
     (case sv_gru_struc s of
        None \<Rightarrow> Inl Null_Pointer
      | Some g \<Rightarrow>
          res_bind (getNodeGruInfo (int (length (connected_clients s))) g) (\<lambda>info.
            Inr (s\<lparr>connected_clients := connected_clients s @ [a]\<rparr>,
                 [Monitor_Client a, To_Client a (Cl_Node_Gru_Info info)])))"

text \<open>The callback of the monitor on a client.\<close>

definition on_da_client_down :: "da_server \<Rightarrow> da_server \<times> da_server_effect list" where
  "on_da_client_down s =
     (if \<not> sv_done s then (s\<lparr>sv_mode := DA_Quit\<rparr>, [Quit_DA_Server])
      else let s1 = s\<lparr>clients_exited := clients_exited s + 1\<rparr>
           in if clients_exited s1 = nodes s1 then (s1\<lparr>sv_mode := DA_Exited\<rparr>, [Exit_DA_Process])
              else (s1, []))"

definition on_da_file_access_ready :: "int \<Rightarrow> da_server \<Rightarrow> da_server_outcome" where
  "on_da_file_access_ready n s0 =
     (let s = s0\<lparr>num_timesteps := n, num_clients_ready := num_clients_ready s0 + 1\<rparr>
      in if num_clients_ready s = nodes s
         then Inr (s\<lparr>num_clients_ready := 0\<rparr>, to_clients s (Cl_Access_Forcing (sv_iFile s)))
         else Inr (s, []))"

definition on_da_new_forcing_file :: "int \<Rightarrow> int \<Rightarrow> da_server \<Rightarrow> da_server_outcome" where
  "on_da_new_forcing_file n next_file s0 =
     (let s = s0\<lparr>num_clients_ready := num_clients_ready s0 + 1, sv_iFile := next_file,
                num_steps_ffile := n, sv_forcing_step := 1\<rparr>
      in if num_clients_ready s = nodes s
         then Inr (s\<lparr>num_clients_ready := 0\<rparr>, [To_Own Sv_Update_Hru])
         else Inr (s, []))"

definition on_da_update_hru :: "da_server \<Rightarrow> da_server_outcome" where
  "on_da_update_hru s =
     Inr (s, to_clients s (Cl_Update_Hru (sv_timestep s) (sv_forcing_step s) (sv_output_step s)))"

definition on_da_done_update :: "da_server \<Rightarrow> da_server_outcome" where
  "on_da_done_update s0 =
     (let s = s0\<lparr>num_clients_ready := num_clients_ready s0 + 1\<rparr>
      in if num_clients_ready s = nodes s
         then let s1 = s\<lparr>num_clients_ready := 0, sv_timestep := sv_timestep s + 1,
                         sv_forcing_step := sv_forcing_step s + 1, sv_output_step := 1\<rparr>
              in if sv_timestep s1 > num_timesteps s1
                 then Inr (s1\<lparr>sv_done := True\<rparr>, to_clients s1 Cl_Finalize)
                 else if sv_forcing_step s1 > num_steps_ffile s1
                 then Inr (s1, to_clients s1 (Cl_Access_Forcing (sv_iFile s1 + 1)))
                 else Inr (s1, [To_Own Sv_Update_Hru])
         else Inr (s, []))"

text \<open>\<open>a\<close> is the sender of the message.\<close>

fun da_server_receive :: "actor_id \<Rightarrow> da_server_msg \<Rightarrow> da_server \<Rightarrow> da_server_outcome" where
  "da_server_receive a (Sv_Connect host) s = on_da_connect a s"
| "da_server_receive a (Sv_File_Access_Ready n) s = on_da_file_access_ready n s"
| "da_server_receive a (Sv_New_Forcing_File n i) s = on_da_new_forcing_file n i s"
| "da_server_receive a Sv_Update_Hru s = on_da_update_hru s"
| "da_server_receive a Sv_Done_Update s = on_da_done_update s"

end
