(* ===== verification/DA_System.thy ===== *)
theory DA_System
  imports DA_Server Runs
begin

text \<open>
  The distributed data assimilation run: the server and its nodes, with every
  message in flight in a multiset, so that deliveries interleave in any order.
  The locale \<open>da_node\<close> states what the server relies on in a node; inside it the
  lockstep of the nodes is proved once, for any implementation of a node.
\<close>

subsection \<open>The network\<close>

text \<open>The server and the node it spawned itself are actors of one process; every other node
  is a process of its own.\<close>

record 'c da_net =
  net_server :: da_server
  net_nodes :: "actor_id \<Rightarrow> 'c"
  to_nodes :: "(actor_id \<times> da_client_msg) multiset"
  to_server :: "(actor_id \<times> da_server_msg) multiset"
  net_own :: "(actor_id \<times> da_server_msg) multiset"     \<comment> \<open>what the server sent to itself\<close>
  net_log :: "actor_id \<Rightarrow> da_client_msg list"           \<comment> \<open>what each node has worked off\<close>
  net_local :: actor_id                                \<comment> \<open>the node the server spawned\<close>
  net_down :: bool                                     \<comment> \<open>the process of the server has ended\<close>
  net_notices :: "actor_id multiset"                   \<comment> \<open>ended nodes the monitors are to report\<close>
  net_lost :: "actor_id set"                           \<comment> \<open>nodes that ended because they lost the server\<close>

definition sent_to_nodes :: "da_server_effect \<Rightarrow> (actor_id \<times> da_client_msg) list" where
  "sent_to_nodes e = (case e of To_Client a m \<Rightarrow> [(a, m)] | _ \<Rightarrow> [])"

definition sent_to_own :: "da_server_effect \<Rightarrow> (actor_id \<times> da_server_msg) list" where
  "sent_to_own e = (case e of To_Own m \<Rightarrow> [(0, m)] | _ \<Rightarrow> [])"

text \<open>The server handles a message.\<close>

definition net_serve :: "actor_id \<Rightarrow> da_server_msg \<Rightarrow> 'c da_net \<Rightarrow> 'c da_net res" where
  "net_serve a m x =
     res_bind (da_server_receive a m (net_server x)) (\<lambda>(s, es).
       Inr (x\<lparr>net_server := s, to_nodes := to_nodes x + mset (concat (map sent_to_nodes es)),
              net_own := net_own x + mset (concat (map sent_to_own es))\<rparr>))"

text \<open>Node \<open>a\<close> works off a message; \<open>node\<close> gives its new state, its messages to
  the server, and whether it calls \<^verbatim>\<open>exit\<close>.\<close>

type_synonym 'c node_fun = "actor_id \<Rightarrow> da_client_msg \<Rightarrow> 'c \<Rightarrow> 'c \<times> da_server_msg list \<times> bool"

definition net_deliver :: "'c node_fun \<Rightarrow> actor_id \<Rightarrow> da_client_msg \<Rightarrow> 'c da_net \<Rightarrow> 'c da_net" where
  "net_deliver node a m x =
     (case node a m (net_nodes x a) of (c, ms, ex) \<Rightarrow>
        x\<lparr>net_nodes := (net_nodes x)(a := c), to_server := to_server x + mset (map (Pair a) ms),
          net_log := (net_log x)(a := net_log x a @ [m])\<rparr>)"

text \<open>The end of the server's process: nobody is left to handle what was sent to the server
  and to its own node.\<close>

definition net_stop :: "'c da_net \<Rightarrow> 'c da_net" where
  "net_stop x = x\<lparr>net_down := True, to_server := {#}, net_own := {#}, net_notices := {#},
     to_nodes := filter_mset (\<lambda>p. fst p \<noteq> net_local x) (to_nodes x)\<rparr>"

text \<open>The call of \<^verbatim>\<open>exit\<close> ends the whole process: for the server's own node that is the process of
  the server, any other node goes alone and the server's monitor notices it.\<close>

definition net_exit :: "actor_id \<Rightarrow> 'c da_net \<Rightarrow> 'c da_net" where
  "net_exit a x =
     (if a = net_local x then net_stop x
      else x\<lparr>to_nodes := filter_mset (\<lambda>p. fst p \<noteq> a) (to_nodes x),
             net_notices := (if net_down x then net_notices x else add_mset a (net_notices x))\<rparr>)"

definition net_work :: "'c node_fun \<Rightarrow> actor_id \<Rightarrow> da_client_msg \<Rightarrow> 'c da_net \<Rightarrow> 'c da_net" where
  "net_work node a m x =
     (if snd (snd (node a m (net_nodes x a))) then net_exit a (net_deliver node a m x)
      else net_deliver node a m x)"

text \<open>The callback of a monitor; a server that quits or exits handles nothing more.\<close>

definition net_notice :: "'c da_net \<Rightarrow> 'c da_net" where
  "net_notice x =
     (case on_da_client_down (net_server x) of (s, es) \<Rightarrow>
        if sv_mode s = DA_Serving then x\<lparr>net_server := s\<rparr> else net_stop (x\<lparr>net_server := s\<rparr>))"

text \<open>The last rule: once the server's process has ended, a node that still has a message on
  its way may notice that first; then it exits.\<close>

inductive da_net_step :: "'c node_fun \<Rightarrow> 'c da_net \<Rightarrow> 'c da_net res \<Rightarrow> bool" for node where
  work: "(a, m) \<in># to_nodes x \<Longrightarrow>
    da_net_step node x (Inr (net_work node a m (x\<lparr>to_nodes := to_nodes x - {#(a, m)#}\<rparr>)))"
| serve: "(a, m) \<in># to_server x \<Longrightarrow>
    da_net_step node x (net_serve a m (x\<lparr>to_server := to_server x - {#(a, m)#}\<rparr>))"
| own: "(a, m) \<in># net_own x \<Longrightarrow>
    da_net_step node x (net_serve a m (x\<lparr>net_own := net_own x - {#(a, m)#}\<rparr>))"
| notice: "a \<in># net_notices x \<Longrightarrow>
    da_net_step node x (Inr (net_notice (x\<lparr>net_notices := net_notices x - {#a#}\<rparr>)))"
| lose: "net_down x \<Longrightarrow> (a, m) \<in># to_nodes x \<Longrightarrow>
    da_net_step node x (Inr (x\<lparr>to_nodes := filter_mset (\<lambda>p. fst p \<noteq> a) (to_nodes x), net_lost := insert a (net_lost x)\<rparr>))"

inductive_cases da_net_stepE: "da_net_step node x r"

text \<open>Runs with their number of deliveries.\<close>

inductive da_net_run :: "'c node_fun \<Rightarrow> 'c da_net \<Rightarrow> nat \<Rightarrow> 'c da_net \<Rightarrow> bool" for node x0 where
  start: "da_net_run node x0 0 x0"
| step: "da_net_run node x0 n x \<Longrightarrow> da_net_step node x (Inr y) \<Longrightarrow> da_net_run node x0 (Suc n) y"

text \<open>The nodes \<open>A\<close> have asked for a connection; \<open>l\<close> is the node the server has spawned.\<close>

definition da_net_start :: "da_server \<Rightarrow> (actor_id \<Rightarrow> 'c) \<Rightarrow> (actor_id \<Rightarrow> string) \<Rightarrow> actor_id set \<Rightarrow> actor_id \<Rightarrow> 'c da_net" where
  "da_net_start s c host A l =
     \<lparr>net_server = s, net_nodes = c, to_nodes = {#},
      to_server = image_mset (\<lambda>a. (a, Sv_Connect (host a))) (mset_set A), net_own = {#},
      net_log = (\<lambda>_. []), net_local = l, net_down = False, net_notices = {#}, net_lost = {}\<rparr>"

text \<open>Nothing is left to deliver.\<close>

definition da_idle :: "'c da_net \<Rightarrow> bool" where
  "da_idle x \<longleftrightarrow> to_nodes x = {#} \<and> to_server x = {#} \<and> net_own x = {#} \<and> net_notices x = {#}"

lemma da_idle_step: "\<not> da_idle x \<Longrightarrow> \<exists>r. da_net_step node x r"
  unfolding da_idle_def by (metis da_net_step.intros(1-4) multiset_nonemptyE surj_pair)

subsection \<open>The schedule\<close>

text \<open>The commands every node is to see from forcing file \<open>i\<close>, timestep \<open>t\<close> and
  forcing step \<open>f\<close> on, where \<open>f = 0\<close> stands for a file that is not loaded yet:
  the sequential reference for the server.\<close>

function da_schedule :: "int \<Rightarrow> (int \<Rightarrow> int) \<Rightarrow> int \<Rightarrow> int \<Rightarrow> int \<Rightarrow> da_client_msg list" where
  "da_schedule T steps i t f =
     (if f = 0 then Cl_Access_Forcing i # da_schedule T steps i t 1
      else Cl_Update_Hru t f 1 #
        (if t + 1 > T then [Cl_Finalize]
         else if f + 1 > steps i then da_schedule T steps (i + 1) (t + 1) 0
         else da_schedule T steps i (t + 1) (f + 1)))"
  by pat_completeness auto
termination
  by (relation "measure (\<lambda>(T, steps, i, t, f). nat (2 * (T - t)) + (if f = 0 then 1 else 0))") auto

declare da_schedule.simps [simp del]

definition update_steps :: "da_client_msg list \<Rightarrow> int list" where
  "update_steps ms = concat (map (\<lambda>m. case m of Cl_Update_Hru t f k \<Rightarrow> [t] | _ \<Rightarrow> []) ms)"

lemma update_steps_simps [simp]:
  "update_steps [] = []" "update_steps (Cl_Update_Hru t f k # ms) = t # update_steps ms"
  "update_steps (Cl_Access_Forcing i # ms) = update_steps ms"
  "update_steps (Cl_Finalize # ms) = update_steps ms"
  by (simp_all add: update_steps_def)

lemma update_steps_schedule:
  "t \<le> T \<Longrightarrow> update_steps (da_schedule T steps i t f) = [t .. T]"
proof (induction T steps i t f rule: da_schedule.induct)
  case (1 T steps i t f)
  have "[t .. T] = t # [t + 1 .. T]" using 1(4) by (simp add: upto_rec1)
  moreover have "t + 1 > T \<Longrightarrow> [t + 1 .. T] = []" by simp
  ultimately show ?case using 1 by (subst da_schedule.simps) auto
qed

subsection \<open>One message per actor\<close>

definition tokens :: "('a \<Rightarrow> 'm) \<Rightarrow> 'a set \<Rightarrow> ('a \<times> 'm) multiset" where
  "tokens m A = image_mset (\<lambda>a. (a, m a)) (mset_set A)"

lemma tokens_empty [simp]: "tokens m {} = {#}"
  by (simp add: tokens_def)

lemma tokens_mem [simp]: "finite A \<Longrightarrow> (a, k) \<in># tokens m A \<longleftrightarrow> a \<in> A \<and> k = m a"
  by (auto simp: tokens_def)

lemma tokens_remove:
  assumes "finite A" and "a \<in> A"
  shows "tokens m A - {#(a, m a)#} = tokens m (A - {a})"
proof -
  have "mset_set A = add_mset a (mset_set (A - {a}))" using assms by (simp add: mset_set.remove)
  then show ?thesis by (simp add: tokens_def)
qed

lemma tokens_insert:
  "finite A \<Longrightarrow> a \<notin> A \<Longrightarrow> add_mset (a, m a) (tokens m A) = tokens m (insert a A)"
  by (simp add: tokens_def)

lemma tokens_cong: "(\<And>a. a \<in> A \<Longrightarrow> m a = m' a) \<Longrightarrow> tokens m A = tokens m' A"
  unfolding tokens_def by (cases "finite A") (auto intro!: image_mset_cong)

lemma tokens_eq_empty [simp]: "finite A \<Longrightarrow> tokens m A = {#} \<longleftrightarrow> A = {}"
  by (simp add: tokens_def mset_set_empty_iff)

lemma to_clients_tokens:
  "distinct (connected_clients s) \<Longrightarrow>
   mset (concat (map sent_to_nodes (to_clients s m))) = tokens (\<lambda>_. m) (set (connected_clients s))"
  by (simp add: to_clients_def sent_to_nodes_def o_def tokens_def mset_set_set)

lemma to_clients_own [simp]: "concat (map sent_to_own (to_clients s m)) = []"
  by (simp add: to_clients_def sent_to_own_def)

subsection \<open>The contract of a node\<close>

text \<open>\<open>fresh\<close>: the node has sent its connection request; \<open>loaded k\<close>: it is ready, with
  a forcing file of \<open>k\<close> steps.\<close>

locale da_node =
  fixes node :: "'c node_fun" and fresh :: "'c \<Rightarrow> bool" and loaded :: "int \<Rightarrow> 'c \<Rightarrow> bool"
    and T :: int and steps :: "int \<Rightarrow> int"
  assumes info_law: "fresh c \<Longrightarrow> 0 < node_num_gru info \<Longrightarrow>
      \<exists>c'. node a (Cl_Node_Gru_Info info) c = (c', [Sv_File_Access_Ready T], False) \<and> loaded 0 c'"
    and forcing_law: "loaded k c \<Longrightarrow>
      \<exists>c'. node a (Cl_Access_Forcing i) c = (c', [Sv_New_Forcing_File (steps i) i], False) \<and> loaded (steps i) c'"
    and update_law: "loaded k c \<Longrightarrow> f \<le> k \<Longrightarrow>
      \<exists>c'. node a (Cl_Update_Hru t f 1) c = (c', [Sv_Done_Update], False) \<and> loaded k c'"
    and finalize_law: "loaded k c \<Longrightarrow> \<exists>c'. node a Cl_Finalize c = (c', [], True)"
    and steps_pos: "1 \<le> steps i"
    and T_pos: "1 \<le> T"
begin

definition plan :: "int \<Rightarrow> int \<Rightarrow> int \<Rightarrow> da_client_msg list" where
  "plan i t f = da_schedule T steps i t f"

definition reply :: "int \<Rightarrow> int \<Rightarrow> da_server_msg" where
  "reply i f = (if f = 0 then Sv_New_Forcing_File (steps i) i else Sv_Done_Update)"

text \<open>What stays true once all \<open>N\<close> nodes are connected.\<close>

definition base :: "nat \<Rightarrow> node_gru_info list \<Rightarrow> (actor_id \<Rightarrow> node_gru_info) \<Rightarrow> da_server \<Rightarrow> bool" where
  "base N infos rng s \<longleftrightarrow> nodes s = int N \<and> 0 < N \<and> distinct (connected_clients s) \<and>
     length (connected_clients s) = N \<and> num_timesteps s = T \<and> sv_output_step s = 1 \<and>
     map rng (connected_clients s) = infos"

text \<open>The server stands at file \<open>i\<close>, timestep \<open>t\<close>, forcing step \<open>f\<close>.\<close>

definition stands :: "int \<Rightarrow> int \<Rightarrow> int \<Rightarrow> da_server \<Rightarrow> bool" where
  "stands i t f s \<longleftrightarrow> 0 \<le> f \<and> t \<le> T \<and> sv_timestep s = t \<and>
     (f \<noteq> 0 \<longrightarrow> sv_iFile s = i \<and> sv_forcing_step s = f \<and> num_steps_ffile s = steps i \<and> f \<le> steps i)"

definition parts :: "'a set \<Rightarrow> 'a set \<Rightarrow> 'a set \<Rightarrow> 'a set \<Rightarrow> bool" where
  "parts S A B C \<longleftrightarrow> finite S \<and> S = A \<union> B \<union> C \<and> A \<inter> B = {} \<and> A \<inter> C = {} \<and> B \<inter> C = {}"

text \<open>The nodes connect: \<open>U\<close> have not been heard yet, \<open>A\<close> are to initialise, the answers of
  \<open>B\<close> are on their way, and \<open>C\<close> are counted.\<close>

definition conn_at :: "nat \<Rightarrow> node_gru_info list \<Rightarrow> (actor_id \<Rightarrow> node_gru_info) \<Rightarrow> (actor_id \<Rightarrow> string) \<Rightarrow> gru_struc \<Rightarrow>
   actor_id set \<Rightarrow> actor_id set \<Rightarrow> actor_id set \<Rightarrow> actor_id set \<Rightarrow> da_server \<Rightarrow> 'c da_net \<Rightarrow> bool" where
  "conn_at N infos rng host g U A B C s x \<longleftrightarrow>
     to_nodes x = tokens (\<lambda>a. Cl_Node_Gru_Info (rng a)) A \<and>
     to_server x = tokens (\<lambda>a. Sv_Connect (host a)) U + tokens (\<lambda>_. Sv_File_Access_Ready T) B \<and>
     net_own x = {#} \<and>
     s = net_server x \<and>
     parts (set (connected_clients s)) A B C \<and>
     finite U \<and>
     U \<inter> set (connected_clients s) = {} \<and>
     card U + length (connected_clients s) = N \<and>
     distinct (connected_clients s) \<and>
     nodes s = int N \<and>
     0 < N \<and>
     num_clients_ready s = int (card C) \<and>
     sv_iFile s = 1 \<and>
     sv_timestep s = 1 \<and>
     sv_output_step s = 1 \<and>
     sv_gru_struc s = Some g \<and>
     node_gru_info_list g = infos \<and>
     length infos = N \<and>
     (\<forall>i \<in> set infos. 0 < node_num_gru i) \<and>
     map rng (connected_clients s) = take (length (connected_clients s)) infos \<and>
     (\<forall>a \<in> A \<union> U. net_log x a = [] \<and> fresh (net_nodes x a)) \<and>
     (\<forall>a \<in> B \<union> C. net_log x a = [Cl_Node_Gru_Info (rng a)] \<and> loaded 0 (net_nodes x a)) \<and>
     card C < N"

lemma conn_atI:
  assumes "to_nodes x = tokens (\<lambda>a. Cl_Node_Gru_Info (rng a)) A"
    "to_server x = tokens (\<lambda>a. Sv_Connect (host a)) U + tokens (\<lambda>_. Sv_File_Access_Ready T) B"
    "net_own x = {#}"
    "s = net_server x"
    "parts (set (connected_clients s)) A B C"
    "finite U"
    "U \<inter> set (connected_clients s) = {}"
    "card U + length (connected_clients s) = N"
    "distinct (connected_clients s)"
    "nodes s = int N"
    "0 < N"
    "num_clients_ready s = int (card C)"
    "sv_iFile s = 1"
    "sv_timestep s = 1"
    "sv_output_step s = 1"
    "sv_gru_struc s = Some g"
    "node_gru_info_list g = infos"
    "length infos = N"
    "\<forall>i \<in> set infos. 0 < node_num_gru i"
    "map rng (connected_clients s) = take (length (connected_clients s)) infos"
    "\<forall>a \<in> A \<union> U. net_log x a = [] \<and> fresh (net_nodes x a)"
    "\<forall>a \<in> B \<union> C. net_log x a = [Cl_Node_Gru_Info (rng a)] \<and> loaded 0 (net_nodes x a)"
    "card C < N"
  shows "conn_at N infos rng host g U A B C s x"
  using assms unfolding conn_at_def by blast

lemma conn_atD:
  assumes "conn_at N infos rng host g U A B C s x"
  shows "to_nodes x = tokens (\<lambda>a. Cl_Node_Gru_Info (rng a)) A"
    "to_server x = tokens (\<lambda>a. Sv_Connect (host a)) U + tokens (\<lambda>_. Sv_File_Access_Ready T) B"
    "net_own x = {#}"
    "s = net_server x"
    "parts (set (connected_clients s)) A B C"
    "finite U"
    "U \<inter> set (connected_clients s) = {}"
    "card U + length (connected_clients s) = N"
    "distinct (connected_clients s)"
    "nodes s = int N"
    "0 < N"
    "num_clients_ready s = int (card C)"
    "sv_iFile s = 1"
    "sv_timestep s = 1"
    "sv_output_step s = 1"
    "sv_gru_struc s = Some g"
    "node_gru_info_list g = infos"
    "length infos = N"
    "\<forall>i \<in> set infos. 0 < node_num_gru i"
    "map rng (connected_clients s) = take (length (connected_clients s)) infos"
    "\<forall>a \<in> A \<union> U. net_log x a = [] \<and> fresh (net_nodes x a)"
    "\<forall>a \<in> B \<union> C. net_log x a = [Cl_Node_Gru_Info (rng a)] \<and> loaded 0 (net_nodes x a)"
    "card C < N"
  using assms unfolding conn_at_def by blast+

text \<open>The nodes work off command \<open>m\<close>, after \<open>P\<close> and before \<open>r\<close>: \<open>A\<close> have it ahead, the answers of
  \<open>B\<close> are on their way, and \<open>C\<close> are counted.\<close>

definition work_at :: "nat \<Rightarrow> node_gru_info list \<Rightarrow> int \<Rightarrow> int \<Rightarrow> int \<Rightarrow> da_client_msg \<Rightarrow> da_client_msg list \<Rightarrow>
   da_client_msg list \<Rightarrow> (actor_id \<Rightarrow> node_gru_info) \<Rightarrow> actor_id set \<Rightarrow> actor_id set \<Rightarrow> actor_id set \<Rightarrow> 'c da_net \<Rightarrow> bool" where
  "work_at N infos i t f m r P rng A B C x \<longleftrightarrow>
     plan i t f = m # r \<and>
     to_nodes x = tokens (\<lambda>_. m) A \<and>
     to_server x = tokens (\<lambda>_. reply i f) B \<and>
     net_own x = {#} \<and>
     base N infos rng (net_server x) \<and>
     stands i t f (net_server x) \<and>
     parts (set (connected_clients (net_server x))) A B C \<and>
     num_clients_ready (net_server x) = int (card C) \<and>
     plan 1 1 0 = P @ plan i t f \<and>
     (\<forall>a \<in> A. net_log x a = Cl_Node_Gru_Info (rng a) # P \<and> (\<exists>k. loaded k (net_nodes x a) \<and> (f \<noteq> 0 \<longrightarrow> k = steps i))) \<and>
     (\<forall>a \<in> B \<union> C. net_log x a = Cl_Node_Gru_Info (rng a) # P @ [m] \<and> loaded (steps i) (net_nodes x a)) \<and>
     B \<union> A \<noteq> {}"

lemma work_atI:
  assumes "plan i t f = m # r"
    "to_nodes x = tokens (\<lambda>_. m) A"
    "to_server x = tokens (\<lambda>_. reply i f) B"
    "net_own x = {#}"
    "base N infos rng (net_server x)"
    "stands i t f (net_server x)"
    "parts (set (connected_clients (net_server x))) A B C"
    "num_clients_ready (net_server x) = int (card C)"
    "plan 1 1 0 = P @ plan i t f"
    "\<forall>a \<in> A. net_log x a = Cl_Node_Gru_Info (rng a) # P \<and> (\<exists>k. loaded k (net_nodes x a) \<and> (f \<noteq> 0 \<longrightarrow> k = steps i))"
    "\<forall>a \<in> B \<union> C. net_log x a = Cl_Node_Gru_Info (rng a) # P @ [m] \<and> loaded (steps i) (net_nodes x a)"
    "B \<union> A \<noteq> {}"
  shows "work_at N infos i t f m r P rng A B C x"
  using assms unfolding work_at_def by blast

lemma work_atD:
  assumes "work_at N infos i t f m r P rng A B C x"
  shows "plan i t f = m # r"
    "to_nodes x = tokens (\<lambda>_. m) A"
    "to_server x = tokens (\<lambda>_. reply i f) B"
    "net_own x = {#}"
    "base N infos rng (net_server x)"
    "stands i t f (net_server x)"
    "parts (set (connected_clients (net_server x))) A B C"
    "num_clients_ready (net_server x) = int (card C)"
    "plan 1 1 0 = P @ plan i t f"
    "\<forall>a \<in> A. net_log x a = Cl_Node_Gru_Info (rng a) # P \<and> (\<exists>k. loaded k (net_nodes x a) \<and> (f \<noteq> 0 \<longrightarrow> k = steps i))"
    "\<forall>a \<in> B \<union> C. net_log x a = Cl_Node_Gru_Info (rng a) # P @ [m] \<and> loaded (steps i) (net_nodes x a)"
    "B \<union> A \<noteq> {}"
  using assms unfolding work_at_def by blast+

inductive net_inv :: "nat \<Rightarrow> node_gru_info list \<Rightarrow> nat \<Rightarrow> 'c da_net \<Rightarrow> bool" for N infos where
  connecting: "conn_at N infos rng host g U A B C s x \<Longrightarrow>
    v = 3 * card U + 2 * card A + card B + (2 * N + 1) * length (plan 1 1 0) \<Longrightarrow> net_inv N infos v x"
| working: "work_at N infos i t f m r P rng A B C x \<Longrightarrow>
    v = 2 * card A + card B + (2 * N + 1) * length r \<Longrightarrow> net_inv N infos v x"
| launching: "\<lbrakk>f \<noteq> 0; to_nodes x = {#}; to_server x = {#}; net_own x = {#(0, Sv_Update_Hru)#};
      s = net_server x; base N infos rng s; stands i t f s; num_clients_ready s = 0;
      plan 1 1 0 = P @ plan i t f;
      \<forall>a \<in> set (connected_clients s). net_log x a = Cl_Node_Gru_Info (rng a) # P \<and>
        loaded (steps i) (net_nodes x a);
      v = (2 * N + 1) * length (plan i t f)\<rbrakk> \<Longrightarrow> net_inv N infos v x"
| finishing: "\<lbrakk>to_nodes x = tokens (\<lambda>_. Cl_Finalize) A; to_server x = {#}; net_own x = {#};
      s = net_server x; base N infos rng s; A \<subseteq> set (connected_clients s);
      plan 1 1 0 = P @ [Cl_Finalize];
      \<forall>a \<in> A. net_log x a = Cl_Node_Gru_Info (rng a) # P \<and> (\<exists>k. loaded k (net_nodes x a));
      \<forall>a \<in> set (connected_clients s) - A. net_log x a = Cl_Node_Gru_Info (rng a) # P @ [Cl_Finalize];
      v = 2 * card A\<rbrakk> \<Longrightarrow> net_inv N infos v x"

subsubsection \<open>Bookkeeping of the partition\<close>

lemma parts_finite: "parts S A B C \<Longrightarrow> finite A \<and> finite B \<and> finite C"
  by (auto simp: parts_def)

lemma parts_work: "parts S A B C \<Longrightarrow> a \<in> A \<Longrightarrow> parts S (A - {a}) (insert a B) C \<and> a \<notin> B \<and> a \<notin> C"
  by (auto simp: parts_def)

lemma parts_serve: "parts S A B C \<Longrightarrow> a \<in> B \<Longrightarrow> parts S A (B - {a}) (insert a C) \<and> a \<notin> C \<and> a \<notin> A"
  by (auto simp: parts_def)

lemma parts_card: "parts S A B C \<Longrightarrow> card S = card A + card B + card C"
  by (auto simp: parts_def card_Un_disjoint Int_Un_distrib2)

lemma parts_last:
  assumes "parts S A B C" and "a \<in> B" and "card C + 1 = card S"
  shows "A = {}" "B = {a}"
proof -
  have fin: "finite A" "finite B" using parts_finite [OF assms(1)] by auto
  have c: "card A + card B = 1" using parts_card [OF assms(1)] assms(3) by simp
  have "0 < card B" using assms(2) fin by (auto simp: card_gt_0_iff)
  with c have "card A = 0" "card B = 1" by auto
  then show "A = {}" "B = {a}" using fin assms(2) by (auto simp: card_1_singleton_iff)
qed

lemma parts_not_last:
  assumes "parts S A B C" and "a \<in> B" and "card C + 1 \<noteq> card S"
  shows "(B - {a}) \<union> A \<noteq> {}"
proof
  assume e: "(B - {a}) \<union> A = {}"
  have "parts S A (B - {a}) (insert a C)" "a \<notin> C" using parts_serve [OF assms(1,2)] by auto
  then have "card S = card (insert a C)" using parts_card e by fastforce
  moreover have "card (insert a C) = card C + 1" using parts_finite [OF assms(1)] \<open>a \<notin> C\<close> by simp
  ultimately show False using assms(3) by simp
qed

lemma card_less: "finite A \<Longrightarrow> a \<in> A \<Longrightarrow> card A = Suc (card (A - {a}))"
  by (metis card_Suc_Diff1)

subsubsection \<open>The schedule from one command to the next\<close>

lemma plan_access: "plan i t 0 = Cl_Access_Forcing i # plan i t 1"
  unfolding plan_def by (subst da_schedule.simps) simp

lemma plan_update: "f \<noteq> 0 \<Longrightarrow> plan i t f = Cl_Update_Hru t f 1 #
   (if t + 1 > T then [Cl_Finalize] else if f + 1 > steps i then plan (i + 1) (t + 1) 0
    else plan i (t + 1) (f + 1))"
  unfolding plan_def by (subst da_schedule.simps) simp

text \<open>What a node answers to the current command.\<close>

lemma node_answers:
  assumes "plan i t f = m # r" and "stands i t f s" and "loaded k c" and "f \<noteq> 0 \<Longrightarrow> k = steps i"
  shows "\<exists>c'. node a m c = (c', [reply i f], False) \<and> loaded (steps i) c'"
proof (cases "f = 0")
  case True
  with assms(1) have "m = Cl_Access_Forcing i" by (simp add: plan_access)
  with forcing_law [OF assms(3), of a i] True show ?thesis by (auto simp: reply_def)
next
  case False
  with assms(1) have "m = Cl_Update_Hru t f 1" by (simp add: plan_update)
  with update_law [OF assms(3), of f a t] False assms(2,4) show ?thesis by (auto simp: reply_def stands_def)
qed

subsubsection \<open>Preservation\<close>

lemma working_work:
  assumes at: "work_at N infos i t f m r P rng A B C x"
    and a: "(a, m') \<in># to_nodes x"
  shows "\<exists>v'. net_inv N infos v' (net_deliver node a m' (x\<lparr>to_nodes := to_nodes x - {#(a, m')#}\<rparr>)) \<and>
     v' < 2 * card A + card B + (2 * N + 1) * length r"
proof -
  note at = work_atD [OF at]
  have fin: "finite A" "finite B" "finite C" using parts_finite [OF at(7)] by auto
  from a at(2) fin have aA: "a \<in> A" and m': "m' = m" by auto
  note mv = parts_work [OF at(7) aA]
  obtain k where k: "loaded k (net_nodes x a)" "f \<noteq> 0 \<Longrightarrow> k = steps i" using at(10) aA by blast
  obtain c' where c': "node a m (net_nodes x a) = (c', [reply i f], False)" "loaded (steps i) c'"
    using node_answers [OF at(1,6) k] by blast
  let ?y = "net_deliver node a m (x\<lparr>to_nodes := to_nodes x - {#(a, m)#}\<rparr>)"
  have "net_inv N infos (2 * card (A - {a}) + card (insert a B) + (2 * N + 1) * length r) ?y"
  proof (rule working [OF work_atI [OF at(1), where A = "A - {a}" and B = "insert a B" and C = C and rng = rng and P = P]])
    show "to_nodes ?y = tokens (\<lambda>_. m) (A - {a})"
      using c' at(2) tokens_remove [OF fin(1) aA, of "\<lambda>_. m"] by (simp add: net_deliver_def)
    show "to_server ?y = tokens (\<lambda>_. reply i f) (insert a B)"
      using c' at(3) tokens_insert [OF fin(2), of a "\<lambda>_. reply i f"] mv by (simp add: net_deliver_def)
    show "\<forall>b \<in> A - {a}. net_log ?y b = Cl_Node_Gru_Info (rng b) # P \<and>
        (\<exists>k. loaded k (net_nodes ?y b) \<and> (f \<noteq> 0 \<longrightarrow> k = steps i))"
      using c' at(10) by (auto simp: net_deliver_def)
    show "\<forall>b \<in> insert a B \<union> C. net_log ?y b = Cl_Node_Gru_Info (rng b) # P @ [m] \<and> loaded (steps i) (net_nodes ?y b)"
      using c' at(10,11) aA by (auto simp: net_deliver_def)
  qed (use c' at(4-9) mv in \<open>auto simp: net_deliver_def\<close>)
  moreover have "2 * card (A - {a}) + card (insert a B) < 2 * card A + card B"
    using card_less [OF fin(1) aA] fin mv by simp
  ultimately show ?thesis using m' by (metis add_less_mono1)
qed

text \<open>A reply before the last one only counts.\<close>

lemma reply_counts:
  assumes "base N infos rng s" and "stands i t f s" and "num_clients_ready s = int n" and "n + 1 \<noteq> N"
  shows "\<exists>s'. da_server_receive a (reply i f) s = Inr (s', []) \<and> base N infos rng s' \<and> stands i t f s' \<and>
     num_clients_ready s' = int (n + 1) \<and> connected_clients s' = connected_clients s"
  using assms
  by (auto simp: reply_def on_da_new_forcing_file_def on_da_done_update_def base_def stands_def nodes_def Let_def)

lemma connected_set: "base N infos rng s \<Longrightarrow> card (set (connected_clients s)) = N"
  by (simp add: base_def distinct_card)

lemma forcing_complete:
  assumes "base N infos rng s" and "stands i t 0 s" and "num_clients_ready s = int n" and "n + 1 = N"
  shows "\<exists>s'. da_server_receive a (reply i 0) s = Inr (s', [To_Own Sv_Update_Hru]) \<and>
     base N infos rng s' \<and> stands i t 1 s' \<and> num_clients_ready s' = 0 \<and>
     connected_clients s' = connected_clients s"
  using assms steps_pos [of i]
  by (auto simp: reply_def on_da_new_forcing_file_def base_def stands_def nodes_def Let_def)

lemma update_complete:
  assumes "base N infos rng s" and "stands i t f s" and "f \<noteq> 0" and "num_clients_ready s = int n" and "n + 1 = N"
  shows "\<exists>s' es. da_server_receive a (reply i f) s = Inr (s', es) \<and> base N infos rng s' \<and>
     num_clients_ready s' = 0 \<and> connected_clients s' = connected_clients s \<and>
     (if t + 1 > T then es = to_clients s' Cl_Finalize
      else if f + 1 > steps i then es = to_clients s' (Cl_Access_Forcing (i + 1)) \<and> stands (i + 1) (t + 1) 0 s'
      else es = [To_Own Sv_Update_Hru] \<and> stands i (t + 1) (f + 1) s')"
  using assms
  by (auto simp: reply_def on_da_done_update_def base_def stands_def nodes_def to_clients_def Let_def)

lemma served:
  assumes "da_server_receive a m (net_server x) = Inr (s', es)"
  shows "\<exists>y. net_serve a m (x\<lparr>to_server := M\<rparr>) = Inr y \<and> net_server y = s' \<and>
      to_nodes y = to_nodes x + mset (concat (map sent_to_nodes es)) \<and> to_server y = M \<and>
      net_own y = net_own x + mset (concat (map sent_to_own es)) \<and> net_log y = net_log x \<and>
      net_nodes y = net_nodes x"
    and "\<exists>y. net_serve a m (x\<lparr>net_own := M\<rparr>) = Inr y \<and> net_server y = s' \<and>
      to_nodes y = to_nodes x + mset (concat (map sent_to_nodes es)) \<and> to_server y = to_server x \<and>
      net_own y = M + mset (concat (map sent_to_own es)) \<and> net_log y = net_log x \<and>
      net_nodes y = net_nodes x"
  using assms by (simp_all add: net_serve_def)

lemma own_effect [simp]: "sent_to_nodes (To_Own m) = []" "sent_to_own (To_Own m) = [(0, m)]"
  by (simp_all add: sent_to_nodes_def sent_to_own_def)

text \<open>The command that follows when everybody has answered.\<close>

lemma access_starts:
  assumes "to_nodes x = tokens (\<lambda>_. Cl_Access_Forcing i) (set (connected_clients (net_server x)))"
    "to_server x = {#}" "net_own x = {#}" "base N infos rng (net_server x)" "stands i t 0 (net_server x)"
    "num_clients_ready (net_server x) = 0" "plan 1 1 0 = P @ plan i t 0"
    "\<forall>a \<in> set (connected_clients (net_server x)). net_log x a = Cl_Node_Gru_Info (rng a) # P \<and>
        (\<exists>k. loaded k (net_nodes x a))"
  shows "net_inv N infos (2 * N + (2 * N + 1) * length (plan i t 1)) x"
proof (rule working [OF work_atI [OF plan_access, where A = "set (connected_clients (net_server x))" and
      B = "{}" and C = "{}" and rng = rng and P = P]])
  show "{} \<union> set (connected_clients (net_server x)) \<noteq> {}" using assms(4) by (auto simp: base_def)
qed (use assms connected_set [OF assms(4)] in \<open>auto simp: parts_def\<close>)

lemma working_serve:
  assumes at: "work_at N infos i t f m r P rng A B C x"
    and a: "(a, m') \<in># to_server x" and early: "card C + 1 \<noteq> N"
  shows "\<exists>y v'. net_serve a m' (x\<lparr>to_server := to_server x - {#(a, m')#}\<rparr>) = Inr y \<and> net_inv N infos v' y \<and>
     v' < 2 * card A + card B + (2 * N + 1) * length r"
proof -
  note at = work_atD [OF at]
  have fin: "finite A" "finite B" "finite C" using parts_finite [OF at(7)] by auto
  from a at(3) fin have aB: "a \<in> B" and m': "m' = reply i f" by auto
  note mv = parts_serve [OF at(7) aB]
  obtain s' where s': "da_server_receive a (reply i f) (net_server x) = Inr (s', [])" "base N infos rng s'"
    "stands i t f s'" "num_clients_ready s' = int (card C + 1)"
    "connected_clients s' = connected_clients (net_server x)"
    using reply_counts [OF at(5,6,8) early] by blast
  obtain y where y: "net_serve a m' (x\<lparr>to_server := to_server x - {#(a, m')#}\<rparr>) = Inr y"
    "net_server y = s'" "to_nodes y = to_nodes x" "to_server y = tokens (\<lambda>_. reply i f) (B - {a})"
    "net_own y = {#}" "net_log y = net_log x" "net_nodes y = net_nodes x"
    using served(1) [OF s'(1), of "to_server x - {#(a, m')#}"] m' at(3,4)
      tokens_remove [OF fin(2) aB, of "\<lambda>_. reply i f"] by auto
  have "net_inv N infos (2 * card A + card (B - {a}) + (2 * N + 1) * length r) y"
  proof (rule working [OF work_atI [OF at(1), where A = A and B = "B - {a}" and C = "insert a C" and rng = rng and P = P]])
    show "B - {a} \<union> A \<noteq> {}"
      using parts_not_last [OF at(7) aB] early connected_set [OF at(5)] by simp
    show "\<forall>b \<in> B - {a} \<union> insert a C. net_log y b = Cl_Node_Gru_Info (rng b) # P @ [m] \<and> loaded (steps i) (net_nodes y b)"
      using y at(11) aB by auto
  qed (use y s' at(2,9,10) mv fin in auto)
  with y(1) card_less [OF fin(2) aB] show ?thesis by (intro exI [of _ y] exI) auto
qed

text \<open>When the last answer arrives, every node has worked off the command and nothing else
  is on its way.\<close>

lemma last_answer:
  assumes at: "work_at N infos i t f m r P rng A B C x"
    and a: "(a, m') \<in># to_server x" and lastc: "card C + 1 = N"
  shows "m' = reply i f" "A = {}" "B = {a}"
    "\<forall>b \<in> set (connected_clients (net_server x)).
       net_log x b = Cl_Node_Gru_Info (rng b) # P @ [m] \<and> loaded (steps i) (net_nodes x b)"
    "plan 1 1 0 = (P @ [m]) @ r" "to_server x - {#(a, m')#} = {#}" "to_nodes x = {#}"
proof -
  note at = work_atD [OF at]
  have "finite B" using parts_finite [OF at(7)] by auto
  with a at(3) have aB: "a \<in> B" and m': "m' = reply i f" by auto
  have AB: "A = {}" "B = {a}"
    using parts_last [OF at(7) aB] lastc connected_set [OF at(5)] by auto
  with m' show "m' = reply i f" "A = {}" "B = {a}" by simp_all
  show "\<forall>b \<in> set (connected_clients (net_server x)).
      net_log x b = Cl_Node_Gru_Info (rng b) # P @ [m] \<and> loaded (steps i) (net_nodes x b)"
    using at(7,11) AB by (auto simp: parts_def)
  show "plan 1 1 0 = (P @ [m]) @ r" using at(1,9) by simp
  show "to_server x - {#(a, m')#} = {#}" "to_nodes x = {#}" using at(2,3) AB m' by (simp_all add: tokens_def)
qed

lemma last_forcing:
  assumes at: "work_at N infos i t f m r P rng A B C x"
    and a: "(a, m') \<in># to_server x" and lastc: "card C + 1 = N"
    and True: "f = 0"
  shows "\<exists>y v'. net_serve a m' (x\<lparr>to_server := to_server x - {#(a, m')#}\<rparr>) = Inr y \<and> net_inv N infos v' y \<and>
     v' < 2 * card A + card B + (2 * N + 1) * length r"
proof -
  note last = last_answer [OF at a lastc] and at = work_atD [OF at]
  note m' = last(1) and all = last(4) and full = last(5) and rest = last(6,7)
  have lt: "v' < 2 * card A + card B + (2 * N + 1) * length r" if "v' \<le> (2 * N + 1) * length r" for v'
    using that last(2,3) by simp
  have r: "r = plan i t 1" using at(1) True by (simp add: plan_access)
  obtain s' where s': "da_server_receive a m' (net_server x) = Inr (s', [To_Own Sv_Update_Hru])"
    "base N infos rng s'" "stands i t 1 s'" "num_clients_ready s' = 0"
    "connected_clients s' = connected_clients (net_server x)"
    using forcing_complete [OF at(5) _ at(8) lastc, of i t a] at(6) True m' by auto
  obtain y where y: "net_serve a m' (x\<lparr>to_server := to_server x - {#(a, m')#}\<rparr>) = Inr y"
    "net_server y = s'" "to_nodes y = {#}" "to_server y = {#}" "net_own y = {#(0, Sv_Update_Hru)#}"
    "net_log y = net_log x" "net_nodes y = net_nodes x"
    using served(1) [OF s'(1), of "to_server x - {#(a, m')#}"] rest at(4) by auto
  have "net_inv N infos ((2 * N + 1) * length (plan i t 1)) y"
    by (rule launching [where s = s' and f = 1 and i = i and t = t and rng = rng and P = "P @ [m]"])
      (use y s' all full r in auto)
  with y(1) lt r show ?thesis by blast
qed

lemma last_update:
  assumes at: "work_at N infos i t f m r P rng A B C x"
    and a: "(a, m') \<in># to_server x" and lastc: "card C + 1 = N"
    and False: "f \<noteq> 0"
  shows "\<exists>y v'. net_serve a m' (x\<lparr>to_server := to_server x - {#(a, m')#}\<rparr>) = Inr y \<and> net_inv N infos v' y \<and>
     v' < 2 * card A + card B + (2 * N + 1) * length r"
proof -
  note last = last_answer [OF at a lastc] and at = work_atD [OF at]
  note m' = last(1) and all = last(4) and full = last(5) and rest = last(6,7)
  have lt: "v' < 2 * card A + card B + (2 * N + 1) * length r" if "v' \<le> (2 * N + 1) * length r" for v'
    using that last(2,3) by simp
  have r: "r = (if t + 1 > T then [Cl_Finalize] else if f + 1 > steps i then plan (i + 1) (t + 1) 0
      else plan i (t + 1) (f + 1))" using at(1) False by (simp add: plan_update)
  obtain s' es where s': "da_server_receive a m' (net_server x) = Inr (s', es)" "base N infos rng s'"
    "num_clients_ready s' = 0" "connected_clients s' = connected_clients (net_server x)"
    and es: "if t + 1 > T then es = to_clients s' Cl_Finalize
      else if f + 1 > steps i then es = to_clients s' (Cl_Access_Forcing (i + 1)) \<and> stands (i + 1) (t + 1) 0 s'
      else es = [To_Own Sv_Update_Hru] \<and> stands i (t + 1) (f + 1) s'"
    using update_complete [OF at(5,6) False at(8) lastc, of a] m' by blast
  have dist: "distinct (connected_clients s')" using s'(2) by (simp add: base_def)
  obtain y where y: "net_serve a m' (x\<lparr>to_server := to_server x - {#(a, m')#}\<rparr>) = Inr y"
    "net_server y = s'" "to_nodes y = mset (concat (map sent_to_nodes es))" "to_server y = {#}"
    "net_own y = mset (concat (map sent_to_own es))" "net_log y = net_log x" "net_nodes y = net_nodes x"
    using served(1) [OF s'(1), of "to_server x - {#(a, m')#}"] rest at(4) by auto
  have cards: "card (set (connected_clients s')) = N" using connected_set [OF s'(2)] .
  consider (fin) "t + 1 > T" | (acc) "t + 1 \<le> T" "f + 1 > steps i" | (upd) "t + 1 \<le> T" "f + 1 \<le> steps i"
    by linarith
  then show ?thesis
  proof cases
    case fin
    have "net_inv N infos (2 * N) y"
      by (rule finishing [where s = s' and A = "set (connected_clients s')" and rng = rng and P = "P @ [m]"])
        (use y s' all full r es fin cards to_clients_tokens [OF dist] in auto)
    moreover have "2 * N \<le> (2 * N + 1) * length r" using fin r by simp
    ultimately show ?thesis using y(1) lt by blast
  next
    case acc
    have "net_inv N infos (2 * N + (2 * N + 1) * length (plan (i + 1) (t + 1) 1)) y"
      by (rule access_starts [where rng = rng and P = "P @ [m]"])
        (use y s' all full r es acc to_clients_tokens [OF dist] in auto)
    moreover have "2 * N + (2 * N + 1) * length (plan (i + 1) (t + 1) 1) \<le> (2 * N + 1) * length r"
      using acc r by (simp add: plan_access)
    ultimately show ?thesis using y(1) lt by blast
  next
    case upd
    have "net_inv N infos ((2 * N + 1) * length (plan i (t + 1) (f + 1))) y"
      by (rule launching [where s = s' and f = "f + 1" and i = i and t = "t + 1" and rng = rng and P = "P @ [m]"])
        (use y s' all full r es upd at(6) False in \<open>auto simp: stands_def\<close>)
    with y(1) lt r upd show ?thesis by fastforce
  qed
qed

lemma working_last:
  assumes at: "work_at N infos i t f m r P rng A B C x"
    and a: "(a, m') \<in># to_server x" and lastc: "card C + 1 = N"
  shows "\<exists>y v'. net_serve a m' (x\<lparr>to_server := to_server x - {#(a, m')#}\<rparr>) = Inr y \<and> net_inv N infos v' y \<and>
     v' < 2 * card A + card B + (2 * N + 1) * length r"
  using last_forcing [OF assms] last_update [OF assms] by blast

lemma launching_own:
  assumes "f \<noteq> 0" "to_nodes x = {#}" "to_server x = {#}" "net_own x = {#(0, Sv_Update_Hru)#}"
      "base N infos rng (net_server x)" "stands i t f (net_server x)" "num_clients_ready (net_server x) = 0"
      "plan 1 1 0 = P @ plan i t f"
      "\<forall>a \<in> set (connected_clients (net_server x)). net_log x a = Cl_Node_Gru_Info (rng a) # P \<and>
        loaded (steps i) (net_nodes x a)"
    and a: "(a, m') \<in># net_own x"
  shows "\<exists>y v'. net_serve a m' (x\<lparr>net_own := net_own x - {#(a, m')#}\<rparr>) = Inr y \<and> net_inv N infos v' y \<and>
     v' < (2 * N + 1) * length (plan i t f)"
proof -
  let ?s = "net_server x"
  have m': "m' = Sv_Update_Hru" "a = 0" using a assms(4) by auto
  have recv: "da_server_receive a m' ?s = Inr (?s, to_clients ?s (Cl_Update_Hru t f 1))"
    using m' assms(1,5,6) by (simp add: on_da_update_hru_def base_def stands_def)
  have dist: "distinct (connected_clients ?s)" using assms(5) by (simp add: base_def)
  obtain y where y: "net_serve a m' (x\<lparr>net_own := net_own x - {#(a, m')#}\<rparr>) = Inr y"
    "net_server y = ?s" "to_nodes y = tokens (\<lambda>_. Cl_Update_Hru t f 1) (set (connected_clients ?s))"
    "to_server y = {#}" "net_own y = {#}" "net_log y = net_log x" "net_nodes y = net_nodes x"
    using served(2) [OF recv, of "net_own x - {#(a, m')#}"] assms(2,3,4) m' to_clients_tokens [OF dist] by auto
  obtain r where r: "plan i t f = Cl_Update_Hru t f 1 # r" using assms(1) by (simp add: plan_update)
  have "net_inv N infos (2 * card (set (connected_clients ?s)) + card {} + (2 * N + 1) * length r) y"
  proof (rule working [OF work_atI [OF r, where A = "set (connected_clients ?s)" and B = "{}" and C = "{}"
        and rng = rng and P = P]])
    show "{} \<union> set (connected_clients ?s) \<noteq> {}" using assms(5) by (auto simp: base_def)
  qed (use y assms in \<open>auto simp: parts_def\<close>)
  with y(1) r connected_set [OF assms(5)] show ?thesis by (intro exI [of _ y] exI) auto
qed

lemma tokens_remove_plus:
  assumes "finite A" and "a \<in> A"
  shows "tokens m A + M - {#(a, m a)#} = tokens m (A - {a}) + M"
    and "M + tokens m A - {#(a, m a)#} = M + tokens m (A - {a})"
proof -
  have "tokens m A = add_mset (a, m a) (tokens m (A - {a}))"
    using assms tokens_insert [of "A - {a}" a m] by (simp add: insert_absorb)
  then show "tokens m A + M - {#(a, m a)#} = tokens m (A - {a}) + M"
    and "M + tokens m A - {#(a, m a)#} = M + tokens m (A - {a})" by simp_all
qed

lemma finishing_work:
  assumes "to_nodes x = tokens (\<lambda>_. Cl_Finalize) A" "to_server x = {#}" "net_own x = {#}"
      "base N infos rng (net_server x)" "A \<subseteq> set (connected_clients (net_server x))"
      "plan 1 1 0 = P @ [Cl_Finalize]"
      "\<forall>a \<in> A. net_log x a = Cl_Node_Gru_Info (rng a) # P \<and> (\<exists>k. loaded k (net_nodes x a))"
      "\<forall>a \<in> set (connected_clients (net_server x)) - A.
         net_log x a = Cl_Node_Gru_Info (rng a) # P @ [Cl_Finalize]"
    and a: "(a, m') \<in># to_nodes x"
  shows "net_inv N infos (2 * card (A - {a})) (net_deliver node a m' (x\<lparr>to_nodes := to_nodes x - {#(a, m')#}\<rparr>))"
    and "a \<in> A" and "2 * card (A - {a}) + 1 < 2 * card A"
proof -
  have fin: "finite A" using assms(5) finite_subset by blast
  from a assms(1) fin have aA: "a \<in> A" and m': "m' = Cl_Finalize" by auto
  obtain k where "loaded k (net_nodes x a)" using assms(7) aA by blast
  then obtain c' where c': "node a Cl_Finalize (net_nodes x a) = (c', [], True)" using finalize_law by blast
  let ?y = "net_deliver node a m' (x\<lparr>to_nodes := to_nodes x - {#(a, m')#}\<rparr>)"
  have y: "net_server ?y = net_server x" "to_nodes ?y = tokens (\<lambda>_. Cl_Finalize) (A - {a})"
    "to_server ?y = {#}" "net_own ?y = {#}" "net_nodes ?y = (net_nodes x)(a := c')"
    "net_log ?y = (net_log x)(a := net_log x a @ [Cl_Finalize])"
    using c' m' assms(1-3) tokens_remove [OF fin aA, of "\<lambda>_. Cl_Finalize"] by (simp_all add: net_deliver_def)
  have "net_inv N infos (2 * card (A - {a})) ?y"
  proof (rule finishing [where A = "A - {a}" and s = "net_server x" and rng = rng and P = P])
    show "\<forall>b \<in> A - {a}. net_log ?y b = Cl_Node_Gru_Info (rng b) # P \<and> (\<exists>k. loaded k (net_nodes ?y b))"
      using assms(7) unfolding y by simp
    show "\<forall>b \<in> set (connected_clients (net_server x)) - (A - {a}).
        net_log ?y b = Cl_Node_Gru_Info (rng b) # P @ [Cl_Finalize]"
    proof
      fix b assume b: "b \<in> set (connected_clients (net_server x)) - (A - {a})"
      show "net_log ?y b = Cl_Node_Gru_Info (rng b) # P @ [Cl_Finalize]"
      proof (cases "b = a")
        case True
        have "net_log x a = Cl_Node_Gru_Info (rng a) # P" using assms(7) aA by blast
        with True y(6) show ?thesis by simp
      next
        case False
        with b assms(8) have "net_log x b = Cl_Node_Gru_Info (rng b) # P @ [Cl_Finalize]" by blast
        with False y(6) show ?thesis by simp
      qed
    qed
    show "A - {a} \<subseteq> set (connected_clients (net_server x))" using assms(5) by blast
  qed (simp_all add: y assms(4,6))
  then show "net_inv N infos (2 * card (A - {a})) ?y" .
  show "a \<in> A" by (rule aA)
  show "2 * card (A - {a}) + 1 < 2 * card A" using card_less [OF fin aA] by linarith
qed

lemma connecting_work:
  assumes at: "conn_at N infos rng host g U A B C s x"
    and a: "(a, m') \<in># to_nodes x"
  shows "\<exists>v'. net_inv N infos v' (net_deliver node a m' (x\<lparr>to_nodes := to_nodes x - {#(a, m')#}\<rparr>)) \<and>
     v' < 3 * card U + 2 * card A + card B + (2 * N + 1) * length (plan 1 1 0)"
proof -
  note at = conn_atD [OF at]
  have fin: "finite A" "finite B" "finite C" using parts_finite [OF at(5)] by auto
  from a at(1) fin have aA: "a \<in> A" and m': "m' = Cl_Node_Gru_Info (rng a)" by auto
  note mv = parts_work [OF at(5) aA]
  have aU: "a \<notin> U" using at(5,7) aA by (auto simp: parts_def)
  have "a \<in> set (connected_clients s)" using at(5) aA by (auto simp: parts_def)
  then have "rng a \<in> set (map rng (connected_clients s))" by simp
  then have "rng a \<in> set infos" using at(20) in_set_takeD by metis
  then obtain c' where c': "node a m' (net_nodes x a) = (c', [Sv_File_Access_Ready T], False)" "loaded 0 c'"
    using info_law [of "net_nodes x a" "rng a" a] at(19,21) aA m' by auto
  let ?y = "net_deliver node a m' (x\<lparr>to_nodes := to_nodes x - {#(a, m')#}\<rparr>)"
  have y: "net_server ?y = s" "to_nodes ?y = tokens (\<lambda>a. Cl_Node_Gru_Info (rng a)) (A - {a})"
    "to_server ?y = tokens (\<lambda>a. Sv_Connect (host a)) U + tokens (\<lambda>_. Sv_File_Access_Ready T) (insert a B)"
    "net_own ?y = {#}" "net_nodes ?y = (net_nodes x)(a := c')"
    "net_log ?y = (net_log x)(a := net_log x a @ [m'])"
    using c' m' at(1-4) tokens_remove [OF fin(1) aA, of "\<lambda>a. Cl_Node_Gru_Info (rng a)"]
      tokens_insert [OF fin(2), of a "\<lambda>_. Sv_File_Access_Ready T"] mv by (simp_all add: net_deliver_def)
  have "net_inv N infos (3 * card U + 2 * card (A - {a}) + card (insert a B) + (2 * N + 1) * length (plan 1 1 0)) ?y"
  proof (rule connecting [OF conn_atI [where A = "A - {a}" and B = "insert a B" and C = C and U = U and s = s and rng = rng
        and host = host and g = g]])
    show "\<forall>b \<in> (A - {a}) \<union> U. net_log ?y b = [] \<and> fresh (net_nodes ?y b)"
      using y at(21) aU by auto
    show "\<forall>b \<in> insert a B \<union> C. net_log ?y b = [Cl_Node_Gru_Info (rng b)] \<and> loaded 0 (net_nodes ?y b)"
      using y at(21,22) c' m' aA by auto
  qed (use y at(4-20,23) mv in auto)
  moreover have "2 * card (A - {a}) + card (insert a B) < 2 * card A + card B"
    using card_less [OF fin(1) aA] fin mv by simp
  ultimately show ?thesis by (metis (no_types, lifting) add.assoc add_less_mono1 add_strict_left_mono)
qed

lemma connecting_connect:
  assumes at: "conn_at N infos rng host g U A B C s x"
    and a: "a \<in> U"
  shows "\<exists>y v'. net_serve a (Sv_Connect (host a)) (x\<lparr>to_server := to_server x - {#(a, Sv_Connect (host a))#}\<rparr>) = Inr y \<and>
     net_inv N infos v' y \<and> v' < 3 * card U + 2 * card A + card B + (2 * N + 1) * length (plan 1 1 0)"
proof -
  note at = conn_atD [OF at]
  have fin: "finite A" "finite B" "finite C" using parts_finite [OF at(5)] by auto
  let ?cs = "connected_clients s" and ?k = "length (connected_clients s)"
  have "0 < card U" using a at(6) by (auto simp: card_gt_0_iff)
  then have k: "?k < length infos" using at(8,18) by simp
  define rng' where "rng' = rng(a := infos ! ?k)"
  have acs: "a \<notin> set ?cs" using a at(7) by blast
  then have out: "a \<notin> A" "a \<notin> B" "a \<notin> C" using at(5) by (auto simp: parts_def)
  have recv: "da_server_receive a (Sv_Connect (host a)) (net_server x) =
      Inr (s\<lparr>connected_clients := ?cs @ [a]\<rparr>, [Monitor_Client a, To_Client a (Cl_Node_Gru_Info (infos ! ?k))])"
    using at(4,16,17) k by (simp add: on_da_connect_def getNodeGruInfo_def vec_simps)
  have cong: "tokens (\<lambda>a. Cl_Node_Gru_Info (rng a)) A = tokens (\<lambda>a. Cl_Node_Gru_Info (rng' a)) A"
    using out by (intro tokens_cong) (auto simp: rng'_def)
  obtain y where y: "net_serve a (Sv_Connect (host a)) (x\<lparr>to_server := to_server x - {#(a, Sv_Connect (host a))#}\<rparr>) = Inr y"
    "net_server y = s\<lparr>connected_clients := ?cs @ [a]\<rparr>"
    "to_nodes y = tokens (\<lambda>a. Cl_Node_Gru_Info (rng' a)) (insert a A)"
    "to_server y = tokens (\<lambda>a. Sv_Connect (host a)) (U - {a}) + tokens (\<lambda>_. Sv_File_Access_Ready T) B"
    "net_own y = {#}" "net_log y = net_log x" "net_nodes y = net_nodes x"
    using served(1) [OF recv, of "to_server x - {#(a, Sv_Connect (host a))#}"] at(1-3) cong
      tokens_remove_plus(1) [OF at(6) a, of "\<lambda>a. Sv_Connect (host a)"]
      tokens_insert [OF fin(1) out(1), of "\<lambda>a. Cl_Node_Gru_Info (rng' a)"]
    by (auto simp: sent_to_nodes_def sent_to_own_def rng'_def)
  have U: "card U = Suc (card (U - {a}))" using card_less [OF at(6) a] .
  have "net_inv N infos (3 * card (U - {a}) + 2 * card (insert a A) + card B + (2 * N + 1) * length (plan 1 1 0)) y"
  proof (rule connecting [OF conn_atI [where A = "insert a A" and B = B and C = C and U = "U - {a}" and s = "net_server y"
        and rng = rng' and host = host and g = g]])
    show "parts (set (connected_clients (net_server y))) (insert a A) B C"
      using at(5) out y(2) fin by (auto simp: parts_def)
    have "map rng' ?cs = map rng ?cs" using acs by (auto simp: rng'_def)
    then show "map rng' (connected_clients (net_server y)) = take (length (connected_clients (net_server y))) infos"
      using y(2) at(20) k by (simp add: rng'_def take_Suc_conv_app_nth)
    show "\<forall>b \<in> insert a A \<union> (U - {a}). net_log y b = [] \<and> fresh (net_nodes y b)" using y a at(21) by auto
    show "\<forall>b \<in> B \<union> C. net_log y b = [Cl_Node_Gru_Info (rng' b)] \<and> loaded 0 (net_nodes y b)"
      using y out at(22) by (auto simp: rng'_def)
    show "card (U - {a}) + length (connected_clients (net_server y)) = N" using y(2) at(8) U by simp
    show "nodes (net_server y) = int N" using y(2) at(10) by (simp add: nodes_def)
  qed (use y at(6,7,9,11-19,23) acs in auto)
  moreover have "3 * card (U - {a}) + 2 * card (insert a A) < 3 * card U + 2 * card A"
    using U fin out by simp
  ultimately show ?thesis using y(1) by (intro exI [of _ y] exI) auto
qed

lemma connecting_ready:
  assumes at: "conn_at N infos rng host g U A B C s x"
    and a: "a \<in> B"
  shows "\<exists>y v'. net_serve a (Sv_File_Access_Ready T) (x\<lparr>to_server := to_server x - {#(a, Sv_File_Access_Ready T)#}\<rparr>) = Inr y \<and>
     net_inv N infos v' y \<and> v' < 3 * card U + 2 * card A + card B + (2 * N + 1) * length (plan 1 1 0)"
proof -
  note at = conn_atD [OF at]
  have fin: "finite A" "finite B" "finite C" using parts_finite [OF at(5)] by auto
  note mv = parts_serve [OF at(5) a]
  have cs: "card (set (connected_clients s)) = length (connected_clients s)" using at(9) by (simp add: distinct_card)
  have rest: "to_server x - {#(a, Sv_File_Access_Ready T)#} =
      tokens (\<lambda>a. Sv_Connect (host a)) U + tokens (\<lambda>_. Sv_File_Access_Ready T) (B - {a})"
    using at(2) tokens_remove_plus(2) [OF fin(2) a] by simp
  define s' where "s' = s\<lparr>num_timesteps := T, num_clients_ready := (if card C + 1 = N then 0 else int (card C + 1))\<rparr>"
  define es where "es = (if card C + 1 = N then to_clients s' (Cl_Access_Forcing 1) else [])"
  have recv: "da_server_receive a (Sv_File_Access_Ready T) (net_server x) = Inr (s', es)"
    using at(4,10,12,13)
    by (auto simp: on_da_file_access_ready_def nodes_def to_clients_def Let_def s'_def es_def)
  have s': "connected_clients s' = connected_clients s" "nodes s' = int N" "sv_output_step s' = 1"
    "num_timesteps s' = T" "sv_timestep s' = 1" "sv_iFile s' = 1" "sv_gru_struc s' = Some g"
    using at(10,13-16) by (simp_all add: s'_def nodes_def)
  obtain y where y: "net_serve a (Sv_File_Access_Ready T) (x\<lparr>to_server := to_server x - {#(a, Sv_File_Access_Ready T)#}\<rparr>) = Inr y"
    "net_server y = s'" "to_nodes y = to_nodes x + mset (concat (map sent_to_nodes es))"
    "to_server y = tokens (\<lambda>a. Sv_Connect (host a)) U + tokens (\<lambda>_. Sv_File_Access_Ready T) (B - {a})"
    "net_own y = mset (concat (map sent_to_own es))" "net_log y = net_log x" "net_nodes y = net_nodes x"
    using served(1) [OF recv, of "to_server x - {#(a, Sv_File_Access_Ready T)#}"] rest at(3) by auto
  show ?thesis
  proof (cases "card C + 1 = N")
    case True
    have "card C + 1 \<le> card (set (connected_clients s))"
      using parts_card [OF at(5)] card_less [OF fin(2) a] by linarith
    then have full: "length (connected_clients s) = N" "card U = 0" using True at(8) cs by linarith+
    then have U: "U = {}" using at(6) by simp
    have AB: "A = {}" "B = {a}" using parts_last [OF at(5) a] True full cs by auto
    have dist: "distinct (connected_clients s')" using s'(1) at(9) by simp
    have "base N infos rng s'" using s' at(9,11,18,20) full by (simp add: base_def)
    moreover have "stands 1 1 0 s'" using s' T_pos by (simp add: stands_def)
    moreover have "\<forall>b \<in> set (connected_clients s'). net_log y b = Cl_Node_Gru_Info (rng b) # [] \<and>
        (\<exists>k. loaded k (net_nodes y b))"
      using at(5,22) AB y(6,7) s'(1) by (auto simp: parts_def)
    ultimately have "net_inv N infos (2 * N + (2 * N + 1) * length (plan 1 1 1)) y"
      using y AB U True at(1) to_clients_tokens [OF dist, of "Cl_Access_Forcing 1"] es_def
      by (intro access_starts [where rng = rng and P = "[]"]) (auto simp: s'_def)
    moreover have "2 * N + (2 * N + 1) * length (plan 1 1 1) < (2 * N + 1) * length (plan 1 1 0)"
      by (simp add: plan_access)
    ultimately show ?thesis using y(1) by (intro exI [of _ y] exI) auto
  next
    case False
    have B: "card B = Suc (card (B - {a}))" using card_less [OF fin(2) a] .
    have "net_inv N infos (3 * card U + 2 * card A + card (B - {a}) + (2 * N + 1) * length (plan 1 1 0)) y"
    proof (rule connecting [OF conn_atI [where A = A and B = "B - {a}" and C = "insert a C" and U = U and s = s'
          and rng = rng and host = host and g = g]])
      show "num_clients_ready s' = int (card (insert a C))" using False mv fin by (simp add: s'_def)
      show "\<forall>b \<in> (B - {a}) \<union> insert a C. net_log y b = [Cl_Node_Gru_Info (rng b)] \<and> loaded 0 (net_nodes y b)"
        using y at(22) a by auto
      show "card (insert a C) < N" using False at(23) mv fin by simp
    qed (use y s' at(1,5-11,16-21) mv False in \<open>auto simp: es_def\<close>)
    with y(1) B show ?thesis by (intro exI [of _ y] exI) auto
  qed
qed

text \<open>A node works off a message, the server handles one.\<close>

lemma deliver_step:
  assumes "net_inv N infos v x" and "(a, m) \<in># to_nodes x"
  shows "\<exists>v'. net_inv N infos v' (net_deliver node a m (x\<lparr>to_nodes := to_nodes x - {#(a, m)#}\<rparr>)) \<and> v' < v"
  using assms(1)
proof cases
  case (connecting rng host g U A B C s)
  from connecting_work [OF connecting(1) assms(2)] connecting(2) show ?thesis by blast
next
  case (working i t f m r' P rng A B C)
  from working_work [OF working(1) assms(2)] working(2) show ?thesis by blast
next
  case (launching f s rng i t P)
  with assms(2) show ?thesis by simp
next
  case (finishing A s rng P)
  note f = finishing(1-3) finishing(5,6) [unfolded finishing(4)] finishing(7,8) finishing(9) [unfolded finishing(4)]
  from finishing_work [OF f assms(2)] finishing(10) show ?thesis by (intro exI [of _ "2 * card (A - {a})"]) simp
qed

lemma serve_step:
  assumes "net_inv N infos v x" and "(a, m) \<in># to_server x"
  shows "\<exists>y v'. net_serve a m (x\<lparr>to_server := to_server x - {#(a, m)#}\<rparr>) = Inr y \<and> net_inv N infos v' y \<and> v' < v"
  using assms(1)
proof cases
  case (connecting rng host g U A B C s)
  note c = conn_atD [OF connecting(1)]
  have fin: "finite B" using parts_finite [OF c(5)] by auto
  with assms(2) consider "a \<in> U" "m = Sv_Connect (host a)" | "a \<in> B" "m = Sv_File_Access_Ready T"
    using c(2,6) by auto
  then show ?thesis
  proof cases
    case 1
    from connecting_connect [OF connecting(1) 1(1)] 1(2) connecting(2) show ?thesis by blast
  next
    case 2
    from connecting_ready [OF connecting(1) 2(1)] 2(2) connecting(2) show ?thesis by blast
  qed
next
  case (working i t f m0 r' P rng A B C)
  show ?thesis
  proof (cases "card C + 1 = N")
    case True
    from working_last [OF working(1) assms(2) True] working(2) show ?thesis by blast
  next
    case False
    from working_serve [OF working(1) assms(2) False] working(2) show ?thesis by blast
  qed
qed (use assms(2) in simp_all)

lemma own_step:
  assumes "net_inv N infos v x" and "(a, m) \<in># net_own x"
  shows "\<exists>y v'. net_serve a m (x\<lparr>net_own := net_own x - {#(a, m)#}\<rparr>) = Inr y \<and> net_inv N infos v' y \<and> v' < v"
  using assms(1)
proof cases
  case (connecting rng host g U A B C s)
  with assms(2) conn_atD(3) [OF connecting(1)] show ?thesis by simp
next
  case (working i t f m r' P rng A B C)
  with assms(2) work_atD(4) [OF working(1)] show ?thesis by simp
next
  case (launching f s rng i t P)
  note l = launching(1-4) launching(6-8) [unfolded launching(5)] launching(9) launching(10) [unfolded launching(5)]
  from launching_own [OF l assms(2)] launching(11) show ?thesis by blast
qed (use assms(2) in simp_all)

text \<open>The command to finish is the last one of the schedule and occurs nowhere else.\<close>

lemma plan_head: "plan i t f = m # r \<Longrightarrow> m \<noteq> Cl_Finalize"
  by (cases "f = 0") (auto simp: plan_access plan_update)

lemma plan_final: "\<exists>Q. plan i t f = Q @ [Cl_Finalize] \<and> Cl_Finalize \<notin> set Q"
  unfolding plan_def
proof (induction T steps i t f rule: da_schedule.induct)
  case (1 T steps i t f)
  have cons: "\<exists>Q. m # ms = Q @ [Cl_Finalize] \<and> Cl_Finalize \<notin> set Q"
    if "m \<noteq> Cl_Finalize" "\<exists>Q. ms = Q @ [Cl_Finalize] \<and> Cl_Finalize \<notin> set Q" for m ms
  proof -
    from that(2) obtain Q where "ms = Q @ [Cl_Finalize]" "Cl_Finalize \<notin> set Q" by blast
    with that(1) show ?thesis by (intro exI [of _ "m # Q"]) auto
  qed
  have nil: "\<exists>Q. [Cl_Finalize] = Q @ [Cl_Finalize] \<and> Cl_Finalize \<notin> set Q" by simp
  show ?case
    using 1 nil by (subst da_schedule.simps) (simp only: split: if_splits, auto intro!: cons)
qed

lemma plan_before:
  assumes "plan i t f = P @ R" and "R \<noteq> []"
  shows "Cl_Finalize \<notin> set P"
proof -
  from plan_final obtain Q where Q: "plan i t f = Q @ [Cl_Finalize]" "Cl_Finalize \<notin> set Q" by blast
  then have "butlast (P @ R) = Q" using assms(1) by simp
  then have "P @ butlast R = Q" using assms(2) by (simp add: butlast_append)
  with Q(2) show ?thesis by auto
qed

text \<open>Nodes exit on this command and on no other.\<close>

lemma finalize_at:
  assumes "net_inv N infos v x" and "(a, Cl_Finalize) \<in># to_nodes x"
  shows "\<exists>A rng P. a \<in> A \<and> to_nodes x = tokens (\<lambda>_. Cl_Finalize) A \<and> to_server x = {#} \<and> net_own x = {#} \<and>
    base N infos rng (net_server x) \<and> A \<subseteq> set (connected_clients (net_server x)) \<and> plan 1 1 0 = P @ [Cl_Finalize] \<and>
    (\<forall>a \<in> A. net_log x a = Cl_Node_Gru_Info (rng a) # P \<and> (\<exists>k. loaded k (net_nodes x a))) \<and>
    (\<forall>a \<in> set (connected_clients (net_server x)) - A. net_log x a = Cl_Node_Gru_Info (rng a) # P @ [Cl_Finalize]) \<and>
    v = 2 * card A"
  using assms(1)
proof cases
  case (connecting rng host g U A B C s)
  note c = conn_atD [OF connecting(1)]
  have "finite A" using parts_finite [OF c(5)] by auto
  with assms(2) c(1) show ?thesis by simp
next
  case (working i t f m r' P rng A B C)
  note w = work_atD [OF working(1)]
  have "finite A" using parts_finite [OF w(7)] by auto
  with assms(2) w(2) plan_head [OF w(1)] show ?thesis by simp
next
  case (launching f s rng i t P)
  with assms(2) show ?thesis by simp
next
  case (finishing A s rng P)
  have "finite A" using finishing(6) finite_subset by blast
  then have "a \<in> A" using assms(2) finishing(1) by simp
  with finishing show ?thesis by (intro exI [of _ A] exI [of _ rng] exI [of _ P]) simp
qed

lemma exits_iff:
  assumes "net_inv N infos v x" and "(a, m) \<in># to_nodes x"
  shows "snd (snd (node a m (net_nodes x a))) \<longleftrightarrow> m = Cl_Finalize"
  using assms(1)
proof cases
  case (connecting rng host g U A B C s)
  note c = conn_atD [OF connecting(1)]
  have "finite A" using parts_finite [OF c(5)] by auto
  then have a: "a \<in> A" "m = Cl_Node_Gru_Info (rng a)" using assms(2) c(1) by auto
  have "a \<in> set (connected_clients s)" using c(5) a(1) by (auto simp: parts_def)
  then have "rng a \<in> set infos" using c(20) in_set_takeD by (metis list.set_map imageI)
  then show ?thesis using info_law [of "net_nodes x a" "rng a" a] c(19,21) a by force
next
  case (working i t f m0 r' P rng A B C)
  note w = work_atD [OF working(1)]
  have "finite A" using parts_finite [OF w(7)] by auto
  then have a: "a \<in> A" "m = m0" using assms(2) w(2) by auto
  then obtain k where k: "loaded k (net_nodes x a)" "f \<noteq> 0 \<Longrightarrow> k = steps i" using w(10) by blast
  from node_answers [OF w(1,6) k, of a] plan_head [OF w(1)] a(2) show ?thesis by fastforce
next
  case (launching f s rng i t P)
  with assms(2) show ?thesis by simp
next
  case (finishing A s rng P)
  have "finite A" using finishing(6) finite_subset by blast
  then have a: "a \<in> A" "m = Cl_Finalize" using assms(2) finishing(1) by auto
  then obtain k where "loaded k (net_nodes x a)" using finishing(8) by blast
  from finalize_law [OF this, of a] a(2) show ?thesis by force
qed

text \<open>How far two nodes are apart, and what each of them has seen.\<close>

lemma lockstep_logs:
  assumes "\<forall>a \<in> S. net_log x a = h a # P \<or> net_log x a = h a # P @ [m]" and "plan 1 1 0 = P @ m # r"
  shows "\<forall>a \<in> S. prefix (net_log x a) (h a # plan 1 1 0)"
    and "\<forall>a \<in> S. \<forall>b \<in> S. length (net_log x a) \<le> length (net_log x b) + 1"
proof -
  show "\<forall>a \<in> S. prefix (net_log x a) (h a # plan 1 1 0)" using assms by auto
  have b: "Suc (length P) \<le> length (net_log x a) \<and> length (net_log x a) \<le> Suc (Suc (length P))" if "a \<in> S" for a
    using assms(1) that by auto
  show "\<forall>a \<in> S. \<forall>b \<in> S. length (net_log x a) \<le> length (net_log x b) + 1"
  proof (intro ballI)
    fix a a' assume "a \<in> S" "a' \<in> S"
    from b [OF this(1)] b [OF this(2)] show "length (net_log x a) \<le> length (net_log x a') + 1" by linarith
  qed
qed

lemma base_ranges:
  assumes "base N infos rng s"
  shows "map rng (connected_clients s) = take (length (connected_clients s)) infos" "length (connected_clients s) = N"
proof -
  have m: "map rng (connected_clients s) = infos" using assms by (simp add: base_def)
  have "length infos = length (connected_clients s)" unfolding m [symmetric] by simp
  with m show "map rng (connected_clients s) = take (length (connected_clients s)) infos" by simp
  show "length (connected_clients s) = N" using assms by (simp add: base_def)
qed

lemma net_inv_lockstep:
  assumes "net_inv N infos v x"
  shows "\<exists>rng. map rng (connected_clients (net_server x)) = take (length (connected_clients (net_server x))) infos \<and>
     (\<forall>a \<in> set (connected_clients (net_server x)). prefix (net_log x a) (Cl_Node_Gru_Info (rng a) # plan 1 1 0) \<and>
        (\<forall>b \<in> set (connected_clients (net_server x)). length (net_log x a) \<le> length (net_log x b) + 1)) \<and>
     (da_idle x \<longrightarrow> length (connected_clients (net_server x)) = N \<and>
        (\<forall>a \<in> set (connected_clients (net_server x)). net_log x a = Cl_Node_Gru_Info (rng a) # plan 1 1 0))"
  using assms
proof cases
  case (connecting rng host g U A B C s)
  note c = conn_atD [OF connecting(1)]
  have fin: "finite A" "finite B" "finite C" using parts_finite [OF c(5)] by auto
  have "\<not> da_idle x"
  proof
    assume "da_idle x"
    then have "A = {}" "U = {}" "B = {}" using c(1,2,6) fin by (auto simp: da_idle_def)
    then show False using c(8,9,23) parts_card [OF c(5)] distinct_card [OF c(9)] by simp
  qed
  moreover have "\<forall>a \<in> set (connected_clients s). net_log x a = [] \<or> net_log x a = [Cl_Node_Gru_Info (rng a)]"
    using c(5,21,22) by (auto simp: parts_def)
  ultimately show ?thesis using c(4,20) by (intro exI [of _ rng]) auto
next
  case (working i t f m r P rng A B C)
  note w = work_atD [OF working(1)]
  let ?S = "set (connected_clients (net_server x))"
  have fin: "finite A" "finite B" using parts_finite [OF w(7)] by auto
  then have "\<not> da_idle x" using w(2,3,12) by (auto simp: da_idle_def)
  moreover have "\<forall>a \<in> ?S. net_log x a = Cl_Node_Gru_Info (rng a) # P \<or>
      net_log x a = Cl_Node_Gru_Info (rng a) # P @ [m]"
    using w(7,10,11) by (auto simp: parts_def)
  moreover have "plan 1 1 0 = P @ m # r" using w(1,9) by simp
  ultimately show ?thesis
    using lockstep_logs [of ?S x "\<lambda>a. Cl_Node_Gru_Info (rng a)" P m r] base_ranges [OF w(5)]
    by (intro exI [of _ rng]) simp
next
  case (launching f s rng i t P)
  obtain m r where "plan i t f = m # r" using launching(1) by (simp add: plan_update)
  moreover have "\<not> da_idle x" using launching(4) by (simp add: da_idle_def)
  ultimately show ?thesis
    using lockstep_logs [of "set (connected_clients s)" x "\<lambda>a. Cl_Node_Gru_Info (rng a)" P m r] launching(5,9,10)
      base_ranges [OF launching(6)]
    by (intro exI [of _ rng]) simp
next
  case (finishing A s rng P)
  have "finite A" using finishing(6) finite_subset by blast
  then have fin: "A = {}" if "da_idle x" using that finishing(1) by (simp add: da_idle_def)
  moreover have "\<forall>a \<in> set (connected_clients s). net_log x a = Cl_Node_Gru_Info (rng a) # P \<or>
      net_log x a = Cl_Node_Gru_Info (rng a) # P @ [Cl_Finalize]"
    using finishing(8,9) by auto
  ultimately show ?thesis
    using lockstep_logs [of "set (connected_clients s)" x "\<lambda>a. Cl_Node_Gru_Info (rng a)" P Cl_Finalize "[]"]
      finishing(4,7,9) base_ranges [OF finishing(5)]
    by (intro exI [of _ rng]) auto
qed

end

end
