(* ===== verification/DA_Runs.thy ===== *)
theory DA_Runs
  imports DA_System
begin

text \<open>
  Runs of the distributed data assimilation to their end.  The node that the server has spawned
  shares its process, so when that node works off the command to finish, the server is gone
  as well, and the other nodes may have lost it before they get the command.  Every
  run is bounded, and at its end all nodes have run all timesteps.
\<close>

subsection \<open>What surrounds the schedule\<close>

lemma server_frame:
  assumes "da_server_receive a m s = Inr (s', es)"
  shows "clients_exited s' = clients_exited s" and "sv_mode s' = sv_mode s" and "sv_done s \<Longrightarrow> sv_done s'"
    and "set (connected_clients s) \<subseteq> set (connected_clients s')"
    and "m = Sv_Connect h \<Longrightarrow> a \<in> set (connected_clients s')"
    and "(b, k) \<in> set (concat (map sent_to_nodes es)) \<Longrightarrow>
      b \<in> set (connected_clients s') \<and> (k = Cl_Finalize \<longrightarrow> sv_done s')"
  using assms
  by (cases m; auto simp: on_da_connect_def on_da_file_access_ready_def on_da_new_forcing_file_def
      on_da_update_hru_def on_da_done_update_def to_clients_def sent_to_nodes_def res_simps Let_def
      split: option.splits if_splits)+

text \<open>The nodes that have worked off the command to finish.\<close>

definition finalized :: "'c da_net \<Rightarrow> actor_id set" where
  "finalized x = {a. Cl_Finalize \<in> set (net_log x a)}"

text \<open>While the server's process lives: its own node has not been told to finish; the server has
  counted the others that ended, except those its monitors are still to report; messages go to connected
  nodes only.\<close>

definition serving :: "'c da_net \<Rightarrow> bool" where
  "serving x \<longleftrightarrow> \<not> net_down x \<and> net_lost x = {} \<and> sv_mode (net_server x) = DA_Serving \<and>
     finite (finalized x) \<and> 0 \<le> clients_exited (net_server x) \<and>
     clients_exited (net_server x) + int (size (net_notices x)) = int (card (finalized x)) \<and>
     net_local x \<notin> finalized x \<and> finalized x \<subseteq> set (connected_clients (net_server x)) \<and>
     (net_local x \<in> set (connected_clients (net_server x)) \<or> (\<exists>h. (net_local x, Sv_Connect h) \<in># to_server x)) \<and>
     (\<forall>p \<in># to_nodes x. fst p \<in> set (connected_clients (net_server x)) \<and> (snd p = Cl_Finalize \<longrightarrow> sv_done (net_server x))) \<and>
     (finalized x \<noteq> {} \<longrightarrow> sv_done (net_server x))"

lemma servingI:
  assumes "\<not> net_down x" "net_lost x = {}" "sv_mode (net_server x) = DA_Serving"
    "finite (finalized x)" "0 \<le> clients_exited (net_server x)"
    "clients_exited (net_server x) + int (size (net_notices x)) = int (card (finalized x))"
    "net_local x \<notin> finalized x" "finalized x \<subseteq> set (connected_clients (net_server x))"
    "net_local x \<in> set (connected_clients (net_server x)) \<or> (\<exists>h. (net_local x, Sv_Connect h) \<in># to_server x)"
    "\<And>b k. (b, k) \<in># to_nodes x \<Longrightarrow> b \<in> set (connected_clients (net_server x)) \<and> (k = Cl_Finalize \<longrightarrow> sv_done (net_server x))"
    "finalized x \<noteq> {} \<Longrightarrow> sv_done (net_server x)"
  shows "serving x"
  using assms unfolding serving_def by (auto simp del: split_paired_Ex)

lemma servingD:
  assumes "serving x"
  shows "\<not> net_down x" "net_lost x = {}" "sv_mode (net_server x) = DA_Serving"
    "finite (finalized x)" "0 \<le> clients_exited (net_server x)"
    "clients_exited (net_server x) + int (size (net_notices x)) = int (card (finalized x))"
    "net_local x \<notin> finalized x" "finalized x \<subseteq> set (connected_clients (net_server x))"
    "net_local x \<in> set (connected_clients (net_server x)) \<or> (\<exists>h. (net_local x, Sv_Connect h) \<in># to_server x)"
    "\<And>b k. (b, k) \<in># to_nodes x \<Longrightarrow> b \<in> set (connected_clients (net_server x)) \<and> (k = Cl_Finalize \<longrightarrow> sv_done (net_server x))"
    "finalized x \<noteq> {} \<Longrightarrow> sv_done (net_server x)"
  using assms unfolding serving_def by fastforce+

lemma serving_serve:
  assumes "serving x" and y: "net_serve a m (x\<lparr>to_server := M, net_own := K\<rparr>) = Inr y"
    and M: "\<And>h. (net_local x, Sv_Connect h) \<in># to_server x \<Longrightarrow> (net_local x, Sv_Connect h) \<in># M \<or> a = net_local x \<and> m = Sv_Connect h"
  shows "serving y" and "net_notices y = net_notices x"
proof -
  note sv = servingD [OF assms(1)]
  from y obtain s' es where r: "da_server_receive a m (net_server x) = Inr (s', es)" and
    y': "y = x\<lparr>to_server := M, net_own := K + mset (concat (map sent_to_own es)), net_server := s',
      to_nodes := to_nodes x + mset (concat (map sent_to_nodes es))\<rparr>"
    by (auto simp: net_serve_def res_simps)
  note f = server_frame [OF r]
  have fin: "finalized y = finalized x" by (simp add: finalized_def y')
  show "net_notices y = net_notices x" by (simp add: y')
  show "serving y"
  proof (rule servingI)
    show "net_local y \<in> set (connected_clients (net_server y)) \<or> (\<exists>h. (net_local y, Sv_Connect h) \<in># to_server y)"
      using sv(9) M f(4,5) by (auto simp: y' simp del: split_paired_Ex)
    show "b \<in> set (connected_clients (net_server y)) \<and> (k = Cl_Finalize \<longrightarrow> sv_done (net_server y))"
      if "(b, k) \<in># to_nodes y" for b k
    proof (cases "(b, k) \<in># to_nodes x")
      case True
      with sv(10) f(3,4) show ?thesis by (auto simp: y')
    next
      case False
      with that f(6) [of b k] show ?thesis by (simp add: y')
    qed
    show "finalized y \<subseteq> set (connected_clients (net_server y))" using fin sv(8) f(4) by (auto simp: y')
    show "finalized y \<noteq> {} \<Longrightarrow> sv_done (net_server y)" using fin sv(11) f(3) by (simp add: y')
    show "clients_exited (net_server y) + int (size (net_notices y)) = int (card (finalized y))"
      using fin sv(6) f(1) by (simp add: y')
  qed (use sv f(1,2) fin in \<open>simp_all add: y'\<close>)
qed

lemma deliver_fields [simp]:
  "net_server (net_deliver node a m x) = net_server x" "net_local (net_deliver node a m x) = net_local x"
  "net_down (net_deliver node a m x) = net_down x" "net_notices (net_deliver node a m x) = net_notices x"
  "net_lost (net_deliver node a m x) = net_lost x" "to_nodes (net_deliver node a m x) = to_nodes x"
  "net_own (net_deliver node a m x) = net_own x"
  "net_log (net_deliver node a m x) = (net_log x)(a := net_log x a @ [m])"
  "to_server (net_deliver node a m x) = to_server x + mset (map (Pair a) (fst (snd (node a m (net_nodes x a)))))"
  by (simp_all add: net_deliver_def split: prod.splits)

lemma finalized_log:
  "net_log y = (net_log x)(a := net_log x a @ [m]) \<Longrightarrow>
   finalized y = (if m = Cl_Finalize then insert a (finalized x) else finalized x)"
  by (auto simp: finalized_def)

lemma serving_work:
  assumes "serving x" and "m \<noteq> Cl_Finalize"
  shows "serving (net_deliver node a m (x\<lparr>to_nodes := to_nodes x - {#(a, m)#}\<rparr>))"
proof -
  note sv = servingD [OF assms(1)]
  let ?y = "net_deliver node a m (x\<lparr>to_nodes := to_nodes x - {#(a, m)#}\<rparr>)"
  have fin: "finalized ?y = finalized x" using finalized_log [of ?y x a m] assms(2) by simp
  show ?thesis
    by (rule servingI) (use sv fin in \<open>auto dest: in_diffD simp del: split_paired_Ex\<close>)
qed

text \<open>A node other than the server's own finishes, and the server's monitor reports it.\<close>

lemma serving_exit:
  assumes "serving x" and "(a, Cl_Finalize) \<in># to_nodes x" and "a \<noteq> net_local x" and "a \<notin> finalized x"
  shows "serving (net_exit a (net_deliver node a Cl_Finalize (x\<lparr>to_nodes := to_nodes x - {#(a, Cl_Finalize)#}\<rparr>)))"
proof -
  note sv = servingD [OF assms(1)]
  let ?y = "net_deliver node a Cl_Finalize (x\<lparr>to_nodes := to_nodes x - {#(a, Cl_Finalize)#}\<rparr>)"
  have y: "net_exit a ?y = ?y\<lparr>to_nodes := filter_mset (\<lambda>p. fst p \<noteq> a) (to_nodes ?y), net_notices := add_mset a (net_notices x)\<rparr>"
    using assms(3) sv(1) by (simp add: net_exit_def)
  have fin: "finalized (net_exit a ?y) = insert a (finalized x)"
    using finalized_log [of "net_exit a ?y" x a Cl_Finalize] by (simp add: y)
  show ?thesis
    by (rule servingI, unfold fin) (use sv assms(2-4) in \<open>auto simp: y dest: in_diffD simp del: split_paired_Ex\<close>)
qed

lemma serving_notice:
  assumes "serving x" and "a \<in># net_notices x" and "clients_exited (net_server x) + 1 \<noteq> nodes (net_server x)"
  defines "y \<equiv> x\<lparr>net_server := (net_server x)\<lparr>clients_exited := clients_exited (net_server x) + 1\<rparr>,
    net_notices := net_notices x - {#a#}\<rparr>"
  shows "net_notice (x\<lparr>net_notices := net_notices x - {#a#}\<rparr>) = y" and "serving y"
    and "size (net_notices x) = Suc (size (net_notices y))"
proof -
  note sv = servingD [OF assms(1)]
  from assms(2) show sz: "size (net_notices x) = Suc (size (net_notices y))"
    by (simp add: y_def size_Diff_singleton) (metis Suc_pred nonempty_has_size empty_iff set_mset_empty)
  then have "finalized x \<noteq> {}" using sv(4-6) by auto
  then have "sv_done (net_server x)" by (rule sv(11))
  then show "net_notice (x\<lparr>net_notices := net_notices x - {#a#}\<rparr>) = y"
    using sv(3) assms(3) by (simp add: net_notice_def on_da_client_down_def y_def nodes_def Let_def)
  have "finalized y = finalized x" by (simp add: finalized_def y_def)
  then show "serving y"
    using sv sz by (intro servingI) (auto simp: y_def simp del: split_paired_Ex)
qed

lemma left_in: "p \<in># M \<Longrightarrow> p = q \<or> p \<in># M - {#q#}"
  by (metis in_diff_count count_eq_zero_iff count_single diff_zero gr_zeroI)

lemma filter_tokens:
  "finite A \<Longrightarrow> filter_mset (\<lambda>p. fst p \<noteq> a) (tokens m A) = tokens m (A - {a})"
proof (induction A rule: finite_induct)
  case (insert b A)
  then show ?case
    using tokens_insert [of A b m, symmetric] tokens_insert [of "A - {a}" b m, symmetric]
    by (cases "a = b") (auto simp: insert_Diff_if)
qed simp

subsection \<open>The end of a run\<close>

context da_node begin

text \<open>The process of the server has ended: \<open>A\<close> have the command to finish ahead, and those of
  \<open>net_lost\<close> will never get it.\<close>

definition closing :: "nat \<Rightarrow> node_gru_info list \<Rightarrow> (actor_id \<Rightarrow> node_gru_info) \<Rightarrow> da_client_msg list \<Rightarrow> actor_id set \<Rightarrow>
   'c da_net \<Rightarrow> bool" where
  "closing N infos rng P A x \<longleftrightarrow> net_down x \<and> to_nodes x = tokens (\<lambda>_. Cl_Finalize) A \<and> to_server x = {#} \<and>
     net_own x = {#} \<and> net_notices x = {#} \<and> base N infos rng (net_server x) \<and>
     A \<union> net_lost x \<subseteq> set (connected_clients (net_server x)) \<and> A \<inter> net_lost x = {} \<and>
     net_local x \<in> set (connected_clients (net_server x)) - (A \<union> net_lost x) \<and> plan 1 1 0 = P @ [Cl_Finalize] \<and>
     (\<forall>a \<in> A \<union> net_lost x. net_log x a = Cl_Node_Gru_Info (rng a) # P) \<and> (\<forall>a \<in> A. \<exists>k. loaded k (net_nodes x a)) \<and>
     (\<forall>a \<in> set (connected_clients (net_server x)) - (A \<union> net_lost x). net_log x a = Cl_Node_Gru_Info (rng a) # P @ [Cl_Finalize])"

lemma closingI:
  assumes "net_down x" "to_nodes x = tokens (\<lambda>_. Cl_Finalize) A" "to_server x = {#}" "net_own x = {#}"
    "net_notices x = {#}" "base N infos rng (net_server x)"
    "A \<union> net_lost x \<subseteq> set (connected_clients (net_server x))" "A \<inter> net_lost x = {}"
    "net_local x \<in> set (connected_clients (net_server x)) - (A \<union> net_lost x)" "plan 1 1 0 = P @ [Cl_Finalize]"
    "\<forall>a \<in> A \<union> net_lost x. net_log x a = Cl_Node_Gru_Info (rng a) # P" "\<forall>a \<in> A. \<exists>k. loaded k (net_nodes x a)"
    "\<forall>a \<in> set (connected_clients (net_server x)) - (A \<union> net_lost x). net_log x a = Cl_Node_Gru_Info (rng a) # P @ [Cl_Finalize]"
  shows "closing N infos rng P A x"
  using assms unfolding closing_def by blast

lemma closingD:
  assumes "closing N infos rng P A x"
  shows "net_down x" "to_nodes x = tokens (\<lambda>_. Cl_Finalize) A" "to_server x = {#}" "net_own x = {#}"
    "net_notices x = {#}" "base N infos rng (net_server x)"
    "A \<union> net_lost x \<subseteq> set (connected_clients (net_server x))" "A \<inter> net_lost x = {}"
    "net_local x \<in> set (connected_clients (net_server x)) - (A \<union> net_lost x)" "plan 1 1 0 = P @ [Cl_Finalize]"
    "\<forall>a \<in> A \<union> net_lost x. net_log x a = Cl_Node_Gru_Info (rng a) # P" "\<forall>a \<in> A. \<exists>k. loaded k (net_nodes x a)"
    "\<forall>a \<in> set (connected_clients (net_server x)) - (A \<union> net_lost x). net_log x a = Cl_Node_Gru_Info (rng a) # P @ [Cl_Finalize]"
  using assms unfolding closing_def by blast+

definition run_inv :: "nat \<Rightarrow> node_gru_info list \<Rightarrow> nat \<Rightarrow> 'c da_net \<Rightarrow> bool" where
  "run_inv N infos v x \<longleftrightarrow>
     (\<exists>v0. net_inv N infos v0 x \<and> serving x \<and> v = v0 + size (net_notices x)) \<or>
     (\<exists>rng P A. closing N infos rng P A x \<and> v = 2 * card A)"

lemma run_inv_serving: "net_inv N infos v0 x \<Longrightarrow> serving x \<Longrightarrow> run_inv N infos (v0 + size (net_notices x)) x"
  unfolding run_inv_def by blast

lemma run_inv_closing: "closing N infos rng P A x \<Longrightarrow> run_inv N infos (2 * card A) x"
  unfolding run_inv_def by blast

lemma closing_finite: "closing N infos rng P A x \<Longrightarrow> finite A"
  unfolding closing_def by (metis List.finite_set finite_subset le_supE)

lemma net_inv_count:
  assumes "net_inv N infos v x"
  shows "net_inv N infos v (x\<lparr>net_server := (net_server x)\<lparr>clients_exited := k\<rparr>, net_notices := M\<rparr>)"
proof -
  let ?y = "x\<lparr>net_server := (net_server x)\<lparr>clients_exited := k\<rparr>, net_notices := M\<rparr>"
  have b: "base N infos rng (s\<lparr>clients_exited := k\<rparr>) = base N infos rng s" for rng s
    by (simp add: base_def nodes_def)
  have st: "stands i t f (s\<lparr>clients_exited := k\<rparr>) = stands i t f s" for i t f s by (simp add: stands_def)
  from assms show ?thesis
  proof cases
    case (connecting rng host g U A B C s)
    have "conn_at N infos rng host g U A B C (net_server ?y) ?y"
      using connecting(1) conn_atD(4) [OF connecting(1)] unfolding conn_at_def by (simp add: nodes_def)
    then show ?thesis using connecting(2) by (rule net_inv.connecting)
  next
    case (working i t f m r P rng A B C)
    have "work_at N infos i t f m r P rng A B C ?y"
      using working(1) unfolding work_at_def by (simp add: b st)
    then show ?thesis using working(2) by (rule net_inv.working)
  next
    case (launching f s rng i t P)
    then show ?thesis
      by (intro net_inv.launching [of f ?y "net_server ?y" N infos rng i t P]) (simp_all add: b st)
  next
    case (finishing A s rng P)
    then show ?thesis
      by (intro net_inv.finishing [of ?y A "net_server ?y" N infos rng P]) (simp_all add: b)
  qed
qed

lemma net_inv_notices: "net_inv N infos v x \<Longrightarrow> net_inv N infos v (x\<lparr>net_notices := M\<rparr>)"
  using net_inv_count [where x = x and k = "clients_exited (net_server x)" and M = M and N = N and infos = infos and v = v]
  by simp

text \<open>Once a node has finished, all nodes are connected, and the server's own is one of them.\<close>

lemma finalized_phase:
  assumes "net_inv N infos v x" and "serving x" and "finalized x \<noteq> {}"
  shows "\<exists>rng. base N infos rng (net_server x) \<and> to_server x = {#}"
proof -
  note sv = servingD [OF assms(2)]
  obtain a where a: "Cl_Finalize \<in> set (net_log x a)" "a \<in> set (connected_clients (net_server x))"
    using assms(3) sv(8) by (auto simp: finalized_def)
  from assms(1) show ?thesis
  proof cases
    case (connecting rng host g U A B C s)
    note c = conn_atD [OF connecting(1)]
    have "net_log x a = [] \<or> net_log x a = [Cl_Node_Gru_Info (rng a)]"
      using a(2) c(4,5,21,22) by (auto simp: parts_def)
    with a(1) show ?thesis by auto
  next
    case (working i t f m r P rng A B C)
    note w = work_atD [OF working(1)]
    have "net_log x a = Cl_Node_Gru_Info (rng a) # P \<or> net_log x a = Cl_Node_Gru_Info (rng a) # P @ [m]"
      using a(2) w(7,10,11) by (auto simp: parts_def)
    moreover have "Cl_Finalize \<notin> set P" using plan_before [OF w(9)] w(1) by simp
    ultimately show ?thesis using a(1) plan_head [OF w(1)] by auto
  next
    case (launching f s rng i t P)
    have "Cl_Finalize \<notin> set P" using plan_before [OF launching(9)] launching(1) by (simp add: plan_update)
    with a launching(5,10) show ?thesis by auto
  next
    case (finishing A s rng P)
    then show ?thesis by auto
  qed
qed

lemma local_finishes:
  assumes "net_inv N infos v x" and "serving x" and "(net_local x, Cl_Finalize) \<in># to_nodes x"
  shows "\<exists>v'. run_inv N infos v' (net_exit (net_local x) (net_deliver node (net_local x) Cl_Finalize
      (x\<lparr>to_nodes := to_nodes x - {#(net_local x, Cl_Finalize)#}\<rparr>))) \<and> v' < v"
proof -
  let ?l = "net_local x"
  from finalize_at [OF assms(1,3)] obtain A rng P where f: "?l \<in> A" "to_nodes x = tokens (\<lambda>_. Cl_Finalize) A"
    "base N infos rng (net_server x)" "A \<subseteq> set (connected_clients (net_server x))" "plan 1 1 0 = P @ [Cl_Finalize]"
    "\<forall>a \<in> A. net_log x a = Cl_Node_Gru_Info (rng a) # P \<and> (\<exists>k. loaded k (net_nodes x a))"
    "\<forall>a \<in> set (connected_clients (net_server x)) - A. net_log x a = Cl_Node_Gru_Info (rng a) # P @ [Cl_Finalize]"
    "v = 2 * card A" by blast
  have fin: "finite A" using f(4) finite_subset by blast
  let ?y = "net_deliver node ?l Cl_Finalize (x\<lparr>to_nodes := to_nodes x - {#(?l, Cl_Finalize)#}\<rparr>)"
  have n: "net_nodes ?y b = net_nodes x b" if "b \<noteq> ?l" for b using that by (simp add: net_deliver_def split: prod.splits)
  have t: "filter_mset (\<lambda>p. fst p \<noteq> ?l) (to_nodes ?y) = tokens (\<lambda>_. Cl_Finalize) (A - {?l})"
    using f(2) tokens_remove [OF fin f(1), of "\<lambda>_. Cl_Finalize"] filter_tokens [of "A - {?l}" ?l "\<lambda>_. Cl_Finalize"] fin
    by simp
  have lost: "net_lost x = {}" using assms(2) by (rule servingD(2))
  let ?z = "?y\<lparr>net_down := True, to_server := {#}, net_own := {#}, net_notices := {#},
    to_nodes := tokens (\<lambda>_. Cl_Finalize) (A - {?l})\<rparr>"
  have z: "net_exit ?l ?y = ?z" using t by (simp add: net_exit_def net_stop_def)
  have "closing N infos rng P (A - {?l}) ?z"
  proof (rule closingI)
    show "\<forall>a \<in> A - {?l}. \<exists>k. loaded k (net_nodes ?z a)" using f(6) n by auto
    show "\<forall>a \<in> set (connected_clients (net_server ?z)) - (A - {?l} \<union> net_lost ?z).
        net_log ?z a = Cl_Node_Gru_Info (rng a) # P @ [Cl_Finalize]"
    proof
      fix b assume "b \<in> set (connected_clients (net_server ?z)) - (A - {?l} \<union> net_lost ?z)"
      then have "b = ?l \<or> b \<in> set (connected_clients (net_server x)) - A" using lost by auto
      then show "net_log ?z b = Cl_Node_Gru_Info (rng b) # P @ [Cl_Finalize]"
      proof
        assume "b = ?l"
        moreover have "net_log x ?l = Cl_Node_Gru_Info (rng ?l) # P" using f(1,6) by blast
        ultimately show ?thesis by simp
      next
        assume b: "b \<in> set (connected_clients (net_server x)) - A"
        then have "net_log x b = Cl_Node_Gru_Info (rng b) # P @ [Cl_Finalize]" using f(7) by blast
        moreover have "b \<noteq> ?l" using b f(1) by blast
        ultimately show ?thesis by simp
      qed
    qed
    show "\<forall>a \<in> A - {?l} \<union> net_lost ?z. net_log ?z a = Cl_Node_Gru_Info (rng a) # P" using f(6) lost by simp
    show "A - {?l} \<union> net_lost ?z \<subseteq> set (connected_clients (net_server ?z))" using f(4) lost by auto
    show "net_local ?z \<in> set (connected_clients (net_server ?z)) - (A - {?l} \<union> net_lost ?z)" using f(1,4) lost by auto
    show "(A - {?l}) \<inter> net_lost ?z = {}" using lost by simp
  qed (use f(3,5) in simp_all)
  then have "closing N infos rng P (A - {?l}) (net_exit ?l ?y)" unfolding z .
  from run_inv_closing [OF this] card_less [OF fin f(1)] f(8) show ?thesis
    by (intro exI [of _ "2 * card (A - {?l})"]) simp
qed

lemma other_finishes:
  assumes "net_inv N infos v x" and "serving x" and "(a, Cl_Finalize) \<in># to_nodes x" and "a \<noteq> net_local x"
  shows "\<exists>v'. run_inv N infos v' (net_exit a (net_deliver node a Cl_Finalize (x\<lparr>to_nodes := to_nodes x - {#(a, Cl_Finalize)#}\<rparr>))) \<and>
    v' < v + size (net_notices x)"
proof -
  from finalize_at [OF assms(1,3)] obtain A rng P where f: "a \<in> A" "to_nodes x = tokens (\<lambda>_. Cl_Finalize) A"
    "to_server x = {#}" "net_own x = {#}" "base N infos rng (net_server x)" "A \<subseteq> set (connected_clients (net_server x))"
    "plan 1 1 0 = P @ [Cl_Finalize]"
    "\<forall>a \<in> A. net_log x a = Cl_Node_Gru_Info (rng a) # P \<and> (\<exists>k. loaded k (net_nodes x a))"
    "\<forall>a \<in> set (connected_clients (net_server x)) - A. net_log x a = Cl_Node_Gru_Info (rng a) # P @ [Cl_Finalize]"
    "v = 2 * card A" by blast
  have fin: "finite A" using f(6) finite_subset by blast
  let ?y = "net_deliver node a Cl_Finalize (x\<lparr>to_nodes := to_nodes x - {#(a, Cl_Finalize)#}\<rparr>)"
  have "Cl_Finalize \<notin> set P" using plan_before [OF f(7)] by simp
  then have "a \<notin> finalized x" using f(1,8) by (auto simp: finalized_def)
  note s = serving_exit [OF assms(2,3,4) this, of node]
  note w = finishing_work [OF f(2-9) assms(3)]
  have "to_nodes ?y = tokens (\<lambda>_. Cl_Finalize) (A - {a})"
    using f(2) tokens_remove [OF fin f(1), of "\<lambda>_. Cl_Finalize"] by simp
  then have "filter_mset (\<lambda>p. fst p \<noteq> a) (to_nodes ?y) = to_nodes ?y"
    using filter_tokens [of "A - {a}" a "\<lambda>_. Cl_Finalize"] fin by simp
  then have e: "net_exit a ?y = ?y\<lparr>net_notices := add_mset a (net_notices x)\<rparr>"
    using assms(4) servingD(1) [OF assms(2)] by (simp add: net_exit_def)
  have "net_inv N infos (2 * card (A - {a})) (net_exit a ?y)" unfolding e using w(1) by (rule net_inv_notices)
  from run_inv_serving [OF this s] w(3) f(10) show ?thesis
    by (intro exI [of _ "2 * card (A - {a}) + size (net_notices (net_exit a ?y))"]) (simp add: e)
qed

lemma closing_work:
  assumes c: "closing N infos rng P A x" and a: "(a, m) \<in># to_nodes x"
  shows "closing N infos rng P (A - {a}) (net_work node a m (x\<lparr>to_nodes := to_nodes x - {#(a, m)#}\<rparr>))"
    and "closing N infos rng P (A - {a}) (x\<lparr>to_nodes := filter_mset (\<lambda>p. fst p \<noteq> a) (to_nodes x), net_lost := insert a (net_lost x)\<rparr>)"
    and "a \<in> A"
proof -
  note fin = closing_finite [OF c]
  have aA: "a \<in> A" "m = Cl_Finalize" using c a fin by (auto simp: closing_def)
  then show "a \<in> A" by simp
  note f = closingD [OF c]
  obtain k where "loaded k (net_nodes x a)" using f(12) aA by blast
  from finalize_law [OF this, of a] obtain c' where c': "node a Cl_Finalize (net_nodes x a) = (c', [], True)" by blast
  have l: "a \<noteq> net_local x" using f(9) aA by blast
  let ?d = "net_deliver node a m (x\<lparr>to_nodes := to_nodes x - {#(a, m)#}\<rparr>)"
  let ?y = "?d\<lparr>to_nodes := tokens (\<lambda>_. Cl_Finalize) (A - {a})\<rparr>"
  have "filter_mset (\<lambda>p. fst p \<noteq> a) (to_nodes x - {#(a, m)#}) = tokens (\<lambda>_. Cl_Finalize) (A - {a})"
    using f(2) aA(2) tokens_remove [OF fin aA(1), of "\<lambda>_. Cl_Finalize"] filter_tokens [of "A - {a}" a "\<lambda>_. Cl_Finalize"] fin
    by simp
  then have y: "net_work node a m (x\<lparr>to_nodes := to_nodes x - {#(a, m)#}\<rparr>) = ?y"
    using c' aA(2) l f(1) by (simp add: net_work_def net_exit_def)
  have ms: "to_server ?d = {#}" using f(3) c' aA(2) by simp
  have n: "net_nodes ?d b = net_nodes x b" if "b \<noteq> a" for b using that by (simp add: net_deliver_def split: prod.splits)
  have aL: "a \<notin> net_lost x" using f(8) aA(1) by blast
  have la: "net_log x a = Cl_Node_Gru_Info (rng a) # P" using f(11) aA(1) by blast
  show "closing N infos rng P (A - {a}) (net_work node a m (x\<lparr>to_nodes := to_nodes x - {#(a, m)#}\<rparr>))"
    unfolding y
  proof (rule closingI)
    show "\<forall>b \<in> A - {a}. \<exists>k. loaded k (net_nodes ?y b)" using f(12) n by simp
    show "\<forall>b \<in> A - {a} \<union> net_lost ?y. net_log ?y b = Cl_Node_Gru_Info (rng b) # P" using f(11) aL by auto
    show "\<forall>b \<in> set (connected_clients (net_server ?y)) - (A - {a} \<union> net_lost ?y).
        net_log ?y b = Cl_Node_Gru_Info (rng b) # P @ [Cl_Finalize]"
      using f(13) la aA(2) by auto
    show "A - {a} \<union> net_lost ?y \<subseteq> set (connected_clients (net_server ?y))" using f(7) by auto
    show "net_local ?y \<in> set (connected_clients (net_server ?y)) - (A - {a} \<union> net_lost ?y)" using f(9) by auto
    show "(A - {a}) \<inter> net_lost ?y = {}" using f(8) by auto
  qed (use f(1,4-6,10) ms in simp_all)
  let ?z = "x\<lparr>to_nodes := filter_mset (\<lambda>p. fst p \<noteq> a) (to_nodes x), net_lost := insert a (net_lost x)\<rparr>"
  have e: "A - {a} \<union> net_lost ?z = A \<union> net_lost x" using aA(1) by auto
  show "closing N infos rng P (A - {a}) ?z"
  proof (rule closingI, unfold e)
    show "to_nodes ?z = tokens (\<lambda>_. Cl_Finalize) (A - {a})" using f(2) filter_tokens [OF fin] by simp
    show "(A - {a}) \<inter> net_lost ?z = {}" using f(8) by auto
  qed (use f in simp_all)
qed

lemma run_inv_step:
  assumes "run_inv N infos v x" and "da_net_step node x r"
  shows "\<exists>y v'. r = Inr y \<and> run_inv N infos v' y \<and> v' < v"
proof -
  from assms(1) consider (alive) v0 where "net_inv N infos v0 x" "serving x" "v = v0 + size (net_notices x)"
    | (over) rng P A where "closing N infos rng P A x" "v = 2 * card A"
    unfolding run_inv_def by blast
  then show ?thesis
  proof cases
    case alive
    note sv = servingD [OF alive(2)]
    from assms(2) show ?thesis
    proof cases
      case (work a m)
      let ?y = "net_deliver node a m (x\<lparr>to_nodes := to_nodes x - {#(a, m)#}\<rparr>)"
      have ex: "snd (snd (node a m (net_nodes x a))) \<longleftrightarrow> m = Cl_Finalize" using exits_iff [OF alive(1) work(2)] .
      show ?thesis
      proof (cases "m = Cl_Finalize")
        case False
        from deliver_step [OF alive(1) work(2)] obtain v' where v': "net_inv N infos v' ?y" "v' < v0" by blast
        from run_inv_serving [OF v'(1) serving_work [OF alive(2) False]] show ?thesis
          using work(1) ex False v'(2) alive(3) by (auto simp: net_work_def)
      next
        case True
        then have r: "r = Inr (net_exit a ?y)" using work(1) ex by (simp add: net_work_def)
        show ?thesis
        proof (cases "a = net_local x")
          case a: True
          from local_finishes [OF alive(1,2)] work(2) True a r alive(3) show ?thesis by fastforce
        next
          case a: False
          from other_finishes [OF alive(1,2) work(2) [unfolded True] a] True r alive(3) show ?thesis by blast
        qed
      qed
    next
      case (serve a m)
      from serve_step [OF alive(1) serve(2)] obtain y v' where y: "net_serve a m (x\<lparr>to_server := to_server x - {#(a, m)#}\<rparr>) = Inr y"
        "net_inv N infos v' y" "v' < v0" by blast
      have s: "serving y \<and> net_notices y = net_notices x"
        using serving_serve [OF alive(2), where a = a and m = m and M = "to_server x - {#(a, m)#}" and K = "net_own x" and y = y] y(1)
          left_in [of _ "to_server x" "(a, m)"] by auto
      from run_inv_serving [OF y(2)] s y(1,3) serve(1) alive(3) show ?thesis by (intro exI [of _ y]) auto
    next
      case (own a m)
      from own_step [OF alive(1) own(2)] obtain y v' where y: "net_serve a m (x\<lparr>net_own := net_own x - {#(a, m)#}\<rparr>) = Inr y"
        "net_inv N infos v' y" "v' < v0" by blast
      have s: "serving y \<and> net_notices y = net_notices x"
        using serving_serve [OF alive(2), where a = a and m = m and M = "to_server x" and K = "net_own x - {#(a, m)#}" and y = y] y(1) by simp
      from run_inv_serving [OF y(2)] s y(1,3) own(1) alive(3) show ?thesis by (intro exI [of _ y]) auto
    next
      case (notice a)
      have ne: "finalized x \<noteq> {}" using sv(5,6) notice(2) by (cases "net_notices x") auto
      from finalized_phase [OF alive(1,2) ne] obtain rng where b: "base N infos rng (net_server x)" "to_server x = {#}" by blast
      have l: "net_local x \<in> set (connected_clients (net_server x))" using sv(9) b(2) by simp
      have "finalized x \<subseteq> set (connected_clients (net_server x)) - {net_local x}" using sv(7,8) by blast
      from card_mono [OF _ this] have "card (finalized x) < N"
        using card_less [OF _ l] connected_set [OF b(1)] by simp
      moreover have "0 < size (net_notices x)" using notice(2) by (metis empty_iff nonempty_has_size set_mset_empty)
      ultimately have "clients_exited (net_server x) + 1 \<noteq> nodes (net_server x)" using sv(6) b(1) by (simp add: base_def)
      note n = serving_notice [OF alive(2) notice(2) this]
      from run_inv_serving [OF net_inv_count [OF alive(1)] n(2)] n(1,3) notice(1) alive(3) show ?thesis by fastforce
    next
      case (lose a m)
      with sv(1) show ?thesis by simp
    qed
  next
    case over
    note f = closingD [OF over(1)] and fin = closing_finite [OF over(1)]
    have less: "2 * card (A - {a}) < v" if "a \<in> A" for a using card_less [OF fin that] over(2) by simp
    from assms(2) show ?thesis
    proof cases
      case (work a m)
      note w = closing_work [OF over(1) work(2)]
      from run_inv_closing [OF w(1)] less [OF w(3)] work(1) show ?thesis by blast
    next
      case (lose a m)
      note w = closing_work [OF over(1) lose(3)]
      from run_inv_closing [OF w(2)] less [OF w(3)] lose(1) show ?thesis by blast
    qed (use f(3-5) in simp_all)
  qed
qed

lemma run_inv_run:
  assumes "run_inv N infos v x0" and "da_net_run node x0 n x"
  shows "\<exists>v'. run_inv N infos v' x \<and> n + v' \<le> v"
  using assms(2)
proof induction
  case start
  with assms(1) show ?case by auto
next
  case (step n x y)
  then obtain v' where v': "run_inv N infos v' x" "n + v' \<le> v" by blast
  from run_inv_step [OF v'(1) step.hyps(2)] v'(2) show ?case by fastforce
qed

text \<open>The state at the end and on the way there.\<close>

lemma alive_not_idle:
  assumes "net_inv N infos v x" and "serving x"
  shows "\<not> da_idle x"
proof
  assume i: "da_idle x"
  from net_inv_lockstep [OF assms(1)] i obtain rng where
    "\<forall>a \<in> set (connected_clients (net_server x)). net_log x a = Cl_Node_Gru_Info (rng a) # plan 1 1 0" by blast
  moreover have "net_local x \<in> set (connected_clients (net_server x))"
    using servingD(9) [OF assms(2)] i by (simp add: da_idle_def)
  moreover have "Cl_Finalize \<in> set (plan 1 1 0)" using plan_final [of 1 1 0] by auto
  ultimately show False using servingD(7) [OF assms(2)] by (simp add: finalized_def)
qed

lemma run_lockstep:
  assumes "run_inv N infos v x"
  shows "\<exists>rng. map rng (connected_clients (net_server x)) = take (length (connected_clients (net_server x))) infos \<and>
     (\<forall>a \<in> set (connected_clients (net_server x)). prefix (net_log x a) (Cl_Node_Gru_Info (rng a) # plan 1 1 0) \<and>
        (\<forall>b \<in> set (connected_clients (net_server x)). length (net_log x a) \<le> length (net_log x b) + 1))"
    and "da_idle x \<Longrightarrow> length (connected_clients (net_server x)) = N \<and> net_down x \<and>
        net_local x \<in> set (connected_clients (net_server x)) - net_lost x \<and>
        (\<forall>a \<in> set (connected_clients (net_server x)).
           tl (net_log x a) @ (if a \<in> net_lost x then [Cl_Finalize] else []) = plan 1 1 0)"
proof -
  from assms consider (alive) v0 where "net_inv N infos v0 x" "serving x"
    | (over) rng P A where "closing N infos rng P A x" unfolding run_inv_def by blast
  note cases = this
  from cases show "\<exists>rng. map rng (connected_clients (net_server x)) = take (length (connected_clients (net_server x))) infos \<and>
     (\<forall>a \<in> set (connected_clients (net_server x)). prefix (net_log x a) (Cl_Node_Gru_Info (rng a) # plan 1 1 0) \<and>
        (\<forall>b \<in> set (connected_clients (net_server x)). length (net_log x a) \<le> length (net_log x b) + 1))"
  proof cases
    case alive
    from net_inv_lockstep [OF alive(1)] show ?thesis by blast
  next
    case over
    note f = closingD [OF over]
    have "\<forall>a \<in> set (connected_clients (net_server x)). net_log x a = Cl_Node_Gru_Info (rng a) # P \<or>
        net_log x a = Cl_Node_Gru_Info (rng a) # P @ [Cl_Finalize]" using f(11,13) by blast
    with lockstep_logs [of "set (connected_clients (net_server x))" x "\<lambda>a. Cl_Node_Gru_Info (rng a)" P Cl_Finalize "[]"]
      base_ranges [OF f(6)] f(10)
    show ?thesis by (intro exI [of _ rng]) simp
  qed
  show "length (connected_clients (net_server x)) = N \<and> net_down x \<and>
        net_local x \<in> set (connected_clients (net_server x)) - net_lost x \<and>
        (\<forall>a \<in> set (connected_clients (net_server x)).
           tl (net_log x a) @ (if a \<in> net_lost x then [Cl_Finalize] else []) = plan 1 1 0)" if i: "da_idle x"
    using cases
  proof cases
    case alive
    with alive_not_idle i show ?thesis by blast
  next
    case over
    note f = closingD [OF over]
    have A: "A = {}" using f(2) closing_finite [OF over] i by (simp add: da_idle_def)
    have "tl (net_log x a) @ (if a \<in> net_lost x then [Cl_Finalize] else []) = plan 1 1 0"
      if a: "a \<in> set (connected_clients (net_server x))" for a
      using f(10,11,13) A a by (cases "a \<in> net_lost x") auto
    with f(1,9) base_ranges(2) [OF f(6)] A show ?thesis by simp
  qed
qed

text \<open>A run that starts with the connection requests of as many fresh nodes as there
  are ranges, the server's own among them.\<close>

lemma run_inv_start:
  assumes "finite A" "card A = N" "0 < N" "nodes s = int N" "connected_clients s = []"
    "num_clients_ready s = 0" "sv_iFile s = 1" "sv_timestep s = 1" "sv_output_step s = 1"
    "sv_gru_struc s = Some g" "length (node_gru_info_list g) = N"
    "\<forall>i \<in> set (node_gru_info_list g). 0 < node_num_gru i" "\<forall>a \<in> A. fresh (c a)"
    and l: "l \<in> A" "sv_mode s = DA_Serving" "clients_exited s = 0"
  shows "run_inv N (node_gru_info_list g) (3 * N + (2 * N + 1) * length (plan 1 1 0)) (da_net_start s c host A l)"
proof -
  let ?x = "da_net_start s c host A l"
  have "net_inv N (node_gru_info_list g) (3 * N + (2 * N + 1) * length (plan 1 1 0)) ?x"
    by (rule connecting [OF conn_atI [where A = "{}" and B = "{}" and C = "{}" and U = A and s = s and host = host and g = g]])
      (use assms(1-13) in \<open>auto simp: da_net_start_def tokens_def parts_def\<close>)
  moreover have "finalized ?x = {}" by (simp add: finalized_def da_net_start_def)
  then have "serving ?x" using assms(1) l by (intro servingI) (auto simp: da_net_start_def)
  ultimately show ?thesis using run_inv_serving [of N "node_gru_info_list g" _ ?x] by (simp add: da_net_start_def)
qed

end

text \<open>The steps lower the rank of the invariant, so every run of the network ends idle.\<close>

lemma da_net_run_steps:
  "(\<lambda>x y. da_net_step node x (Inr y))\<^sup>*\<^sup>* x y \<Longrightarrow> da_net_run node x0 n x \<Longrightarrow> \<exists>m. da_net_run node x0 m y"
  by (induction rule: rtranclp_induct) (blast intro: da_net_run.step)+

sublocale da_node < net_runs: ranked_runs "\<lambda>x y. da_net_step node x (Inr y)" "\<lambda>v. run_inv N infos v" less_than
    da_idle "\<lambda>x. \<exists>e. da_net_step node x (Inl e)"
  for N infos
proof (unfold_locales, goal_cases)
  case (3 v x)
  with run_inv_step [OF 3] da_idle_step [of x node] show ?case by blast
qed (use run_inv_step in \<open>auto, blast+\<close>)

context da_node begin

lemma run_inv_completes:
  "run_inv N infos v x \<Longrightarrow> da_net_run node x0 n x \<Longrightarrow> \<exists>m y. da_net_run node x0 m y \<and> da_idle y"
  using net_runs.reaches_final da_net_run_steps by blast

end

end
