(* ===== verification/DA_Lockstep.thy ===== *)
theory DA_Lockstep
  imports DA_Runs
begin

text \<open>
  The node actor together with its file access actor and its GRU actors meets
  the contract the server relies on, so the lockstep of the network holds for
  the actors of \<^verbatim>\<open>da_client_actor.cpp\<close> and \<^verbatim>\<open>da_server_actor.cpp\<close>.
\<close>

subsection \<open>A node with its local actors\<close>

text \<open>What the local actors answer: the file access actor finds \<open>T\<close> time steps and
  \<open>steps i\<close> steps in forcing file \<open>i\<close>, every GRU actor reports a finished update,
  and the output is written.\<close>

definition local_replies :: "int \<Rightarrow> (int \<Rightarrow> int) \<Rightarrow> da_client_effect \<Rightarrow> da_local_msg list" where
  "local_replies T steps e = (case e of
       To_Node_File m \<Rightarrow>
         (case m of
            Init_File_Access_Actor g h \<Rightarrow> [Lc_File_Access_Initialized T]
          | Fa_Access_Forcing i \<Rightarrow> [Lc_New_Forcing_File (steps i) i]
          | Fa_Write_Output k \<Rightarrow> [Lc_Written 0]
          | _ \<Rightarrow> [])
     | To_Node_Gru a m \<Rightarrow> (case m of Update_Hru_Step t f k \<Rightarrow> [Lc_Done_Update] | _ \<Rightarrow> [])
     | _ \<Rightarrow> [])"

definition replies_to :: "int \<Rightarrow> (int \<Rightarrow> int) \<Rightarrow> da_client_effect list \<Rightarrow> da_local_msg list" where
  "replies_to T steps es = concat (map (local_replies T steps) es)"

definition server_msgs :: "da_client_effect list \<Rightarrow> da_server_msg list" where
  "server_msgs es = concat (map (\<lambda>e. case e of To_DA_Server a m \<Rightarrow> [m] | _ \<Rightarrow> []) es)"

fun da_locals :: "int \<Rightarrow> (int \<Rightarrow> actor_id) \<Rightarrow> da_local_msg list \<Rightarrow> da_client \<Rightarrow> da_client_outcome" where
  "da_locals threads ref [] c = Inr (c, [])"
| "da_locals threads ref (m # ms) c =
     res_bind (da_local_receive threads ref m c) (\<lambda>(c1, es1).
     res_bind (da_locals threads ref ms c1) (\<lambda>(c2, es2). Inr (c2, es1 @ es2)))"

text \<open>The local actors answer the effects, then the effects of the answers, and so
  on for at most \<open>k\<close> rounds.\<close>

fun da_settle ::
  "int \<Rightarrow> (int \<Rightarrow> actor_id) \<Rightarrow> int \<Rightarrow> (int \<Rightarrow> int) \<Rightarrow> nat \<Rightarrow> da_client_effect list \<Rightarrow> da_client \<Rightarrow>
   (da_client \<times> da_server_msg list) res" where
  "da_settle threads ref T steps 0 es c = Inr (c, server_msgs es)"
| "da_settle threads ref T steps (Suc k) es c =
     res_bind (da_locals threads ref (replies_to T steps es) c) (\<lambda>(c1, es1).
     res_bind (da_settle threads ref T steps k es1 c1) (\<lambda>(c2, ms). Inr (c2, server_msgs es @ ms)))"

definition process_exits :: "da_client_effect list \<Rightarrow> bool" where
  "process_exits es \<longleftrightarrow> (\<exists>e \<in> set es. case e of Exit_Process b \<Rightarrow> True | _ \<Rightarrow> False)"

text \<open>The node's state after a message and all local answers, its messages to the server, and
  whether its process has ended.\<close>

definition node_round ::
  "da_env \<Rightarrow> int \<Rightarrow> (actor_id \<Rightarrow> int \<Rightarrow> actor_id) \<Rightarrow> int \<Rightarrow> (int \<Rightarrow> int) \<Rightarrow> da_client node_fun" where
  "node_round env threads ref T steps a m c =
     (case da_client_receive env m c of
        Inl e \<Rightarrow> (c, [], False)
      | Inr (c1, es) \<Rightarrow>
          if process_exits es then (c1, server_msgs es, True)
          else case da_settle threads (ref a) T steps 3 es c1 of
              Inl e \<Rightarrow> (c, [], False)
            | Inr (c2, ms) \<Rightarrow> (c2, ms, False))"

definition da_env_ok :: "da_env \<Rightarrow> bool" where
  "da_env_ok env \<longleftrightarrow> dv_fm_error env = [] \<and> dv_global_error env = 0 \<and> dv_dim_error env = 0 \<and>
     dv_icond_error env = 0 \<and> dv_alloc_error env = 0 \<and> dv_param_error env = 0 \<and> dv_restart_error env = 0"

definition node_prints_ok :: "da_client \<Rightarrow> bool" where
  "node_prints_ok c \<longleftrightarrow> (print_output (hru_actor_settings (dc_settings c)) \<longrightarrow>
     output_frequency (hru_actor_settings (dc_settings c)) \<noteq> 0)"

text \<open>A node that has asked for its range, and a node that is ready.\<close>

definition node_fresh :: "int \<Rightarrow> da_client \<Rightarrow> bool" where
  "node_fresh threads c \<longleftrightarrow> dc_server c \<noteq> None \<and> dc_num_gru_done c = 0 \<and> dc_num_steps_ffile c = 0 \<and>
     node_prints_ok c \<and> (0 \<le> batch_size (job_actor_settings (dc_settings c)) \<or> threads \<noteq> 0)"

definition node_loaded :: "int \<Rightarrow> da_client \<Rightarrow> bool" where
  "node_loaded k c \<longleftrightarrow> dc_server c \<noteq> None \<and> dc_num_gru_done c = 0 \<and> dc_num_steps_ffile c = k \<and>
     node_prints_ok c \<and> (\<exists>g. dc_gru_struc c = Some g \<and> gru_info g \<noteq> [])"

lemma process_exits_simps [simp]:
  "\<not> process_exits []" "process_exits (Exit_Process b # es)"
  "process_exits (To_DA_Server a m # es) = process_exits es" "process_exits (To_Node_File fm # es) = process_exits es"
  "process_exits (Spawn_Node_File i fs # es) = process_exits es"
  "\<not> process_exits (to_node_grus g gm)"
  by (auto simp: process_exits_def to_node_grus_def)

lemma server_msgs_simps [simp]:
  "server_msgs [] = []" "server_msgs (To_DA_Server a m # es) = m # server_msgs es"
  "server_msgs (To_Node_File fm # es) = server_msgs es" "server_msgs (To_Node_Gru b gm # es) = server_msgs es"
  "server_msgs (Spawn_Node_File i fs # es) = server_msgs es"
  "server_msgs (Spawn_Node_Batch glob loc n ns hs j r t # es) = server_msgs es"
  "server_msgs (Exit_Process b' # es) = server_msgs es"
  by (simp_all add: server_msgs_def)

lemma local_replies_simps [simp]:
  "local_replies T steps (To_DA_Server a m) = []"
  "local_replies T steps (Spawn_Node_File i fs) = []"
  "local_replies T steps (Spawn_Node_Batch glob loc n ns hs j r t) = []"
  "local_replies T steps (To_Node_File (Init_File_Access_Actor x y)) = [Lc_File_Access_Initialized T]"
  "local_replies T steps (To_Node_File (Fa_Access_Forcing k)) = [Lc_New_Forcing_File (steps k) k]"
  "local_replies T steps (To_Node_File (Fa_Write_Output k)) = [Lc_Written 0]"
  "local_replies T steps (To_Node_Gru b (Update_Hru_Step k k' k'')) = [Lc_Done_Update]"
  "local_replies T steps (To_Node_Gru b (Update_TimeZoneOffset k)) = []"
  "local_replies T steps (Exit_Process b') = []"
  by (simp_all add: local_replies_def)

lemma replies_to_simps [simp]:
  "replies_to T steps [] = []" "replies_to T steps (e # es) = local_replies T steps e @ replies_to T steps es"
  "replies_to T steps (es @ es') = replies_to T steps es @ replies_to T steps es'"
  by (simp_all add: replies_to_def)

lemma to_node_grus_simps [simp]:
  "server_msgs (to_node_grus g gm) = []"
  "replies_to T steps (to_node_grus g (Update_TimeZoneOffset i)) = []"
  "replies_to T steps (to_node_grus g (Update_Hru_Step t f k)) =
     replicate (length (gru_info g)) Lc_Done_Update"
  by (simp_all add: to_node_grus_def server_msgs_def replies_to_def o_def map_replicate_const [symmetric])

subsection \<open>The node meets its contract\<close>

text \<open>The GRUs of a node report in any number of messages; the last one writes.\<close>

lemma node_dones:
  assumes "dc_gru_struc c = Some g" and "node_prints_ok c"
  shows "0 < n \<Longrightarrow> dc_num_gru_done c = int (length (gru_info g)) - int n \<Longrightarrow>
    da_locals threads ref (replicate n Lc_Done_Update) c =
      Inr (c\<lparr>dc_num_gru_done := 0\<rparr>, [To_Node_File (Fa_Write_Output 1)])"
  using assms
proof (induction n arbitrary: c)
  case (Suc n)
  show ?case
  proof (cases n)
    case 0
    with Suc.prems show ?thesis
      by (auto simp: on_node_done_update_def with_node_grus_def node_prints_ok_def cpp_mod_def Let_def)
  next
    case (Suc k)
    let ?c = "c\<lparr>dc_num_gru_done := dc_num_gru_done c + 1\<rparr>"
    have "on_node_done_update c = Inr (?c, [])"
      using Suc.prems Suc by (simp add: on_node_done_update_def with_node_grus_def Let_def)
    moreover have "da_locals threads ref (replicate n Lc_Done_Update) ?c =
        Inr (?c\<lparr>dc_num_gru_done := 0\<rparr>, [To_Node_File (Fa_Write_Output 1)])"
      using Suc.prems Suc by (intro Suc.IH) (auto simp: node_prints_ok_def)
    ultimately show ?thesis by simp
  qed
qed simp

lemma node_batch_loop_grows: "\<exists>xs. gru_info (fst (node_batch_loop ref s b r glob loc g)) = gru_info g @ xs"
proof (induction ref s b r glob loc g rule: node_batch_loop.induct)
  case (1 ref s b r glob loc g)
  then show ?case
    by (subst node_batch_loop.simps) (auto simp: Let_def addGRU_def split: prod.splits; fastforce)
qed

lemma node_batch_loop_nonempty:
  assumes "0 < r" and "0 < b"
  shows "gru_info (fst (node_batch_loop ref s b r glob loc g)) \<noteq> []"
proof -
  let ?n = "min b r" and ?g = "addGRU (node_gru ref s glob loc) g"
  obtain xs where "gru_info (fst (node_batch_loop ref s b (r - ?n) (glob + ?n) (loc + ?n) ?g)) = gru_info ?g @ xs"
    using node_batch_loop_grows by blast
  then show ?thesis using assms
    by (subst node_batch_loop.simps) (auto simp: Let_def addGRU_def split: prod.splits)
qed

lemma node_batch_loop_quiet:
  "server_msgs (snd (node_batch_loop ref s b r glob loc g)) = [] \<and>
   replies_to T steps (snd (node_batch_loop ref s b r glob loc g)) = []"
proof (induction ref s b r glob loc g rule: node_batch_loop.induct)
  case (1 ref s b r glob loc g)
  then show ?case by (subst (1 2) node_batch_loop.simps) (auto simp: Let_def split: prod.splits)
qed

lemma server_msgs_append [simp]: "server_msgs (es @ es') = server_msgs es @ server_msgs es'"
  by (simp add: server_msgs_def)

lemma tell_server_simps:
  assumes "dc_server c \<noteq> None"
  shows "server_msgs (tell_server c m) = [m]" "replies_to T steps (tell_server c m) = []"
  using assms by (auto simp: tell_server_def replies_to_def)

lemma node_info_round:
  assumes env: "da_env_ok env" and c: "node_fresh threads c" and T: "1 \<le> T" and n: "0 < node_num_gru info"
  shows "\<exists>c'. node_round env threads ref T steps a (Cl_Node_Gru_Info info) c = (c', [Sv_File_Access_Ready T], False) \<and>
    node_loaded 0 c'"
proof -
  define g where "g = snd (readDimension (dv_file_gru env) (dv_file_hru env) (dv_num_hru env) 0
    (GruStruc (node_start_gru info) (node_num_gru info) (max_run_attempts (job_actor_settings (dc_settings c)))))"
  define c1 where "c1 = c\<lparr>dc_info := info, dc_gru_struc := Some g\<rparr>"
  obtain i fs x y where es: "da_client_receive env (Cl_Node_Gru_Info info) c =
      Inr (c1, [Spawn_Node_File i fs, To_Node_File (Init_File_Access_Actor x y)])"
    using env by (simp add: on_node_gru_info_def da_env_ok_def readDimension_def g_def c1_def Let_def)
  define c2 where "c2 = c1\<lparr>dc_num_steps := T\<rparr>"
  define bs where "bs = (let b = batch_size (job_actor_settings (dc_settings c)) in
     if b < 0 then \<lceil>real_of_int (gs_num_gru g) / real_of_int threads\<rceil> else b)"
  obtain g' es' where l: "node_batch_loop (ref a) c2 (if bs \<le> 1 then 1 else bs) (node_num_gru info)
      (node_start_gru info) 1 g = (g', es')" by fastforce
  have g': "gru_info g' \<noteq> []"
    using node_batch_loop_nonempty [OF n, of "if bs \<le> 1 then 1 else bs" "ref a" c2 "node_start_gru info" 1 g] l
    by (auto split: if_splits)
  have q: "server_msgs es' = []" "replies_to T steps es' = []"
    using node_batch_loop_quiet [of "ref a" c2 "if bs \<le> 1 then 1 else bs" "node_num_gru info" "node_start_gru info" 1 g]
      l by auto
  let ?c3 = "c2\<lparr>dc_gru_struc := Some g'\<rparr>"
  have srv: "dc_server ?c3 \<noteq> None" using c by (simp add: node_fresh_def c2_def c1_def)
  have "da_spawnGruBatches threads (ref a) c2 = Inr (?c3, es')"
    using c l by (auto simp: da_spawnGruBatches_def with_node_grus_def node_fresh_def c1_def c2_def bs_def Let_def)
  then have "da_locals threads (ref a) [Lc_File_Access_Initialized T] c1 =
      Inr (?c3, es' @ tell_server ?c3 (Sv_File_Access_Ready T))"
    using T by (simp add: da_file_access_initialized_def c2_def)
  then have "node_round env threads ref T steps a (Cl_Node_Gru_Info info) c = (?c3, [Sv_File_Access_Ready T], False)"
    using q tell_server_simps [OF srv] es
    by (simp add: node_round_def eval_nat_numeral del: da_client_receive.simps)
  moreover have "node_loaded 0 ?c3"
    using c g' by (simp add: node_fresh_def node_loaded_def node_prints_ok_def c1_def c2_def)
  ultimately show ?thesis by blast
qed

lemma node_forcing_round:
  assumes "node_loaded k c"
  shows "\<exists>c'. node_round env threads ref T steps a (Cl_Access_Forcing i) c =
      (c', [Sv_New_Forcing_File (steps i) i], False) \<and> node_loaded (steps i) c'"
proof -
  obtain g where g: "dc_gru_struc c = Some g" using assms by (auto simp: node_loaded_def)
  let ?c = "c\<lparr>dc_num_steps_ffile := steps i\<rparr>"
  have srv: "dc_server ?c \<noteq> None" using assms by (simp add: node_loaded_def)
  have "da_locals threads (ref a) [Lc_New_Forcing_File (steps i) i] c =
      Inr (?c, to_node_grus g (Update_TimeZoneOffset i) @ tell_server ?c (Sv_New_Forcing_File (steps i) i))"
    using g by (simp add: on_node_forcing_file_def with_node_grus_def Let_def)
  then have "node_round env threads ref T steps a (Cl_Access_Forcing i) c = (?c, [Sv_New_Forcing_File (steps i) i], False)"
    using tell_server_simps [OF srv] by (simp add: node_round_def on_access_forcing_file_def eval_nat_numeral)
  moreover have "node_loaded (steps i) ?c" using assms by (simp add: node_loaded_def node_prints_ok_def)
  ultimately show ?thesis by blast
qed

lemma node_update_round:
  assumes "node_loaded k c" and "f \<le> k"
  shows "\<exists>c'. node_round env threads ref T steps a (Cl_Update_Hru t f j) c = (c', [Sv_Done_Update], False) \<and> node_loaded k c'"
proof -
  obtain g where g: "dc_gru_struc c = Some g" "gru_info g \<noteq> []" using assms by (auto simp: node_loaded_def)
  let ?c = "c\<lparr>dc_timestep := t, dc_forcing_step := f\<rparr>"
  have zero: "?c\<lparr>dc_num_gru_done := 0\<rparr> = ?c" using assms(1) by (simp add: node_loaded_def)
  have srv: "dc_server ?c \<noteq> None" using assms by (simp add: node_loaded_def)
  have recv: "da_client_receive env (Cl_Update_Hru t f j) c = Inr (?c, to_node_grus g (Update_Hru_Step t f j))"
    using assms g by (simp add: on_node_update_def with_node_grus_def node_loaded_def Let_def)
  have "da_locals threads (ref a) (replicate (length (gru_info g)) Lc_Done_Update) ?c =
      Inr (?c, [To_Node_File (Fa_Write_Output 1)])"
    using node_dones [of ?c g "length (gru_info g)" threads "ref a"] g assms(1) zero
    by (simp add: node_loaded_def node_prints_ok_def)
  moreover have "da_locals threads (ref a) [Lc_Written 0] ?c = Inr (?c, tell_server ?c Sv_Done_Update)"
    by (simp add: on_node_written_def)
  ultimately have "node_round env threads ref T steps a (Cl_Update_Hru t f j) c = (?c, [Sv_Done_Update], False)"
    using recv tell_server_simps [OF srv] by (simp add: node_round_def eval_nat_numeral del: da_client_receive.simps)
  moreover have "node_loaded k ?c" using assms by (simp add: node_loaded_def node_prints_ok_def)
  ultimately show ?thesis by blast
qed

lemma node_finalize_round: "\<exists>c'. node_round env threads ref T steps a Cl_Finalize c = (c', [], True)"
  by (simp add: node_round_def on_node_finalize_def)

lemma node_meets_contract:
  assumes "da_env_ok env" and "1 \<le> T" and "\<And>i. 1 \<le> steps i"
  shows "da_node (node_round env threads ref T steps) (node_fresh threads) node_loaded T steps"
  using assms node_info_round [OF assms(1) _ assms(2)]
  by unfold_locales (auto intro: node_forcing_round node_update_round node_finalize_round)

text \<open>The environment with its error codes cleared.\<close>

definition no_errors :: "da_env \<Rightarrow> da_env" where
  "no_errors env = env\<lparr>dv_fm_error := [], dv_global_error := 0, dv_dim_error := 0, dv_icond_error := 0,
     dv_alloc_error := 0, dv_param_error := 0, dv_restart_error := 0\<rparr>"

interpretation da_actors: da_node "node_round (no_errors env) threads ref (max 1 T) (\<lambda>i. max 1 (steps i))"
    "node_fresh threads" node_loaded "max 1 T" "\<lambda>i. max 1 (steps i)"
  for env threads ref T steps
  by (rule node_meets_contract) (simp_all add: no_errors_def da_env_ok_def)

lemma no_errors_id: "da_env_ok env \<Longrightarrow> no_errors env = env"
  by (simp add: no_errors_def da_env_ok_def)

subsection \<open>The start of the server\<close>

lemma da_server_started:
  assumes "da_server_make_behavior True file_gru (DAServerActor start num st) = Inr (s, es)"
    and "sv_gru_struc s = Some g" and "num_nodes (distributed_settings st) = int N" and "0 < N"
  shows "nodes s = int N" "connected_clients s = []" "num_clients_ready s = 0" "sv_iFile s = 1"
    "sv_timestep s = 1" "sv_output_step s = 1" "sv_mode s = DA_Serving" "clients_exited s = 0"
    "length (node_gru_info_list g) = N"
proof -
  have s: "nodes s = int N" "connected_clients s = []" "num_clients_ready s = 0" "sv_iFile s = 1"
    "sv_timestep s = 1" "sv_output_step s = 1" "sv_mode s = DA_Serving" "clients_exited s = 0"
    and g: "setNodeGruInfo (int N) (GruStruc start num (max_run_attempts (job_actor_settings st))) = Inr g"
    using assms
    by (auto simp: da_server_make_behavior_def DAServerActor_def nodes_def res_simps Let_def split: if_splits)
  from s show "nodes s = int N" "connected_clients s = []" "num_clients_ready s = 0" "sv_iFile s = 1"
    "sv_timestep s = 1" "sv_output_step s = 1" "sv_mode s = DA_Serving" "clients_exited s = 0" .
  show "length (node_gru_info_list g) = N" using g assms(4)
    by (auto simp: setNodeGruInfo_def res_simps GruStruc_def node_loop_closed [of 0 "int N"])
qed

subsection \<open>Properties\<close>

text \<open>The nodes \<open>x\<close> knows have got the ranges in the order they connected, each has
  worked off a prefix of the schedule, and no node is more than one command ahead of
  another.\<close>

definition da_lockstep :: "int \<Rightarrow> (int \<Rightarrow> int) \<Rightarrow> node_gru_info list \<Rightarrow> 'c da_net \<Rightarrow> bool" where
  "da_lockstep T steps infos x \<longleftrightarrow>
     (\<exists>rng. map rng (connected_clients (net_server x)) = take (length (connected_clients (net_server x))) infos \<and>
       (\<forall>a \<in> set (connected_clients (net_server x)).
          prefix (net_log x a) (Cl_Node_Gru_Info (rng a) # da_schedule T steps 1 1 0) \<and>
          (\<forall>b \<in> set (connected_clients (net_server x)). length (net_log x a) \<le> length (net_log x b) + 1)))"

lemma update_steps_append [simp]: "update_steps (ms @ ms') = update_steps ms @ update_steps ms'"
  by (simp add: update_steps_def)

lemma update_steps_upto:
  assumes "ms @ (if b then [Cl_Finalize] else []) = da_schedule T steps 1 1 0" and "1 \<le> T"
  shows "update_steps ms = [1 .. T]"
proof -
  have "update_steps ms = update_steps (ms @ (if b then [Cl_Finalize] else []))" by simp
  also have "\<dots> = [1 .. T]" unfolding assms(1) using update_steps_schedule [of 1 T steps 1 0] assms(2) by simp
  finally show ?thesis .
qed

text \<open>All \<open>N\<close> nodes have run all timesteps and the processes have ended.  The server's own
  node has worked off the whole schedule, and so has every other node, except that those that lost the
  server did not get the last command, to finish.\<close>

definition da_finished :: "int \<Rightarrow> (int \<Rightarrow> int) \<Rightarrow> nat \<Rightarrow> 'c da_net \<Rightarrow> bool" where
  "da_finished T steps N x \<longleftrightarrow> length (connected_clients (net_server x)) = N \<and> net_down x \<and>
     net_local x \<in> set (connected_clients (net_server x)) - net_lost x \<and>
     (\<forall>a \<in> set (connected_clients (net_server x)).
        update_steps (tl (net_log x a)) = [1 .. T] \<and>
        tl (net_log x a) @ (if a \<in> net_lost x then [Cl_Finalize] else []) = da_schedule T steps 1 1 0)"

text \<open>
  C5. The distributed data assimilation run advances in lockstep and completes.
  The property is about the two actors for any settings that carry the number of nodes; the reader
  of the configuration file never stores that number (see the last property of this theory).
  Take a server that has started with the number of nodes set and one non-empty range per
  node, and as many nodes that ask to be connected, the node \<open>l\<close> among them being the one the
  server has spawned in its own process.  In every state that any order of message deliveries leads
  to, each connected node has got its own range and then a
  prefix of one common schedule (a forcing file, its timesteps with their forcing
  steps, the next file, and so on), no node is more than one command ahead of
  another, and no handler fails.  A node that works off the command to finish calls
  \<^verbatim>\<open>exit\<close>: the monitors report the end of a remote node to the server, while the end of the
  server's own node takes the server with it, and nodes whose command to finish is still on its way
  may notice the loss of the server first and exit without it.  The number of steps of a run is
  bounded, and when nothing is left to happen, the server's process has ended and every node has run every
  timestep from 1 to the last one in order; every node that has not lost the server has also been
  told to finish.  Such an end is reached.
\<close>

theorem da_distributed_lockstep:
  assumes "da_server_make_behavior True file_gru (DAServerActor start num st) = Inr (s, es)"
    and "sv_gru_struc s = Some g" and "\<forall>i \<in> set (node_gru_info_list g). 0 < node_num_gru i"
    and "num_nodes (distributed_settings st) = int N" and "0 < N" and "finite A" and "card A = N" and "l \<in> A"
    and "\<forall>a \<in> A. node_fresh threads (c a)" and "da_env_ok env" and "1 \<le> T" and "\<forall>i. 1 \<le> steps i"
    and "node = node_round env threads ref T steps" and "x0 = da_net_start s c host A l"
  shows "(\<forall>n x. da_net_run node x0 n x \<longrightarrow>
       n \<le> 3 * N + (2 * N + 1) * length (da_schedule T steps 1 1 0) \<and>
       da_lockstep T steps (node_gru_info_list g) x \<and> (\<forall>r. da_net_step node x r \<longrightarrow> (\<exists>y. r = Inr y)) \<and>
       (da_idle x \<longrightarrow> da_finished T steps N x)) \<and>
     (\<exists>n x. da_net_run node x0 n x \<and> da_idle x)"
proof -
  have eq: "max 1 T = T" "(\<lambda>i. max 1 (steps i)) = steps" "no_errors env = env"
    using assms(10-12) no_errors_id by (auto simp: max_def)
  note started = da_server_started [OF assms(1,2,4,5)]
  note plan = da_actors.plan_def [where T = T and steps = steps, unfolded eq]
  have node: "da_node.run_inv (node_fresh threads) node_loaded T steps N (node_gru_info_list g)
      (3 * N + (2 * N + 1) * length (da_schedule T steps 1 1 0)) x0"
    using da_actors.run_inv_start [of A N s g threads c l T steps host, unfolded eq plan]
      assms(2,3,5-9,14) started by simp
  note run = da_actors.run_inv_run [where env = env and threads = threads and ref = ref and T = T and steps = steps,
      unfolded eq, OF node, folded assms(13)]
  note lockstep = da_actors.run_lockstep [where threads = threads and T = T and steps = steps,
      unfolded eq plan]
  note step = da_actors.run_inv_step [where env = env and threads = threads and ref = ref and T = T and steps = steps,
      unfolded eq, folded assms(13)]
  note completes = da_actors.run_inv_completes [where env = env and threads = threads and ref = ref and T = T
      and steps = steps, unfolded eq, OF node, folded assms(13), OF da_net_run.start]
  have all: "n \<le> 3 * N + (2 * N + 1) * length (da_schedule T steps 1 1 0) \<and>
       da_lockstep T steps (node_gru_info_list g) x \<and> (\<forall>r. da_net_step node x r \<longrightarrow> (\<exists>y. r = Inr y)) \<and>
       (da_idle x \<longrightarrow> da_finished T steps N x)" if r: "da_net_run node x0 n x" for n x
  proof -
    obtain v where v: "da_node.run_inv (node_fresh threads) node_loaded T steps N (node_gru_info_list g) v x"
      "n + v \<le> 3 * N + (2 * N + 1) * length (da_schedule T steps 1 1 0)" using run [OF r] by blast
    have "\<forall>r. da_net_step node x r \<longrightarrow> (\<exists>y. r = Inr y)" using step [OF v(1)] by blast
    moreover have "da_lockstep T steps (node_gru_info_list g) x"
      using lockstep(1) [OF v(1)] unfolding da_lockstep_def by fastforce
    moreover have "da_finished T steps N x" if "da_idle x"
      using lockstep(2) [OF v(1) that] update_steps_upto [of _ _ T steps] assms(11) unfolding da_finished_def by blast
    ultimately show ?thesis using v(2) by simp
  qed
  with completes show ?thesis by blast
qed

definition demo_da_settings :: settings where
  "demo_da_settings = (Settings_new [])\<lparr>distributed_settings := DistributedSettings_default\<lparr>num_nodes := 2\<rparr>\<rparr>"

definition demo_da_env :: da_env where
  "demo_da_env = \<lparr>dv_fm_error = [], dv_global_error = 0, dv_dim_error = 0, dv_file_gru = 10, dv_file_hru = 10,
     dv_num_hru = 5, dv_icond_error = 0, dv_alloc_error = 0, dv_param_error = 0, dv_restart_error = 0\<rparr>"

definition demo_da_node :: "actor_id \<Rightarrow> da_client" where
  "demo_da_node a = DAClientActor [] demo_da_settings (Some 0) ''never''"

lemma demo_da_server:
  "\<exists>s es g. da_server_make_behavior True 10 (DAServerActor 1 5 demo_da_settings) = Inr (s, es) \<and>
     sv_gru_struc s = Some g \<and> map node_num_gru (node_gru_info_list g) = [3, 2]"
  by (simp add: da_server_make_behavior_def DAServerActor_def demo_da_settings_def nodes_def setNodeGruInfo_def
      cpp_div_def GruStruc_def node_loop.simps Let_def)

lemma da_distributed_lockstep_witness:
  "\<exists>s es n x. da_server_make_behavior True 10 (DAServerActor 1 5 demo_da_settings) = Inr (s, es) \<and>
     da_net_run (node_round demo_da_env 4 (\<lambda>a i. a) 3 (\<lambda>_. 2)) (da_net_start s demo_da_node (\<lambda>_. []) {1, 2} 1) n x \<and>
     da_idle x \<and> da_finished 3 (\<lambda>_. 2) 2 x"
proof -
  obtain s es g where s: "da_server_make_behavior True 10 (DAServerActor 1 5 demo_da_settings) = Inr (s, es)"
    "sv_gru_struc s = Some g" "map node_num_gru (node_gru_info_list g) = [3, 2]"
    using demo_da_server by (elim exE conjE)
  have "node_num_gru ` set (node_gru_info_list g) = {3, 2}" unfolding set_map [symmetric] s(3) by simp
  then have two: "node_num_gru i \<in> {3, 2}" if "i \<in> set (node_gru_info_list g)" for i using that by blast
  have pos: "\<forall>i \<in> set (node_gru_info_list g). 0 < node_num_gru i" using two by fastforce
  have fresh: "\<forall>a \<in> {1, 2}. node_fresh 4 (demo_da_node a)"
    by (simp add: node_fresh_def demo_da_node_def DAClientActor_def node_prints_ok_def demo_da_settings_def
        Settings_new_def HRUActorSettings_default_def)
  have "num_nodes (distributed_settings demo_da_settings) = int 2" by (simp add: demo_da_settings_def)
  with da_distributed_lockstep [OF s(1,2) pos, of 2 "{1, 2}" 1 4 demo_da_node demo_da_env 3 "\<lambda>_. 2"
      "node_round demo_da_env 4 (\<lambda>a i. a) 3 (\<lambda>_. 2)" "\<lambda>a i. a"
      "da_net_start s demo_da_node (\<lambda>_. []) {1, 2} 1" "\<lambda>_. []"] fresh s(1)
  show ?thesis by (auto simp: da_env_ok_def demo_da_env_def)
qed

text \<open>
  C36. A server whose settings were read from a configuration file cannot run
  distributed data assimilation.  \<^verbatim>\<open>readSettings\<close> leaves the number of nodes at 0
  whatever the file holds, so as soon as the requested range fits the attribute
  file the division of the GRUs among the nodes divides by zero.
\<close>

theorem da_server_divides_by_zero:
  assumes "readSettings inp st0 = Inr st" and "0 \<le> file_gru" and "start + num - 1 \<le> file_gru"
  shows "da_server_make_behavior True file_gru (DAServerActor start num st) = Inl Division_By_Zero"
proof -
  have "num_nodes (distributed_settings st) = 0" using readSettings_never_sets_num_nodes [of inp st0] assms(1) by simp
  then have "nodes (DAServerActor start num st) = 0" by (simp add: nodes_def DAServerActor_def)
  with assms(2,3) show ?thesis
    by (auto simp: da_server_make_behavior_def DAServerActor_def setNodeGruInfo_def cpp_div_def Let_def)
qed

lemma da_server_divides_by_zero_witness:
  "\<exists>st. readSettings Not_Good (Settings_new []) = Inr st \<and>
     da_server_make_behavior True 10 (DAServerActor 1 5 st) = Inl Division_By_Zero"
proof -
  obtain st where "readSettings Not_Good (Settings_new []) = Inr st" by (simp add: readSettings_def)
  with da_server_divides_by_zero [OF this, of 10 1 5] show ?thesis by auto
qed

end
