(* ===== verification/Data_Transfer.thy ===== *)
theory Data_Transfer
  imports Prelude
begin

text \<open>
  The transfer of data between C++ vectors and Fortran arrays
  (\<^verbatim>\<open>auxiliary.cpp\<close>, \<^verbatim>\<open>auxilary.hpp\<close>, on the C side; the routines of
  \<^verbatim>\<open>cppwrap_datatypes.f90\<close> they call on the Fortran side).  A Fortran variable is an
  allocatable array, \<^const>\<open>None\<close> when it is not allocated; a row of a jagged variable
  has a lower bound.  An access outside the bounds is undefined behaviour and an
  error here.
\<close>

subsection \<open>Fortran: one-dimensional variables\<close>

text \<open>\<^verbatim>\<open>set_data_var_i\<close> and its siblings: the array is reallocated when its size
  differs, then assigned.\<close>

definition set_data_vec :: "'a list \<Rightarrow> int \<Rightarrow> 'a list option \<Rightarrow> 'a list option" where
  "set_data_vec array n p = Some (take (nat n) array)"

definition get_size_vec :: "'a list option \<Rightarrow> int" where
  "get_size_vec p = (case p of None \<Rightarrow> 0 | Some d \<Rightarrow> int (length d))"

text \<open>The first \<^verbatim>\<open>size(p%var)\<close> entries of the caller's array are overwritten.\<close>

definition get_data_vec :: "'a list option \<Rightarrow> 'a list \<Rightarrow> 'a list" where
  "get_data_vec p array = (case p of None \<Rightarrow> array | Some d \<Rightarrow> d @ drop (length d) array)"

definition to_flags :: "int list \<Rightarrow> bool list" where
  "to_flags = map (\<lambda>x. x = 1)"

definition from_flags :: "bool list \<Rightarrow> int list" where
  "from_flags = map (\<lambda>b. if b then 1 else 0)"

subsection \<open>Fortran: jagged variables\<close>

record 'a frow =
  f_lb :: int
  f_dat :: "'a list"

type_synonym 'a fvar = "'a frow list option"

definition alloc_rows :: "'a \<Rightarrow> int list \<Rightarrow> 'a frow list" where
  "alloc_rows junk cols = map (\<lambda>n. \<lparr>f_lb = 1, f_dat = replicate (nat n) junk\<rparr>) cols"

text \<open>An existing variable keeps its rows when their number fits, whatever their
  sizes are.\<close>

definition ensure_rows :: "'a \<Rightarrow> int \<Rightarrow> int list \<Rightarrow> 'a fvar \<Rightarrow> 'a frow list" where
  "ensure_rows junk num_row cols p =
     (case p of
        Some rows \<Rightarrow> if int (length rows) \<noteq> num_row then alloc_rows junk cols else rows
      | None \<Rightarrow> alloc_rows junk cols)"

text \<open>\<^verbatim>\<open>do j=1,num_col(i); p%var(i)%dat(j) = array(sum_elem + j)\<close>.\<close>

definition fill_row :: "'a list \<Rightarrow> 'a frow \<Rightarrow> 'a frow res" where
  "fill_row xs r =
     (if xs = [] then Inr r
      else if f_lb r \<le> 1 \<and> int (length xs) - f_lb r < int (length (f_dat r))
      then (let k = nat (1 - f_lb r)
            in Inr (r\<lparr>f_dat := take k (f_dat r) @ xs @ drop (k + length xs) (f_dat r)\<rparr>))
      else Inl Out_Of_Range)"

fun fill_rows :: "('a list \<Rightarrow> 'b frow \<Rightarrow> 'b frow res) \<Rightarrow> int list \<Rightarrow> 'a list \<Rightarrow> 'b frow list \<Rightarrow> 'b frow list res" where
  "fill_rows fill [] array rows = Inr rows"
| "fill_rows fill (n # cols) array [] = Inl Out_Of_Range"
| "fill_rows fill (n # cols) array (r # rows) =
     res_bind (fill (take (nat n) array) r) (\<lambda>r'.
     res_bind (fill_rows fill cols (drop (nat n) array) rows) (\<lambda>rows'. Inr (r' # rows')))"

text \<open>\<^verbatim>\<open>where (array(..) == 1)\<close> needs arrays of the same shape.\<close>

definition fill_flags :: "int list \<Rightarrow> bool frow \<Rightarrow> bool frow res" where
  "fill_flags xs r =
     (if length xs = length (f_dat r) then Inr (r\<lparr>f_dat := to_flags xs\<rparr>) else Inl Out_Of_Range)"

definition set_data_jagged ::
  "('a list \<Rightarrow> 'b frow \<Rightarrow> 'b frow res) \<Rightarrow> 'b \<Rightarrow> 'a list \<Rightarrow> int \<Rightarrow> int list \<Rightarrow> int \<Rightarrow> 'b fvar \<Rightarrow> 'b fvar res" where
  "set_data_jagged fill junk array num_row cols num_elements p =
     res_bind (fill_rows fill cols (take (nat num_elements) array) (ensure_rows junk num_row cols p))
       (\<lambda>rows. Inr (Some rows))"

definition get_size_jagged :: "'a fvar \<Rightarrow> int" where
  "get_size_jagged p = (case p of None \<Rightarrow> 0 | Some rows \<Rightarrow> int (length rows))"

definition get_size_data_jagged :: "'a fvar \<Rightarrow> int list" where
  "get_size_data_jagged p = (case p of None \<Rightarrow> [] | Some rows \<Rightarrow> map (\<lambda>r. int (length (f_dat r))) rows)"

text \<open>What reading a row writes: positions relative to the start of the row with the
  values, and by how much the start advances.\<close>

type_synonym 'a row_reader = "'a frow \<Rightarrow> (int \<times> 'a res) list \<times> int"

definition row_entry :: "'a frow \<Rightarrow> int \<Rightarrow> 'a res" where
  "row_entry r j = vec_at (f_dat r) (j - f_lb r)"

definition last_index :: "'a frow \<Rightarrow> int" where
  "last_index r = (if f_lb r = 0 then int (length (f_dat r)) - 1 else int (length (f_dat r)))"

definition read_dlength :: "'a row_reader" where
  "read_dlength r =
     (map (\<lambda>j. (j - f_lb r + 1, row_entry r j)) [f_lb r .. last_index r], int (length (f_dat r)))"

definition read_ilength :: "'a row_reader" where
  "read_ilength r = (map (\<lambda>j. (j, row_entry r j)) [f_lb r .. last_index r], last_index r)"

definition read_i8length :: "'a row_reader" where
  "read_i8length r = (map (\<lambda>j. (j, row_entry r j)) [1 .. last_index r], int (length (f_dat r)))"

definition read_flagVec :: "bool frow \<Rightarrow> (int \<times> int res) list \<times> int" where
  "read_flagVec r =
     (map (\<lambda>j. (int j + 1, Inr (if f_dat r ! j then 1 else 0))) [0 ..< length (f_dat r)],
      int (length (f_dat r)))"

fun put_entries :: "(int \<times> 'a res) list \<Rightarrow> int \<Rightarrow> 'a list \<Rightarrow> 'a list res" where
  "put_entries [] base array = Inr array"
| "put_entries ((k, v) # es) base array =
     res_bind v (\<lambda>x. res_bind (vec_upd array (base + k - 1) (\<lambda>_. x)) (put_entries es base))"

fun put_rows ::
  "('b frow \<Rightarrow> (int \<times> 'a res) list \<times> int) \<Rightarrow> 'b frow list \<Rightarrow> int \<Rightarrow> 'a list \<Rightarrow> 'a list res" where
  "put_rows rd [] base array = Inr array"
| "put_rows rd (r # rows) base array =
     res_bind (put_entries (fst (rd r)) base array) (put_rows rd rows (base + snd (rd r)))"

definition get_data_jagged ::
  "('b frow \<Rightarrow> (int \<times> 'a res) list \<times> int) \<Rightarrow> 'b fvar \<Rightarrow> 'a list \<Rightarrow> 'a list res" where
  "get_data_jagged rd p array = (case p of None \<Rightarrow> Inr array | Some rows \<Rightarrow> put_rows rd rows 0 array)"

subsection \<open>C++: one-dimensional variables\<close>

definition set_flagVec :: "int list \<Rightarrow> bool list option \<Rightarrow> bool list option" where
  "set_flagVec arr_i p = set_data_vec (to_flags arr_i) (int (length arr_i)) p"

definition set_var_i :: "int list \<Rightarrow> int list option \<Rightarrow> int list option" where
  "set_var_i arr_i p = set_data_vec arr_i (int (length arr_i)) p"

definition set_var_d :: "real list \<Rightarrow> real list option \<Rightarrow> real list option" where
  "set_var_d arr_d p = set_data_vec arr_d (int (length arr_d)) p"

definition set_var_i8 :: "int list \<Rightarrow> int list option \<Rightarrow> int list option" where
  "set_var_i8 arr_i p = set_data_vec arr_i (int (length arr_i)) p"

definition set_i8length :: "int list \<Rightarrow> int list option \<Rightarrow> int list option" where
  "set_i8length arr_i8length p = set_data_vec arr_i8length (int (length arr_i8length)) p"

definition set_ilength :: "int list \<Rightarrow> int list option \<Rightarrow> int list option" where
  "set_ilength arr_ilength p = set_data_vec arr_ilength (int (length arr_ilength)) p"

definition set_dlength :: "real list \<Rightarrow> real list option \<Rightarrow> real list option" where
  "set_dlength arr_dlength p = set_data_vec arr_dlength (int (length arr_dlength)) p"

definition get_flagVec :: "bool list option \<Rightarrow> int list" where
  "get_flagVec p =
     (let size = get_size_vec p in
      if size = 0 then [] else get_data_vec (map_option from_flags p) (replicate (nat size) 0))"

definition get_var_i :: "int list option \<Rightarrow> int list" where
  "get_var_i p = (let size = get_size_vec p in if size = 0 then [] else get_data_vec p (replicate (nat size) 0))"

definition get_var_d :: "real list option \<Rightarrow> real list" where
  "get_var_d p = (let size = get_size_vec p in if size = 0 then [] else get_data_vec p (replicate (nat size) 0))"

definition get_var_i8 :: "int list option \<Rightarrow> int list" where
  "get_var_i8 p = (let size = get_size_vec p in if size = 0 then [] else get_data_vec p (replicate (nat size) 0))"

definition get_i8length :: "int list option \<Rightarrow> int list" where
  "get_i8length p = (let size = get_size_vec p in if size = 0 then [] else get_data_vec p (replicate (nat size) 0))"

definition get_ilength :: "int list option \<Rightarrow> int list" where
  "get_ilength p = (let size = get_size_vec p in if size = 0 then [] else get_data_vec p (replicate (nat size) 0))"

definition get_dlength :: "real list option \<Rightarrow> real list" where
  "get_dlength p = (let size = get_size_vec p in if size = 0 then [] else get_data_vec p (replicate (nat size) 0))"

text \<open>The structures of a HRU that have a getter of their own.\<close>

record hru_structs =
  typeStruct :: "int list option"
  attrStruct :: "real list option"
  bparStruct :: "real list option"
  mparStruct :: "real fvar"

definition get_type_struct :: "hru_structs \<Rightarrow> int list" where
  "get_type_struct h =
     (let size = get_size_vec (typeStruct h) in
      if size = 0 then [] else get_data_vec (typeStruct h) (replicate (nat size) 0))"

definition get_attr_struct :: "hru_structs \<Rightarrow> real list" where
  "get_attr_struct h =
     (let size = get_size_vec (attrStruct h) in
      if size = 0 then [] else get_data_vec (attrStruct h) (replicate (nat size) 0))"

definition get_bpar_struct :: "hru_structs \<Rightarrow> real list" where
  "get_bpar_struct h =
     (let size = get_size_vec (bparStruct h) in
      if size = 0 then [] else get_data_vec (bparStruct h) (replicate (nat size) 0))"

subsection \<open>C++: jagged variables\<close>

text \<open>The loop of the setters that fills \<^verbatim>\<open>num_col\<close> and \<^verbatim>\<open>array\<close>, and the loop of the
  getters that cuts the array into rows.\<close>

fun flatten_loop :: "'a list list \<Rightarrow> int list \<Rightarrow> 'a list \<Rightarrow> int \<Rightarrow> int list \<times> 'a list \<times> int" where
  "flatten_loop [] num_col array num_elements = (num_col, array, num_elements)"
| "flatten_loop (row # mat) num_col array num_elements =
     flatten_loop mat (num_col @ [int (length row)]) (array @ row) (num_elements + int (length row))"

fun unflatten_loop :: "int list \<Rightarrow> 'a list \<Rightarrow> int \<Rightarrow> 'a list list" where
  "unflatten_loop [] array num_elem = []"
| "unflatten_loop (n # num_col) array num_elem =
     take (nat n) (drop (nat num_elem) array) # unflatten_loop num_col array (num_elem + n)"

definition set_jagged ::
  "('a list \<Rightarrow> 'b frow \<Rightarrow> 'b frow res) \<Rightarrow> 'b \<Rightarrow> 'a list list \<Rightarrow> 'b fvar \<Rightarrow> 'b fvar res" where
  "set_jagged fill junk mat p =
     (case flatten_loop mat [] [] 0 of (num_col, array, num_elements) \<Rightarrow>
        set_data_jagged fill junk array (int (length mat)) num_col num_elements p)"

definition get_jagged :: "('b frow \<Rightarrow> (int \<times> 'a res) list \<times> int) \<Rightarrow> 'a \<Rightarrow> 'b fvar \<Rightarrow> 'a list list res" where
  "get_jagged rd zero p =
     (if get_size_jagged p = 0 then Inr []
      else (let num_col = get_size_data_jagged p
            in res_bind (get_data_jagged rd p (replicate (nat (sum_list num_col)) zero)) (\<lambda>array.
                 Inr (unflatten_loop num_col array 0))))"

text \<open>\<open>junk\<close> is what a freshly allocated Fortran array holds.\<close>

definition set_var_flagVec :: "bool \<Rightarrow> int list list \<Rightarrow> bool fvar \<Rightarrow> bool fvar res" where
  "set_var_flagVec junk mat p = set_jagged fill_flags junk mat p"

definition set_var_ilength :: "int \<Rightarrow> int list list \<Rightarrow> int fvar \<Rightarrow> int fvar res" where
  "set_var_ilength junk mat p = set_jagged fill_row junk mat p"

definition set_var_i8length :: "int \<Rightarrow> int list list \<Rightarrow> int fvar \<Rightarrow> int fvar res" where
  "set_var_i8length junk mat p = set_jagged fill_row junk mat p"

definition set_var_dlength :: "real \<Rightarrow> real list list \<Rightarrow> real fvar \<Rightarrow> real fvar res" where
  "set_var_dlength junk mat p = set_jagged fill_row junk mat p"

definition get_var_flagVec :: "bool fvar \<Rightarrow> int list list res" where
  "get_var_flagVec p = get_jagged read_flagVec 0 p"

definition get_var_ilength :: "int fvar \<Rightarrow> int list list res" where
  "get_var_ilength p = get_jagged read_ilength 0 p"

definition get_var_i8length :: "int fvar \<Rightarrow> int list list res" where
  "get_var_i8length p = get_jagged read_i8length 0 p"

definition get_var_dlength :: "real fvar \<Rightarrow> real list list res" where
  "get_var_dlength p = get_jagged read_dlength 0 p"

definition get_mpar_struct_array :: "hru_structs \<Rightarrow> real list list res" where
  "get_mpar_struct_array h = get_jagged read_dlength 0 (mparStruct h)"

subsection \<open>C++: variables of a HRU by index\<close>

text \<open>The structures of a HRU are a function of the index the C++ side passes.\<close>

definition set_var_i_by_indx :: "int list \<Rightarrow> int \<Rightarrow> (int \<Rightarrow> int list option) \<Rightarrow> (int \<Rightarrow> int list option)" where
  "set_var_i_by_indx summa_struct i h = h(i := set_data_vec summa_struct (int (length summa_struct)) (h i))"

text \<open>\<^verbatim>\<open>set_data_var_i8_by_indx\<close> assigns only where it has just allocated: an array that
  already has the size keeps its old values.\<close>

definition set_data_var_i8_by_indx :: "'a list \<Rightarrow> int \<Rightarrow> 'a list option \<Rightarrow> 'a list option" where
  "set_data_var_i8_by_indx array n p =
     (case p of
        Some d \<Rightarrow> if int (length d) \<noteq> n then Some (take (nat n) array) else Some d
      | None \<Rightarrow> Some (take (nat n) array))"

definition set_var_i8_by_indx :: "int list \<Rightarrow> int \<Rightarrow> (int \<Rightarrow> int list option) \<Rightarrow> (int \<Rightarrow> int list option)" where
  "set_var_i8_by_indx summa_struct i h = h(i := set_data_var_i8_by_indx summa_struct (int (length summa_struct)) (h i))"

definition set_var_d_by_indx :: "real list \<Rightarrow> int \<Rightarrow> (int \<Rightarrow> real list option) \<Rightarrow> (int \<Rightarrow> real list option)" where
  "set_var_d_by_indx summa_struct i h = h(i := set_data_vec summa_struct (int (length summa_struct)) (h i))"

text \<open>The flags of a HRU are tested against 0, those of \<^verbatim>\<open>set_data_flagVec\<close> against 1.\<close>

definition nonzero_flags :: "int list \<Rightarrow> bool list" where
  "nonzero_flags = map (\<lambda>x. x \<noteq> 0)"

definition set_flagVec_by_indx :: "int list \<Rightarrow> int \<Rightarrow> (int \<Rightarrow> bool list option) \<Rightarrow> (int \<Rightarrow> bool list option)" where
  "set_flagVec_by_indx summa_struct i h =
     h(i := set_data_vec (nonzero_flags summa_struct) (int (length summa_struct)) (h i))"

definition get_var_i_by_indx :: "(int \<Rightarrow> int list option) \<Rightarrow> int \<Rightarrow> int list" where
  "get_var_i_by_indx h i =
     (let size = get_size_vec (h i) in if size = 0 then [] else get_data_vec (h i) (replicate (nat size) 0))"

definition get_var_i8_by_indx :: "(int \<Rightarrow> int list option) \<Rightarrow> int \<Rightarrow> int list" where
  "get_var_i8_by_indx h i =
     (let size = get_size_vec (h i) in if size = 0 then [] else get_data_vec (h i) (replicate (nat size) 0))"

definition get_var_d_by_indx :: "(int \<Rightarrow> real list option) \<Rightarrow> int \<Rightarrow> real list" where
  "get_var_d_by_indx h i =
     (let size = get_size_vec (h i) in if size = 0 then [] else get_data_vec (h i) (replicate (nat size) 0))"

definition get_flagVec_by_indx :: "(int \<Rightarrow> bool list option) \<Rightarrow> int \<Rightarrow> int list" where
  "get_flagVec_by_indx h i =
     (let size = get_size_vec (h i) in
      if size = 0 then [] else get_data_vec (map_option from_flags (h i)) (replicate (nat size) 0))"

text \<open>\<^verbatim>\<open>set_data_var_ilength_by_indx\<close> stops the program when a row has another size.\<close>

definition fill_checked :: "int list \<Rightarrow> int frow \<Rightarrow> int frow res" where
  "fill_checked xs r =
     (if xs = [] then Inr r
      else if length (f_dat r) \<noteq> length xs then Inl (Thrown ''stop'') else fill_row xs r)"

definition read_ilength_by_indx :: "int row_reader" where
  "read_ilength_by_indx r =
     (map (\<lambda>j. (j - f_lb r + 1, row_entry r j)) [f_lb r .. last_index r], last_index r)"

definition set_var_ilength_by_indx ::
  "int \<Rightarrow> int list list \<Rightarrow> int \<Rightarrow> (int \<Rightarrow> int fvar) \<Rightarrow> (int \<Rightarrow> int fvar) res" where
  "set_var_ilength_by_indx junk summa_struct i h =
     res_bind (set_jagged fill_checked junk summa_struct (h i)) (\<lambda>v. Inr (h(i := v)))"

definition get_var_ilength_by_indx :: "(int \<Rightarrow> int fvar) \<Rightarrow> int \<Rightarrow> int list list res" where
  "get_var_ilength_by_indx h i = get_jagged read_ilength_by_indx 0 (h i)"

text \<open>\<^verbatim>\<open>set_data_var_dlength_local\<close>: \<open>ifc\<close> tells for each variable whether its type is one of
  the interface types, whose arrays start at 0; the loop over such an array starts at
  \<^verbatim>\<open>dat_array(sum_elem + 0)\<close>.  The variable is \<^verbatim>\<open>intent(out)\<close>, so nothing of its old value
  is kept.\<close>

fun res_list :: "'a res list \<Rightarrow> 'a list res" where
  "res_list [] = Inr []"
| "res_list (x # xs) = res_bind x (\<lambda>y. res_bind (res_list xs) (\<lambda>ys. Inr (y # ys)))"

fun fill_local :: "bool list \<Rightarrow> int list \<Rightarrow> 'a list \<Rightarrow> int \<Rightarrow> 'a frow list res" where
  "fill_local (b # ifc) (n # cols) array sum_elem =
     res_bind (res_list (map (\<lambda>j. vec_at array (sum_elem + j - 1)) (if b then [0 .. n - 1] else [1 .. n])))
       (\<lambda>d. res_bind (fill_local ifc cols array (sum_elem + n))
              (\<lambda>rows. Inr (\<lparr>f_lb = (if b then 0 else 1), f_dat = d\<rparr> # rows)))"
| "fill_local _ _ array sum_elem = Inr []"

definition set_data_var_dlength_local :: "bool list \<Rightarrow> int list \<Rightarrow> int \<Rightarrow> 'a list \<Rightarrow> 'a fvar res" where
  "set_data_var_dlength_local ifc var num_elem dat_array =
     (if length ifc \<noteq> length var then Inl (Thrown ''stop'')
      else res_bind (fill_local ifc var (take (nat num_elem) dat_array) 0) (\<lambda>rows. Inr (Some rows)))"

definition set_var_dlength_by_indx ::
  "(int \<Rightarrow> bool list) \<Rightarrow> real list list \<Rightarrow> int \<Rightarrow> (int \<Rightarrow> real fvar) \<Rightarrow> (int \<Rightarrow> real fvar) res" where
  "set_var_dlength_by_indx meta summa_struct i h =
     (case flatten_loop summa_struct [] [] 0 of (var, dat_array, num_elem) \<Rightarrow>
        res_bind (set_data_var_dlength_local (meta i) var num_elem dat_array) (\<lambda>v. Inr (h(i := v))))"

definition get_var_dlength_by_indx :: "(int \<Rightarrow> real fvar) \<Rightarrow> int \<Rightarrow> real list list res" where
  "get_var_dlength_by_indx h i = get_jagged read_dlength 0 (h i)"

subsection \<open>C++: lookup tables and scalars\<close>

text \<open>\<^verbatim>\<open>lookup_var\<close> is copied into the result before it is filled, and filled from index 1
  on.  \<open>size_var z\<close> and \<open>data z var\<close> are what the Fortran routines deliver.\<close>

fun lookup_vars :: "(int \<Rightarrow> real list) \<Rightarrow> int list \<Rightarrow> real list list \<Rightarrow> real list list res" where
  "lookup_vars dat [] lookup_var = Inr lookup_var"
| "lookup_vars dat (v # vs) lookup_var =
     res_bind (vec_upd lookup_var v (\<lambda>_. dat v)) (lookup_vars dat vs)"

fun lookup_zs :: "(int \<Rightarrow> int) \<Rightarrow> (int \<Rightarrow> int \<Rightarrow> real list) \<Rightarrow> int list \<Rightarrow> real list list list \<Rightarrow> real list list list res" where
  "lookup_zs size_var dat [] lookup_struct = Inr lookup_struct"
| "lookup_zs size_var dat (z # zs) lookup_struct =
     (let lookup_var = replicate (nat (size_var z)) []
      in res_bind (lookup_vars (dat z) [1 .. size_var z] lookup_var) (\<lambda>_.
           lookup_zs size_var dat zs (lookup_struct @ [lookup_var])))"

definition get_lookup_struct :: "int \<Rightarrow> (int \<Rightarrow> int) \<Rightarrow> (int \<Rightarrow> int \<Rightarrow> real list) \<Rightarrow> real list list list res" where
  "get_lookup_struct size_z size_var dat =
     (if size_z = 0 then Inr [] else lookup_zs size_var dat [1 .. size_z] [])"

record hru_scalars =
  fracJulDay :: real
  tmZoneOffsetFracDay :: real
  year_length :: int
  computeVegFlux :: int
  sc_dt_init :: real
  upArea :: real

text \<open>The parameters are values: what Fortran stores into them is lost, and the
  caller's variables keep what they held.\<close>

definition get_scalar_data :: "hru_scalars \<Rightarrow> hru_scalars \<Rightarrow> hru_scalars" where
  "get_scalar_data stored caller = caller"

definition set_scalar_data :: "hru_scalars \<Rightarrow> hru_scalars \<Rightarrow> hru_scalars" where
  "set_scalar_data caller stored = caller"

subsection \<open>Flattening\<close>

lemma flatten_loop_eq:
  "flatten_loop mat cols array n =
     (cols @ map (\<lambda>r. int (length r)) mat, array @ concat mat, n + int (length (concat mat)))"
  by (induction mat arbitrary: cols array n) auto

lemma unflatten_concat:
  "unflatten_loop (map (\<lambda>r. int (length r)) mat) (pre @ concat mat) (int (length pre)) = mat"
proof (induction mat arbitrary: pre)
  case (Cons r mat)
  have "unflatten_loop (map (\<lambda>r. int (length r)) mat) ((pre @ r) @ concat mat) (int (length (pre @ r))) = mat"
    by (rule Cons.IH)
  then show ?case by simp
qed simp

lemma sum_lengths: "sum_list (map (\<lambda>r. int (length (g r))) rows) = int (length (concat (map g rows)))"
  by (induction rows) auto

text \<open>A reader that delivers the entries of a row one after the other.\<close>

definition reads_all :: "('b frow \<Rightarrow> (int \<times> 'a res) list \<times> int) \<Rightarrow> ('b frow \<Rightarrow> 'a list) \<Rightarrow> 'b frow \<Rightarrow> bool" where
  "reads_all rd val r \<longleftrightarrow> length (val r) = length (f_dat r) \<and>
     rd r = (map (\<lambda>k. (int k + 1, Inr (val r ! k))) [0 ..< length (val r)], int (length (val r)))"

lemma put_entries_append:
  "put_entries (es @ es') base array = res_bind (put_entries es base array) (put_entries es' base)"
  by (induction es arbitrary: array) (auto simp: res_bind_def split: sum.splits)

lemma put_entries_list:
  "n \<le> length xs \<Longrightarrow> length pre + n \<le> length array \<Longrightarrow> take (length pre) array = pre \<Longrightarrow>
   put_entries (map (\<lambda>k. (int k + 1, Inr (xs ! k))) [0 ..< n]) (int (length pre)) array =
     Inr (pre @ take n xs @ drop (length pre + n) array)"
proof (induction n)
  case 0
  then show ?case by (metis add_0_right append_Nil append_take_drop_id list.map(1) put_entries.simps(1) take0 upt_0)
next
  case (Suc n)
  let ?a = "pre @ take n xs @ drop (length pre + n) array"
  have len: "length ?a = length array" "length (pre @ take n xs) = length pre + n" using Suc.prems by auto
  have upd: "vec_upd ?a (int (length pre) + (int n + 1) - 1) (\<lambda>_. xs ! n) = Inr (?a[length pre + n := xs ! n])"
    using Suc.prems len vec_upd_nat [of "length pre + n" ?a "\<lambda>_. xs ! n"] by (simp add: algebra_simps)
  have "?a[length pre + n := xs ! n] = (pre @ take n xs) @ (drop (length pre + n) array)[0 := xs ! n]"
    using len(2) list_update_append [of "pre @ take n xs" "drop (length pre + n) array" "length pre + n" "xs ! n"] by simp
  also have "(drop (length pre + n) array)[0 := xs ! n] = xs ! n # drop (length pre + Suc n) array"
    using Suc.prems Cons_nth_drop_Suc [of "length pre + n" array, symmetric] by simp
  finally have "?a[length pre + n := xs ! n] = pre @ take (Suc n) xs @ drop (length pre + Suc n) array"
    using Suc.prems by (simp add: take_Suc_conv_app_nth)
  with Suc upd show ?case by (simp add: put_entries_append)
qed

lemma put_rows_all:
  assumes "\<forall>r \<in> set rows. reads_all rd val r"
  shows "length array = length pre + length (concat (map val rows)) \<Longrightarrow> take (length pre) array = pre \<Longrightarrow>
    put_rows rd rows (int (length pre)) array = Inr (pre @ concat (map val rows))"
  using assms
proof (induction rows arbitrary: pre array)
  case (Cons r rows)
  let ?a = "pre @ val r @ drop (length pre + length (val r)) array"
  have rd: "rd r = (map (\<lambda>k. (int k + 1, Inr (val r ! k))) [0 ..< length (val r)], int (length (val r)))"
    using Cons.prems(3) by (simp add: reads_all_def)
  have "put_entries (fst (rd r)) (int (length pre)) array = Inr ?a"
    using put_entries_list [of "length (val r)" "val r" pre array] Cons.prems(1,2) rd by simp
  moreover have "put_rows rd rows (int (length (pre @ val r))) ?a = Inr ((pre @ val r) @ concat (map val rows))"
    using Cons.prems by (intro Cons.IH) auto
  ultimately show ?case using rd by simp
qed simp

lemma get_jagged_all:
  assumes "\<forall>r \<in> set rows. reads_all rd val r"
  shows "get_jagged rd zero (Some rows) = Inr (map val rows)"
proof (cases "rows = []")
  case False
  have len: "map (\<lambda>r. int (length (f_dat r))) rows = map (\<lambda>r. int (length (val r))) rows"
    using assms by (auto simp: reads_all_def)
  have "unflatten_loop (map (\<lambda>r. int (length (val r))) rows) (concat (map val rows)) 0 = map val rows"
    using unflatten_concat [of "map val rows" "[]"] by (simp add: o_def)
  moreover have "put_rows rd rows 0 (replicate (length (concat (map val rows))) zero) = Inr (concat (map val rows))"
    using put_rows_all [OF assms, of "replicate (length (concat (map val rows))) zero" "[]"] by simp
  ultimately show ?thesis using False
    by (simp add: get_jagged_def get_size_jagged_def get_size_data_jagged_def get_data_jagged_def len
        sum_lengths o_def del: length_concat)
qed (simp add: get_jagged_def get_size_jagged_def)

lemma upto_nat: "[1 .. int n] = map (\<lambda>k. int k + 1) [0 ..< n]" "[0 .. int n - 1] = map int [0 ..< n]"
proof -
  show "[0 .. int n - 1] = map int [0 ..< n]" by (induction n) (auto simp: upto_rec2)
  show "[1 .. int n] = map (\<lambda>k. int k + 1) [0 ..< n]" by (induction n) (auto simp: upto_rec2)
qed

lemma readers_read_all:
  "f_lb r = 1 \<Longrightarrow> reads_all read_dlength f_dat r" "f_lb r = 0 \<Longrightarrow> reads_all read_dlength f_dat r"
  "f_lb r = 1 \<Longrightarrow> reads_all read_ilength f_dat r" "f_lb r = 1 \<Longrightarrow> reads_all read_i8length f_dat r"
  "f_lb ri = 1 \<Longrightarrow> reads_all read_ilength_by_indx f_dat ri"
  "reads_all read_flagVec (\<lambda>r. from_flags (f_dat r)) rb"
  by (auto simp: reads_all_def read_dlength_def read_ilength_def read_i8length_def read_ilength_by_indx_def
      read_flagVec_def row_entry_def last_index_def upto_nat from_flags_def)

subsection \<open>Setting\<close>

text \<open>What is read back after a jagged variable was set: a row keeps the tail of the
  old row when that was longer, unless the number of rows has changed.\<close>

definition overlay :: "'a list list \<Rightarrow> 'a fvar \<Rightarrow> 'a list list option" where
  "overlay mat p =
     (case p of
        None \<Rightarrow> Some mat
      | Some rows \<Rightarrow>
          if length rows \<noteq> length mat then Some mat
          else if \<forall>(m, r) \<in> set (zip mat rows). length m \<le> length (f_dat r)
          then Some (map (\<lambda>(m, r). m @ drop (length m) (f_dat r)) (zip mat rows))
          else None)"

definition unit_bounds :: "'a fvar \<Rightarrow> bool" where
  "unit_bounds p \<longleftrightarrow> (\<forall>rows. p = Some rows \<longrightarrow> (\<forall>r \<in> set rows. f_lb r = 1))"

definition opt_res :: "'a option \<Rightarrow> 'a res" where
  "opt_res x = (case x of None \<Rightarrow> Inl Out_Of_Range | Some y \<Rightarrow> Inr y)"

lemma fill_row_unit:
  assumes "f_lb r = 1"
  shows "fill_row xs r = (if length xs \<le> length (f_dat r) then Inr (r\<lparr>f_dat := xs @ drop (length xs) (f_dat r)\<rparr>)
    else Inl Out_Of_Range)"
  using assms by (auto simp: fill_row_def Let_def)

lemma fill_rows_unit:
  "length rows = length mat \<Longrightarrow> \<forall>r \<in> set rows. f_lb r = 1 \<Longrightarrow>
   fill_rows fill_row (map (\<lambda>m. int (length m)) mat) (concat mat) rows =
     (if \<forall>(m, r) \<in> set (zip mat rows). length m \<le> length (f_dat r)
      then Inr (map (\<lambda>(m, r). r\<lparr>f_dat := m @ drop (length m) (f_dat r)\<rparr>) (zip mat rows))
      else Inl Out_Of_Range)"
proof (induction mat arbitrary: rows)
  case (Cons m mat)
  then obtain r rows' where rows: "rows = r # rows'" by (cases rows) auto
  have "fill_rows fill_row (map (\<lambda>m. int (length m)) mat) (concat mat) rows' =
     (if \<forall>(m, r) \<in> set (zip mat rows'). length m \<le> length (f_dat r)
      then Inr (map (\<lambda>(m, r). r\<lparr>f_dat := m @ drop (length m) (f_dat r)\<rparr>) (zip mat rows'))
      else Inl Out_Of_Range)"
    using Cons.prems rows by (intro Cons.IH) auto
  with Cons.prems rows show ?case by (simp add: fill_row_unit)
qed simp

lemma fresh_rows:
  "\<forall>(m, r) \<in> set (zip mat (alloc_rows junk (map (\<lambda>m. int (length m)) mat))). length m = length (f_dat r)"
  "length (alloc_rows junk (map (\<lambda>m. int (length m)) mat)) = length mat"
  "r \<in> set (alloc_rows junk cols) \<Longrightarrow> f_lb r = 1"
  by (auto simp: alloc_rows_def zip_map2 zip_same_conv_map)

lemma map_zip_fst: "length xs = length ys \<Longrightarrow> \<forall>p \<in> set (zip xs ys). f p = fst p \<Longrightarrow> map f (zip xs ys) = xs"
  by (metis (no_types, lifting) list.map_cong0 map_fst_zip)

lemma set_get_jagged:
  assumes rd: "\<And>r. f_lb r = 1 \<Longrightarrow> reads_all rd f_dat r" and p: "unit_bounds p"
  shows "res_bind (set_jagged fill_row junk mat p) (get_jagged rd zero) = opt_res (overlay mat p)"
proof -
  define rows where "rows = ensure_rows junk (int (length mat)) (map (\<lambda>m. int (length m)) mat) p"
  have len: "length rows = length mat" "\<forall>r \<in> set rows. f_lb r = 1"
    using p fresh_rows(2,3) by (auto simp: rows_def ensure_rows_def unit_bounds_def split: option.splits)
  let ?new = "map (\<lambda>(m, r). r\<lparr>f_dat := m @ drop (length m) (f_dat r)\<rparr>) (zip mat rows)"
  have set: "set_jagged fill_row junk mat p =
     (if \<forall>(m, r) \<in> set (zip mat rows). length m \<le> length (f_dat r) then Inr (Some ?new) else Inl Out_Of_Range)"
    using fill_rows_unit [OF len]
    by (simp add: set_jagged_def flatten_loop_eq set_data_jagged_def rows_def)
  have "\<forall>r \<in> set ?new. reads_all rd f_dat r"
  proof
    fix r' assume "r' \<in> set ?new"
    then obtain m r where "r' = r\<lparr>f_dat := m @ drop (length m) (f_dat r)\<rparr>" "r \<in> set rows"
      by (auto dest: set_zip_rightD)
    with len(2) have "f_lb r' = 1" by simp
    then show "reads_all rd f_dat r'" by (rule rd)
  qed
  then have get: "get_jagged rd zero (Some ?new) = Inr (map (\<lambda>(m, r). m @ drop (length m) (f_dat r)) (zip mat rows))"
    by (simp add: get_jagged_all o_def case_prod_beta)
  have ov: "overlay mat p = (if \<forall>(m, r) \<in> set (zip mat rows). length m \<le> length (f_dat r)
      then Some (map (\<lambda>(m, r). m @ drop (length m) (f_dat r)) (zip mat rows)) else None)"
  proof (cases "\<exists>rs. p = Some rs \<and> length rs = length mat")
    case True
    then obtain rs where rs: "p = Some rs" "length rs = length mat" by blast
    then have "rows = rs" by (simp add: rows_def ensure_rows_def)
    with rs show ?thesis by (simp add: overlay_def)
  next
    case False
    then have ov: "overlay mat p = Some mat" and al: "rows = alloc_rows junk (map (\<lambda>m. int (length m)) mat)"
      by (auto simp: overlay_def rows_def ensure_rows_def split: option.splits)
    have eq: "\<forall>(m, r) \<in> set (zip mat rows). length m = length (f_dat r)" using fresh_rows(1) al by simp
    then have "map (\<lambda>(m, r). m @ drop (length m) (f_dat r)) (zip mat rows) = mat"
      using len(1) by (intro map_zip_fst) (auto dest!: bspec)
    with eq ov show ?thesis by fastforce
  qed
  show ?thesis using set get ov by (simp add: opt_res_def)
qed

lemma overlay_fits:
  assumes "\<And>rows. p = Some rows \<Longrightarrow> length rows = length mat \<Longrightarrow> map (\<lambda>r. length (f_dat r)) rows = map length mat"
  shows "overlay mat p = Some mat"
proof (cases "\<exists>rows. p = Some rows \<and> length rows = length mat")
  case True
  then obtain rows where rows: "p = Some rows" "length rows = length mat" by blast
  have "length m = length (f_dat r)" if "(m, r) \<in> set (zip mat rows)" for m r
    using that assms [OF rows] by (auto simp: set_zip) (metis nth_map)
  then have "\<forall>(m, r) \<in> set (zip mat rows). length m = length (f_dat r)" by blast
  moreover from this have "map (\<lambda>(m, r). m @ drop (length m) (f_dat r)) (zip mat rows) = mat"
    using rows(2) by (intro map_zip_fst) (auto dest!: bspec)
  ultimately show ?thesis using rows by (fastforce simp: overlay_def)
next
  case False
  then show ?thesis by (auto simp: overlay_def split: option.splits)
qed

subsection \<open>Setting by index\<close>

text \<open>What is read back after \<^verbatim>\<open>set_var_dlength_by_indx\<close>: an interface variable starts one
  entry too early, so it begins with the last entry before it and loses its own last
  one; \<open>prev\<close> is the entry before.\<close>

fun shifted :: "bool list \<Rightarrow> 'a list list \<Rightarrow> 'a option \<Rightarrow> 'a list list option" where
  "shifted (b # ifc) (r # mat) prev =
     (if r = [] then map_option ((#) []) (shifted ifc mat prev)
      else if b then (case prev of
               None \<Rightarrow> None
             | Some x \<Rightarrow> map_option ((#) (x # butlast r)) (shifted ifc mat (Some (last r))))
      else map_option ((#) r) (shifted ifc mat (Some (last r))))"
| "shifted _ _ prev = Some []"

lemma shifted_none: "True \<notin> set ifc \<Longrightarrow> length ifc = length mat \<Longrightarrow> shifted ifc mat prev = Some mat"
  by (induction ifc mat prev rule: shifted.induct) auto

lemma res_list_Inr [simp]: "res_list (map (\<lambda>x. Inr (f x)) xs) = Inr (map f xs)"
  by (induction xs) auto

lemma res_list_cong_Inr: "(\<And>x. x \<in> set xs \<Longrightarrow> g x = Inr (f x)) \<Longrightarrow> res_list (map g xs) = Inr (map f xs)"
  by (metis (no_types, lifting) list.map_cong0 res_list_Inr)

lemma window:
  assumes "0 \<le> k" and "k + int n \<le> int (length array)"
  shows "res_list (map (\<lambda>j. vec_at array (k + int j)) [0 ..< n]) = Inr (take n (drop (nat k) array))"
proof -
  have "res_list (map (\<lambda>j. vec_at array (k + int j)) [0 ..< n]) = Inr (map (\<lambda>j. array ! (nat k + j)) [0 ..< n])"
    using assms by (intro res_list_cong_Inr) (auto simp: vec_at_def nat_add_distrib)
  also have "map (\<lambda>j. array ! (nat k + j)) [0 ..< n] = take n (drop (nat k) array)"
    using assms by (intro nth_equalityI) auto
  finally show ?thesis .
qed

lemma plain_window:
  "res_list (map (\<lambda>j. vec_at (pre @ r @ post) (int (length pre) + j - 1)) [1 .. int (length r)]) = Inr r"
  using window [of "int (length pre)" "length r" "pre @ r @ post"] by (simp add: upto_nat o_def algebra_simps)

lemma interface_window:
  assumes "r \<noteq> []"
  shows "res_list (map (\<lambda>j. vec_at (pre @ r @ post) (int (length pre) + j - 1)) [0 .. int (length r) - 1]) =
    (if pre = [] then Inl Out_Of_Range else Inr (last pre # butlast r))"
proof (cases "pre = []")
  case True
  obtain n where "length r = Suc n" using assms by (cases r) auto
  then have "[0 .. int (length r) - 1] = 0 # [1 .. int (length r) - 1]" by (simp add: upto_rec1)
  with True show ?thesis by (simp add: vec_at_def)
next
  case False
  then obtain p x where pre: "pre = p @ [x]" by (metis append_butlast_last_id)
  obtain q y where r: "r = q @ [y]" using assms by (metis append_butlast_last_id)
  have "res_list (map (\<lambda>j. vec_at (pre @ r @ post) (int (length p) + int j)) [0 ..< length r]) =
      Inr (take (length r) (x # r @ post))"
    using window [of "int (length p)" "length r" "pre @ r @ post"] pre by simp
  moreover have "take (length r) (x # r @ post) = x # butlast r" using r by simp
  moreover have "map (\<lambda>j. vec_at (pre @ r @ post) (int (length pre) + j - 1)) [0 .. int (length r) - 1] =
      map (\<lambda>j. vec_at (pre @ r @ post) (int (length p) + int j)) [0 ..< length r]"
    unfolding upto_nat map_map using pre by (simp add: o_def algebra_simps)
  ultimately show ?thesis using pre by simp
qed

lemma fill_local_shifted:
  "length ifc = length mat \<Longrightarrow>
   (case shifted ifc mat (if pre = [] then None else Some (last pre)) of
      None \<Rightarrow> fill_local ifc (map (\<lambda>r. int (length r)) mat) (pre @ concat mat) (int (length pre)) = Inl Out_Of_Range
    | Some m \<Rightarrow> \<exists>rows. fill_local ifc (map (\<lambda>r. int (length r)) mat) (pre @ concat mat) (int (length pre)) = Inr rows \<and>
        map f_dat rows = m \<and> (\<forall>r \<in> set rows. f_lb r = 0 \<or> f_lb r = 1))"
proof (induction ifc arbitrary: mat pre)
  case (Cons b ifc)
  then obtain r mat' where mat: "mat = r # mat'" by (cases mat) auto
  have IH: "case shifted ifc mat' (if pre @ r = [] then None else Some (last (pre @ r))) of
      None \<Rightarrow> fill_local ifc (map (\<lambda>r. int (length r)) mat') ((pre @ r) @ concat mat') (int (length (pre @ r))) = Inl Out_Of_Range
    | Some m \<Rightarrow> \<exists>rows. fill_local ifc (map (\<lambda>r. int (length r)) mat') ((pre @ r) @ concat mat') (int (length (pre @ r))) = Inr rows \<and>
        map f_dat rows = m \<and> (\<forall>r \<in> set rows. f_lb r = 0 \<or> f_lb r = 1)"
    using Cons.prems mat by (intro Cons.IH) simp
  show ?case
  proof (cases "r = []")
    case True
    with IH mat show ?thesis by (cases "pre = []"; cases b) (auto split: option.splits)
  next
    case False
    note w = plain_window [of pre r "concat mat'"] interface_window [OF False, of pre "concat mat'"]
    from False IH mat w show ?thesis by (cases b; cases "pre = []") (auto split: option.splits)
  qed
qed simp

lemma set_get_by_indx:
  assumes "length (meta i) = length mat"
  shows "res_bind (set_var_dlength_by_indx meta mat i h) (\<lambda>h'. get_var_dlength_by_indx h' i) =
     opt_res (shifted (meta i) mat None)"
proof -
  have set: "set_var_dlength_by_indx meta mat i h =
      res_bind (fill_local (meta i) (map (\<lambda>r. int (length r)) mat) (concat mat) 0) (\<lambda>rows. Inr (h(i := Some rows)))"
    using assms by (simp add: set_var_dlength_by_indx_def flatten_loop_eq set_data_var_dlength_local_def res_bind_assoc)
  show ?thesis
  proof (cases "shifted (meta i) mat None")
    case None
    with fill_local_shifted [OF assms, of "[]"] set show ?thesis by (simp add: opt_res_def)
  next
    case (Some m)
    with fill_local_shifted [OF assms, of "[]"] obtain rows where
      rows: "fill_local (meta i) (map (\<lambda>r. int (length r)) mat) (concat mat) 0 = Inr rows"
      "map f_dat rows = m" "\<forall>r \<in> set rows. f_lb r = 0 \<or> f_lb r = 1" by auto
    have "get_jagged read_dlength 0 (Some rows) = Inr (map f_dat rows)"
      using rows(3) readers_read_all(1,2) by (intro get_jagged_all) blast
    with Some rows set show ?thesis by (simp add: opt_res_def get_var_dlength_by_indx_def)
  qed
qed

lemma vec_round_trip:
  "get_var_i (set_var_i xs p4) = xs" "get_var_d (set_var_d ys pd) = ys" "get_var_i8 (set_var_i8 xs p4) = xs"
  "get_ilength (set_ilength xs p4) = xs" "get_i8length (set_i8length xs p4) = xs" "get_dlength (set_dlength ys pd) = ys"
  "get_flagVec (set_flagVec xs pb) = map (\<lambda>x. if x = 1 then 1 else 0) xs"
  by (simp_all add: get_var_i_def set_var_i_def get_var_d_def set_var_d_def get_var_i8_def set_var_i8_def
      get_ilength_def set_ilength_def get_i8length_def set_i8length_def get_dlength_def set_dlength_def
      get_flagVec_def set_flagVec_def set_data_vec_def get_size_vec_def get_data_vec_def to_flags_def from_flags_def
      o_def if_distrib cong: if_cong)

text \<open>The lookup tables cannot be read: the last entry is written outside the vector.\<close>

lemma lookup_vars_fail: "1 \<le> n \<Longrightarrow> length lv = nat n \<Longrightarrow> k \<le> n \<Longrightarrow> 1 \<le> k \<Longrightarrow> lookup_vars dat [k .. n] lv = Inl Out_Of_Range"
proof (induction "nat (n - k)" arbitrary: k lv)
  case 0
  then have "k = n" by simp
  with 0 show ?case by (simp add: vec_upd_def)
next
  case (Suc m)
  then have "[k .. n] = k # [k + 1 .. n]" "k < n" by (simp_all add: upto_rec1)
  with Suc.hyps(1) [of "k + 1" "lv[nat k := dat k]"] Suc.prems Suc.hyps(2) show ?case by (simp add: vec_upd_def)
qed

lemma get_lookup_struct_fails:
  assumes "1 \<le> size_z" and "1 \<le> size_var 1"
  shows "get_lookup_struct size_z size_var dat = Inl Out_Of_Range"
proof -
  have "[1 .. size_z] = 1 # [2 .. size_z]" using assms(1) by (simp add: upto_rec1)
  with assms lookup_vars_fail [of "size_var 1" "replicate (nat (size_var 1)) []" 1 "dat 1"] show ?thesis
    by (simp add: get_lookup_struct_def Let_def)
qed

subsection \<open>Properties\<close>

text \<open>
  C23. Transfer of jagged variables.  Writing a vector of vectors into a Fortran
  variable whose rows start at 1 and reading it back returns the vectors exactly
  when the variable was not allocated, had another number of rows, or had rows of
  the same sizes.  In general a variable with the same number of rows keeps its rows:
  the tail of a longer old row is read back behind the new data, and a shorter old row
  makes the write leave the bounds.
\<close>

theorem jagged_round_trip:
  assumes "unit_bounds pd" and "unit_bounds p4" and "unit_bounds p8"
  shows "res_bind (set_var_dlength jd md pd) get_var_dlength = opt_res (overlay md pd) \<and>
    res_bind (set_var_ilength ji mi p4) get_var_ilength = opt_res (overlay mi p4) \<and>
    res_bind (set_var_i8length j8 m8 p8) get_var_i8length = opt_res (overlay m8 p8) \<and>
    ((\<forall>rows. pd = Some rows \<and> length rows = length md \<longrightarrow> map (\<lambda>r. length (f_dat r)) rows = map length md) \<longrightarrow>
      res_bind (set_var_dlength jd md pd) get_var_dlength = Inr md)"
proof -
  have "res_bind (set_var_dlength jd md pd) get_var_dlength = opt_res (overlay md pd)"
    using set_get_jagged [OF readers_read_all(1) assms(1), of jd md 0]
    by (simp add: set_var_dlength_def get_var_dlength_def [abs_def])
  moreover have "res_bind (set_var_ilength ji mi p4) get_var_ilength = opt_res (overlay mi p4)"
    using set_get_jagged [OF readers_read_all(3) assms(2), of ji mi 0]
    by (simp add: set_var_ilength_def get_var_ilength_def [abs_def])
  moreover have "res_bind (set_var_i8length j8 m8 p8) get_var_i8length = opt_res (overlay m8 p8)"
    using set_get_jagged [OF readers_read_all(4) assms(3), of j8 m8 0]
    by (simp add: set_var_i8length_def get_var_i8length_def [abs_def])
  moreover have "overlay md pd = Some md"
    if "\<forall>rows. pd = Some rows \<and> length rows = length md \<longrightarrow> map (\<lambda>r. length (f_dat r)) rows = map length md"
    using that by (intro overlay_fits) simp
  ultimately show ?thesis by (simp add: opt_res_def)
qed

lemma jagged_round_trip_witness:
  "res_bind (set_var_dlength 0 [[1, 2], [3]] (Some [\<lparr>f_lb = 1, f_dat = [7, 8, 9]\<rparr>, \<lparr>f_lb = 1, f_dat = [4]\<rparr>]))
     get_var_dlength = Inr [[1, 2, 9], [3]]"
  using jagged_round_trip [of "Some [\<lparr>f_lb = 1, f_dat = [7, 8, 9]\<rparr>, \<lparr>f_lb = 1, f_dat = [4]\<rparr>]" None None 0 "[[1, 2], [3]]"]
  by (simp add: unit_bounds_def overlay_def opt_res_def)

text \<open>
  Transfer of the variables of a HRU by index, as its serialization uses it.
  When no variable is of an interface type the round trip returns the vectors.  An
  interface variable is written from one entry before its data: it comes back with the
  last entry of its predecessor in front and without its own last entry, and a first
  variable of that type reads outside the array.
\<close>

lemma hru_variable_round_trip:
  assumes "length (meta i) = length mat"
  shows "res_bind (set_var_dlength_by_indx meta mat i h) (\<lambda>h'. get_var_dlength_by_indx h' i) =
      opt_res (shifted (meta i) mat None) \<and>
    (True \<notin> set (meta i) \<longrightarrow>
      res_bind (set_var_dlength_by_indx meta mat i h) (\<lambda>h'. get_var_dlength_by_indx h' i) = Inr mat)"
  using set_get_by_indx [of meta i mat h, OF assms] shifted_none [OF _ assms] by (simp add: opt_res_def)

end
