(* ===== verification/Hru_Actor.thy ===== *)
theory Hru_Actor
  imports Gru_Actor Data_Transfer
begin

text \<open>
  The HRU actor (\<^verbatim>\<open>hru_actor.hpp\<close>, \<^verbatim>\<open>hru_actor.cpp\<close>), which the GRU actor replaced, and
  the two functions that turn its state into a message and back
  (\<^verbatim>\<open>hru_utils.hpp\<close>, \<^verbatim>\<open>hru_utils.cpp\<close>).  What the Fortran routines return is an
  argument; their calls and the messages to other actors are effects.  The
  settings are the members the code reads of a class the repository no longer
  has.
\<close>

subsection \<open>State\<close>

text \<open>The tolerances are listed alike in \<^verbatim>\<open>hru_state\<close> and in the message.\<close>

record hru_tolerances =
  t_rtol :: real
  t_atol :: real
  rtol_temp_cas :: real
  rtol_temp_veg :: real
  rtol_wat_veg :: real
  rtol_temp_soil_snow :: real
  rtol_wat_snow :: real
  rtol_matric :: real
  rtol_aquifr :: real
  atol_temp_cas :: real
  atol_temp_veg :: real
  atol_wat_veg :: real
  atol_temp_soil_snow :: real
  atol_wat_snow :: real
  atol_matric :: real
  atol_aquifr :: real

definition hru_tolerances_default :: hru_tolerances where
  "hru_tolerances_default =
     \<lparr>t_rtol = - 9999, t_atol = - 9999, rtol_temp_cas = - 9999, rtol_temp_veg = - 9999,
      rtol_wat_veg = - 9999, rtol_temp_soil_snow = - 9999, rtol_wat_snow = - 9999, rtol_matric = - 9999,
      rtol_aquifr = - 9999, atol_temp_cas = - 9999, atol_temp_veg = - 9999, atol_wat_veg = - 9999,
      atol_temp_soil_snow = - 9999, atol_wat_snow = - 9999, atol_matric = - 9999, atol_aquifr = - 9999\<rparr>"

record hru_actor_settings =
  hs_print_output :: bool
  hs_output_frequency :: int
  hs_dt_init_factor :: int

text \<open>The Fortran structure behind the handle \<^verbatim>\<open>hru_data\<close>: its variables by the index
  the C++ side uses.  A new one has nothing allocated; its scalars hold \<open>junk\<close>.\<close>

record hru_type =
  ht_var_i :: "int \<Rightarrow> int list option"
  ht_var_d :: "int \<Rightarrow> real list option"
  ht_var_i8 :: "int \<Rightarrow> int list option"
  ht_flagVec :: "int \<Rightarrow> bool list option"
  ht_ilength :: "int \<Rightarrow> int fvar"
  ht_dlength :: "int \<Rightarrow> real fvar"
  ht_scalars :: hru_scalars

definition new_handle_hru_type :: "hru_scalars \<Rightarrow> hru_type" where
  "new_handle_hru_type junk =
     \<lparr>ht_var_i = (\<lambda>_. None), ht_var_d = (\<lambda>_. None), ht_var_i8 = (\<lambda>_. None), ht_flagVec = (\<lambda>_. None),
      ht_ilength = (\<lambda>_. None), ht_dlength = (\<lambda>_. None), ht_scalars = junk\<rparr>"

record hru_state =
  h_ref_gru :: int
  h_indx_gru :: int
  h_indx_hru :: int
  h_stepsInCurrentFFile :: int
  h_num_steps_until_write :: int
  h_hru_data :: hru_type
  h_timestep :: int
  h_forcingStep :: int
  h_num_steps :: int
  h_iFile :: int
  h_dt_init_factor :: int
  h_output_step :: int                     \<comment> \<open>\<^verbatim>\<open>output_structure_step_index\<close>\<close>
  h_err_message :: string
  h_tol :: hru_tolerances
  h_beSteps :: int
  h_walltime :: real                       \<comment> \<open>\<^verbatim>\<open>walltime_timestep\<close>\<close>
  startDate :: date
  currentDate :: date
  h_checkpoint :: int
  restartFrequency :: int
  h_settings :: hru_actor_settings
  h_stopped :: bool

text \<open>The start of the behaviour; \<open>u1\<close> and \<open>u2\<close> are what the two counters without an
  initialiser hold.\<close>

definition hru_actor :: "int \<Rightarrow> int \<Rightarrow> hru_actor_settings \<Rightarrow> hru_type \<Rightarrow> int \<Rightarrow> int \<Rightarrow> hru_state" where
  "hru_actor ref_gru indx_gru hs d u1 u2 =
     \<lparr>h_ref_gru = ref_gru, h_indx_gru = indx_gru, h_indx_hru = 1, h_stepsInCurrentFFile = u1,
      h_num_steps_until_write = u2, h_hru_data = d, h_timestep = 1, h_forcingStep = 1, h_num_steps = 0,
      h_iFile = 1, h_dt_init_factor = hs_dt_init_factor hs, h_output_step = 1, h_err_message = [],
      h_tol = hru_tolerances_default, h_beSteps = - 9999, h_walltime = 0,
      startDate = \<lparr>dt_y = 0, dt_m = 0, dt_d = 0, dt_h = 0\<rparr>,
      currentDate = \<lparr>dt_y = 0, dt_m = 0, dt_d = 0, dt_h = 0\<rparr>,
      h_checkpoint = 0, restartFrequency = 1, h_settings = hs, h_stopped = False\<rparr>"

datatype hru_effect =
    H_InitHRU int int                       \<comment> \<open>index of the GRU, of the HRU\<close>
  | H_SetupHRU int int
  | H_ReadHRURestart int int
  | H_ReadForcing int int int int int       \<comment> \<open>GRU, HRU, timestep, forcing step, file\<close>
  | H_RunHRU int int int int                \<comment> \<open>GRU, HRU, timestep, step factor\<close>
  | H_WriteOutput int int int int           \<comment> \<open>GRU, HRU, timestep, output step\<close>
  | H_WriteRestart int int int int          \<comment> \<open>HRU, GRU, output step, output step\<close>
  | H_SetTimeZoneOffset int
  | H_SetFinalizeStatsFalse int
  | H_Get_Num_Output_Steps                  \<comment> \<open>from here on: messages\<close>
  | H_Access_Forcing int
  | H_Write_Output int int
  | H_Write_Restart int int int int date    \<comment> \<open>GRU, timestep, checkpoint, output step\<close>
  | H_Self_Run
  | H_Self_Done
  | H_Parent_Error int int int string
  | H_Parent_Done int
  | H_Parent_Done_Update real int
  | H_Parent_Reinit
  | H_Quit

subsection \<open>Starting\<close>

record hru_start =
  hi_init_err :: int
  hi_init_msg :: string
  hi_num_steps :: int
  hi_setup_err :: int
  hi_setup_msg :: string
  hi_restart_err :: int
  hi_restart_msg :: string
  hi_data :: hru_type                      \<comment> \<open>what the calls leave in the structure\<close>

definition initHRU :: "hru_start \<Rightarrow> hru_state \<Rightarrow> hru_state \<times> hru_effect list \<times> int" where
  "initHRU f s0 =
     (let s = s0\<lparr>h_num_steps := hi_num_steps f, h_hru_data := hi_data f\<rparr>;
          g = h_indx_gru s; h = h_indx_hru s
      in if hi_init_err f \<noteq> 0
         then (s\<lparr>h_err_message := hi_init_msg f\<rparr>, [H_InitHRU g h], hi_init_err f)
         else if hi_setup_err f \<noteq> 0
         then (s\<lparr>h_err_message := hi_setup_msg f\<rparr>, [H_InitHRU g h, H_SetupHRU g h], hi_setup_err f)
         else if hi_restart_err f \<noteq> 0
         then (s\<lparr>h_err_message := hi_restart_msg f\<rparr>,
               [H_InitHRU g h, H_SetupHRU g h, H_ReadHRURestart g h], hi_restart_err f)
         else (s, [H_InitHRU g h, H_SetupHRU g h, H_ReadHRURestart g h], 0))"

text \<open>What a handler does with the error code of \<^verbatim>\<open>initHRU\<close> or \<^verbatim>\<open>runHRU\<close>.\<close>

definition hru_fail :: "int \<Rightarrow> hru_state \<Rightarrow> hru_state \<times> hru_effect list" where
  "hru_fail err s =
     (s\<lparr>h_stopped := True\<rparr>, [H_Parent_Error (h_indx_gru s) (h_timestep s) err (h_err_message s), H_Quit])"

definition on_init_hru :: "hru_start \<Rightarrow> hru_state \<Rightarrow> hru_state \<times> hru_effect list" where
  "on_init_hru f s =
     (case initHRU f s of (s1, es, err) \<Rightarrow>
        if err \<noteq> 0 then (case hru_fail err s1 of (s2, es') \<Rightarrow> (s2, es @ es')) else (s1, es))"

subsection \<open>One timestep\<close>

text \<open>\<^verbatim>\<open>isCheckpoint\<close> of this actor numbers the frequencies in its own way: 3 would be
  weekly and is not supported.\<close>

definition isCheckpoint_hru :: "hru_state \<Rightarrow> bool" where
  "isCheckpoint_hru s =
     (let a = startDate s; b = currentDate s; f = restartFrequency s
      in if f = 0 then False
         else if f = 1 then True
         else if f = 2 then dt_h a = dt_h b
         else if f = 3 then False
         else if f = 4 then dt_d a = dt_d b \<and> dt_h a = dt_h b
         else if f = 5 then dt_m a = dt_m b \<and> dt_d a = dt_d b \<and> dt_h a = dt_h b
         else False)"

record hru_step =
  hf_calls :: gru_step
  hf_walltime :: real
  hf_data :: hru_type

text \<open>The date, the starting date and the checkpoint after the output of a timestep.\<close>

definition after_output :: "date \<Rightarrow> hru_state \<Rightarrow> hru_state \<times> hru_effect list" where
  "after_output d s =
     (let s1 = s\<lparr>currentDate := d\<rparr>;
          s2 = (if h_timestep s1 = 1 then s1\<lparr>startDate := currentDate s1\<rparr> else s1);
          out = h_output_step s2
      in if isCheckpoint_hru s2
         then (let s3 = s2\<lparr>h_checkpoint := h_checkpoint s2 + 1\<rparr>
               in (s3, [H_WriteRestart (h_indx_hru s3) (h_indx_gru s3) out out,
                        H_Write_Restart (h_ref_gru s3) (h_timestep s3) (h_checkpoint s3) out (currentDate s3)]))
         else (s2, []))"

text \<open>The test whether the timestep is printed.\<close>

definition hru_print_check :: "hru_actor_settings \<Rightarrow> int \<Rightarrow> int res" where
  "hru_print_check hs t = (if hs_print_output hs then cpp_mod t (hs_output_frequency hs) else Inr 0)"

definition runHRU :: "hru_step \<Rightarrow> hru_state \<Rightarrow> (hru_state \<times> hru_effect list \<times> int) res" where
  "runHRU f s0 =
     (let s = s0\<lparr>h_hru_data := hf_data f\<rparr>; g = h_indx_gru s; h = h_indx_hru s; t = h_timestep s;
          hs = h_settings s; c = hf_calls f;
          rd = H_ReadForcing g h t (h_forcingStep s) (h_iFile s);
          run = H_RunHRU g h t (h_dt_init_factor s);
          wr = H_WriteOutput g h t (h_output_step s)
      in if gs_read_err c \<noteq> 0
         then Inr (s\<lparr>h_err_message := gs_read_msg c\<rparr>, [rd], gs_read_err c)
         else
           res_bind (hru_print_check hs t) (\<lambda>_.
           let s1 = s\<lparr>h_walltime := hf_walltime f\<rparr> in
           if gs_run_err c \<noteq> 0
           then Inr (s1\<lparr>h_err_message := gs_run_msg c\<rparr>, [rd, run], gs_run_err c)
           else if t \<noteq> 0
           then (if gs_write_err c \<noteq> 0
                 then Inr (s1\<lparr>h_err_message := gs_write_msg c\<rparr>, [rd, run, wr], gs_write_err c)
                 else (case after_output (gs_date c) s1 of (s2, es) \<Rightarrow> Inr (s2, [rd, run, wr] @ es, 0)))
           else Inr (s1, [rd, run], 0)))"

lemma runHRU_frame:
  assumes "runHRU f s = Inr (s', es, err)"
  shows "h_num_steps_until_write s' = h_num_steps_until_write s"
  using assms
  by (auto simp: runHRU_def after_output_def Let_def res_bind_Inr_iff split: if_splits)

subsection \<open>Handlers\<close>

text \<open>The loop of \<^verbatim>\<open>run_hru\<close>; the flag says that the handler returned.\<close>

definition next_step :: "hru_state \<Rightarrow> hru_state" where
  "next_step s = s\<lparr>h_timestep := h_timestep s + 1, h_forcingStep := h_forcingStep s + 1,
                   h_output_step := h_output_step s + 1\<rparr>"

function hru_loop ::
  "(int \<Rightarrow> hru_step) \<Rightarrow> hru_state \<Rightarrow> (hru_state \<times> hru_effect list \<times> bool) res" where
  "hru_loop fort s =
     (if h_num_steps_until_write s > 0
      then if h_forcingStep s > h_stepsInCurrentFFile s
           then Inr (s, [H_Access_Forcing (h_iFile s + 1)], False)
           else (case runHRU (fort (h_timestep s))
                        (s\<lparr>h_num_steps_until_write := h_num_steps_until_write s - 1\<rparr>) of
                   Inl e \<Rightarrow> Inl e
                 | Inr (s1, es, err) \<Rightarrow>
                     (if err \<noteq> 0 then (case hru_fail err s1 of (s2, es') \<Rightarrow> Inr (s2, es @ es', True))
                      else if h_timestep (next_step s1) > h_num_steps s1
                      then Inr (next_step s1, es @ [H_Self_Done], False)
                      else (case hru_loop fort (next_step s1) of
                              Inl e \<Rightarrow> Inl e
                            | Inr (s3, es3, ret) \<Rightarrow> Inr (s3, es @ es3, ret))))
      else Inr (s, [], False))"
  by pat_completeness auto
termination
  by (relation "measure (\<lambda>(fort, s). nat (h_num_steps_until_write s))")
     (auto simp: next_step_def dest!: runHRU_frame)

declare hru_loop.simps [simp del]

definition on_run_hru_actor :: "(int \<Rightarrow> hru_step) \<Rightarrow> hru_state \<Rightarrow> (hru_state \<times> hru_effect list) res" where
  "on_run_hru_actor fort s =
     res_bind (hru_loop fort s) (\<lambda>(s', es, ret).
       if ret then Inr (s', es)
       else Inr (s', es @ (if h_num_steps_until_write s' \<le> 0
                           then [H_Write_Output (h_indx_gru s') (h_indx_hru s')] else [])))"

text \<open>What \<^verbatim>\<open>setTimeZoneOffset_fortran\<close> delivers.\<close>

record hru_zone =
  hz_err :: int
  hz_msg :: string
  hz_data :: hru_type

datatype hru_in =
    Hin_Init_Hru hru_start
  | Hin_Update_Hru_Async
  | Hin_Num_Output_Steps int               \<comment> \<open>the reply of the file access actor\<close>
  | Hin_Num_Steps_Before_Write int
  | Hin_Run_Hru
  | Hin_New_Forcing_File hru_zone int int   \<comment> \<open>time zone routine, steps, file\<close>
  | Hin_Done_Hru
  | Hin_Dt_Init_Factor int
  | Hin_Update_TimeZoneOffset hru_zone int
  | Hin_Update_Hru int int

definition hru_set_timezone ::
  "hru_zone \<Rightarrow> int \<Rightarrow> hru_effect list \<Rightarrow> (hru_state \<Rightarrow> hru_state) \<Rightarrow> hru_state \<Rightarrow> hru_state \<times> hru_effect list" where
  "hru_set_timezone z i es upd s0 =
     (let s = s0\<lparr>h_iFile := i, h_hru_data := hz_data z\<rparr>
      in if hz_err z \<noteq> 0
         then (s\<lparr>h_stopped := True\<rparr>, [H_SetTimeZoneOffset i,
                 H_Parent_Error (h_indx_gru s) (h_timestep s) (hz_err z) (hz_msg z), H_Quit])
         else (upd s, H_SetTimeZoneOffset i # es))"

definition on_update_hru_bmi :: "hru_step \<Rightarrow> int \<Rightarrow> int \<Rightarrow> hru_state \<Rightarrow> (hru_state \<times> hru_effect list) res" where
  "on_update_hru_bmi f t forcingstep s =
     res_bind (runHRU f (s\<lparr>h_output_step := 1, h_timestep := t, h_forcingStep := forcingstep\<rparr>)) (\<lambda>(s1, es, err).
       if err \<noteq> 0 then (case hru_fail err s1 of (s2, es') \<Rightarrow> Inr (s2, es @ es'))
       else Inr (s1, es @ [H_Parent_Done_Update (h_walltime s1) (h_indx_gru s1)]))"

definition hru_receive :: "(int \<Rightarrow> hru_step) \<Rightarrow> hru_in \<Rightarrow> hru_state \<Rightarrow> (hru_state \<times> hru_effect list) res" where
  "hru_receive fort m s =
     (case m of
        Hin_Init_Hru f \<Rightarrow> Inr (on_init_hru f s)
      | Hin_Update_Hru_Async \<Rightarrow> Inr (s, [H_Get_Num_Output_Steps])
      | Hin_Num_Output_Steps n \<Rightarrow> Inr (s\<lparr>h_num_steps_until_write := n\<rparr>, [H_Access_Forcing (h_iFile s)])
      | Hin_Num_Steps_Before_Write n \<Rightarrow> Inr (s\<lparr>h_num_steps_until_write := n, h_output_step := 1\<rparr>, [])
      | Hin_Run_Hru \<Rightarrow> on_run_hru_actor fort s
      | Hin_New_Forcing_File z n i \<Rightarrow>
          Inr (hru_set_timezone z i [H_Self_Run] (h_forcingStep_update (\<lambda>_. 1)) (s\<lparr>h_stepsInCurrentFFile := n\<rparr>))
      | Hin_Done_Hru \<Rightarrow> Inr (s\<lparr>h_stopped := True\<rparr>, [H_Parent_Done (h_indx_gru s), H_Quit])
      | Hin_Dt_Init_Factor k \<Rightarrow> Inr (s, [])
      | Hin_Update_TimeZoneOffset z i \<Rightarrow> Inr (hru_set_timezone z i [] (\<lambda>s. s) s)
      | Hin_Update_Hru t forcingstep \<Rightarrow> on_update_hru_bmi (fort t) t forcingstep s)"

subsection \<open>Comparison with the GRU actor\<close>

text \<open>The actor that replaced this one makes the same Fortran calls and sends the same
  messages, restart files apart: \<open>matches\<close> relates the members both have, and
  \<open>hru_calls\<close> and \<open>gru_calls\<close> bring the effects to a common form.  The first number of a call
  or message is the GRU, the job index of the GRU actor; the second the HRU, which is
  always 1 here and left to the Fortran side there.  The question for the number of
  output steps has no argument here.\<close>

datatype run_call =
    C_Ask_Steps | C_Ask_Forcing int | C_Zone int | C_Read int int int int int | C_Run int int int int
  | C_Output int int int int | C_Write int int | C_Self_Run | C_Self_Done | C_Done int | C_Error int int int string | C_Quit

fun hru_call :: "hru_effect \<Rightarrow> run_call list" where
  "hru_call H_Get_Num_Output_Steps = [C_Ask_Steps]"
| "hru_call (H_Access_Forcing i) = [C_Ask_Forcing i]"
| "hru_call (H_SetTimeZoneOffset i) = [C_Zone i]"
| "hru_call (H_ReadForcing g h t f i) = [C_Read g h t f i]"
| "hru_call (H_RunHRU g h t k) = [C_Run g h t k]"
| "hru_call (H_WriteOutput g h t k) = [C_Output g h t k]"
| "hru_call (H_Write_Output g h) = [C_Write g h]"
| "hru_call H_Self_Run = [C_Self_Run]"
| "hru_call H_Self_Done = [C_Self_Done]"
| "hru_call (H_Parent_Done g) = [C_Done g]"
| "hru_call (H_Parent_Error g t e m) = [C_Error g t e m]"
| "hru_call H_Quit = [C_Quit]"
| "hru_call _ = []"

fun gru_call :: "gru_effect \<Rightarrow> run_call list" where
  "gru_call (Ask_Num_Output_Steps j) = [C_Ask_Steps]"
| "gru_call (Ask_Forcing i) = [C_Ask_Forcing i]"
| "gru_call (F_SetTimeZoneOffset i) = [C_Zone i]"
| "gru_call (F_ReadForcing j t f i) = [C_Read j 1 t f i]"
| "gru_call (F_RunGru j t k) = [C_Run j 1 t k]"
| "gru_call (F_WriteGruOutput j t k) = [C_Output j 1 t k]"
| "gru_call (Ask_Write_Output j) = [C_Write j 1]"
| "gru_call Self_Run_Hru = [C_Self_Run]"
| "gru_call Self_Done_Hru = [C_Self_Done]"
| "gru_call (Parent_Done_Hru j) = [C_Done j]"
| "gru_call (Parent_Error j t e m) = [C_Error j t e m]"
| "gru_call Quit_Gru = [C_Quit]"
| "gru_call _ = []"

definition hru_calls :: "hru_effect list \<Rightarrow> run_call list" where "hru_calls es = concat (map hru_call es)"
definition gru_calls :: "gru_effect list \<Rightarrow> run_call list" where "gru_calls es = concat (map gru_call es)"

lemma calls_simps [simp]:
  "hru_calls [] = []" "gru_calls [] = []" "hru_calls (x # xs) = hru_call x @ hru_calls xs"
  "gru_calls (u # us) = gru_call u @ gru_calls us" "hru_calls (xs @ ys) = hru_calls xs @ hru_calls ys"
  "gru_calls (us @ vs) = gru_calls us @ gru_calls vs"
  by (simp_all add: hru_calls_def gru_calls_def)

definition matches :: "hru_state \<Rightarrow> gru_actor \<Rightarrow> bool" where
  "matches s g \<longleftrightarrow> h_ref_gru s = ga_netcdf_index g \<and> h_indx_gru s = ga_job_index g \<and> h_indx_hru s = 1 \<and>
     h_num_steps_until_write s = num_steps_until_write g \<and> h_num_steps s = ga_num_steps g \<and>
     h_timestep s = ga_timestep g \<and> h_iFile s = ga_iFile g \<and>
     h_stepsInCurrentFFile s = stepsInCurrentFFile g \<and> h_forcingStep s = forcingStep g \<and>
     h_output_step s = ga_output_step g \<and> h_dt_init_factor s = ga_dt_init_factor g \<and>
     hs_print_output (h_settings s) = print_output (ga_hru_settings g) \<and>
     hs_output_frequency (h_settings s) = output_frequency (ga_hru_settings g) \<and>
     h_stopped s = (ga_mode g = Gru_Stopped)"

definition same_counters :: "hru_state \<Rightarrow> hru_state \<Rightarrow> bool" where
  "same_counters s s' \<longleftrightarrow>
     h_ref_gru s' = h_ref_gru s \<and> h_indx_gru s' = h_indx_gru s \<and> h_indx_hru s' = h_indx_hru s \<and>
     h_num_steps_until_write s' = h_num_steps_until_write s \<and> h_num_steps s' = h_num_steps s \<and>
     h_timestep s' = h_timestep s \<and> h_iFile s' = h_iFile s \<and>
     h_stepsInCurrentFFile s' = h_stepsInCurrentFFile s \<and> h_forcingStep s' = h_forcingStep s \<and>
     h_output_step s' = h_output_step s \<and> h_dt_init_factor s' = h_dt_init_factor s \<and>
     h_settings s' = h_settings s \<and> h_stopped s' = h_stopped s"

lemma same_counters_matches: "same_counters s s' \<Longrightarrow> matches s' g = matches s g"
  by (simp add: same_counters_def matches_def)

lemma same_counters_simps [simp]:
  "same_counters s (s\<lparr>h_hru_data := d\<rparr>)" "same_counters s (s\<lparr>h_hru_data := d, h_err_message := m\<rparr>)"
  "same_counters s (s\<lparr>h_hru_data := d, h_walltime := w\<rparr>)"
  "same_counters s (s\<lparr>h_hru_data := d, h_walltime := w, h_err_message := m\<rparr>)"
  by (simp_all add: same_counters_def)

lemma after_output_frame:
  assumes "after_output d s = (s', es)"
  shows "same_counters s s'" "hru_calls es = []"
  using assms by (auto simp: after_output_def Let_def same_counters_def split: if_splits)

text \<open>The error code, the text and the calls of a timestep.\<close>

definition step_result :: "gru_step \<Rightarrow> int \<Rightarrow> int \<Rightarrow> int \<Rightarrow> int \<Rightarrow> int \<Rightarrow> int \<Rightarrow> int \<times> string \<times> run_call list" where
  "step_result c j t fs i k out =
     (let rd = C_Read j 1 t fs i; run = C_Run j 1 t k; wr = C_Output j 1 t out
      in if gs_read_err c \<noteq> 0 then (gs_read_err c, gs_read_msg c, [rd])
         else if gs_run_err c \<noteq> 0 then (gs_run_err c, gs_run_msg c, [rd, run])
         else (gs_write_err c, gs_write_msg c, [rd, run, wr]))"

lemma runHRU_error:
  assumes "hs_print_output (h_settings s) \<longrightarrow> hs_output_frequency (h_settings s) \<noteq> 0" and "h_timestep s \<noteq> 0" "h_indx_hru s = 1"
    and "\<not> good_step (hf_calls f)"
    and "step_result (hf_calls f) (h_indx_gru s) (h_timestep s) (h_forcingStep s) (h_iFile s) (h_dt_init_factor s) (h_output_step s) =
      (err, msg, cs)"
  shows "err \<noteq> 0 \<and> (\<exists>s1 es. runHRU f s = Inr (s1, es, err) \<and> h_err_message s1 = msg \<and> same_counters s s1 \<and>
    hru_calls es = cs)"
proof -
  obtain v where v: "hru_print_check (h_settings s) (h_timestep s) = Inr v"
    using assms(1) by (cases "hs_print_output (h_settings s)") (auto simp: cpp_mod_def hru_print_check_def)
  from assms(4) consider "gs_read_err (hf_calls f) \<noteq> 0"
    | "gs_read_err (hf_calls f) = 0" "gs_run_err (hf_calls f) \<noteq> 0"
    | "gs_read_err (hf_calls f) = 0" "gs_run_err (hf_calls f) = 0" "gs_write_err (hf_calls f) \<noteq> 0"
    by (auto simp: good_step_def)
  then show ?thesis
    by cases (use assms(2,3,5) v in \<open>auto simp: step_result_def runHRU_def Let_def\<close>)
qed

lemma runHRU_good:
  assumes "hs_print_output (h_settings s) \<longrightarrow> hs_output_frequency (h_settings s) \<noteq> 0" and "h_timestep s \<noteq> 0" "h_indx_hru s = 1"
    and "good_step (hf_calls f)"
  shows "\<exists>s1 es. runHRU f s = Inr (s1, es, 0) \<and> same_counters s s1 \<and>
    hru_calls es = [C_Read (h_indx_gru s) 1 (h_timestep s) (h_forcingStep s) (h_iFile s),
      C_Run (h_indx_gru s) 1 (h_timestep s) (h_dt_init_factor s), C_Output (h_indx_gru s) 1 (h_timestep s) (h_output_step s)]"
proof -
  obtain v where v: "hru_print_check (h_settings s) (h_timestep s) = Inr v"
    using assms(1) by (cases "hs_print_output (h_settings s)") (auto simp: cpp_mod_def hru_print_check_def)
  let ?s = "s\<lparr>h_hru_data := hf_data f, h_walltime := hf_walltime f\<rparr>"
  obtain s2 es2 where a: "after_output (gs_date (hf_calls f)) ?s = (s2, es2)" by (metis surj_pair)
  have "same_counters s ?s" by simp
  then have "same_counters s s2" using after_output_frame(1) [OF a] by (simp add: same_counters_def)
  with a after_output_frame(2) [OF a] assms(2-4) v show ?thesis
    by (simp add: runHRU_def good_step_def Let_def)
qed

lemma run_timestep_error:
  assumes "\<not> good_step c"
    and "step_result c (ga_job_index g) (ga_timestep g) (forcingStep g) (ga_iFile g) (ga_dt_init_factor g) (ga_output_step g) = (err, msg, cs)"
  shows "\<exists>es. run_timestep c g =
      (g\<lparr>num_steps_until_write := num_steps_until_write g - 1, ga_mode := Gru_Stopped\<rparr>, es, Return) \<and>
    gru_calls es = cs @ [C_Error (ga_job_index g) (ga_timestep g) err msg, C_Quit]"
  using assms by (auto simp: step_result_def run_timestep_def handleErr_def good_step_def Let_def split: if_splits)

lemma run_timestep_calls:
  assumes "good_step f"
  shows "\<exists>g1 es. run_timestep f g = (g1, es, if ga_timestep g < ga_num_steps g then Next else Break) \<and> advanced 1 g g1 \<and>
    gru_calls es = [C_Read (ga_job_index g) 1 (ga_timestep g) (forcingStep g) (ga_iFile g),
      C_Run (ga_job_index g) 1 (ga_timestep g) (ga_dt_init_factor g), C_Output (ga_job_index g) 1 (ga_timestep g) (ga_output_step g)] @
      (if ga_timestep g < ga_num_steps g then [] else [C_Self_Done])"
proof -
  from run_timestep_good [OF assms, of g] obtain g1 es where
    r: "run_timestep f g = (g1, es, if ga_timestep g < ga_num_steps g then Next else Break)" "advanced 1 g g1" by blast
  moreover have "gru_calls (fst (snd (run_timestep f g))) = [C_Read (ga_job_index g) 1 (ga_timestep g) (forcingStep g) (ga_iFile g),
      C_Run (ga_job_index g) 1 (ga_timestep g) (ga_dt_init_factor g), C_Output (ga_job_index g) 1 (ga_timestep g) (ga_output_step g)] @
      (if ga_timestep g < ga_num_steps g then [] else [C_Self_Done])"
    using assms by (simp add: run_timestep_def good_step_def Let_def)
  ultimately show ?thesis by simp
qed

text \<open>After a timestep the counters agree again.\<close>

lemma matches_until:
  assumes "matches s g" and "same_counters (s\<lparr>h_num_steps_until_write := h_num_steps_until_write s - 1\<rparr>) s1"
  shows "matches s1 (g\<lparr>num_steps_until_write := num_steps_until_write g - 1\<rparr>)"
proof -
  have "matches (s\<lparr>h_num_steps_until_write := h_num_steps_until_write s - 1\<rparr>)
      (g\<lparr>num_steps_until_write := num_steps_until_write g - 1\<rparr>)"
    using assms(1) by (simp add: matches_def)
  with same_counters_matches [OF assms(2)] show ?thesis by simp
qed

lemma matches_next:
  assumes "matches s g" and "advanced 1 g g1"
    and "same_counters (s\<lparr>h_num_steps_until_write := h_num_steps_until_write s - 1\<rparr>) s1"
  shows "matches (next_step s1) g1"
proof -
  have "ga_netcdf_index g1 = ga_netcdf_index g" "ga_dt_init_factor g1 = ga_dt_init_factor g"
    "ga_hru_settings g1 = ga_hru_settings g"
    using assms(2) by (cases g; cases g1; simp add: advanced_def)+
  with advanced_fields [OF assms(2)] matches_until [OF assms(1,3)] show ?thesis
    by (simp add: matches_def next_step_def)
qed

lemma matches_stop:
  "matches s1 g1 \<Longrightarrow> matches (s1\<lparr>h_stopped := True\<rparr>) (g1\<lparr>ga_mode := Gru_Stopped\<rparr>)"
  by (simp add: matches_def)

text \<open>One iteration of both loops.\<close>

lemma iteration_error:
  assumes m: "matches s g" and t: "1 \<le> h_timestep s" and p: "prints_ok g" and bad: "\<not> good_step (hf_calls f)"
  shows "\<exists>s1 es err. runHRU f (s\<lparr>h_num_steps_until_write := h_num_steps_until_write s - 1\<rparr>) = Inr (s1, es, err) \<and>
    err \<noteq> 0 \<and> (\<exists>g1 es'. run_timestep (hf_calls f) g = (g1, es', Return) \<and>
      matches (fst (hru_fail err s1)) g1 \<and> hru_calls (es @ snd (hru_fail err s1)) = gru_calls es')"
proof -
  let ?s = "s\<lparr>h_num_steps_until_write := h_num_steps_until_write s - 1\<rparr>"
  have eq: "ga_job_index g = h_indx_gru s" "ga_iFile g = h_iFile s" "forcingStep g = h_forcingStep s" "ga_timestep g = h_timestep s"
    "ga_dt_init_factor g = h_dt_init_factor s" "ga_output_step g = h_output_step s"
    using m by (simp_all add: matches_def)
  obtain err msg cs where res: "step_result (hf_calls f) (h_indx_gru s) (h_timestep s) (h_forcingStep s) (h_iFile s)
      (h_dt_init_factor s) (h_output_step s) = (err, msg, cs)" by (metis prod_cases3)
  have "hs_print_output (h_settings ?s) \<longrightarrow> hs_output_frequency (h_settings ?s) \<noteq> 0" "h_timestep ?s \<noteq> 0" "h_indx_hru ?s = 1"
    using m t p by (simp_all add: matches_def prints_ok_def)
  from runHRU_error [OF this bad, of err msg cs] res obtain s1 es where
    r: "runHRU f ?s = Inr (s1, es, err)" "err \<noteq> 0" "h_err_message s1 = msg" "same_counters ?s s1" "hru_calls es = cs"
    by auto
  from run_timestep_error [OF bad, of g err msg cs] res obtain es' where
    q: "run_timestep (hf_calls f) g =
        (g\<lparr>num_steps_until_write := num_steps_until_write g - 1, ga_mode := Gru_Stopped\<rparr>, es', Return)"
      "gru_calls es' = cs @ [C_Error (h_indx_gru s) (h_timestep s) err msg, C_Quit]" unfolding eq by blast
  have "h_timestep s1 = h_timestep s" "h_indx_gru s1 = h_indx_gru s" using r(4) by (simp_all add: same_counters_def)
  then have "hru_calls (es @ snd (hru_fail err s1)) = gru_calls es'" using r(3,5) q(2) by (simp add: hru_fail_def)
  moreover have "matches (fst (hru_fail err s1)) (g\<lparr>num_steps_until_write := num_steps_until_write g - 1, ga_mode := Gru_Stopped\<rparr>)"
    using matches_stop [OF matches_until [OF m r(4)]] by (simp add: hru_fail_def)
  ultimately show ?thesis using r(1,2) q(1) by blast
qed

lemma iteration_good:
  assumes m: "matches s g" and t: "1 \<le> h_timestep s" and p: "prints_ok g" and good: "good_step (hf_calls f)"
  shows "\<exists>s1 es g1 es'. runHRU f (s\<lparr>h_num_steps_until_write := h_num_steps_until_write s - 1\<rparr>) = Inr (s1, es, 0) \<and>
    run_timestep (hf_calls f) g = (g1, es', if ga_timestep g < ga_num_steps g then Next else Break) \<and>
    matches (next_step s1) g1 \<and> prints_ok g1 \<and> h_timestep (next_step s1) = h_timestep s + 1 \<and>
    h_num_steps s1 = h_num_steps s \<and>
    hru_calls es @ (if ga_timestep g < ga_num_steps g then [] else [C_Self_Done]) = gru_calls es'"
proof -
  let ?s = "s\<lparr>h_num_steps_until_write := h_num_steps_until_write s - 1\<rparr>"
  have "hs_print_output (h_settings ?s) \<longrightarrow> hs_output_frequency (h_settings ?s) \<noteq> 0" "h_timestep ?s \<noteq> 0" "h_indx_hru ?s = 1"
    using m t p by (simp_all add: matches_def prints_ok_def)
  from runHRU_good [OF this good] obtain s1 es where
    r: "runHRU f ?s = Inr (s1, es, 0)" "same_counters ?s s1"
      "hru_calls es = [C_Read (h_indx_gru s) 1 (h_timestep s) (h_forcingStep s) (h_iFile s),
        C_Run (h_indx_gru s) 1 (h_timestep s) (h_dt_init_factor s), C_Output (h_indx_gru s) 1 (h_timestep s) (h_output_step s)]" by auto
  from run_timestep_calls [OF good, of g] obtain g1 es' where
    q: "run_timestep (hf_calls f) g = (g1, es', if ga_timestep g < ga_num_steps g then Next else Break)" "advanced 1 g g1"
      "gru_calls es' = [C_Read (ga_job_index g) 1 (ga_timestep g) (forcingStep g) (ga_iFile g),
      C_Run (ga_job_index g) 1 (ga_timestep g) (ga_dt_init_factor g), C_Output (ga_job_index g) 1 (ga_timestep g) (ga_output_step g)] @
      (if ga_timestep g < ga_num_steps g then [] else [C_Self_Done])" by blast
  have "h_timestep (next_step s1) = h_timestep s + 1" "h_num_steps s1 = h_num_steps s"
    using r(2) by (simp_all add: same_counters_def next_step_def)
  with r q matches_next [OF m q(2) r(2)] advanced_fields(10) [OF q(2)] p m show ?thesis
    by (simp add: matches_def)
qed

lemma loops_match:
  assumes "fort_g = (\<lambda>t. hf_calls (fort t))"
  shows "matches s g \<Longrightarrow> 1 \<le> h_timestep s \<Longrightarrow> prints_ok g \<Longrightarrow>
    \<exists>s' g' es es' ret. hru_loop fort s = Inr (s', es, ret) \<and> run_loop fort_g g = Inr (g', es', ret) \<and>
      matches s' g' \<and> hru_calls es = gru_calls es'"
proof (induction "nat (h_num_steps_until_write s)" arbitrary: s g rule: less_induct)
  case less
  note m = less.prems(1) and t = less.prems(2) and p = less.prems(3)
  let ?f = "fort (h_timestep s)"
  have eq: "num_steps_until_write g = h_num_steps_until_write s" "forcingStep g = h_forcingStep s"
    "stepsInCurrentFFile g = h_stepsInCurrentFFile s" "ga_iFile g = h_iFile s" "ga_timestep g = h_timestep s"
    "ga_num_steps g = h_num_steps s" using m by (simp_all add: matches_def)
  obtain v where v: "(if print_output (ga_hru_settings g)
      then cpp_mod (ga_timestep g) (output_frequency (ga_hru_settings g)) else Inr 0) = Inr v"
    using p by (cases "print_output (ga_hru_settings g)") (auto simp: prints_ok_def cpp_mod_def)
  consider (stay) "h_num_steps_until_write s \<le> 0 \<or> h_forcingStep s > h_stepsInCurrentFFile s"
    | (bad) "h_num_steps_until_write s > 0" "h_forcingStep s \<le> h_stepsInCurrentFFile s" "\<not> good_step (hf_calls ?f)"
    | (good) "h_num_steps_until_write s > 0" "h_forcingStep s \<le> h_stepsInCurrentFFile s" "good_step (hf_calls ?f)"
    by linarith
  then show ?case
  proof cases
    case stay
    then show ?thesis using m eq by (subst hru_loop.simps, subst run_loop.simps) auto
  next
    case bad
    from iteration_error [OF m t p bad(3)] bad(1,2) v eq show ?thesis
      by (subst hru_loop.simps, subst run_loop.simps) (auto simp: assms hru_fail_def)
  next
    case good
    from iteration_good [OF m t p good(3)] obtain s1 es g1 es' where
      r: "runHRU ?f (s\<lparr>h_num_steps_until_write := h_num_steps_until_write s - 1\<rparr>) = Inr (s1, es, 0)"
        "run_timestep (hf_calls ?f) g = (g1, es', if ga_timestep g < ga_num_steps g then Next else Break)"
        "matches (next_step s1) g1" "prints_ok g1" "h_timestep (next_step s1) = h_timestep s + 1"
        "h_num_steps s1 = h_num_steps s"
        "hru_calls es @ (if ga_timestep g < ga_num_steps g then [] else [C_Self_Done]) = gru_calls es'" by blast
    show ?thesis
    proof (cases "ga_timestep g < ga_num_steps g")
      case False
      with r good v eq have "hru_loop fort s = Inr (next_step s1, es @ [H_Self_Done], False)"
        "run_loop fort_g g = Inr (g1, es', False)"
        by (subst hru_loop.simps run_loop.simps; simp add: assms)+
      with r(3,7) False show ?thesis by auto
    next
      case True
      have "nat (h_num_steps_until_write (next_step s1)) < nat (h_num_steps_until_write s)"
        using runHRU_frame [OF r(1)] good(1) by (simp add: next_step_def)
      from less.hyps [OF this r(3) _ r(4)] r(5) t obtain s' g' es2 es2' ret where
        "hru_loop fort (next_step s1) = Inr (s', es2, ret)" "run_loop fort_g g1 = Inr (g', es2', ret)"
        "matches s' g'" "hru_calls es2 = gru_calls es2'" by auto
      with True r good v eq show ?thesis
        by (subst hru_loop.simps, subst run_loop.simps) (simp add: assms)
    qed
  qed
qed

lemma on_run_hru_matches:
  assumes "fort_g = (\<lambda>t. hf_calls (fort t))" and "matches s g" and "1 \<le> h_timestep s" and "prints_ok g"
  shows "\<exists>s' g' es es'. on_run_hru_actor fort s = Inr (s', es) \<and> on_run_hru fort_g g = Inr (g', es') \<and>
    matches s' g' \<and> hru_calls es = gru_calls es'"
proof -
  from loops_match [OF assms] obtain s' g' es es' ret where
    r: "hru_loop fort s = Inr (s', es, ret)" "run_loop fort_g g = Inr (g', es', ret)" "matches s' g'"
      "hru_calls es = gru_calls es'" by blast
  then have "num_steps_until_write g' = h_num_steps_until_write s'" "ga_job_index g' = h_indx_gru s'" "h_indx_hru s' = 1"
    by (simp_all add: matches_def)
  with r show ?thesis by (cases ret) (auto simp: on_run_hru_actor_def on_run_hru_def)
qed

lemma run_loop_keeps:
  "run_loop fort g = Inr (g', es, ret) \<Longrightarrow>
   ga_hru_settings g' = ga_hru_settings g \<and> ga_timestep g \<le> ga_timestep g' \<and> ga_job_index g' = ga_job_index g"
proof (induction "nat (num_steps_until_write g)" arbitrary: g es rule: less_induct)
  case less
  let ?r = "run_timestep (fort (ga_timestep g)) g"
  have keep: "ga_hru_settings (fst ?r) = ga_hru_settings g" "ga_timestep g \<le> ga_timestep (fst ?r)"
    "ga_job_index (fst ?r) = ga_job_index g"
    by (simp_all add: run_timestep_def handleErr_def Let_def)
  show ?case
  proof (cases "0 < num_steps_until_write g \<and> forcingStep g \<le> stepsInCurrentFFile g \<and> snd (snd ?r) = Next")
    case False
    with less.prems keep show ?thesis
      by (subst (asm) run_loop.simps) (auto simp: Let_def split: if_splits sum.splits loop_exit.splits)
  next
    case True
    then obtain es1 where "run_loop fort (fst ?r) = Inr (g', es1, ret)"
      using less.prems by (subst (asm) run_loop.simps) (auto simp: Let_def split: if_splits sum.splits)
    from less.hyps [OF _ this] True keep show ?thesis by (simp add: run_timestep_until)
  qed
qed

lemma gru_async_receive_job:
  assumes "gru_async_receive fort m g = Inr (g', es)"
  shows "ga_job_index g' = ga_job_index g"
proof -
  have "ga_job_index g' = ga_job_index g" if "run_loop fort g = Inr (g', es0, ret)" for es0 ret
    using run_loop_keeps [OF that] by simp
  with assms show ?thesis
    by (auto simp: gru_async_receive_def on_run_hru_def res_bind_Inr_iff Let_def split: gru_in.splits if_splits)
qed

subsection \<open>Properties\<close>

text \<open>A message of the GRU actor for this actor; \<open>d\<close> and \<open>zmsg\<close> are what the time zone routine
  leaves.  An actor that has quit handles no more messages.\<close>

fun as_hru_in :: "hru_type \<Rightarrow> string \<Rightarrow> gru_in \<Rightarrow> hru_in" where
  "as_hru_in d zmsg In_Update_Hru_Async = Hin_Update_Hru_Async"
| "as_hru_in d zmsg (In_Num_Output_Steps n) = Hin_Num_Output_Steps n"
| "as_hru_in d zmsg (In_New_Forcing_File err n i) = Hin_New_Forcing_File \<lparr>hz_err = err, hz_msg = zmsg, hz_data = d\<rparr> n i"
| "as_hru_in d zmsg (In_Num_Steps_Before_Write n) = Hin_Num_Steps_Before_Write n"
| "as_hru_in d zmsg In_Run_Hru = Hin_Run_Hru"
| "as_hru_in d zmsg In_Done_Hru = Hin_Done_Hru"

fun zone_error :: "gru_in \<Rightarrow> int" where
  "zone_error (In_New_Forcing_File err n i) = err"
| "zone_error _ = 0"

fun hru_receives :: "(int \<Rightarrow> hru_step) \<Rightarrow> hru_in list \<Rightarrow> hru_state \<Rightarrow> (hru_state \<times> hru_effect list) res" where
  "hru_receives fort [] s = Inr (s, [])"
| "hru_receives fort (m # ms) s =
     (if h_stopped s then Inr (s, [])
      else res_bind (hru_receive fort m s) (\<lambda>(s1, es).
           res_bind (hru_receives fort ms s1) (\<lambda>(s2, es'). Inr (s2, es @ es'))))"

fun gru_receives :: "(int \<Rightarrow> gru_step) \<Rightarrow> gru_in list \<Rightarrow> gru_actor \<Rightarrow> (gru_actor \<times> gru_effect list) res" where
  "gru_receives fort [] s = Inr (s, [])"
| "gru_receives fort (m # ms) s =
     (if ga_mode s = Gru_Stopped then Inr (s, [])
      else res_bind (gru_async_receive fort m s) (\<lambda>(s1, es).
           res_bind (gru_receives fort ms s1) (\<lambda>(s2, es'). Inr (s2, es @ es'))))"

lemma receive_matches:
  assumes "fort_g = (\<lambda>t. hf_calls (fort t))" and m: "matches s g" and "1 \<le> h_timestep s" and "prints_ok g"
    and "zone_error msg = 0"
  shows "\<exists>s' g' es es'. hru_receive fort (as_hru_in d zmsg msg) s = Inr (s', es) \<and>
    gru_async_receive fort_g msg g = Inr (g', es') \<and> matches s' g' \<and> 1 \<le> h_timestep s' \<and> prints_ok g' \<and>
    hru_calls es = gru_calls es'"
proof (cases "msg = In_Run_Hru")
  case True
  from on_run_hru_matches [OF assms(1-4)] obtain s' g' es es' where
    r: "on_run_hru_actor fort s = Inr (s', es)" "on_run_hru fort_g g = Inr (g', es')" "matches s' g'"
      "hru_calls es = gru_calls es'" by blast
  from r(2) obtain es0 ret where "run_loop fort_g g = Inr (g', es0, ret)"
    by (auto simp: on_run_hru_def res_bind_Inr_iff split: if_splits)
  then have "ga_hru_settings g' = ga_hru_settings g" "ga_timestep g \<le> ga_timestep g'" using run_loop_keeps by blast+
  with r m assms(3,4) True show ?thesis
    by (auto simp: hru_receive_def gru_async_receive_def matches_def prints_ok_def)
next
  case False
  with assms show ?thesis
    by (cases msg) (simp_all add: hru_receive_def gru_async_receive_def hru_set_timezone_def matches_def prints_ok_def Let_def)
qed

text \<open>When the time zone cannot be set, only this actor tells its parent.\<close>

definition untold_error :: "int \<Rightarrow> string \<Rightarrow> gru_in list \<Rightarrow> run_call list \<Rightarrow> run_call list \<Rightarrow> bool" where
  "untold_error j zmsg ms hcs gcs \<longleftrightarrow>
     (\<exists>cs i t e. e \<in> zone_error ` set ms \<and> e \<noteq> 0 \<and> gcs = cs @ [C_Zone i, C_Quit] \<and> hcs = cs @ [C_Zone i, C_Error j t e zmsg, C_Quit])"

lemma receive_zone_error:
  assumes "matches s g" and "zone_error msg \<noteq> 0"
  shows "\<exists>s' g' es es' i. hru_receive fort (as_hru_in d zmsg msg) s = Inr (s', es) \<and>
    gru_async_receive fort_g msg g = Inr (g', es') \<and> matches s' g' \<and> h_stopped s' \<and>
    hru_calls es = [C_Zone i, C_Error (h_indx_gru s) (h_timestep s) (zone_error msg) zmsg, C_Quit] \<and>
    gru_calls es' = [C_Zone i, C_Quit]"
  using assms by (cases msg) (simp_all add: hru_receive_def gru_async_receive_def hru_set_timezone_def matches_def Let_def)

lemma stopped_receives:
  "h_stopped s \<Longrightarrow> hru_receives fort ms s = Inr (s, [])" "ga_mode g = Gru_Stopped \<Longrightarrow> gru_receives fort_g ms' g = Inr (g, [])"
  by (cases ms; simp) (cases ms'; simp)

lemma untold_error_Cons:
  "untold_error j zmsg ms hcs gcs \<Longrightarrow> untold_error j zmsg (m # ms) (cs @ hcs) (cs @ gcs)"
  unfolding untold_error_def by (metis append_assoc image_insert insertCI list.simps(15))


definition demo_hru :: hru_state where
  "demo_hru = hru_actor 5 1 \<lparr>hs_print_output = False, hs_output_frequency = 100, hs_dt_init_factor = 1\<rparr>
     (new_handle_hru_type \<lparr>fracJulDay = 0, tmZoneOffsetFracDay = 0, year_length = 365, computeVegFlux = 0,
        sc_dt_init = 0, upArea = 0\<rparr>) 0 0"

definition demo_hru_gru :: gru_actor where
  "demo_hru_gru = GruActor 5 1 0 HRUActorSettings_default False 2 ''never'' ToleranceSettings_default 0 0"

definition demo_hru_step :: hru_step where
  "demo_hru_step = \<lparr>hf_calls = \<lparr>gs_read_err = 0, gs_read_msg = [], gs_run_err = 20, gs_run_msg = ''x'',
       gs_write_err = 0, gs_write_msg = [], gs_date = \<lparr>dt_y = 0, dt_m = 0, dt_d = 0, dt_h = 0\<rparr>\<rparr>,
     hf_walltime = 0, hf_data = h_hru_data demo_hru\<rparr>"


end
