(* ===== verification/Hru_Serialization.thy ===== *)
theory Hru_Serialization
  imports Hru_Actor
begin

text \<open>
  The state of a HRU as a message (\<^verbatim>\<open>hru_utils.hpp\<close>, \<^verbatim>\<open>hru_utils.cpp\<close>, and the copy of
  the structure in \<^verbatim>\<open>gru_data_structure.hpp\<close>): what \<^verbatim>\<open>serializeHru\<close> puts into it, how
  \<^verbatim>\<open>deserializeHru\<close> rebuilds a HRU from it, and the fields \<^verbatim>\<open>inspect\<close> sends.
\<close>

subsection \<open>The message\<close>

record hru =
  m_indx_hru :: int
  m_indx_gru :: int
  m_ref_gru :: int
  m_timestep :: int
  m_forcing_step :: int
  m_num_steps :: int
  m_iFile :: int
  m_dt_init_factor :: int
  m_output_step :: int
  m_beSteps :: int
  m_tol :: hru_tolerances
  def_tol :: bool
  m_atolWat :: real
  m_atolNrg :: real
  forc_stat :: "real list list"
  prog_stat :: "real list list"
  diag_stat :: "real list list"
  flux_stat :: "real list list"
  indx_stat :: "real list list"
  bvar_stat :: "real list list"
  time_struct :: "int list"
  forc_struct :: "real list"
  attr_struct :: "real list"
  type_struct :: "int list"
  id_struct :: "int list"
  indx_struct :: "int list list"
  mpar_struct :: "real list list"
  prog_struct :: "real list list"
  diag_struct :: "real list list"
  flux_struct :: "real list list"
  bpar_struct :: "real list"
  bvar_struct :: "real list list"
  dpar_struct :: "real list"
  hm_start_time :: "int list"
  hm_end_time :: "int list"
  hm_ref_time :: "int list"
  hm_old_time :: "int list"
  stat_counter :: "int list"
  output_timestep :: "int list"
  reset_stats :: "int list"
  finalize_stats :: "int list"
  m_scalars :: hru_scalars

type_synonym HRU = hru

subsection \<open>From the HRU to the message\<close>

text \<open>\<open>m\<close> is the message as the caller passes it: the members nothing is assigned to
  keep their values.\<close>

definition serializeHru :: "hru_state \<Rightarrow> hru \<Rightarrow> hru res" where
  "serializeHru s m =
     (let d = h_hru_data s; t = h_tol s; dl = get_var_dlength_by_indx (ht_dlength d);
          iv = get_var_i_by_indx (ht_var_i d); dv = get_var_d_by_indx (ht_var_d d)
      in res_bind (dl 1) (\<lambda>forc_stat'.
         res_bind (dl 2) (\<lambda>prog_stat'.
         res_bind (dl 3) (\<lambda>diag_stat'.
         res_bind (dl 4) (\<lambda>flux_stat'.
         res_bind (dl 5) (\<lambda>indx_stat'.
         res_bind (dl 6) (\<lambda>bvar_stat'.
         res_bind (get_var_ilength_by_indx (ht_ilength d) 1) (\<lambda>indx_struct'.
         res_bind (dl 7) (\<lambda>mpar_struct'.
         res_bind (dl 8) (\<lambda>prog_struct'.
         res_bind (dl 9) (\<lambda>diag_struct'.
         res_bind (dl 10) (\<lambda>flux_struct'.
         res_bind (dl 11) (\<lambda>bvar_struct'.
         Inr (m\<lparr>m_indx_hru := h_indx_hru s, m_indx_gru := h_indx_gru s, m_ref_gru := h_ref_gru s,
           m_timestep := h_timestep s, m_forcing_step := h_forcingStep s, m_num_steps := h_num_steps s,
           m_iFile := h_iFile s, m_dt_init_factor := h_dt_init_factor s, m_output_step := h_output_step s,
           m_beSteps := h_beSteps s,
           m_tol := \<lparr>t_rtol = t_rtol t, t_atol = t_atol t, rtol_temp_cas = rtol_temp_cas t,
             rtol_temp_veg = rtol_temp_veg t, rtol_wat_veg = rtol_wat_veg t, rtol_temp_soil_snow = rtol_temp_soil_snow t,
             rtol_wat_snow = rtol_wat_snow t, rtol_matric = rtol_matric t, rtol_aquifr = rtol_aquifr t,
             atol_temp_cas = atol_temp_cas t, atol_temp_veg = atol_temp_veg t, atol_wat_veg = atol_wat_veg t,
             atol_temp_soil_snow = atol_temp_soil_snow t, atol_wat_snow = atol_wat_snow t, atol_matric = atol_matric t,
             atol_aquifr = atol_aquifr t\<rparr>,
           forc_stat := forc_stat', prog_stat := prog_stat',
           diag_stat := diag_stat', flux_stat := flux_stat',
           indx_stat := indx_stat', bvar_stat := bvar_stat',
           time_struct := iv 1, forc_struct := dv 1,
           attr_struct := dv 2, type_struct := iv 2,
           id_struct := get_var_i8_by_indx (ht_var_i8 d) 1, indx_struct := indx_struct',
           mpar_struct := mpar_struct', prog_struct := prog_struct',
           diag_struct := diag_struct', flux_struct := flux_struct',
           bpar_struct := dv 3, bvar_struct := bvar_struct',
           dpar_struct := dv 4, hm_start_time := iv 3,
           hm_end_time := iv 4, hm_ref_time := iv 5,
           hm_old_time := iv 6, stat_counter := iv 7,
           output_timestep := iv 8, reset_stats := get_flagVec_by_indx (ht_flagVec d) 1,
           finalize_stats := get_flagVec_by_indx (ht_flagVec d) 2, m_scalars := get_scalar_data (ht_scalars d) (m_scalars m)\<rparr>))))))))))))))"

subsection \<open>From the message to the HRU\<close>

text \<open>\<open>meta\<close> tells which variables of a structure are of an interface type; \<open>junk\<close> and
  \<open>junk_sc\<close> are what freshly allocated memory holds.  The Fortran routines for the
  one-dimensional variables cannot fail.\<close>

definition restore_vectors :: "hru \<Rightarrow> hru_type \<Rightarrow> hru_type" where
  "restore_vectors m d = d\<lparr>
     ht_var_i := (set_var_i_by_indx (output_timestep m) 8 \<circ> set_var_i_by_indx (stat_counter m) 7 \<circ>
       set_var_i_by_indx (hm_old_time m) 6 \<circ> set_var_i_by_indx (hm_ref_time m) 5 \<circ>
       set_var_i_by_indx (hm_end_time m) 4 \<circ> set_var_i_by_indx (hm_start_time m) 3 \<circ>
       set_var_i_by_indx (type_struct m) 2 \<circ> set_var_i_by_indx (time_struct m) 1) (ht_var_i d),
     ht_var_d := (set_var_d_by_indx (dpar_struct m) 4 \<circ> set_var_d_by_indx (bpar_struct m) 3 \<circ>
       set_var_d_by_indx (attr_struct m) 2 \<circ> set_var_d_by_indx (forc_struct m) 1) (ht_var_d d),
     ht_var_i8 := set_var_i8_by_indx (id_struct m) 1 (ht_var_i8 d),
     ht_flagVec := (set_flagVec_by_indx (finalize_stats m) 2 \<circ> set_flagVec_by_indx (reset_stats m) 1) (ht_flagVec d),
     ht_scalars := set_scalar_data (m_scalars m) (ht_scalars d)\<rparr>"

definition restore_jagged :: "(int \<Rightarrow> bool list) \<Rightarrow> int \<Rightarrow> hru \<Rightarrow> hru_type \<Rightarrow> hru_type res" where
  "restore_jagged meta junk m d =
     (let set = set_var_dlength_by_indx meta in
      res_bind (set (forc_stat m) 1 (ht_dlength d)) (\<lambda>v1.
      res_bind (set (prog_stat m) 2 v1) (\<lambda>v2.
      res_bind (set (diag_stat m) 3 v2) (\<lambda>v3.
      res_bind (set (flux_stat m) 4 v3) (\<lambda>v4.
      res_bind (set (indx_stat m) 5 v4) (\<lambda>v5.
      res_bind (set (bvar_stat m) 6 v5) (\<lambda>v6.
      res_bind (set_var_ilength_by_indx junk (indx_struct m) 1 (ht_ilength d)) (\<lambda>il.
      res_bind (set (mpar_struct m) 7 v6) (\<lambda>v7.
      res_bind (set (prog_struct m) 8 v7) (\<lambda>v8.
      res_bind (set (diag_struct m) 9 v8) (\<lambda>v9.
      res_bind (set (flux_struct m) 10 v9) (\<lambda>v10.
      res_bind (set (bvar_struct m) 11 v10) (\<lambda>v11.
      Inr (d\<lparr>ht_ilength := il, ht_dlength := v11\<rparr>))))))))))))))"

definition deserializeHru ::
  "(int \<Rightarrow> bool list) \<Rightarrow> int \<Rightarrow> hru_scalars \<Rightarrow> hru \<Rightarrow> hru_state \<Rightarrow> (hru_state \<times> hru_effect list) res" where
  "deserializeHru meta junk junk_sc m s =
     (let t = m_tol m; d = new_handle_hru_type junk_sc
      in res_bind (restore_jagged meta junk m d) (\<lambda>d1.
           Inr (s\<lparr>h_hru_data := restore_vectors m d1,
             h_indx_hru := m_indx_hru m, h_indx_gru := m_indx_gru m, h_ref_gru := m_ref_gru m,
             h_timestep := m_timestep m, h_forcingStep := m_forcing_step m, h_num_steps := m_num_steps m,
             h_iFile := m_iFile m, h_dt_init_factor := m_dt_init_factor m, h_output_step := m_output_step m,
             h_beSteps := m_beSteps m,
             h_tol := \<lparr>t_rtol = t_rtol t, t_atol = t_atol t, rtol_temp_cas = rtol_temp_cas t,
               rtol_temp_veg = rtol_temp_veg t, rtol_wat_veg = rtol_wat_veg t, rtol_temp_soil_snow = rtol_temp_soil_snow t,
               rtol_wat_snow = rtol_wat_snow t, rtol_matric = rtol_matric t, rtol_aquifr = rtol_aquifr t,
               atol_temp_cas = atol_temp_cas t, atol_temp_veg = atol_temp_veg t, atol_wat_veg = atol_wat_veg t,
               atol_temp_soil_snow = atol_temp_soil_snow t, atol_wat_snow = atol_wat_snow t, atol_matric = atol_matric t,
               atol_aquifr = atol_aquifr t\<rparr>\<rparr>,
             [H_SetFinalizeStatsFalse (h_indx_gru s)])))"

text \<open>The handlers of \<^verbatim>\<open>serialize_hru\<close> and \<^verbatim>\<open>reinit_hru\<close>; \<open>m\<close> is the local variable
  \<^verbatim>\<open>serialized_state\<close> before it is assigned.\<close>

definition on_serialize_hru :: "hru \<Rightarrow> hru_state \<Rightarrow> (hru_state \<times> hru) res" where
  "on_serialize_hru m s = res_bind (serializeHru s m) (\<lambda>m'. Inr (s, m'))"

definition on_reinit_hru ::
  "(int \<Rightarrow> bool list) \<Rightarrow> int \<Rightarrow> hru_scalars \<Rightarrow> hru \<Rightarrow> hru_state \<Rightarrow> (hru_state \<times> hru_effect list) res" where
  "on_reinit_hru meta junk junk_sc m s =
     res_bind (deserializeHru meta junk junk_sc m s) (\<lambda>(s', es). Inr (s', es @ [H_Parent_Reinit]))"

subsection \<open>Inspection\<close>

text \<open>What \<^verbatim>\<open>inspect\<close> sends when the message leaves the node: each member under its
  name.\<close>

datatype field_value =
    Int_Field int
  | Real_Field real
  | Bool_Field bool
  | Int_Vector "int list"
  | Real_Vector "real list"
  | Ints_Field "int list list"
  | Reals_Field "real list list"

definition inspect_hru :: "hru \<Rightarrow> (string \<times> field_value) list" where
  "inspect_hru m =
     [(''indx_hru'', Int_Field (m_indx_hru m)),
      (''indx_gru'', Int_Field (m_indx_gru m)),
      (''ref_gru'', Int_Field (m_ref_gru m)),
      (''timestep'', Int_Field (m_timestep m)),
      (''forcing_step'', Int_Field (m_forcing_step m)),
      (''num_steps'', Int_Field (m_num_steps m)),
      (''iFile'', Int_Field (m_iFile m)),
      (''dt_init_factor'', Int_Field (m_dt_init_factor m)),
      (''output_structure_step_index'', Int_Field (m_output_step m)),
      (''beSteps'', Int_Field (m_beSteps m)),
      (''rtol'', Real_Field (t_rtol (m_tol m))),
      (''atol'', Real_Field (t_atol (m_tol m))),
      (''rtol_temp_cas'', Real_Field (rtol_temp_cas (m_tol m))),
      (''rtol_temp_veg'', Real_Field (rtol_temp_veg (m_tol m))),
      (''rtol_wat_veg'', Real_Field (rtol_wat_veg (m_tol m))),
      (''rtol_temp_soil_snow'', Real_Field (rtol_temp_soil_snow (m_tol m))),
      (''rtol_wat_snow'', Real_Field (rtol_wat_snow (m_tol m))),
      (''rtol_matric'', Real_Field (rtol_matric (m_tol m))),
      (''rtol_aquifr'', Real_Field (rtol_aquifr (m_tol m))),
      (''atol_temp_cas'', Real_Field (atol_temp_cas (m_tol m))),
      (''atol_temp_veg'', Real_Field (atol_temp_veg (m_tol m))),
      (''atol_wat_veg'', Real_Field (atol_wat_veg (m_tol m))),
      (''atol_temp_soil_snow'', Real_Field (atol_temp_soil_snow (m_tol m))),
      (''atol_wat_snow'', Real_Field (atol_wat_snow (m_tol m))),
      (''atol_matric'', Real_Field (atol_matric (m_tol m))),
      (''atol_aquifr'', Real_Field (atol_aquifr (m_tol m))),
      (''def_tol'', Bool_Field (def_tol m)),
      (''atolWat'', Real_Field (m_atolWat m)),
      (''atolNrg'', Real_Field (m_atolNrg m)),
      (''forc_stat'', Reals_Field (forc_stat m)),
      (''prog_stat'', Reals_Field (prog_stat m)),
      (''diag_stat'', Reals_Field (diag_stat m)),
      (''flux_stat'', Reals_Field (flux_stat m)),
      (''indx_stat'', Reals_Field (indx_stat m)),
      (''bvar_stat'', Reals_Field (bvar_stat m)),
      (''time_struct'', Int_Vector (time_struct m)),
      (''forc_struct'', Real_Vector (forc_struct m)),
      (''attr_struct'', Real_Vector (attr_struct m)),
      (''type_struct'', Int_Vector (type_struct m)),
      (''id_struct'', Int_Vector (id_struct m)),
      (''indx_struct'', Ints_Field (indx_struct m)),
      (''mpar_struct'', Reals_Field (mpar_struct m)),
      (''prog_struct'', Reals_Field (prog_struct m)),
      (''diag_struct'', Reals_Field (diag_struct m)),
      (''flux_struct'', Reals_Field (flux_struct m)),
      (''bpar_struct'', Real_Vector (bpar_struct m)),
      (''bvar_struct'', Reals_Field (bvar_struct m)),
      (''dpar_struct'', Real_Vector (dpar_struct m)),
      (''start_time'', Int_Vector (hm_start_time m)),
      (''end_time'', Int_Vector (hm_end_time m)),
      (''ref_time'', Int_Vector (hm_ref_time m)),
      (''old_time'', Int_Vector (hm_old_time m)),
      (''stat_counter'', Int_Vector (stat_counter m)),
      (''output_timestep'', Int_Vector (output_timestep m)),
      (''reset_stats'', Int_Vector (reset_stats m)),
      (''finalize_stats'', Int_Vector (finalize_stats m)),
      (''frac_jul_day'', Real_Field (fracJulDay (m_scalars m))),
      (''tm_zone_offset_frac_day'', Real_Field (tmZoneOffsetFracDay (m_scalars m))),
      (''year_length'', Int_Field (year_length (m_scalars m))),
      (''compute_veg_flux'', Int_Field (computeVegFlux (m_scalars m))),
      (''dt_init'', Real_Field (sc_dt_init (m_scalars m))),
      (''upArea'', Real_Field (upArea (m_scalars m)))]"

definition inspect_HRU :: "HRU \<Rightarrow> (string \<times> field_value) list" where
  "inspect_HRU m = inspect_hru m"

subsection \<open>Lemmas\<close>

lemma get_set_vectors [simp]:
  "get_var_i_by_indx (set_var_i_by_indx xs i hi) j = (if j = i then xs else get_var_i_by_indx hi j)"
  "get_var_d_by_indx (set_var_d_by_indx ys i hr) j = (if j = i then ys else get_var_d_by_indx hr j)"
  "hi i = None \<Longrightarrow> get_var_i8_by_indx (set_var_i8_by_indx xs i hi) i = xs"
  by (simp_all add: get_var_i_by_indx_def set_var_i_by_indx_def get_var_d_by_indx_def set_var_d_by_indx_def
      get_var_i8_by_indx_def set_var_i8_by_indx_def set_data_var_i8_by_indx_def set_data_vec_def get_size_vec_def
      get_data_vec_def Let_def)

definition as_flags :: "int list \<Rightarrow> int list" where
  "as_flags = map (\<lambda>x. if x = 0 then 0 else 1)"

lemma get_set_flags [simp]:
  "get_flagVec_by_indx (set_flagVec_by_indx xs i h) j = (if j = i then as_flags xs else get_flagVec_by_indx h j)"
  by (auto simp: get_flagVec_by_indx_def set_flagVec_by_indx_def set_data_vec_def get_size_vec_def get_data_vec_def
      nonzero_flags_def from_flags_def as_flags_def o_def Let_def)

lemma restore_vectors_get [simp]:
  "ht_dlength (restore_vectors m d) = ht_dlength d" "ht_ilength (restore_vectors m d) = ht_ilength d"
  "get_var_i_by_indx (ht_var_i (restore_vectors m d)) 1 = time_struct m"
  "get_var_i_by_indx (ht_var_i (restore_vectors m d)) 2 = type_struct m"
  "get_var_i_by_indx (ht_var_i (restore_vectors m d)) 3 = hm_start_time m"
  "get_var_i_by_indx (ht_var_i (restore_vectors m d)) 4 = hm_end_time m"
  "get_var_i_by_indx (ht_var_i (restore_vectors m d)) 5 = hm_ref_time m"
  "get_var_i_by_indx (ht_var_i (restore_vectors m d)) 6 = hm_old_time m"
  "get_var_i_by_indx (ht_var_i (restore_vectors m d)) 7 = stat_counter m"
  "get_var_i_by_indx (ht_var_i (restore_vectors m d)) 8 = output_timestep m"
  "get_var_d_by_indx (ht_var_d (restore_vectors m d)) 1 = forc_struct m"
  "get_var_d_by_indx (ht_var_d (restore_vectors m d)) 2 = attr_struct m"
  "get_var_d_by_indx (ht_var_d (restore_vectors m d)) 3 = bpar_struct m"
  "get_var_d_by_indx (ht_var_d (restore_vectors m d)) 4 = dpar_struct m"
  "ht_var_i8 d 1 = None \<Longrightarrow> get_var_i8_by_indx (ht_var_i8 (restore_vectors m d)) 1 = id_struct m"
  "get_flagVec_by_indx (ht_flagVec (restore_vectors m d)) 1 = as_flags (reset_stats m)"
  "get_flagVec_by_indx (ht_flagVec (restore_vectors m d)) 2 = as_flags (finalize_stats m)"
  by (simp_all add: restore_vectors_def)

text \<open>A fresh integer variable gets rows of the sizes of the message.\<close>

lemma fill_checked_fresh:
  "fill_rows fill_checked (map (\<lambda>m. int (length m)) mat) (concat mat) (alloc_rows junk (map (\<lambda>m. int (length m)) mat)) =
     Inr (map (\<lambda>m. \<lparr>f_lb = 1, f_dat = m\<rparr>) mat)"
proof (induction mat)
  case (Cons m mat)
  have "fill_checked m \<lparr>f_lb = 1, f_dat = replicate (length m) junk\<rparr> = Inr \<lparr>f_lb = 1, f_dat = m\<rparr>"
    by (simp add: fill_checked_def fill_row_def)
  with Cons show ?case by (simp add: alloc_rows_def)
qed (simp add: alloc_rows_def)

lemma ilength_round_trip:
  assumes "h i = None"
  shows "\<exists>v. set_var_ilength_by_indx junk mat i h = Inr v \<and> get_var_ilength_by_indx v i = Inr mat"
proof -
  let ?rows = "map (\<lambda>m. \<lparr>f_lb = 1, f_dat = m\<rparr>) mat"
  have "set_jagged fill_checked junk mat (h i) = Inr (Some ?rows)"
    using assms fill_checked_fresh [of mat junk]
    by (simp add: set_jagged_def flatten_loop_eq set_data_jagged_def ensure_rows_def)
  moreover have "get_jagged read_ilength_by_indx 0 (Some ?rows) = Inr (map f_dat ?rows)"
    using readers_read_all(5) by (intro get_jagged_all) auto
  ultimately show ?thesis
    by (simp add: set_var_ilength_by_indx_def get_var_ilength_by_indx_def o_def)
qed

text \<open>One structure of real variables after the other.\<close>

definition dlength_at :: "(int \<Rightarrow> real fvar) \<Rightarrow> int \<Rightarrow> real list list \<Rightarrow> bool" where
  "dlength_at v i out \<longleftrightarrow> get_var_dlength_by_indx v i = Inr out"

lemma dlength_step:
  assumes "length (meta i) = length mat" and "shifted (meta i) mat None = Some out"
  shows "\<exists>v. set_var_dlength_by_indx meta mat i h = Inr v \<and> dlength_at v i out \<and>
    (\<forall>j out'. j \<noteq> i \<and> dlength_at h j out' \<longrightarrow> dlength_at v j out')"
proof -
  from set_get_by_indx [of meta i mat h, OF assms(1)] assms(2) obtain v where
    v: "set_var_dlength_by_indx meta mat i h = Inr v" "get_var_dlength_by_indx v i = Inr out"
    by (auto simp: opt_res_def res_bind_Inr_iff)
  moreover have "v j = h j" if "j \<noteq> i" for j
    using v(1) that by (auto simp: set_var_dlength_by_indx_def res_bind_Inr_iff split: prod.splits)
  ultimately show ?thesis by (auto simp: dlength_at_def get_var_dlength_by_indx_def)
qed

text \<open>The real structures of a message in the order of their index, and the message
  with others in their place.\<close>

definition dlengths :: "hru \<Rightarrow> int \<Rightarrow> real list list" where
  "dlengths m i = [forc_stat m, prog_stat m, diag_stat m, flux_stat m, indx_stat m, bvar_stat m, mpar_struct m,
     prog_struct m, diag_struct m, flux_struct m, bvar_struct m] ! nat (i - 1)"

definition with_dlengths :: "(int \<Rightarrow> real list list) \<Rightarrow> hru \<Rightarrow> hru" where
  "with_dlengths f m = m\<lparr>forc_stat := f 1, prog_stat := f 2, diag_stat := f 3, flux_stat := f 4, indx_stat := f 5,
     bvar_stat := f 6, mpar_struct := f 7, prog_struct := f 8, diag_struct := f 9, flux_struct := f 10,
     bvar_struct := f 11\<rparr>"

lemma dlengths_simps [simp]:
  "dlengths m 1 = forc_stat m" "dlengths m 2 = prog_stat m" "dlengths m 3 = diag_stat m"
  "dlengths m 4 = flux_stat m" "dlengths m 5 = indx_stat m" "dlengths m 6 = bvar_stat m"
  "dlengths m 7 = mpar_struct m" "dlengths m 8 = prog_struct m" "dlengths m 9 = diag_struct m"
  "dlengths m 10 = flux_struct m" "dlengths m 11 = bvar_struct m"
  by (simp_all add: dlengths_def)

lemma with_dlengths_id: "(\<And>i. i \<in> {1 .. 11} \<Longrightarrow> f i = dlengths m i) \<Longrightarrow> with_dlengths f m = m"
  by (simp add: with_dlengths_def)

text \<open>Every member is sent.\<close>

lemma inspect_hru_injective: "inspect_hru m = inspect_hru m' \<Longrightarrow> m = m'"
  by (cases m; cases m') (auto simp: inspect_hru_def hru_tolerances.equality hru_scalars.equality)

lemma restore_jagged_var_i8: "restore_jagged meta junk m d = Inr d' \<Longrightarrow> ht_var_i8 d' = ht_var_i8 d"
  by (auto simp: restore_jagged_def Let_def res_bind_Inr_iff)

lemma restore_jagged_ok:
  assumes len: "\<And>i. i \<in> {1 .. 11} \<Longrightarrow> length (meta i) = length (dlengths m i)"
    and out: "\<And>i. i \<in> {1 .. 11} \<Longrightarrow> shifted (meta i) (dlengths m i) None = Some (out i)"
    and fresh: "ht_ilength d 1 = None"
  shows "\<exists>d'. restore_jagged meta junk m d = Inr d' \<and> get_var_ilength_by_indx (ht_ilength d') 1 = Inr (indx_struct m) \<and>
    (\<forall>i \<in> {1 .. 11}. dlength_at (ht_dlength d') i (out i))"
proof -
  define restored where "restored k v \<longleftrightarrow> (\<forall>i \<in> {1 .. k}. dlength_at v i (out i))" for k v
  have step: "\<exists>v'. set_var_dlength_by_indx meta (dlengths m k) k v = Inr v' \<and> restored k v'"
    if "restored (k - 1) v" "k \<in> {1 .. 11}" for k v
  proof -
    from dlength_step [of meta k, OF len [OF that(2)] out [OF that(2)], of v] obtain v' where
      v': "set_var_dlength_by_indx meta (dlengths m k) k v = Inr v'" "dlength_at v' k (out k)"
        "\<And>j out'. j \<noteq> k \<Longrightarrow> dlength_at v j out' \<Longrightarrow> dlength_at v' j out'" by blast
    have "dlength_at v' i (out i)" if "i \<in> {1 .. k}" for i
      using that v'(2,3) \<open>restored (k - 1) v\<close> by (cases "i = k") (auto simp: restored_def)
    with v'(1) show ?thesis by (auto simp: restored_def)
  qed
  obtain il where il: "set_var_ilength_by_indx junk (indx_struct m) 1 (ht_ilength d) = Inr il"
    "get_var_ilength_by_indx il 1 = Inr (indx_struct m)" using ilength_round_trip [of "ht_ilength d" 1, OF fresh] by blast
  have "restored 0 (ht_dlength d)" by (simp add: restored_def)
  then obtain v1 where v1: "set_var_dlength_by_indx meta (forc_stat m) 1 (ht_dlength d) = Inr v1" "restored 1 v1"
    using step [of 1 "(ht_dlength d)"] by auto
  obtain v2 where v2: "set_var_dlength_by_indx meta (prog_stat m) 2 v1 = Inr v2" "restored 2 v2"
    using step [of 2 "v1"] v1(2) by auto
  obtain v3 where v3: "set_var_dlength_by_indx meta (diag_stat m) 3 v2 = Inr v3" "restored 3 v3"
    using step [of 3 "v2"] v2(2) by auto
  obtain v4 where v4: "set_var_dlength_by_indx meta (flux_stat m) 4 v3 = Inr v4" "restored 4 v4"
    using step [of 4 "v3"] v3(2) by auto
  obtain v5 where v5: "set_var_dlength_by_indx meta (indx_stat m) 5 v4 = Inr v5" "restored 5 v5"
    using step [of 5 "v4"] v4(2) by auto
  obtain v6 where v6: "set_var_dlength_by_indx meta (bvar_stat m) 6 v5 = Inr v6" "restored 6 v6"
    using step [of 6 "v5"] v5(2) by auto
  obtain v7 where v7: "set_var_dlength_by_indx meta (mpar_struct m) 7 v6 = Inr v7" "restored 7 v7"
    using step [of 7 "v6"] v6(2) by auto
  obtain v8 where v8: "set_var_dlength_by_indx meta (prog_struct m) 8 v7 = Inr v8" "restored 8 v8"
    using step [of 8 "v7"] v7(2) by auto
  obtain v9 where v9: "set_var_dlength_by_indx meta (diag_struct m) 9 v8 = Inr v9" "restored 9 v9"
    using step [of 9 "v8"] v8(2) by auto
  obtain v10 where v10: "set_var_dlength_by_indx meta (flux_struct m) 10 v9 = Inr v10" "restored 10 v10"
    using step [of 10 "v9"] v9(2) by auto
  obtain v11 where v11: "set_var_dlength_by_indx meta (bvar_struct m) 11 v10 = Inr v11" "restored 11 v11"
    using step [of 11 "v10"] v10(2) by auto
  show ?thesis using il v11(2)
    by (simp add: restore_jagged_def Let_def v1(1) v2(1) v3(1) v4(1) v5(1) v6(1) v7(1) v8(1) v9(1) v10(1) v11(1)
        restored_def)
qed

subsection \<open>Properties\<close>

text \<open>What a message becomes on the way through a HRU; \<open>old\<close> is the variable the second
  message is written to.\<close>

definition through_hru :: "(int \<Rightarrow> real list list) \<Rightarrow> hru \<Rightarrow> hru \<Rightarrow> hru" where
  "through_hru out m old = (with_dlengths out m)\<lparr>reset_stats := as_flags (reset_stats m),
     finalize_stats := as_flags (finalize_stats m), m_scalars := m_scalars old, def_tol := def_tol old,
     m_atolWat := m_atolWat old, m_atolNrg := m_atolNrg old\<rparr>"

text \<open>
  C39. Moving a HRU.  A HRU rebuilt from a message sends, when asked for its state, the
  same message again, apart from this: the scalars, \<^verbatim>\<open>def_tol\<close>, \<^verbatim>\<open>atolWat\<close> and
  \<^verbatim>\<open>atolNrg\<close> are whatever the sender's local variable held, flags other than 0 become 1, and the
  variables of an interface type are shifted.  Without variables of such a type
  nothing else is lost; the old state of the HRU does not matter.
\<close>

theorem moved_hru_sends_same_message:
  assumes "\<And>i. i \<in> {1 .. 11} \<Longrightarrow> length (meta i) = length (dlengths m i)"
    and "\<And>i. i \<in> {1 .. 11} \<Longrightarrow> shifted (meta i) (dlengths m i) None = Some (out i)"
  shows "res_bind (on_reinit_hru meta junk junk_sc m s) (\<lambda>(s', es). res_bind (serializeHru s' old) (\<lambda>m'. Inr (es, m'))) =
      Inr ([H_SetFinalizeStatsFalse (h_indx_gru s), H_Parent_Reinit], through_hru out m old) \<and>
    ((\<forall>i \<in> {1 .. 11}. True \<notin> set (meta i)) \<longrightarrow> through_hru out m old = through_hru (dlengths m) m old)"
proof
  have "ht_ilength (new_handle_hru_type junk_sc) 1 = None" by (simp add: new_handle_hru_type_def)
  from restore_jagged_ok [OF assms this, of junk] obtain d where
    d: "restore_jagged meta junk m (new_handle_hru_type junk_sc) = Inr d"
      "get_var_ilength_by_indx (ht_ilength d) 1 = Inr (indx_struct m)"
      "\<And>i. i \<in> {1 .. 11} \<Longrightarrow> get_var_dlength_by_indx (ht_dlength d) i = Inr (out i)"
    unfolding dlength_at_def by blast
  have "ht_var_i8 d 1 = None" using restore_jagged_var_i8 [OF d(1)] by (simp add: new_handle_hru_type_def)
  then show "res_bind (on_reinit_hru meta junk junk_sc m s) (\<lambda>(s', es). res_bind (serializeHru s' old) (\<lambda>m'. Inr (es, m'))) =
      Inr ([H_SetFinalizeStatsFalse (h_indx_gru s), H_Parent_Reinit], through_hru out m old)"
    by (simp add: on_reinit_hru_def deserializeHru_def serializeHru_def d Let_def through_hru_def
        with_dlengths_def get_scalar_data_def)
next
  have "out i = dlengths m i" if "i \<in> {1 .. 11}" "True \<notin> set (meta i)" for i
    using assms(2) [OF that(1)] shifted_none [OF that(2) assms(1) [OF that(1)], of None] by simp
  then show "(\<forall>i \<in> {1 .. 11}. True \<notin> set (meta i)) \<longrightarrow> through_hru out m old = through_hru (dlengths m) m old"
    by (simp add: through_hru_def with_dlengths_def)
qed

definition demo_message :: hru where
  "demo_message = \<lparr>m_indx_hru = 1, m_indx_gru = 2, m_ref_gru = 7, m_timestep = 4, m_forcing_step = 4, m_num_steps = 9,
     m_iFile = 1, m_dt_init_factor = 1, m_output_step = 2, m_beSteps = 1, m_tol = hru_tolerances_default, def_tol = True,
     m_atolWat = 0, m_atolNrg = 0, forc_stat = [], prog_stat = [], diag_stat = [], flux_stat = [], indx_stat = [],
     bvar_stat = [], time_struct = [1], forc_struct = [], attr_struct = [], type_struct = [], id_struct = [5],
     indx_struct = [[1, 2], []], mpar_struct = [], prog_struct = [[1], [2, 3]], diag_struct = [], flux_struct = [],
     bpar_struct = [], bvar_struct = [], dpar_struct = [], hm_start_time = [], hm_end_time = [], hm_ref_time = [],
     hm_old_time = [], stat_counter = [], output_timestep = [], reset_stats = [2, 0], finalize_stats = [],
     m_scalars = \<lparr>fracJulDay = 0, tmZoneOffsetFracDay = 0, year_length = 365, computeVegFlux = 0, sc_dt_init = 0,
       upArea = 0\<rparr>\<rparr>"

text \<open>The second variable of the structure 8 is of an interface type.\<close>

lemma moved_hru_sends_same_message_witness:
  "\<exists>s' es m'. on_reinit_hru (\<lambda>i. if i = 8 then [False, True] else []) 0 (m_scalars demo_message) demo_message demo_hru =
     Inr (s', es) \<and> serializeHru s' demo_message = Inr m' \<and> prog_struct m' = [[1], [1, 2]] \<and> reset_stats m' = [1, 0]"
proof -
  let ?meta = "\<lambda>i :: int. if i = 8 then [False, True] else []"
    and ?out = "\<lambda>i :: int. if i = 8 then [[1], [1, 2 :: real]] else []"
  have "length (?meta i) = length (dlengths demo_message i)"
    "shifted (?meta i) (dlengths demo_message i) None = Some (?out i)" if "i \<in> {1 .. 11}" for i
  proof -
    have "i = 1 \<or> i = 2 \<or> i = 3 \<or> i = 4 \<or> i = 5 \<or> i = 6 \<or> i = 7 \<or> i = 8 \<or> i = 9 \<or> i = 10 \<or> i = 11"
      using that unfolding atLeastAtMost_iff by presburger
    then show "length (?meta i) = length (dlengths demo_message i)"
      "shifted (?meta i) (dlengths demo_message i) None = Some (?out i)" by (auto simp: demo_message_def)
  qed
  from moved_hru_sends_same_message [of ?meta demo_message ?out 0 "m_scalars demo_message" demo_hru demo_message, OF this]
  show ?thesis by (auto simp: res_bind_Inr_iff through_hru_def with_dlengths_def as_flags_def demo_message_def)
qed

end
