(* ===== verification/File_Manager.thy ===== *)
theory File_Manager
  imports Settings
begin

text \<open>
  The file manager (\<^verbatim>\<open>file_manager.hpp\<close>, \<^verbatim>\<open>file_manager.cpp\<close>): it reads the master file
  line by line and finds the number of GRUs in the attribute file.  The lines of the
  file (\<^const>\<open>None\<close> when it cannot be opened), the answers of the NetCDF library and of
  Fortran are arguments.
\<close>

record file_manager =
  file_manager_path_of :: string
  control_vrs :: string
  sim_start_tm :: string
  sim_end_tm :: string
  nc_time_zone :: string
  settings_path :: string
  forcing_path :: string
  output_path :: string
  state_path :: string
  m_decisions :: string
  output_control :: string
  localparam_info :: string
  basinparam_info :: string
  local_attributes :: string
  parameter_trial :: string
  vegparm :: string
  soilparm :: string
  genparm :: string
  mptable :: string
  forcing_filelist :: string
  model_initcond :: string
  output_prefix :: string

subsection \<open>Reading a line\<close>

definition quote :: char where "quote = CHR 0x27"

fun find_first_of :: "char \<Rightarrow> string \<Rightarrow> nat option" where
  "find_first_of c [] = None"
| "find_first_of c (x # xs) = (if x = c then Some 0 else map_option Suc (find_first_of c xs))"

fun find_last_of :: "char \<Rightarrow> string \<Rightarrow> nat option" where
  "find_last_of c [] = None"
| "find_last_of c (x # xs) =
     (case find_last_of c xs of
        Some i \<Rightarrow> Some (Suc i)
      | None \<Rightarrow> if x = c then Some 0 else None)"

definition extractEnclosed :: "string \<Rightarrow> string" where
  "extractEnclosed line =
     (case (find_first_of quote line, find_last_of quote line) of
        (Some first_quote, Some last_quote) \<Rightarrow>
          if first_quote < last_quote
          then take (last_quote - first_quote - 1) (drop (first_quote + 1) line) else []
      | _ \<Rightarrow> [])"

text \<open>\<^verbatim>\<open>line.compare(0, n, key) == 0\<close> compares the first \<open>n\<close> characters, fewer when the line
  is shorter.  A line that no test matches is only reported.\<close>

definition read_line :: "string \<Rightarrow> file_manager \<Rightarrow> file_manager" where
  "read_line line fm =
     (
      if take 14 line = ''controlVersion'' then fm\<lparr>control_vrs := extractEnclosed line\<rparr>
      else if take 12 line = ''simStartTime'' then fm\<lparr>sim_start_tm := extractEnclosed line\<rparr>
      else if take 10 line = ''simEndTime'' then fm\<lparr>sim_end_tm := extractEnclosed line\<rparr>
      else if take 10 line = ''tmZoneInfo'' then fm\<lparr>nc_time_zone := extractEnclosed line\<rparr>
      else if take 12 line = ''settingsPath'' then fm\<lparr>settings_path := extractEnclosed line\<rparr>
      else if take 11 line = ''forcingPath'' then fm\<lparr>forcing_path := extractEnclosed line\<rparr>
      else if take 10 line = ''outputPath'' then fm\<lparr>output_path := extractEnclosed line\<rparr>
      else if take 9 line = ''statePath'' then fm\<lparr>state_path := extractEnclosed line\<rparr>
      else if take 13 line = ''decisionsFile'' then fm\<lparr>m_decisions := extractEnclosed line\<rparr>
      else if take 17 line = ''outputControlFile'' then fm\<lparr>output_control := extractEnclosed line\<rparr>
      else if take 18 line = ''globalHruParamFile'' then fm\<lparr>localparam_info := extractEnclosed line\<rparr>
      else if take 18 line = ''globalGruParamFile'' then fm\<lparr>basinparam_info := extractEnclosed line\<rparr>
      else if take 13 line = ''attributeFile'' then fm\<lparr>local_attributes := extractEnclosed line\<rparr>
      else if take 14 line = ''trialParamFile'' then fm\<lparr>parameter_trial := extractEnclosed line\<rparr>
      else if take 12 line = ''vegTableFile'' then fm\<lparr>vegparm := extractEnclosed line\<rparr>
      else if take 13 line = ''soilTableFile'' then fm\<lparr>soilparm := extractEnclosed line\<rparr>
      else if take 16 line = ''generalTableFile'' then fm\<lparr>genparm := extractEnclosed line\<rparr>
      else if take 15 line = ''noahmpTableFile'' then fm\<lparr>mptable := extractEnclosed line\<rparr>
      else if take 15 line = ''forcingListFile'' then fm\<lparr>forcing_filelist := extractEnclosed line\<rparr>
      else if take 17 line = ''initConditionFile'' then fm\<lparr>model_initcond := extractEnclosed line\<rparr>
      else if take 13 line = ''outFilePrefix'' then fm\<lparr>output_prefix := extractEnclosed line\<rparr>
      else fm)"

definition FileManager :: "string \<Rightarrow> string list option \<Rightarrow> file_manager" where
  "FileManager path contents =
     (let fm = \<lparr>file_manager_path_of = path, control_vrs = [], sim_start_tm = [], sim_end_tm = [], nc_time_zone = [], settings_path = [],
      forcing_path = [], output_path = [], state_path = [], m_decisions = [], output_control = [],
      localparam_info = [], basinparam_info = [], local_attributes = [], parameter_trial = [], vegparm =
      [], soilparm = [], genparm = [], mptable = [], forcing_filelist = [], model_initcond = [],
      output_prefix = []\<rparr>
      in (case contents of None \<Rightarrow> fm | Some lines \<Rightarrow> fold read_line lines fm))"

text \<open>\<open>err\<close> and \<open>msg\<close> are what \<^verbatim>\<open>setTimesDirsAndFiles_fortran\<close> delivers.\<close>

definition setTimesDirsAndFiles :: "int \<Rightarrow> string \<Rightarrow> string" where
  "setTimesDirsAndFiles err msg = (if err \<noteq> 0 then msg else [])"

datatype nc_answer = Open_Failed | No_Gru_Dimension | No_Gru_Length | Gru_Length nat

text \<open>The \<^verbatim>\<open>size_t\<close> is returned as an \<^verbatim>\<open>int\<close>; the initial value -1 comes back as -1.\<close>

definition getFileGru :: "(string \<Rightarrow> nc_answer) \<Rightarrow> file_manager \<Rightarrow> int" where
  "getFileGru nc fm =
     (if local_attributes fm = [] \<or> settings_path fm = [] then - 1
      else (case nc (settings_path fm @ local_attributes fm) of
              Open_Failed \<Rightarrow> - 1
            | No_Gru_Dimension \<Rightarrow> - 1
            | No_Gru_Length \<Rightarrow> - 1
            | Gru_Length n \<Rightarrow> to_int32 (int n)))"

definition FileManager_toString :: "file_manager \<Rightarrow> string" where
  "FileManager_toString fm =
     ''Control Version: '' @ control_vrs fm @ newline @
     ''Simulation Start Time: '' @ sim_start_tm fm @ newline @
     ''Simulation End Time: '' @ sim_end_tm fm @ newline @
     ''Time Zone Info: '' @ nc_time_zone fm @ newline @
     ''Settings Path: '' @ settings_path fm @ newline @
     ''Forcing Path: '' @ forcing_path fm @ newline @
     ''Output Path: '' @ output_path fm @ newline @
     ''State Path: '' @ state_path fm @ newline @
     ''Decisions File: '' @ m_decisions fm @ newline @
     ''Output Control File: '' @ output_control fm @ newline @
     ''Global HRU Param File: '' @ localparam_info fm @ newline @
     ''Global GRU Param File: '' @ basinparam_info fm @ newline @
     ''Attribute File: '' @ local_attributes fm @ newline @
     ''Trial Param File: '' @ parameter_trial fm @ newline @
     ''Veg Table File: '' @ vegparm fm @ newline @
     ''Soil Table File: '' @ soilparm fm @ newline @
     ''General Table File: '' @ genparm fm @ newline @
     ''NoahMP Table File: '' @ mptable fm @ newline @
     ''Forcing List File: '' @ forcing_filelist fm @ newline @
     ''Init Condition File: '' @ model_initcond fm @ newline @
     ''Output File Prefix: '' @ output_prefix fm @ newline"

subsection \<open>What the file manager holds\<close>

text \<open>The keys and the members they set.\<close>

definition fm_names :: "string list" where
  "fm_names =
     [''controlVersion'',
      ''simStartTime'',
      ''simEndTime'',
      ''tmZoneInfo'',
      ''settingsPath'',
      ''forcingPath'',
      ''outputPath'',
      ''statePath'',
      ''decisionsFile'',
      ''outputControlFile'',
      ''globalHruParamFile'',
      ''globalGruParamFile'',
      ''attributeFile'',
      ''trialParamFile'',
      ''vegTableFile'',
      ''soilTableFile'',
      ''generalTableFile'',
      ''noahmpTableFile'',
      ''forcingListFile'',
      ''initConditionFile'',
      ''outFilePrefix'']"

definition fm_getters :: "(file_manager \<Rightarrow> string) list" where
  "fm_getters =
     [control_vrs, sim_start_tm, sim_end_tm, nc_time_zone, settings_path,
      forcing_path, output_path, state_path, m_decisions, output_control,
      localparam_info, basinparam_info, local_attributes, parameter_trial, vegparm,
      soilparm, genparm, mptable, forcing_filelist, model_initcond,
      output_prefix]"

definition has_key :: "string \<Rightarrow> string \<Rightarrow> bool" where
  "has_key key line \<longleftrightarrow> take (length key) line = key"

definition members :: "file_manager \<Rightarrow> string list" where
  "members fm = map (\<lambda>get. get fm) fm_getters"

lemma read_line_keys:
  "read_line (''controlVersion'' @ rest) fm = fm\<lparr>control_vrs := extractEnclosed (''controlVersion'' @ rest)\<rparr>"
  "read_line (''simStartTime'' @ rest) fm = fm\<lparr>sim_start_tm := extractEnclosed (''simStartTime'' @ rest)\<rparr>"
  "read_line (''simEndTime'' @ rest) fm = fm\<lparr>sim_end_tm := extractEnclosed (''simEndTime'' @ rest)\<rparr>"
  "read_line (''tmZoneInfo'' @ rest) fm = fm\<lparr>nc_time_zone := extractEnclosed (''tmZoneInfo'' @ rest)\<rparr>"
  "read_line (''settingsPath'' @ rest) fm = fm\<lparr>settings_path := extractEnclosed (''settingsPath'' @ rest)\<rparr>"
  "read_line (''forcingPath'' @ rest) fm = fm\<lparr>forcing_path := extractEnclosed (''forcingPath'' @ rest)\<rparr>"
  "read_line (''outputPath'' @ rest) fm = fm\<lparr>output_path := extractEnclosed (''outputPath'' @ rest)\<rparr>"
  "read_line (''statePath'' @ rest) fm = fm\<lparr>state_path := extractEnclosed (''statePath'' @ rest)\<rparr>"
  "read_line (''decisionsFile'' @ rest) fm = fm\<lparr>m_decisions := extractEnclosed (''decisionsFile'' @ rest)\<rparr>"
  "read_line (''outputControlFile'' @ rest) fm = fm\<lparr>output_control := extractEnclosed (''outputControlFile'' @ rest)\<rparr>"
  "read_line (''globalHruParamFile'' @ rest) fm = fm\<lparr>localparam_info := extractEnclosed (''globalHruParamFile'' @ rest)\<rparr>"
  "read_line (''globalGruParamFile'' @ rest) fm = fm\<lparr>basinparam_info := extractEnclosed (''globalGruParamFile'' @ rest)\<rparr>"
  "read_line (''attributeFile'' @ rest) fm = fm\<lparr>local_attributes := extractEnclosed (''attributeFile'' @ rest)\<rparr>"
  "read_line (''trialParamFile'' @ rest) fm = fm\<lparr>parameter_trial := extractEnclosed (''trialParamFile'' @ rest)\<rparr>"
  "read_line (''vegTableFile'' @ rest) fm = fm\<lparr>vegparm := extractEnclosed (''vegTableFile'' @ rest)\<rparr>"
  "read_line (''soilTableFile'' @ rest) fm = fm\<lparr>soilparm := extractEnclosed (''soilTableFile'' @ rest)\<rparr>"
  "read_line (''generalTableFile'' @ rest) fm = fm\<lparr>genparm := extractEnclosed (''generalTableFile'' @ rest)\<rparr>"
  "read_line (''noahmpTableFile'' @ rest) fm = fm\<lparr>mptable := extractEnclosed (''noahmpTableFile'' @ rest)\<rparr>"
  "read_line (''forcingListFile'' @ rest) fm = fm\<lparr>forcing_filelist := extractEnclosed (''forcingListFile'' @ rest)\<rparr>"
  "read_line (''initConditionFile'' @ rest) fm = fm\<lparr>model_initcond := extractEnclosed (''initConditionFile'' @ rest)\<rparr>"
  "read_line (''outFilePrefix'' @ rest) fm = fm\<lparr>output_prefix := extractEnclosed (''outFilePrefix'' @ rest)\<rparr>"
  by (simp_all add: read_line_def)

lemma members_update:
  "members (fm\<lparr>control_vrs := v\<rparr>) = (members fm)[0 := v]"
  "members (fm\<lparr>sim_start_tm := v\<rparr>) = (members fm)[1 := v]"
  "members (fm\<lparr>sim_end_tm := v\<rparr>) = (members fm)[2 := v]"
  "members (fm\<lparr>nc_time_zone := v\<rparr>) = (members fm)[3 := v]"
  "members (fm\<lparr>settings_path := v\<rparr>) = (members fm)[4 := v]"
  "members (fm\<lparr>forcing_path := v\<rparr>) = (members fm)[5 := v]"
  "members (fm\<lparr>output_path := v\<rparr>) = (members fm)[6 := v]"
  "members (fm\<lparr>state_path := v\<rparr>) = (members fm)[7 := v]"
  "members (fm\<lparr>m_decisions := v\<rparr>) = (members fm)[8 := v]"
  "members (fm\<lparr>output_control := v\<rparr>) = (members fm)[9 := v]"
  "members (fm\<lparr>localparam_info := v\<rparr>) = (members fm)[10 := v]"
  "members (fm\<lparr>basinparam_info := v\<rparr>) = (members fm)[11 := v]"
  "members (fm\<lparr>local_attributes := v\<rparr>) = (members fm)[12 := v]"
  "members (fm\<lparr>parameter_trial := v\<rparr>) = (members fm)[13 := v]"
  "members (fm\<lparr>vegparm := v\<rparr>) = (members fm)[14 := v]"
  "members (fm\<lparr>soilparm := v\<rparr>) = (members fm)[15 := v]"
  "members (fm\<lparr>genparm := v\<rparr>) = (members fm)[16 := v]"
  "members (fm\<lparr>mptable := v\<rparr>) = (members fm)[17 := v]"
  "members (fm\<lparr>forcing_filelist := v\<rparr>) = (members fm)[18 := v]"
  "members (fm\<lparr>model_initcond := v\<rparr>) = (members fm)[19 := v]"
  "members (fm\<lparr>output_prefix := v\<rparr>) = (members fm)[20 := v]"
  by (simp_all add: members_def fm_getters_def)

lemma has_key_append: "has_key key line \<longleftrightarrow> (\<exists>rest. line = key @ rest)"
  by (metis append_eq_conv_conj append_take_drop_id has_key_def)

lemma fm_lengths [simp]: "length fm_names = 21" "length (members fm) = 21" "length fm_getters = 21"
  by (simp_all add: fm_names_def members_def fm_getters_def)

lemma names_exclusive:
  "list_all (\<lambda>k. list_all (\<lambda>k'. has_key k k' \<longrightarrow> k = k') fm_names) fm_names" "distinct fm_names"
  by code_simp+

lemma one_key:
  assumes "i < 21" "j < 21" "has_key (fm_names ! i) line" "has_key (fm_names ! j) line"
  shows "i = j"
proof -
  have ex: "k = k'" if "k \<in> set fm_names" "k' \<in> set fm_names" "has_key k k'" for k k'
    using names_exclusive(1) that by (auto simp: list_all_iff)
  let ?k = "fm_names ! i" and ?k' = "fm_names ! j"
  have "has_key ?k ?k' \<or> has_key ?k' ?k"
    using assms(3,4) unfolding has_key_append by (metis append_eq_append_conv2)
  then have "?k = ?k'" using ex [of ?k ?k'] ex [of ?k' ?k] assms(1,2) by auto
  then show ?thesis using names_exclusive(2) assms(1,2) by (simp add: nth_eq_iff_index_eq)
qed

lemma key_lengths:
  "length ''controlVersion'' = 14" "length ''simStartTime'' = 12" "length ''simEndTime'' = 10" "length
  ''tmZoneInfo'' = 10" "length ''settingsPath'' = 12" "length ''forcingPath'' = 11" "length ''outputPath'' = 10"
  "length ''statePath'' = 9" "length ''decisionsFile'' = 13" "length ''outputControlFile'' = 17" "length
  ''globalHruParamFile'' = 18" "length ''globalGruParamFile'' = 18" "length ''attributeFile'' = 13" "length
  ''trialParamFile'' = 14" "length ''vegTableFile'' = 12" "length ''soilTableFile'' = 13" "length
  ''generalTableFile'' = 16" "length ''noahmpTableFile'' = 15" "length ''forcingListFile'' = 15" "length
  ''initConditionFile'' = 17" "length ''outFilePrefix'' = 13"
  by simp_all

lemma read_line_none:
  assumes "\<forall>j < 21. \<not> has_key (fm_names ! j) line"
  shows "read_line line fm = fm"
proof -
  have "\<forall>k \<in> set fm_names. take (length k) line \<noteq> k" using assms by (auto simp: in_set_conv_nth has_key_def)
  then show ?thesis
    unfolding read_line_def fm_names_def list.set ball_simps key_lengths by (simp only: if_False simp_thms)
qed

lemma fm_names_nth:
  "fm_names ! 0 = ''controlVersion''"
  "fm_names ! 1 = ''simStartTime''"
  "fm_names ! 2 = ''simEndTime''"
  "fm_names ! 3 = ''tmZoneInfo''"
  "fm_names ! 4 = ''settingsPath''"
  "fm_names ! 5 = ''forcingPath''"
  "fm_names ! 6 = ''outputPath''"
  "fm_names ! 7 = ''statePath''"
  "fm_names ! 8 = ''decisionsFile''"
  "fm_names ! 9 = ''outputControlFile''"
  "fm_names ! 10 = ''globalHruParamFile''"
  "fm_names ! 11 = ''globalGruParamFile''"
  "fm_names ! 12 = ''attributeFile''"
  "fm_names ! 13 = ''trialParamFile''"
  "fm_names ! 14 = ''vegTableFile''"
  "fm_names ! 15 = ''soilTableFile''"
  "fm_names ! 16 = ''generalTableFile''"
  "fm_names ! 17 = ''noahmpTableFile''"
  "fm_names ! 18 = ''forcingListFile''"
  "fm_names ! 19 = ''initConditionFile''"
  "fm_names ! 20 = ''outFilePrefix''"
  by (simp_all add: fm_names_def)

lemma read_line_key:
  assumes "j < 21"
  shows "members (read_line (fm_names ! j @ rest) fm) = (members fm)[j := extractEnclosed (fm_names ! j @ rest)]"
proof -
  have "j \<in> {0, 1, 2, 3, 4, 5, 6, 7, 8, 9, 10, 11, 12, 13, 14, 15, 16, 17, 18, 19, 20}"
    using assms unfolding insert_iff empty_iff by presburger
  then show ?thesis
    by (elim insertE emptyE; simp only: fm_names_nth read_line_keys members_update)
qed

lemma read_line_member:
  assumes "i < 21"
  shows "members (read_line line fm) ! i = (if has_key (fm_names ! i) line then extractEnclosed line else members fm ! i)"
proof (cases "\<exists>j < 21. has_key (fm_names ! j) line")
  case True
  then obtain j where j: "j < 21" "has_key (fm_names ! j) line" by blast
  then obtain rest where rest: "line = fm_names ! j @ rest" unfolding has_key_append by blast
  have upd: "members (read_line line fm) = (members fm)[j := extractEnclosed line]"
    unfolding rest by (rule read_line_key [OF j(1)])
  show ?thesis
  proof (cases "i = j")
    case True
    have "j < length (members fm)" using j(1) by simp
    then show ?thesis unfolding upd True using j(2) by (simp only: nth_list_update_eq if_True)
  next
    case False
    then have "\<not> has_key (fm_names ! i) line" using one_key [OF assms j(1) _ j(2)] by blast
    with False show ?thesis unfolding upd by (simp only: nth_list_update_neq if_False)
  qed
next
  case False
  with assms read_line_none show ?thesis by auto
qed

lemma fold_member:
  "i < 21 \<Longrightarrow> members (fold read_line ls fm) ! i =
     (case filter (has_key (fm_names ! i)) ls of [] \<Rightarrow> members fm ! i | m # ms \<Rightarrow> extractEnclosed (last (m # ms)))"
proof (induction ls arbitrary: fm)
  case (Cons l ls)
  then show ?case by (auto simp: read_line_member split: list.splits)
qed simp

lemma FileManager_lines: "FileManager path (Some ls) = fold read_line ls (FileManager path None)"
  by (simp add: FileManager_def)

lemma members_empty: "members (FileManager path None) = replicate 21 []"
  by (simp add: members_def fm_getters_def FileManager_def numeral_eq_Suc)

subsection \<open>Quoted values\<close>

lemma find_first_quote: "c \<notin> set pre \<Longrightarrow> find_first_of c (pre @ c # xs) = Some (length pre)"
  by (induction pre) auto

lemma find_last_none: "c \<notin> set xs \<Longrightarrow> find_last_of c xs = None"
  by (induction xs) auto

lemma find_last_quote: "c \<notin> set post \<Longrightarrow> find_last_of c (xs @ c # post) = Some (length xs)"
  by (induction xs) (auto simp: find_last_none)

lemma extract_quoted:
  assumes "quote \<notin> set pre" and "quote \<notin> set post"
  shows "extractEnclosed (pre @ quote # v @ quote # post) = v"
proof -
  have "find_first_of quote (pre @ quote # v @ quote # post) = Some (length pre)"
    using assms(1) by (rule find_first_quote)
  moreover have "find_last_of quote (pre @ quote # v @ quote # post) = Some (length pre + length v + 1)"
    using find_last_quote [OF assms(2), of "pre @ quote # v"] by simp
  ultimately show ?thesis by (simp add: extractEnclosed_def)
qed

lemma extract_unquoted: "quote \<notin> set line \<Longrightarrow> extractEnclosed line = []"
  by (simp add: extractEnclosed_def find_last_none split: option.splits)

subsection \<open>Properties\<close>

text \<open>
  C37. What the file manager reads.  Each of its 21 members holds the text between
  the first and the last quote of the last line that starts with the member's key,
  and is empty when there is no such line or no such file; a value in quotes comes
  back unchanged whatever it contains, as long as there is no quote before or behind
  it, and a line without quotes gives the empty string.
\<close>

theorem FileManager_reads:
  assumes "i < length fm_names"
  shows "members (FileManager path contents) ! i =
      (case filter (has_key (fm_names ! i)) (case contents of None \<Rightarrow> [] | Some ls \<Rightarrow> ls) of
         [] \<Rightarrow> [] | m # ms \<Rightarrow> extractEnclosed (last (m # ms))) \<and>
    (quote \<notin> set pre \<and> quote \<notin> set post \<longrightarrow> extractEnclosed (pre @ quote # v @ quote # post) = v) \<and>
    (quote \<notin> set line \<longrightarrow> extractEnclosed line = [])"
proof -
  have i: "i < 21" using assms by simp
  then have none: "members (FileManager path None) ! i = []" by (simp add: members_empty)
  have "members (FileManager path contents) ! i =
      (case filter (has_key (fm_names ! i)) (case contents of None \<Rightarrow> [] | Some ls \<Rightarrow> ls) of
         [] \<Rightarrow> [] | m # ms \<Rightarrow> extractEnclosed (last (m # ms)))"
    using none fold_member [OF i, of _ "FileManager path None"] 
    by (cases contents) (simp_all add: FileManager_lines split: list.splits)
  with extract_quoted extract_unquoted show ?thesis by blast
qed

lemma FileManager_reads_witness:
  "settings_path (FileManager ''fm'' (Some [''settingsPath '' @ [quote] @ ''./a/'' @ [quote] @ '' ! dir''])) = ''./a/''"
proof -
  let ?l = "''settingsPath '' @ [quote] @ ''./a/'' @ [quote] @ '' ! dir''"
  have "has_key (fm_names ! 4) ?l" unfolding fm_names_nth has_key_append by simp
  moreover have "settings_path fm = members fm ! 4" for fm by (simp add: members_def fm_getters_def)
  moreover have "quote \<notin> set ''settingsPath ''" "quote \<notin> set '' ! dir''" by (simp_all add: quote_def)
  ultimately show ?thesis
    using FileManager_reads [of 4 "''fm''" "Some [?l]" "''settingsPath ''" "'' ! dir''" "''./a/''" "[]"] by simp
qed

end
