(* ===== verification/Logger.thy ===== *)
theory Logger
  imports Settings
begin

text \<open>
  The log files (\<^verbatim>\<open>logger.hpp\<close>, \<^verbatim>\<open>logger.cpp\<close>).  What an operation writes is an effect; the
  text of a number is the stream's, so a row of a table is a list of cells.  The
  flag that enables logging is not initialised for a non-empty name: its value is
  then an argument.
\<close>

datatype cell = Cell_Int int | Cell_Real real | Cell_Bool bool | Cell_Text string

datatype log_effect =
    Create_File string string             \<comment> \<open>file, first lines\<close>
  | Append_Line string string
  | Append_Cells string "cell list"

subsection \<open>Logger\<close>

record logger =
  log_file_of :: string
  enable_logging_of :: bool

definition Logger_new :: "bool \<Rightarrow> string \<Rightarrow> logger \<times> log_effect list" where
  "Logger_new indeterminate name =
     (if name = [] then (\<lparr>log_file_of = [], enable_logging_of = False\<rparr>, [])
      else let file = name @ ''.log''
           in (\<lparr>log_file_of = file, enable_logging_of = indeterminate\<rparr>,
               [Create_File file (''####### '' @ file @ '' Start #######'' @ newline @ newline)]))"

definition log_message :: "string \<Rightarrow> logger \<Rightarrow> log_effect list" where
  "log_message message l = (if \<not> enable_logging_of l then [] else [Append_Line (log_file_of l) message])"

subsection \<open>Tables of failures and successes\<close>

record attempt_logger =
  al_log_file :: string
  al_log_dir :: string
  attempt :: int
  al_enable :: bool

definition tolerance_columns :: "string list" where
  "tolerance_columns =
     [''rel_tol'', ''abs_tol'', ''rel_tol_temp_cas'', ''rel_tol_temp_veg'', ''rel_tol_wat_veg'',
      ''rel_tol_temp_soil_snow'', ''rel_tol_wat_snow'', ''rel_tol_matric'', ''rel_tol_aquifr'',
      ''abs_tol_temp_cas'', ''abs_tol_temp_veg'', ''abs_tol_wat_veg'', ''abs_tol_temp_soil_snow'',
      ''abs_tol_wat_snow'', ''abs_tol_matric'', ''abs_tol_aquifr'', ''default_tol'']"

definition error_columns :: "string list" where
  "error_columns = [''ref_gru'', ''indx_gru'', ''timestep''] @ tolerance_columns @ [''err_code'', ''err_msg'']"

definition success_columns :: "string list" where
  "success_columns = [''ref_gru'', ''indx_gru''] @ tolerance_columns"

fun join_comma :: "string list \<Rightarrow> string" where
  "join_comma [] = []"
| "join_comma [x] = x"
| "join_comma (x # y # xs) = x @ '','' @ join_comma (y # xs)"

definition attempt_file :: "string \<Rightarrow> string \<Rightarrow> int \<Rightarrow> string" where
  "attempt_file dir stem n = dir @ stem @ to_string n @ ''.csv''"

definition attempt_logger_new ::
  "string \<Rightarrow> string list \<Rightarrow> bool \<Rightarrow> string \<Rightarrow> attempt_logger \<times> log_effect list" where
  "attempt_logger_new stem cols indeterminate dir =
     (if dir = [] then (\<lparr>al_log_file = [], al_log_dir = [], attempt = 1, al_enable = False\<rparr>, [])
      else let file = attempt_file dir stem 1
           in (\<lparr>al_log_file = file, al_log_dir = dir, attempt = 1, al_enable = indeterminate\<rparr>,
               [Create_File file (join_comma cols @ newline)]))"

definition next_attempt :: "string \<Rightarrow> string list \<Rightarrow> attempt_logger \<Rightarrow> attempt_logger \<times> log_effect list" where
  "next_attempt stem cols l =
     (if \<not> al_enable l then (l, [])
      else let n = attempt l + 1; file = attempt_file (al_log_dir l) stem n
           in (l\<lparr>attempt := n, al_log_file := file\<rparr>, [Create_File file (join_comma cols @ newline)]))"

definition ErrorLogger :: "bool \<Rightarrow> string \<Rightarrow> attempt_logger \<times> log_effect list" where
  "ErrorLogger indeterminate dir = attempt_logger_new ''failures_attempt_'' error_columns indeterminate dir"

text \<open>\<open>tols\<close> are the sixteen tolerances in the order of the parameters.\<close>

definition logError ::
  "int \<Rightarrow> int \<Rightarrow> int \<Rightarrow> real list \<Rightarrow> bool \<Rightarrow> int \<Rightarrow> string \<Rightarrow> attempt_logger \<Rightarrow> log_effect list" where
  "logError ref_gru indx_gru timestep tols default_tol err_code message l =
     (if \<not> al_enable l then []
      else [Append_Cells (al_log_file l)
              ([Cell_Int ref_gru, Cell_Int indx_gru, Cell_Int timestep] @ map Cell_Real tols @
               [Cell_Bool default_tol, Cell_Int err_code, Cell_Text message])])"

definition ErrorLogger_nextAttempt :: "attempt_logger \<Rightarrow> attempt_logger \<times> log_effect list" where
  "ErrorLogger_nextAttempt l = next_attempt ''failures_attempt_'' error_columns l"

definition SuccessLogger :: "bool \<Rightarrow> string \<Rightarrow> attempt_logger \<times> log_effect list" where
  "SuccessLogger indeterminate dir = attempt_logger_new ''successes_attempt_'' success_columns indeterminate dir"

definition logSuccess :: "int \<Rightarrow> int \<Rightarrow> real list \<Rightarrow> bool \<Rightarrow> attempt_logger \<Rightarrow> log_effect list" where
  "logSuccess ref_gru indx_gru tols default_tol l =
     (if \<not> al_enable l then []
      else [Append_Cells (al_log_file l)
              ([Cell_Int ref_gru, Cell_Int indx_gru] @ map Cell_Real tols @ [Cell_Bool default_tol])])"

definition SuccessLogger_nextAttempt :: "attempt_logger \<Rightarrow> attempt_logger \<times> log_effect list" where
  "SuccessLogger_nextAttempt l = next_attempt ''successes_attempt_'' success_columns l"

subsection \<open>Every row fits its header\<close>

lemma logged_rows_fit:
  assumes "length tols = 16"
  shows "Append_Cells f cs \<in> set (logError r i t tols d e m l) \<Longrightarrow> length cs = length error_columns \<and> f = al_log_file l"
    and "Append_Cells f cs \<in> set (logSuccess r i tols d l) \<Longrightarrow> length cs = length success_columns \<and> f = al_log_file l"
  using assms
  by (auto simp: logError_def logSuccess_def error_columns_def success_columns_def tolerance_columns_def split: if_splits)

text \<open>Every attempt has a file of its own, and a logger without a directory stays silent.\<close>

lemma attempts_numbered:
  assumes "al_enable l" and "al_log_file l = attempt_file (al_log_dir l) stem (attempt l)"
  shows "case next_attempt stem cols l of (l', es) \<Rightarrow>
    attempt l' = attempt l + 1 \<and> al_enable l' \<and> al_log_dir l' = al_log_dir l \<and>
    al_log_file l' = attempt_file (al_log_dir l') stem (attempt l') \<and>
    es = [Create_File (al_log_file l') (join_comma cols @ newline)]"
  using assms by (simp add: next_attempt_def Let_def)

lemma silent_logger:
  "(\<forall>e. logError r i t tols d e m (fst (ErrorLogger b [])) = []) \<and> logSuccess r i tols d (fst (SuccessLogger b [])) = [] \<and>
   ErrorLogger_nextAttempt (fst (ErrorLogger b [])) = (fst (ErrorLogger b []), [])"
  by (simp add: logError_def logSuccess_def ErrorLogger_def SuccessLogger_def attempt_logger_new_def
      ErrorLogger_nextAttempt_def next_attempt_def)

end
