(* ===== verification/Program_Entry.thy ===== *)
theory Program_Entry
  imports Settings
begin

text \<open>
  The entry of the program (\<^verbatim>\<open>main.cpp\<close>): the command line is rewritten for the actor
  framework's option parser, the settings are read and the first actor is chosen.
  Which files exist and what the configuration file holds are arguments; parsing the
  options and running the actor system are the framework's.
\<close>

subsection \<open>Command line\<close>

record config =
  startGRU :: int
  countGRU :: int
  master_file :: string
  config_file :: string
  cfg_host :: string
  output_file_suffix_of :: string
  generate_config :: bool
  backup_server :: bool
  server_mode :: bool
  help_flag :: bool
  cfg_restart :: string

definition config_default :: config where
  "config_default = \<lparr>startGRU = - 1, countGRU = - 1, master_file = [], config_file = [], cfg_host = [],
     output_file_suffix_of = [], generate_config = False, backup_server = False, server_mode = False,
     help_flag = False, cfg_restart = ''never''\<rparr>"

datatype 'a args_result = Args 'a | Print_Help | No_Count_Error

text \<open>\<^verbatim>\<open>std::isdigit(arg.front())\<close>; the first character of an empty argument is undefined.\<close>

definition starts_with_digit :: "string \<Rightarrow> bool res" where
  "starts_with_digit arg =
     (case arg of [] \<Rightarrow> Inl Out_Of_Range | c # cs \<Rightarrow> Inr (48 \<le> (of_char c :: nat) \<and> (of_char c :: nat) \<le> 57))"

text \<open>\<^verbatim>\<open>std::find_if\<close> with the insertion behind what it finds.\<close>

fun insert_after_digit :: "string list \<Rightarrow> string list option res" where
  "insert_after_digit [] = Inr None"
| "insert_after_digit (a # args) =
     res_bind (starts_with_digit a) (\<lambda>d.
       if d then Inr (Some (a # ''-t'' # args))
       else res_bind (insert_after_digit args) (\<lambda>r. Inr (map_option ((#) a) r)))"

text \<open>The loop over the arguments, which ends at the first \<^verbatim>\<open>-g\<close> that is not the last
  argument.\<close>

fun rewrite_args :: "string list \<Rightarrow> string list args_result res" where
  "rewrite_args [] = Inr (Args [])"
| "rewrite_args (a # args) =
     (if a = ''-g'' \<and> args \<noteq> []
      then res_bind (insert_after_digit args) (\<lambda>r.
             Inr (case r of None \<Rightarrow> No_Count_Error | Some args' \<Rightarrow> Args (a # args')))
      else if a = ''-h'' \<or> a = ''--help'' then Inr Print_Help
      else res_bind (rewrite_args args) (\<lambda>r.
             Inr (case r of Args args' \<Rightarrow> Args (a # args') | Print_Help \<Rightarrow> Print_Help
                  | No_Count_Error \<Rightarrow> No_Count_Error)))"

subsection \<open>The first actor\<close>

datatype first_actor =
    Generate_Config
  | Exit_No_Files
  | Spawn_Server settings bool
  | Spawn_Client settings string
  | Spawn_DA_Server int int settings
  | Spawn_DA_Client string settings
  | Spawn_Summa int int settings string

definition override_settings :: "config \<Rightarrow> settings \<Rightarrow> settings" where
  "override_settings cfg st =
     (let st1 = (if master_file cfg \<noteq> []
                 then st\<lparr>job_actor_settings := (job_actor_settings st)\<lparr>file_manager_path := master_file cfg\<rparr>\<rparr>
                 else st)
      in if output_file_suffix_of cfg \<noteq> []
         then st1\<lparr>fa_actor_settings := (fa_actor_settings st1)\<lparr>output_file_suffix := output_file_suffix_of cfg\<rparr>\<rparr>
         else st1)"

definition choose_actor :: "config \<Rightarrow> settings \<Rightarrow> first_actor" where
  "choose_actor cfg st =
     (let dist = distributed_mode (distributed_settings st);
          da = data_assimilation_mode (job_actor_settings st)
      in if dist \<and> \<not> da
         then (if server_mode cfg then Spawn_Server st (backup_server cfg) else Spawn_Client st (cfg_restart cfg))
         else if dist \<and> da
         then (if server_mode cfg then Spawn_DA_Server (startGRU cfg) (countGRU cfg) st
               else Spawn_DA_Client (cfg_host cfg) st)
         else Spawn_Summa (startGRU cfg) (countGRU cfg) st (cfg_restart cfg))"

text \<open>\<open>exists\<close> tells which files can be opened, \<open>inp\<close> is the configuration file.\<close>

definition caf_main :: "(string \<Rightarrow> bool) \<Rightarrow> settings_input \<Rightarrow> config \<Rightarrow> first_actor res" where
  "caf_main exists inp cfg =
     (let st = Settings_new (config_file cfg)
      in if generate_config cfg then Inr Generate_Config
         else if \<not> exists (master_file cfg) \<and> \<not> exists (config_file cfg) then Inr Exit_No_Files
         else res_bind (readSettings inp st) (\<lambda>st1. Inr (choose_actor cfg (override_settings cfg st1))))"

subsection \<open>What the entry does\<close>

text \<open>The rewriting only inserts the option for the count, behind the first argument with
  a digit after \<^verbatim>\<open>-g\<close>.\<close>

lemma insert_after_digit_shape:
  "insert_after_digit args = Inr (Some args') \<Longrightarrow>
   \<exists>xs d ys. args = xs @ d # ys \<and> args' = xs @ d # ''-t'' # ys \<and> starts_with_digit d = Inr True \<and>
     (\<forall>x \<in> set xs. starts_with_digit x = Inr False)"
proof (induction args arbitrary: args')
  case (Cons a args)
  show ?case
  proof (cases "starts_with_digit a = Inr True")
    case True
    with Cons.prems show ?thesis by (intro exI [of _ "[]"] exI [of _ a] exI [of _ args]) simp
  next
    case False
    with Cons.prems obtain r where r: "starts_with_digit a = Inr False" "insert_after_digit args = Inr (Some r)"
      "args' = a # r" by (auto simp: res_simps split: if_splits)
    from Cons.IH [OF r(2)] obtain xs d ys where "args = xs @ d # ys" "r = xs @ d # ''-t'' # ys"
      "starts_with_digit d = Inr True" "\<forall>x \<in> set xs. starts_with_digit x = Inr False" by blast
    with r(1,3) show ?thesis by (intro exI [of _ "a # xs"] exI [of _ d] exI [of _ ys]) simp
  qed
qed simp

lemma rewrite_args_shape:
  assumes "rewrite_args args = Inr (Args args')"
  shows "args' = args \<or> (\<exists>us ys. args = us @ ys \<and> ''-g'' \<in> set us \<and> args' = us @ ''-t'' # ys)"
  using assms
proof (induction args arbitrary: args')
  case (Cons a args)
  show ?case
  proof (cases "a = ''-g'' \<and> args \<noteq> []")
    case True
    with Cons.prems obtain r where r: "insert_after_digit args = Inr (Some r)" "args' = a # r"
      by (auto simp: res_simps split: option.splits)
    from insert_after_digit_shape [OF r(1)] obtain xs d ys where "args = xs @ d # ys" "r = xs @ d # ''-t'' # ys"
      by blast
    with True r(2) have "a # args = (a # xs @ [d]) @ ys" "''-g'' \<in> set (a # xs @ [d])"
      "args' = (a # xs @ [d]) @ ''-t'' # ys" by auto
    then show ?thesis by blast
  next
    case False
    with Cons.prems have "a \<noteq> ''-h''" "a \<noteq> ''--help''" by (auto split: if_splits)
    with False Cons.prems obtain x where x: "rewrite_args args = Inr x"
      "(case x of Args args' \<Rightarrow> Args (a # args') | Print_Help \<Rightarrow> Print_Help | No_Count_Error \<Rightarrow> No_Count_Error) = Args args'"
      by (cases "rewrite_args args") auto
    then obtain r where r: "rewrite_args args = Inr (Args r)" "args' = a # r" by (cases x) auto
    from Cons.IH [OF r(1)] show ?thesis
    proof
      assume "r = args"
      with r(2) show ?thesis by simp
    next
      assume "\<exists>us ys. args = us @ ys \<and> ''-g'' \<in> set us \<and> r = us @ ''-t'' # ys"
      then obtain us ys where "args = us @ ys" "''-g'' \<in> set us" "r = us @ ''-t'' # ys" by blast
      with r(2) have "a # args = (a # us) @ ys" "''-g'' \<in> set (a # us)" "args' = (a # us) @ ''-t'' # ys" by auto
      then show ?thesis by blast
    qed
  qed
qed simp

text \<open>Without a configuration file, or with one that does not set the distributed mode, the
  program runs on one node.\<close>

lemma caf_main_single_node:
  assumes "caf_main exists inp cfg = Inr a" and "readSettings inp (Settings_new (config_file cfg)) = Inr st"
    and "\<not> distributed_mode (distributed_settings st)" and "\<not> generate_config cfg"
    and "exists (master_file cfg) \<or> exists (config_file cfg)"
  shows "\<exists>st'. a = Spawn_Summa (startGRU cfg) (countGRU cfg) st' (cfg_restart cfg)"
  using assms by (auto simp: caf_main_def choose_actor_def override_settings_def Let_def split: if_splits)

end
