(* ===== verification/Spec2Isabelle.thy ===== *)
theory Spec2Isabelle
  imports Batches Settings Clients Backup_Server Summa_Client Summa_Actor Job_Completes Job_DA Output_Container
    File_Access_Actor Gru_Simulation DA_Lockstep Hru_Serialization File_Manager Logger Program_Entry
begin

text \<open>
  \<^bold>\<open>SUMMA-Actors\<close>

  SUMMA-Actors runs a hydrological model over many independent units (GRUs) as a
  system of actors.  The C++ code under \<^verbatim>\<open>src/build\<close> schedules, retries and writes; the
  physics is Fortran.  This development models the C++ code component by component and
  proves what the components promise, alone and composed.  Sources are named relative
  to \<^verbatim>\<open>src/build/source\<close> and \<^verbatim>\<open>src/build/includes\<close>.

  \<^bold>\<open>The program's parts and their theories\<close>

  \<^item> Entry.  \<open>Program_Entry\<close> (\<^verbatim>\<open>main.cpp\<close>): rewriting of the command line and choice of the
    first actor.  \<open>Settings\<close> (\<^verbatim>\<open>settings_functions\<close>): the settings records, their JSON reader
    and the generated configuration.  \<open>File_Manager\<close> (\<^verbatim>\<open>file_manager\<close>): the master file.
    \<open>Logger\<close> (\<^verbatim>\<open>logger\<close>), \<open>Timing_Info\<close> (\<^verbatim>\<open>timing_info\<close>).
  \<^item> Batches of GRUs.  \<open>Batches\<close> (\<^verbatim>\<open>batch\<close>, \<^verbatim>\<open>batch_container\<close>): cutting the range into batches
    and handing them out.  \<open>Summa_Actor\<close> (\<^verbatim>\<open>summa_actor\<close>, \<^verbatim>\<open>summa_global_data\<close>): one job
    actor per batch on one node.
  \<^item> Distributed mode.  \<open>Clients\<close> (\<^verbatim>\<open>client\<close>, \<^verbatim>\<open>client_container\<close>), \<open>Server_Messages\<close> and
    \<open>Summa_Server\<close> (\<^verbatim>\<open>summa_server\<close>): the lead server; \<open>Dispatch\<close>: the abstract dispatcher;
    \<open>Server_Refinement\<close>: the lead server implements it; \<open>Backup_Server\<close>
    (\<^verbatim>\<open>summa_backup_server\<close>): the servers that replicate the lead; \<open>Summa_Client\<close>
    (\<^verbatim>\<open>summa_client\<close>): the client.
  \<^item> A job.  \<open>Gru_Struc\<close> (\<^verbatim>\<open>gru_struc\<close>), \<open>Tolerances\<close> (the tightening of the solver
    tolerances in \<^verbatim>\<open>job_actor.cpp\<close>), \<open>Job_Actor\<close> (\<^verbatim>\<open>job_actor\<close>): state and handlers;
    \<open>Job_Async\<close>: runs of the asynchronous mode; \<open>Job_DA\<close>: runs of the data assimilation
    mode and spawning in batches.
  \<^item> A whole job in asynchronous mode.  \<open>Job_System\<close>: the job actor, the file access actor and
    the GRU actors with their mailboxes, and the step relation; \<open>Job_Rounds\<close> (GRUs),
    \<open>Job_Files\<close> (partitions): facts on the operations; \<open>Job_Places\<close>: where a GRU stands
    between two messages; \<open>Job_Moves\<close>, \<open>Job_Accounts\<close>, \<open>Job_File_Steps\<close>, \<open>Job_Invariant\<close>,
    \<open>Job_Decisions\<close>: the steps of a GRU, of the file access actor and of the job actor;
    \<open>Job_Fleet\<close>: the invariant of all together; \<open>Job_Completes\<close>: initialisation, absence of
    errors, progress and termination.
  \<^item> GRUs.  \<open>Gru_Actor\<close> (\<^verbatim>\<open>gru_actor\<close>, \<^verbatim>\<open>gru_batch_actor\<close>), \<open>Gru_Simulation\<close>: a GRU with the
    file access actor it talks to.  \<open>Hru_Actor\<close> (\<^verbatim>\<open>hru_actor\<close>): the actor the GRU actor replaced,
    \<open>Hru_Serialization\<close> (\<^verbatim>\<open>hru_utils\<close>): moving it to another node.
  \<^item> Files.  \<open>Forcing_Files\<close> (\<^verbatim>\<open>forcing_file_info\<close>), \<open>Output_Buffer\<close> (\<^verbatim>\<open>output_buffer\<close>),
    \<open>Output_Container\<close> (\<^verbatim>\<open>output_container\<close>), \<open>File_Access_Actor\<close> (\<^verbatim>\<open>file_access_actor\<close>),
    \<open>Data_Transfer\<close> (\<^verbatim>\<open>auxiliary.cpp\<close> with the routines of \<^verbatim>\<open>cppwrap_datatypes.f90\<close> it calls).
  \<^item> Distributed data assimilation.  \<open>DA_Client\<close> (\<^verbatim>\<open>da_client_actor\<close>), \<open>DA_Server\<close>
    (\<^verbatim>\<open>da_server_actor\<close>), \<open>DA_System\<close>: the network of both, with processes that exit; \<open>DA_Runs\<close>: its runs to
    the end; \<open>DA_Lockstep\<close>: the actors meet the contract the network relies on.

  \<open>Prelude\<close> holds what they share, \<open>Runs\<close> the contract of a system with a rank.

  \<^bold>\<open>How code is modelled\<close>

  A class is a record with the members as fields, an operation a function on the record;
  a message is a constructor of a datatype, a handler a function from the message and the
  state to the new state and a list of effects (messages sent, actors spawned or stopped,
  rows written, Fortran routines called).  An operation that may throw or leave the
  defined behaviour of C++ has the type \<open>'a res\<close>, with one error value for each way to fail.
  An \<^verbatim>\<open>int\<close> is an \<^typ>\<open>int\<close>; where the code computes with one without a bound (the assembly
  of batches, the check of the range of GRUs, the doubling of the BE steps) its overflow is the error
  \<open>Int_Overflow\<close>, or for the BE steps a wrapped value that a predicate marks.  Elsewhere overflow is
  left out unless a theorem names it.  A \<^verbatim>\<open>double\<close> is a \<^typ>\<open>real\<close>, an actor handle a number.  Clock readings,
  error codes of Fortran, answers of the file system and handles of spawned actors are
  arguments.  Console output is left out.

  \<^bold>\<open>What is shown\<close>

  \<^item> Batches: the batches partition the range, the assembly returns for a positive
    size and otherwise overflows, a free batch is found when there is one, the counter of remaining batches is
    exact.  The interface to the servers is the locale \<open>batch_pool\<close>.
  \<^item> Servers: the lead server refines the abstract dispatcher under connections, results and
    losses; it completes each batch once, though none is recorded since the file for it has an empty name, ends
    when all are solved, and fails exactly when an idle client is lost or a batch comes from an unknown client or
    with a foreign id.  A promoted backup starts over, and the
    registration message of a backup is dropped.  A client reports the batch it was assigned; it does not
    notice the loss of its server.  The registry of clients is the locale
    \<open>client_registry\<close>.
  \<^item> Jobs: counters of finished and failed GRUs are exact in every reachable state, the
    number of restarts is bounded by a measure on the attempts, a restart restarts exactly
    the failed GRUs, with the tightened tolerances, tolerances only shrink and stay above a tenth of their minimum.
  \<^item> A whole job: in every state it reaches, under any interleaving of the mailboxes and
    any errors Fortran returns to the GRUs in a timestep, no handler fails and somebody has a message
    until the job has ended; it ends after finitely many steps, with every GRU done or
    failed in its last attempt and one report to the parent.  Each GRU has a place (a
    constructor of \<open>place\<close>) that fixes its state, its mailbox and its share of the messages
    under way; the invariant follows from the places.
  \<^item> GRUs and files: a GRU computes every timestep once and in order and finishes, a
    partition is written exactly when all its GRUs are ready, each forcing file is read
    once, a restart file waits for the slowest GRU; the lookup of a partition agrees with
    a search over all of them.  The GRU actor makes the same calls and sends the same
    messages as the HRU actor it replaced; a HRU moved to another node keeps what the
    theorem names.
  \<^item> Data assimilation: no buffered output step is overwritten while it is being written;
    in the distributed mode, once the settings carry the number of nodes (the reader of the
    configuration never stores it), all nodes follow one schedule in lockstep under any order of
    deliveries and run every timestep; the exit of the server's own node ends the process of the server, and other
    nodes may lose the server before they are told to finish.  The contract of a node is the locale \<open>da_node\<close>, interpreted on
    the node actor with its local actors.
  \<^item> Data: settings and transferred variables come back as written, up to the cases the
    theorems name.

  \<^bold>\<open>Bounds and fuel\<close>

  The assembly of batches is a partial function whose value \<^const>\<open>None\<close> would be a loop that does
  not end; a theorem says that it always has a value, and when that is an overflow.  All other loops are total functions with a
  measure.  Runs of composed actors are inductive relations; where completion is claimed,
  a measure bounds the number of steps and every state that is not final has a step; what
  follows is shown once, in the locale \<open>ranked_runs\<close>, which the network of the data
  assimilation and a whole job instantiate.  The rank of a whole job is the lexicographic order of the restarts left (at most \<open>n * max 1 attempts\<close> of
  them) and of the weights of the places of its GRUs (\<open>Job_Moves\<close>).  The exchange of a
  node with its local actors takes at most two rounds for every command, and three are allowed (\<open>da_settle\<close>).

  \<^bold>\<open>Not modelled\<close>

  The actor framework under \<^verbatim>\<open>src/utils/dependencies\<close> and \<^verbatim>\<open>json.hpp\<close> are third-party code; the
  Fortran code is represented by its results, apart from the accessors in
  \<open>Data_Transfer\<close>.  The HRU actor is not part of the build and does not compile (a member
  declared twice, an undefined type, a missing semicolon); it is modelled as it is
  meant.  The composition of a job takes the framework's delivery as it is within one
  process: a message is put into the mailbox of its receiver when it is sent.  It leaves
  out errors of the files, on which the file access actor stops and the job too, unless the
  code is -1, and errors in the initialisation of a GRU and in setting its time zone, on
  which the GRU stops without a word and its job waits for ever.
  \<^verbatim>\<open>node_actor.hpp\<close> is a header nothing includes.  Rounding of floating-point arithmetic and
  the text the streams give to numbers are left out.
\<close>

end
